(* ===== verification/XyPrelude.thy ===== *)
theory XyPrelude
  imports Main "HOL-Library.Word"
begin

text \<open>
  Shared vocabulary of the XyOS development.

  The kernel is compiled with \<^verbatim>\<open>-m32\<close>, so \<open>int\<close>, \<open>unsigned\<close>, \<open>uintptr_t\<close> and every
  pointer are 32-bit words, and arithmetic on them wraps.  A C function becomes a HOL
  function from its arguments and the state to a result of type \<open>'a kres\<close>:
  \<^item> \<open>Ok x\<close>: the function returns \<open>x\<close> (usually a pair of a value and the new state);
  \<^item> \<open>Fault e\<close>: the function performs an operation that C leaves undefined (a NULL
    dereference, an index outside an array, a shift by the width of the type or more, a signed
    overflow, a missing or mistyped variadic argument), or accesses an address that the page
    tables of the kernel do not map;
  \<^item> \<open>None\<close>: the function does not return.

  The loops of the source are two combinators: \<open>kwhile\<close> for \<^verbatim>\<open>while\<close> and \<open>for_up\<close> for a
  \<^verbatim>\<open>for\<close> that counts upwards a number of times known at its start.  Each comes with a rule
  for total correctness, and \<open>kwhile\<close> with a rule that shows that a loop never ends.
\<close>

unbundle bit_operations_syntax

type_synonym u8 = "8 word"
type_synonym u16 = "16 word"
type_synonym u32 = "32 word"
type_synonym u64 = "64 word"

named_theorems kres_simps \<open>evaluation of the result monad\<close>
named_theorems heap_simps \<open>reading a heap field after an update\<close>

section \<open>Results of kernel functions\<close>

datatype kerror =
    NullDeref
  | OutOfBounds
  | ShiftTooLarge
  | IntOverflow
  | PageFault
  | Protection
  | BadArgument

type_synonym 'a kres = "(kerror + 'a) option"

abbreviation Ok :: "'a \<Rightarrow> 'a kres" where
  "Ok x \<equiv> Some (Inr x)"

abbreviation Fault :: "kerror \<Rightarrow> 'a kres" where
  "Fault e \<equiv> Some (Inl e)"

abbreviation (input) NULL :: u32 where
  "NULL \<equiv> 0"

definition kbind :: "'a kres \<Rightarrow> ('a \<Rightarrow> 'b kres) \<Rightarrow> 'b kres" where
  "kbind m f = Option.bind m (case_sum (\<lambda>e. Some (Inl e)) f)"

lemma kbind_Ok [simp, kres_simps]: "kbind (Ok x) f = f x"
  by (simp add: kbind_def)

lemma kbind_Fault [simp, kres_simps]: "kbind (Fault e) f = Fault e"
  by (simp add: kbind_def)

lemma kbind_None [simp, kres_simps]: "kbind None f = None"
  by (simp add: kbind_def)

lemma kbind_eq_Ok: "kbind m f = Ok y \<longleftrightarrow> (\<exists>x. m = Ok x \<and> f x = Ok y)"
  by (cases m) (auto simp: kbind_def split: sum.splits)

lemma kbind_assoc: "kbind (kbind m f) g = kbind m (\<lambda>x. kbind (f x) g)"
  by (auto simp: kbind_def split: sum.splits bind_splits)

lemma kbind_mono [partial_function_mono]:
  assumes "mono_option B" and "\<And>y. mono_option (\<lambda>f. C y f)"
  shows "mono_option (\<lambda>f. kbind (B f) (\<lambda>y. C y f))"
proof -
  have "mono_option (\<lambda>f. case_sum (\<lambda>e. Some (Inl e)) (\<lambda>y. C y f) r)" for r
    by (cases r) (auto simp: assms(2) intro: option.const_mono)
  then show ?thesis
    unfolding kbind_def by (intro bind_mono assms(1))
qed

section \<open>Loops\<close>

partial_function (option) kwhile ::
    "('s \<Rightarrow> bool kres) \<Rightarrow> ('s \<Rightarrow> 's kres) \<Rightarrow> 's \<Rightarrow> 's kres" where
  "kwhile b c s = kbind (b s) (\<lambda>t. if t then kbind (c s) (\<lambda>s'. kwhile b c s') else Ok s)"

declare kwhile.simps [code]

lemma kwhile_stop: "b s = Ok False \<Longrightarrow> kwhile b c s = Ok s"
  by (simp add: kwhile.simps)

lemma kwhile_step: "b s = Ok True \<Longrightarrow> c s = Ok s' \<Longrightarrow> kwhile b c s = kwhile b c s'"
  by (subst kwhile.simps) simp

lemma kwhile_fault: "b s = Fault e \<Longrightarrow> kwhile b c s = Fault e"
  by (simp add: kwhile.simps)

text \<open>Total correctness: an invariant and a measure.\<close>

lemma kwhile_rule:
  assumes "P s"
    and step: "\<And>s. P s \<Longrightarrow> b s = Ok True \<Longrightarrow> \<exists>s'. c s = Ok s' \<and> P s' \<and> m s' < (m s :: nat)"
    and cond: "\<And>s. P s \<Longrightarrow> \<exists>t. b s = Ok t"
  shows "\<exists>s'. kwhile b c s = Ok s' \<and> P s' \<and> b s' = Ok False"
  using assms(1)
proof (induction "m s" arbitrary: s rule: less_induct)
  case less
  obtain t where t: "b s = Ok t"
    using cond [OF less.prems] by blast
  show ?case
  proof (cases t)
    case True
    with t obtain s' where s': "c s = Ok s'" "P s'" "m s' < m s"
      using step [OF less.prems] by auto
    then have "kwhile b c s = kwhile b c s'"
      using t True by (simp add: kwhile_step)
    then show ?thesis
      using less.hyps [OF s'(3,2)] by simp
  next
    case False
    with t less.prems show ?thesis
      by (auto simp: kwhile_stop)
  qed
qed

text \<open>Divergence: an invariant under which the loop always takes another turn.\<close>

lemma kwhile_diverges:
  assumes "P s"
    and "\<And>s. P s \<Longrightarrow> b s = Ok True \<and> (\<exists>s'. c s = Ok s' \<and> P s')"
  shows "kwhile b c s = None"
proof (rule ccontr)
  assume "kwhile b c s \<noteq> None"
  then obtain r where ret: "kwhile b c s = Some r"
    by blast
  have "\<not> P s"
  proof (rule kwhile.raw_induct
      [where P = "\<lambda>b' c' s r. b' = b \<longrightarrow> c' = c \<longrightarrow> \<not> P s",
       OF _ ret, rule_format, OF _ refl refl])
    fix kw :: "('a \<Rightarrow> bool kres) \<Rightarrow> ('a \<Rightarrow> 'a kres) \<Rightarrow> 'a \<Rightarrow> 'a kres" and b' c' s r
    assume IH: "\<And>b' c' s r. kw b' c' s = Some r \<Longrightarrow> b' = b \<Longrightarrow> c' = c \<Longrightarrow> \<not> P s"
      and eq: "kbind (b' s) (\<lambda>t. if t then kbind (c' s) (kw b' c') else Ok s) = Some r"
      and "b' = b" "c' = c"
    show "\<not> P s"
    proof
      assume "P s"
      with \<open>b' = b\<close> \<open>c' = c\<close> assms(2) obtain s' where "b' s = Ok True" "c' s = Ok s'" "P s'"
        by blast
      with eq IH [of b' c' s' r] \<open>b' = b\<close> \<open>c' = c\<close> show False
        by simp
    qed
  qed
  with assms(1) show False
    by blast
qed

text \<open>Partial correctness: what every turn keeps holds of every result.\<close>

lemma kwhile_keeps:
  assumes ret: "kwhile b c s = Ok s'" and "P s"
    and step: "\<And>s s'. P s \<Longrightarrow> c s = Ok s' \<Longrightarrow> P s'"
  shows "P s'"
proof -
  have "P x" if "kwhile b c s = Some r" "r = Inr x" "P s" for r x
  proof (rule kwhile.raw_induct [where P = "\<lambda>b' c' s r. b' = b \<longrightarrow> c' = c \<longrightarrow> (\<forall>x. r = Inr x \<longrightarrow> P s \<longrightarrow> P x)",
       OF _ that(1), rule_format, OF _ refl refl that(2,3)])
    fix kw :: "('a \<Rightarrow> bool kres) \<Rightarrow> ('a \<Rightarrow> 'a kres) \<Rightarrow> 'a \<Rightarrow> 'a kres" and b' c' s r x
    assume IH: "\<And>b' c' s r x. kw b' c' s = Some r \<Longrightarrow> b' = b \<Longrightarrow> c' = c \<Longrightarrow> r = Inr x \<Longrightarrow> P s \<Longrightarrow> P x"
      and eq: "kbind (b' s) (\<lambda>t. if t then kbind (c' s) (kw b' c') else Ok s) = Some r"
      and *: "b' = b" "c' = c" "r = Inr x" "P s"
    from eq *(3) obtain t where t: "b' s = Ok t" "(if t then kbind (c' s) (kw b' c') else Ok s) = Ok x"
      by (auto simp: kbind_eq_Ok)
    show "P x"
    proof (cases t)
      case True
      then obtain s1 where "c' s = Ok s1" "kw b' c' s1 = Ok x" using t(2) by (auto simp: kbind_eq_Ok)
      then show ?thesis using IH [of b' c' s1 "Inr x" x] step [of s s1] * by auto
    next
      case False
      then show ?thesis using t(2) *(4) by simp
    qed
  qed
  then show ?thesis using ret assms(2) by simp
qed

lemma kwhile_view:
  assumes "kwhile b c s = Ok s'" "\<And>s s'. c s = Ok s' \<Longrightarrow> g s' = g s"
  shows "g s' = g s"
  using assms(1) by (rule kwhile_keeps [where P = "\<lambda>x. g x = g s"]) (auto dest: assms(2))

text \<open>\<open>for_up n i f s\<close> runs \<open>f i\<close>, \<open>f (i + 1)\<close>, \dots, \<open>n\<close> bodies in all.\<close>

primrec for_up :: "nat \<Rightarrow> nat \<Rightarrow> (nat \<Rightarrow> 's \<Rightarrow> 's kres) \<Rightarrow> 's \<Rightarrow> 's kres" where
  "for_up 0 i f s = Ok s"
| "for_up (Suc n) i f s = kbind (f i s) (for_up n (Suc i) f)"

lemma for_up_keeps:
  "for_up n i f s = Ok s' \<Longrightarrow> (\<And>j s s'. f j s = Ok s' \<Longrightarrow> g s' = g s) \<Longrightarrow> g s' = g s"
  by (induction n arbitrary: i s) (auto simp: kbind_eq_Ok)

lemma for_up_keeps_pred:
  "for_up n i f s = Ok s' \<Longrightarrow> P s \<Longrightarrow> (\<And>j s s'. f j s = Ok s' \<Longrightarrow> P s \<Longrightarrow> P s') \<Longrightarrow> P s'"
  by (induction n arbitrary: i s) (auto simp: kbind_eq_Ok)

lemma for_up_rule:
  assumes "P i s"
    and "\<And>j s. i \<le> j \<Longrightarrow> j < i + n \<Longrightarrow> P j s \<Longrightarrow> \<exists>s'. f j s = Ok s' \<and> P (Suc j) s'"
  shows "\<exists>s'. for_up n i f s = Ok s' \<and> P (i + n) s'"
  using assms
proof (induction n arbitrary: i s)
  case 0
  then show ?case by simp
next
  case (Suc n)
  obtain s' where s': "f i s = Ok s'" "P (Suc i) s'"
    using Suc.prems(2) [of i s] Suc.prems(1) by auto
  have "\<exists>s''. for_up n (Suc i) f s' = Ok s'' \<and> P (Suc i + n) s''"
    by (rule Suc.IH [OF s'(2)]) (auto intro!: Suc.prems(2))
  with s' show ?case by simp
qed

lemma for_up_append: "for_up (m + n) i f s = kbind (for_up m i f s) (for_up n (i + m) f)"
proof (induction m arbitrary: i s)
  case (Suc m)
  then have "for_up (m + n) (Suc i) f = (\<lambda>x. kbind (for_up m (Suc i) f x) (for_up n (Suc (i + m)) f))"
    by (simp add: fun_eq_iff)
  then show ?case by (simp add: kbind_assoc)
qed simp

section \<open>Fields of structures in memory\<close>

text \<open>
  A structure that the kernel reaches through pointers is one heap function per field, from
  the structure's address to the field's value.  \<open>rd\<close> reads a field and \<open>wr\<close> writes one (given
  the selector and the update function of the record field that holds the heap function); both
  fault at NULL.
\<close>

definition rd :: "('s \<Rightarrow> u32 \<Rightarrow> 'v) \<Rightarrow> u32 \<Rightarrow> 's \<Rightarrow> 'v kres" where
  "rd f p s = (if p = NULL then Fault NullDeref else Ok (f s p))"

definition wr ::
    "('s \<Rightarrow> u32 \<Rightarrow> 'v) \<Rightarrow> (((u32 \<Rightarrow> 'v) \<Rightarrow> u32 \<Rightarrow> 'v) \<Rightarrow> 's \<Rightarrow> 's) \<Rightarrow> u32 \<Rightarrow> 'v \<Rightarrow> 's \<Rightarrow> 's kres" where
  "wr f upd p v s = (if p = NULL then Fault NullDeref else Ok (upd (\<lambda>_. (f s)(p := v)) s))"

lemma rd_Ok [simp, heap_simps]: "p \<noteq> 0 \<Longrightarrow> rd f p s = Ok (f s p)"
  by (simp add: rd_def)

lemma wr_Ok [simp, heap_simps]: "p \<noteq> 0 \<Longrightarrow> wr f upd p v s = Ok (upd (\<lambda>_. (f s)(p := v)) s)"
  by (simp add: wr_def)

lemma rd_NULL [simp, heap_simps]: "rd f 0 s = Fault NullDeref"
  by (simp add: rd_def)

lemma wr_NULL [simp, heap_simps]: "wr f upd 0 v s = Fault NullDeref"
  by (simp add: wr_def)

section \<open>Machine words\<close>

lemma unat_u32_bound: "unat (x :: u32) < 4294967296"
  using unsigned_less [of x] by simp

lemma unat_add_u32: "unat (x + y :: u32) = (unat x + unat y) mod 4294967296"
  by (simp add: unat_word_ariths)

lemma unat_add_u32_small:
  "unat (x :: u32) + unat y < 4294967296 \<Longrightarrow> unat (x + y) = unat x + unat y"
  by (simp add: unat_add_u32)

lemma unat_sub_u32: "(y :: u32) \<le> x \<Longrightarrow> unat (x - y) = unat x - unat y"
  by (simp add: unat_sub)

lemma unat_of_nat_u32: "n < 4294967296 \<Longrightarrow> unat (of_nat n :: u32) = n"
  by (simp add: unat_of_nat)

lemma unat_pow2_u32 [simp]: "t < 32 \<Longrightarrow> unat (2 ^ t :: u32) = 2 ^ t"
proof -
  assume "t < 32"
  then have "(2 :: nat) ^ t < 2 ^ 32"
    by (intro power_strict_increasing) auto
  then show ?thesis
    using unat_of_nat_u32 [of "2 ^ t"] by simp
qed

lemma u32_eq_iff_unat: "(x :: u32) = y \<longleftrightarrow> unat x = unat y"
  by (rule word_unat_eq_iff)

lemma u32_less_iff_unat: "(x :: u32) < y \<longleftrightarrow> unat x < unat y"
  by (simp add: word_less_nat_alt)

lemma u32_le_iff_unat: "(x :: u32) \<le> y \<longleftrightarrow> unat x \<le> unat y"
  by (simp add: word_le_nat_alt)

end
