(* ===== verification/LinkedList.thy ===== *)
theory LinkedList
  imports XyPrelude
begin

text \<open>
  The circular singly linked lists of \<^verbatim>\<open>kernel/lib/list.h\<close>.

  A \<^verbatim>\<open>ListNode\<close> is embedded in the structure it links, so a node is an address and its only
  field, \<^verbatim>\<open>next\<close>, is one heap function \<open>nxt\<close> from addresses to addresses.  A list is
  represented by a head node that carries no element.  \<open>clist h head xs\<close> says that, in the
  heap \<open>h\<close>, following \<^verbatim>\<open>next\<close> from \<open>head\<close> visits exactly the distinct non-NULL nodes \<open>xs\<close> and
  comes back to \<open>head\<close>.  Kernel components keep several such lists at once; \<open>lists_ok\<close> says
  that a family of lists is well formed and that no two of them share a node, and the lemmas
  on \<open>ListAdd\<close> and \<open>ListRemove\<close> say what each does to the whole family.

  The creation of a list, \<^verbatim>\<open>List()\<close>, calls the allocator, which itself uses the routines
  here; it is modelled in the theory \<open>Queues\<close>, above the allocator.
\<close>

record lheap =
  nxt :: "u32 \<Rightarrow> u32"

section \<open>Operations\<close>

definition get_next :: "u32 \<Rightarrow> 'a lheap_scheme \<Rightarrow> u32 kres" where
  "get_next p s = (if p = NULL then Fault NullDeref else Ok (nxt s p))"

definition set_next :: "u32 \<Rightarrow> u32 \<Rightarrow> 'a lheap_scheme \<Rightarrow> 'a lheap_scheme kres" where
  "set_next p v s = (if p = NULL then Fault NullDeref else Ok (s\<lparr>nxt := (nxt s)(p := v)\<rparr>))"

definition ListAdd :: "u32 \<Rightarrow> u32 \<Rightarrow> 'a lheap_scheme \<Rightarrow> 'a lheap_scheme kres" where
  "ListAdd prev new_node s =
     kbind (get_next prev s) (\<lambda>next.
     kbind (set_next prev new_node s) (\<lambda>s.
     set_next new_node next s))"

definition ListRemove :: "u32 \<Rightarrow> 'a lheap_scheme \<Rightarrow> (u32 \<times> 'a lheap_scheme) kres" where
  "ListRemove prev s =
     kbind (get_next prev s) (\<lambda>del.
     kbind (get_next del s) (\<lambda>next.
     kbind (set_next prev next s) (\<lambda>s.
     kbind (set_next del NULL s) (\<lambda>s.
     Ok (del, s)))))"

definition IsListEmpty :: "u32 \<Rightarrow> 'a lheap_scheme \<Rightarrow> bool kres" where
  "IsListEmpty head s = kbind (get_next head s) (\<lambda>next. Ok (next = head))"

text \<open>
  The loop that looks for a place in a list, as the allocator and the scheduler write it:
  \<^verbatim>\<open>while (tmp->next != head && cond(tmp->next)) tmp = tmp->next;\<close>
\<close>

definition walk :: "u32 \<Rightarrow> (u32 \<Rightarrow> bool kres) \<Rightarrow> 'a lheap_scheme \<Rightarrow> u32 \<Rightarrow> u32 kres" where
  "walk head cond s tmp =
     kwhile (\<lambda>tmp. kbind (get_next tmp s) (\<lambda>next. if next = head then Ok False else cond next))
            (\<lambda>tmp. get_next tmp s) tmp"

lemma get_next_Ok [simp]: "p \<noteq> 0 \<Longrightarrow> get_next p s = Ok (nxt s p)"
  by (simp add: get_next_def)

lemma set_next_Ok [simp]: "p \<noteq> 0 \<Longrightarrow> set_next p v s = Ok (s\<lparr>nxt := (nxt s)(p := v)\<rparr>)"
  by (simp add: set_next_def)

lemma ListAdd_Ok:
  "prev \<noteq> 0 \<Longrightarrow> new \<noteq> 0 \<Longrightarrow>
   ListAdd prev new s = Ok (s\<lparr>nxt := (nxt s)(prev := new, new := nxt s prev)\<rparr>)"
  by (simp add: ListAdd_def)

lemma ListRemove_Ok:
  "prev \<noteq> 0 \<Longrightarrow> nxt s prev \<noteq> 0 \<Longrightarrow>
   ListRemove prev s = Ok (nxt s prev, s\<lparr>nxt := (nxt s)(prev := nxt s (nxt s prev), nxt s prev := 0)\<rparr>)"
  by (simp add: ListRemove_def)

lemma IsListEmpty_Ok: "head \<noteq> 0 \<Longrightarrow> IsListEmpty head s = Ok (nxt s head = head)"
  by (simp add: IsListEmpty_def)

section \<open>Well-formed circular lists\<close>

primrec path :: "(u32 \<Rightarrow> u32) \<Rightarrow> u32 \<Rightarrow> u32 list \<Rightarrow> u32 \<Rightarrow> bool" where
  "path h p [] q \<longleftrightarrow> h p = q"
| "path h p (x # xs) q \<longleftrightarrow> h p = x \<and> path h x xs q"

lemma path_append [simp]: "path h p (xs @ y # ys) q \<longleftrightarrow> path h p xs y \<and> path h y ys q"
  by (induction xs arbitrary: p) auto

lemma path_upd [simp]: "u \<noteq> p \<Longrightarrow> u \<notin> set xs \<Longrightarrow> path (h(u := v)) p xs q = path h p xs q"
  by (induction xs arbitrary: p) auto

lemma path_cong: "(\<And>x. x = p \<or> x \<in> set xs \<Longrightarrow> h x = h' x) \<Longrightarrow> path h p xs q = path h' p xs q"
  by (induction xs arbitrary: p) auto

lemma path_last: "path h p xs q \<Longrightarrow> h (last (p # xs)) = q"
  by (induction xs arbitrary: p) auto

lemma last_Cons_neq: "p \<notin> set (x # xs) \<Longrightarrow> last (x # xs) \<noteq> p"
  using last_in_set [of "x # xs"] by auto

lemma path_retarget:
  "distinct (p # xs) \<Longrightarrow> path h p xs q \<Longrightarrow> path (h(last (p # xs) := r)) p xs r"
proof (induction xs arbitrary: p)
  case (Cons x xs)
  then have "last (x # xs) \<noteq> p" by (intro last_Cons_neq) simp
  with Cons show ?case by auto
qed simp

lemma path_unique: "path h p xs q \<Longrightarrow> path h p ys q \<Longrightarrow> q \<notin> set xs \<Longrightarrow> q \<notin> set ys \<Longrightarrow> xs = ys"
proof (induction xs arbitrary: p ys)
  case Nil
  then show ?case by (cases ys) auto
next
  case (Cons x xs)
  then show ?case by (cases ys) auto
qed

definition clist :: "(u32 \<Rightarrow> u32) \<Rightarrow> u32 \<Rightarrow> u32 list \<Rightarrow> bool" where
  "clist h head xs \<longleftrightarrow> path h head xs head \<and> distinct (head # xs) \<and> 0 \<notin> set (head # xs)"

lemma clist_Nil: "clist h head [] \<longleftrightarrow> h head = head \<and> head \<noteq> 0"
  by (auto simp: clist_def)

lemma clist_empty_iff: "clist h head xs \<Longrightarrow> h head = head \<longleftrightarrow> xs = []"
  by (cases xs) (auto simp: clist_def)

lemma clist_first: "clist h head (x # xs) \<Longrightarrow> h head = x"
  by (simp add: clist_def)

lemma clist_unique: "clist h head xs \<Longrightarrow> clist h head ys \<Longrightarrow> xs = ys"
  by (auto simp: clist_def intro: path_unique)

lemma clist_upd: "u \<noteq> head \<Longrightarrow> u \<notin> set xs \<Longrightarrow> clist (h(u := v)) head xs = clist h head xs"
  by (simp add: clist_def)

lemma clist_last_nonzero: "clist h head (xs @ ys) \<Longrightarrow> last (head # xs) \<noteq> 0"
  unfolding clist_def using last_in_set [of "head # xs"] by fastforce

lemma clist_split:
  "clist h head (xs @ ys) \<Longrightarrow> h (last (head # xs)) = (case ys of [] \<Rightarrow> head | y # _ \<Rightarrow> y)"
  by (cases ys) (auto simp: clist_def dest: path_last)

lemma path_insert:
  assumes "path h p (xs @ ys) q" "distinct (p # xs @ ys)" "new \<notin> set (p # xs @ ys)"
  shows "path (h(last (p # xs) := new, new := h (last (p # xs)))) p (xs @ new # ys) q"
  using assms
proof (induction xs arbitrary: p)
  case Nil
  then show ?case
    by (cases ys) (auto elim!: path_cong [THEN iffD1, rotated])
next
  case (Cons x xs)
  then have "last (x # xs) \<noteq> p" by (intro last_Cons_neq) simp
  with Cons show ?case by auto
qed

lemma path_delete:
  assumes "path h p (xs @ y # ys) q" "distinct (p # xs @ y # ys)"
  shows "path (h(last (p # xs) := h y, y := r)) p (xs @ ys) q"
  using assms
proof (induction xs arbitrary: p)
  case Nil
  then show ?case
    by (cases ys) (auto elim!: path_cong [THEN iffD1, rotated])
next
  case (Cons x xs)
  then have "last (x # xs) \<noteq> p" by (intro last_Cons_neq) simp
  with Cons show ?case by auto
qed

lemma clist_insert:
  assumes "clist h head (xs @ ys)" "new \<noteq> 0" "new \<notin> set (head # xs @ ys)"
  shows "clist (h(last (head # xs) := new, new := h (last (head # xs)))) head (xs @ new # ys)"
  using assms path_insert [of h head xs ys head new] by (auto simp: clist_def)

lemma clist_delete:
  assumes "clist h head (xs @ y # ys)"
  shows "clist (h(last (head # xs) := h y, y := r)) head (xs @ ys)"
  using assms path_delete [of h head xs y ys head r] by (auto simp: clist_def)

text \<open>What \<open>walk\<close> finds: the last node before the first element that fails the condition.\<close>

lemma walk_clist_aux:
  assumes "clist (nxt s) head (ys @ xs)" "\<And>x. x \<in> set xs \<Longrightarrow> cond x = Ok (P x)"
  shows "walk head cond s (last (head # ys)) = Ok (last (head # ys @ takeWhile P xs))"
  using assms
proof (induction xs arbitrary: ys)
  case Nil
  then show ?case
    using clist_split [of "nxt s" head ys "[]"] clist_last_nonzero [of "nxt s" head ys "[]"]
    by (simp add: walk_def kwhile_stop)
next
  case (Cons x xs)
  have n: "nxt s (last (head # ys)) = x" and nz: "last (head # ys) \<noteq> 0" and "x \<noteq> head"
    using clist_split [OF Cons.prems(1)] clist_last_nonzero [OF Cons.prems(1)] Cons.prems(1)
    by (auto simp: clist_def)
  show ?case
  proof (cases "P x")
    case True
    have "walk head cond s (last (head # ys)) = walk head cond s x"
      unfolding walk_def using n nz \<open>x \<noteq> head\<close> Cons.prems(2) [of x] True
      by (intro kwhile_step) auto
    also have "\<dots> = Ok (last (head # ys @ takeWhile P (x # xs)))"
      using Cons.IH [of "ys @ [x]"] Cons.prems True by simp
    finally show ?thesis .
  next
    case False
    with n nz \<open>x \<noteq> head\<close> Cons.prems(2) [of x] show ?thesis
      by (simp add: walk_def kwhile_stop)
  qed
qed

lemma walk_clist:
  assumes "clist (nxt s) head xs" "\<And>x. x \<in> set xs \<Longrightarrow> cond x = Ok (P x)"
  shows "walk head cond s head = Ok (last (head # takeWhile P xs))"
  using walk_clist_aux [of s head "[]" xs cond P] assms by simp

section \<open>Families of disjoint lists\<close>

definition nodes :: "('k \<Rightarrow> u32) \<Rightarrow> ('k \<Rightarrow> u32 list) \<Rightarrow> 'k \<Rightarrow> u32 set" where
  "nodes H L k = insert (H k) (set (L k))"

definition lists_ok :: "(u32 \<Rightarrow> u32) \<Rightarrow> 'k set \<Rightarrow> ('k \<Rightarrow> u32) \<Rightarrow> ('k \<Rightarrow> u32 list) \<Rightarrow> bool" where
  "lists_ok h K H L \<longleftrightarrow>
     (\<forall>k\<in>K. clist h (H k) (L k)) \<and>
     (\<forall>k\<in>K. \<forall>k'\<in>K. k \<noteq> k' \<longrightarrow> nodes H L k \<inter> nodes H L k' = {})"

lemma lists_okD: "lists_ok h K H L \<Longrightarrow> k \<in> K \<Longrightarrow> clist h (H k) (L k)"
  by (simp add: lists_ok_def)

lemma lists_ok_disjoint:
  "lists_ok h K H L \<Longrightarrow> k \<in> K \<Longrightarrow> k' \<in> K \<Longrightarrow> k \<noteq> k' \<Longrightarrow> nodes H L k \<inter> nodes H L k' = {}"
  by (simp add: lists_ok_def)

lemma lists_ok_head_nonzero: "lists_ok h K H L \<Longrightarrow> k \<in> K \<Longrightarrow> H k \<noteq> 0"
  by (auto simp: lists_ok_def clist_def)

lemma lists_ok_upd_outside:
  "lists_ok h K H L \<Longrightarrow> (\<And>k. k \<in> K \<Longrightarrow> u \<notin> nodes H L k) \<Longrightarrow> lists_ok (h(u := v)) K H L"
  by (auto simp: lists_ok_def nodes_def clist_upd)

lemma lists_ok_insert:
  assumes ok: "lists_ok h K H L" and k: "k \<in> K" and L: "L k = xs @ ys"
    and new: "new \<noteq> 0" "\<And>k. k \<in> K \<Longrightarrow> new \<notin> nodes H L k"
  shows "lists_ok (h(last (H k # xs) := new, new := h (last (H k # xs)))) K H
           (L(k := xs @ new # ys))"
proof -
  let ?p = "last (H k # xs)"
  let ?h = "h(?p := new, new := h ?p)" and ?L = "L(k := xs @ new # ys)"
  have p: "?p \<in> nodes H L k"
    using last_in_set [of "H k # xs"] L by (auto simp: nodes_def)
  have "clist ?h (H k') (?L k')" if k': "k' \<in> K" for k'
  proof (cases "k' = k")
    case True
    have "clist h (H k) (xs @ ys)" "new \<notin> set (H k # xs @ ys)"
      using lists_okD [OF ok k] new(2) [OF k] L by (auto simp: nodes_def)
    with True new(1) show ?thesis
      by (simp only: fun_upd_same) (rule clist_insert)
  next
    case False
    then have "?p \<notin> nodes H L k'"
      using p lists_ok_disjoint [OF ok k k'] by auto
    with False new(2) [OF k'] lists_okD [OF ok k'] show ?thesis
      by (simp add: nodes_def clist_upd)
  qed
  moreover have "nodes H ?L k1 \<inter> nodes H ?L k2 = {}" if "k1 \<in> K" "k2 \<in> K" "k1 \<noteq> k2" for k1 k2
    using lists_ok_disjoint [OF ok that] new(2) [OF that(1)] new(2) [OF that(2)] that(3) L
    by (auto simp: nodes_def)
  ultimately show ?thesis
    unfolding lists_ok_def by blast
qed

lemma lists_ok_delete:
  assumes ok: "lists_ok h K H L" and k: "k \<in> K" and L: "L k = xs @ y # ys"
  shows "lists_ok (h(last (H k # xs) := h y, y := r)) K H (L(k := xs @ ys))"
proof -
  let ?p = "last (H k # xs)"
  let ?h = "h(?p := h y, y := r)" and ?L = "L(k := xs @ ys)"
  have p: "?p \<in> nodes H L k" "y \<in> nodes H L k"
    using last_in_set [of "H k # xs"] L by (auto simp: nodes_def)
  have "clist ?h (H k') (?L k')" if k': "k' \<in> K" for k'
  proof (cases "k' = k")
    case True
    have "clist h (H k) (xs @ y # ys)"
      using lists_okD [OF ok k] L by simp
    with True show ?thesis
      by (simp only: fun_upd_same) (rule clist_delete)
  next
    case False
    then have "?p \<notin> nodes H L k'" "y \<notin> nodes H L k'"
      using p lists_ok_disjoint [OF ok k k'] by auto
    with False lists_okD [OF ok k'] show ?thesis
      by (simp add: nodes_def clist_upd)
  qed
  moreover have "nodes H ?L k1 \<inter> nodes H ?L k2 = {}" if "k1 \<in> K" "k2 \<in> K" "k1 \<noteq> k2" for k1 k2
    using lists_ok_disjoint [OF ok that] that(3) L by (auto simp: nodes_def)
  ultimately show ?thesis
    unfolding lists_ok_def by blast
qed

text \<open>A node removed from its list is in no list any more.\<close>

lemma lists_ok_delete_fresh:
  assumes ok: "lists_ok h K H L" and k: "k \<in> K" and L: "L k = xs @ y # ys" and k': "k' \<in> K"
  shows "y \<notin> nodes H (L(k := xs @ ys)) k'"
proof (cases "k' = k")
  case True
  then show ?thesis
    using lists_okD [OF ok k] L by (auto simp: nodes_def clist_def)
next
  case False
  then show ?thesis
    using lists_ok_disjoint [OF ok k k'] L by (auto simp: nodes_def)
qed

lemma lists_ok_cong:
  "(\<And>k. k \<in> K \<Longrightarrow> H k = H' k \<and> L k = L' k) \<Longrightarrow> lists_ok h K H L = lists_ok h K H' L'"
  unfolding lists_ok_def nodes_def by (intro conj_cong ball_cong) auto

text \<open>A fresh node that points to itself is a new empty list.\<close>

lemma lists_ok_new:
  assumes ok: "lists_ok h K H L" and x: "x \<noteq> 0" "h x = x" "\<And>k. k \<in> K \<Longrightarrow> x \<notin> nodes H L k"
    and H': "\<And>k. k \<in> K \<Longrightarrow> H' k = H k" "H' k = x" and k: "k \<notin> K"
  shows "lists_ok h (insert k K) H' (L(k := []))"
proof -
  have "lists_ok h K H' (L(k := []))"
    using ok H'(1) k by (subst lists_ok_cong [where H' = H and L' = L]) auto
  moreover have "nodes H' (L(k := [])) k' = nodes H L k'" if "k' \<in> K" for k'
    using that H'(1) k by (auto simp: nodes_def)
  moreover have "nodes H' (L(k := [])) k = {x}"
    using H'(2) by (simp add: nodes_def)
  ultimately show ?thesis
    using x H'(2) unfolding lists_ok_def by (auto simp: clist_Nil)
qed

end
