(* ===== verification/Bits.thy ===== *)
theory Bits
  imports XyPrelude
begin

text \<open>
  \<^verbatim>\<open>kernel/lib/bit.h\<close> and \<^verbatim>\<open>kernel/lib/bitmap.h\<close>.

  \<open>IsBitSet\<close>, \<open>SetBit\<close> and \<open>ClearBit\<close> address one bit of a 32-bit word; the shift
  \<^verbatim>\<open>1u << i\<close> is undefined for \<open>i \<ge> 32\<close>.  The three bitmap routines address bit \<open>i\<close> of an
  array of words.  They pick the word \<open>i div 32\<close>, but the bit \<open>i mod 4\<close>: the reduction is by
  \<^verbatim>\<open>sizeof(unsigned int)\<close>, the size in bytes.  Two indices therefore share a bit when they
  agree on both (\<open>bm_slot\<close>).

  The locale \<open>bit_table\<close> states what the users of a bitmap (the interrupt registry and the
  page allocator) rely on, for an arbitrary assignment of indices to slots, and the locale
  lemmas are what those users need of it.  It is interpreted on the routines of
  \<^verbatim>\<open>bitmap.h\<close>.
\<close>

section \<open>bit.h\<close>

definition shl1 :: "nat \<Rightarrow> u32 kres" where
  "shl1 i = (if i < 32 then Ok (push_bit i 1) else Fault ShiftTooLarge)"

definition IsBitSet :: "u32 \<Rightarrow> u32 \<Rightarrow> bool kres" where
  "IsBitSet data i = kbind (shl1 (unat i)) (\<lambda>b. Ok (data AND b \<noteq> 0))"

definition SetBit :: "u32 \<Rightarrow> u32 \<Rightarrow> u32 kres" where
  "SetBit data i = kbind (shl1 (unat i)) (\<lambda>b. Ok (data OR b))"

definition ClearBit :: "u32 \<Rightarrow> u32 \<Rightarrow> u32 kres" where
  "ClearBit data i = kbind (shl1 (unat i)) (\<lambda>b. Ok (data AND NOT b))"

lemma shl1_Ok [simp]: "i < 32 \<Longrightarrow> shl1 i = Ok (2 ^ i)"
  by (simp add: shl1_def)

lemma and_exp_eq_0: "(w :: 'a::len word) AND 2 ^ n = 0 \<longleftrightarrow> \<not> bit w n"
proof
  assume "w AND 2 ^ n = 0"
  then have "\<not> bit (w AND 2 ^ n) n" by simp
  then show "\<not> bit w n"
    by (auto simp: bit_simps dest: bit_imp_le_length)
next
  assume "\<not> bit w n"
  then show "w AND 2 ^ n = 0"
    by (auto intro!: bit_word_eqI simp: bit_simps)
qed

lemma bit_or_exp:
  "n < LENGTH('a) \<Longrightarrow> bit ((w :: 'a::len word) OR 2 ^ n) m \<longleftrightarrow> bit w m \<or> m = n"
  by (auto simp: bit_simps)

lemma bit_and_not_exp:
  "bit ((w :: 'a::len word) AND NOT (2 ^ n)) m \<longleftrightarrow> bit w m \<and> m \<noteq> n"
  by (auto simp: bit_simps dest: bit_imp_le_length)

lemma IsBitSet_bit: "unat i < 32 \<Longrightarrow> IsBitSet data i = Ok (bit data (unat i))"
  by (simp add: IsBitSet_def and_exp_eq_0)

text \<open>The bitmap routines compute in 64 bits (\<^verbatim>\<open>1llu << i\<close>) and store 32.\<close>

lemma ucast_or_exp: "n < 32 \<Longrightarrow> (ucast (ucast (w :: u32) OR 2 ^ n :: u64) :: u32) = w OR 2 ^ n"
  by (rule bit_word_eqI) (auto simp: bit_simps)

lemma ucast_and_not_exp:
  "(ucast (ucast (w :: u32) AND NOT (2 ^ n) :: u64) :: u32) = w AND NOT (2 ^ n)"
  by (rule bit_word_eqI) (auto simp: bit_simps)

section \<open>bitmap.h\<close>

definition bm_word :: "u32 \<Rightarrow> nat" where
  "bm_word i = unat (i div (4 * 8))"

definition bm_bit :: "u32 \<Rightarrow> nat" where
  "bm_bit i = unat (i mod 4)"

definition Bitmap :: "u32 list \<Rightarrow> nat \<Rightarrow> u8 \<Rightarrow> u32 list kres" where
  "Bitmap bitmap arr_size state =
     for_up arr_size 0
       (\<lambda>i bm. if i < length bm
          then let bm1 = bm[i := 0] in
               if state = 1 then Ok (bm1[i := NOT (bm1 ! i)]) else Ok bm1
          else Fault OutOfBounds)
       bitmap"

definition SetBitmap :: "u32 list \<Rightarrow> u32 \<Rightarrow> u32 list kres" where
  "SetBitmap bitmap i =
     (let arr_i = bm_word i in
      if arr_i < length bitmap
      then Ok (bitmap[arr_i := ucast (ucast (bitmap ! arr_i) OR push_bit (bm_bit i) (1 :: u64))])
      else Fault OutOfBounds)"

definition ClearBitmap :: "u32 list \<Rightarrow> u32 \<Rightarrow> u32 list kres" where
  "ClearBitmap bitmap i =
     (let arr_i = bm_word i in
      if arr_i < length bitmap
      then Ok (bitmap[arr_i := ucast (ucast (bitmap ! arr_i) AND NOT (push_bit (bm_bit i) (1 :: u64)))])
      else Fault OutOfBounds)"

definition IsBitmapSet :: "u32 list \<Rightarrow> u32 \<Rightarrow> bool kres" where
  "IsBitmapSet bitmap i =
     (let arr_i = bm_word i in
      if arr_i < length bitmap
      then Ok (ucast (bitmap ! arr_i) AND push_bit (bm_bit i) (1 :: u64) \<noteq> 0)
      else Fault OutOfBounds)"

text \<open>The word and the bit that an index reaches.\<close>

definition bm_slot :: "u32 \<Rightarrow> nat \<times> nat" where
  "bm_slot i = (unat i div 32, unat i mod 4)"

definition bm_valid :: "u32 list \<Rightarrow> u32 \<Rightarrow> bool" where
  "bm_valid bm i \<longleftrightarrow> unat i div 32 < length bm"

definition bm_get :: "u32 list \<Rightarrow> u32 \<Rightarrow> bool" where
  "bm_get bm i \<longleftrightarrow> bit (bm ! (unat i div 32)) (unat i mod 4)"

lemma bm_word_eq [simp]: "bm_word i = unat i div 32"
  by (simp add: bm_word_def unat_div)

lemma bm_bit_eq [simp]: "bm_bit i = unat i mod 4"
  by (simp add: bm_bit_def unat_mod)

lemma mod_4_less [simp]: "n mod 4 < (32 :: nat)" "n mod 4 < (64 :: nat)"
  using mod_less_divisor [of 4 n] by linarith+

lemma IsBitmapSet_eq: "bm_valid bm i \<Longrightarrow> IsBitmapSet bm i = Ok (bm_get bm i)"
  by (simp add: IsBitmapSet_def bm_valid_def bm_get_def and_exp_eq_0 bit_simps)

lemma SetBitmap_eq:
  "bm_valid bm i \<Longrightarrow>
   SetBitmap bm i = Ok (bm[unat i div 32 := (bm ! (unat i div 32)) OR 2 ^ (unat i mod 4)])"
  by (simp add: SetBitmap_def bm_valid_def ucast_or_exp Let_def)

lemma ClearBitmap_eq:
  "bm_valid bm i \<Longrightarrow>
   ClearBitmap bm i = Ok (bm[unat i div 32 := (bm ! (unat i div 32)) AND NOT (2 ^ (unat i mod 4))])"
  by (simp add: ClearBitmap_def bm_valid_def ucast_and_not_exp Let_def)

lemma bm_get_set:
  assumes "bm_valid bm i" and "SetBitmap bm i = Ok bm'"
  shows "bm_get bm' j \<longleftrightarrow> bm_slot j = bm_slot i \<or> bm_get bm j"
  using assms
  by (auto simp: SetBitmap_eq bm_get_def bm_slot_def bm_valid_def nth_list_update bit_or_exp
      split: if_splits)

lemma bm_get_clear:
  assumes "bm_valid bm i" and "ClearBitmap bm i = Ok bm'"
  shows "bm_get bm' j \<longleftrightarrow> bm_slot j \<noteq> bm_slot i \<and> bm_get bm j"
  using assms
  by (auto simp: ClearBitmap_eq bm_get_def bm_slot_def bm_valid_def nth_list_update bit_and_not_exp
      split: if_splits)

lemma bm_length_set: "SetBitmap bm i = Ok bm' \<Longrightarrow> length bm' = length bm"
  by (auto simp: SetBitmap_def Let_def split: if_splits)

lemma bm_length_clear: "ClearBitmap bm i = Ok bm' \<Longrightarrow> length bm' = length bm"
  by (auto simp: ClearBitmap_def Let_def split: if_splits)

lemma Bitmap_zero: "n \<le> length bm \<Longrightarrow> Bitmap bm n 0 = Ok (replicate n 0 @ drop n bm)"
proof -
  assume n: "n \<le> length bm"
  let ?body = "\<lambda>i bm :: u32 list. if i < length bm
      then let bm1 = bm[i := 0] in
           if (0 :: u8) = 1 then Ok (bm1[i := NOT (bm1 ! i)]) else Ok bm1
      else Fault OutOfBounds"
  let ?P = "\<lambda>i bm'. i \<le> length bm \<and> bm' = replicate i 0 @ drop i bm"
  have "\<exists>bm'. for_up n 0 ?body bm = Ok bm' \<and> ?P (0 + n) bm'"
  proof (rule for_up_rule [where P = ?P])
    fix j s
    assume "0 \<le> j" "j < 0 + n" "?P j s"
    then have "s[j := 0] = replicate (Suc j) 0 @ drop (Suc j) bm" "j < length s"
      using n by (auto simp: list_update_append replicate_app_Cons_same
          simp flip: Cons_nth_drop_Suc)
    then show "\<exists>s'. ?body j s = Ok s' \<and> ?P (Suc j) s'"
      using n \<open>j < 0 + n\<close> by simp
  qed simp
  then show ?thesis
    by (simp add: Bitmap_def)
qed

section \<open>The interface: a table of bits\<close>

text \<open>
  \<open>slot\<close> says which indices share a bit; a faithful bitmap has an injective one.
\<close>

locale bit_table =
  fixes tset :: "'m \<Rightarrow> 'i \<Rightarrow> 'm kres"
    and tclear :: "'m \<Rightarrow> 'i \<Rightarrow> 'm kres"
    and ttest :: "'m \<Rightarrow> 'i \<Rightarrow> bool kres"
    and valid :: "'m \<Rightarrow> 'i \<Rightarrow> bool"
    and member :: "'m \<Rightarrow> 'i \<Rightarrow> bool"
    and slot :: "'i \<Rightarrow> 's"
  assumes test_Ok: "valid m i \<Longrightarrow> ttest m i = Ok (member m i)"
    and set_Ok: "valid m i \<Longrightarrow>
      \<exists>m'. tset m i = Ok m' \<and> valid m' = valid m \<and>
           (\<forall>j. member m' j \<longleftrightarrow> slot j = slot i \<or> member m j)"
    and clear_Ok: "valid m i \<Longrightarrow>
      \<exists>m'. tclear m i = Ok m' \<and> valid m' = valid m \<and>
           (\<forall>j. member m' j \<longleftrightarrow> slot j \<noteq> slot i \<and> member m j)"
    and member_slot: "slot i = slot j \<Longrightarrow> member m i = member m j"
begin

lemma set_then_test:
  assumes "valid m i" and "valid m j"
  shows "kbind (tset m i) (\<lambda>m'. ttest m' j) = Ok (slot j = slot i \<or> member m j)"
proof -
  from set_Ok [OF assms(1)] obtain m' where
    "tset m i = Ok m'" "valid m' = valid m" "\<forall>j. member m' j \<longleftrightarrow> slot j = slot i \<or> member m j"
    by blast
  with assms(2) show ?thesis by (simp add: test_Ok)
qed

lemma set_clear_restores:
  assumes "valid m i" and "\<not> member m i"
  shows "\<exists>m' m''. tset m i = Ok m' \<and> tclear m' i = Ok m'' \<and> (\<forall>j. member m'' j = member m j)"
proof -
  from set_Ok [OF assms(1)] obtain m' where
    m': "tset m i = Ok m'" "valid m' = valid m" "\<forall>j. member m' j \<longleftrightarrow> slot j = slot i \<or> member m j"
    by blast
  from clear_Ok [of m' i] m'(2) assms(1) obtain m'' where
    m'': "tclear m' i = Ok m''" "\<forall>j. member m'' j \<longleftrightarrow> slot j \<noteq> slot i \<and> member m' j"
    by auto
  have "member m'' j = member m j" for j
    using m'(3) m''(2) member_slot [of j i m] assms(2) by auto
  with m'(1) m''(1) show ?thesis by blast
qed

end

interpretation bmi: bit_table SetBitmap ClearBitmap IsBitmapSet bm_valid bm_get bm_slot
proof
  fix m :: "u32 list" and i j :: u32
  show "bm_valid m i \<Longrightarrow> IsBitmapSet m i = Ok (bm_get m i)"
    by (rule IsBitmapSet_eq)
  show "bm_slot i = bm_slot j \<Longrightarrow> bm_get m i = bm_get m j"
    by (simp add: bm_slot_def bm_get_def)
  assume v: "bm_valid m i"
  obtain m' where m': "SetBitmap m i = Ok m'"
    using SetBitmap_eq [OF v] by blast
  then show "\<exists>m'. SetBitmap m i = Ok m' \<and> bm_valid m' = bm_valid m \<and>
      (\<forall>j. bm_get m' j = (bm_slot j = bm_slot i \<or> bm_get m j))"
    using bm_get_set [OF v m'] bm_length_set [OF m'] by (auto simp: bm_valid_def fun_eq_iff)
  obtain m'' where m'': "ClearBitmap m i = Ok m''"
    using ClearBitmap_eq [OF v] by blast
  then show "\<exists>m'. ClearBitmap m i = Ok m' \<and> bm_valid m' = bm_valid m \<and>
      (\<forall>j. bm_get m' j = (bm_slot j \<noteq> bm_slot i \<and> bm_get m j))"
    using bm_get_clear [OF v m''] bm_length_clear [OF m''] by (auto simp: bm_valid_def fun_eq_iff)
qed

end
