(* ===== verification/Allocator.thy ===== *)
theory Allocator
  imports LinkedList Bits
begin

text \<open>
  The kernel's byte allocator, \<^verbatim>\<open>kernel/memory/direct_mapping_allocator.c\<close>: definitions.

  The allocator divides the first 63 MB of the direct mapping area (virtual addresses from
  \<open>0xc0000000\<close>) into blocks of \<open>2 ^ t\<close> bytes, \<open>t < 26\<close>.  For every size type \<open>t\<close> there is a
  list of free and a list of allocated blocks; the list nodes are \<^verbatim>\<open>MemBlock\<close> structures taken
  from a pool in the last megabyte of the area.  The state is the node heap \<open>nxt\<close>, the
  \<^verbatim>\<open>addr\<close> field of every \<^verbatim>\<open>MemBlock\<close>, the pool's head, the two arrays of list heads, and the
  address \<^verbatim>\<open>&K_END\<close> that the linker script provides.

  Size types and loop counters stay below 33, so they are natural numbers; sizes and
  addresses are 32-bit words.
\<close>

record dma = lheap +
  mb_addr :: "u32 \<Rightarrow> u32"
  mem_block_pool :: u32
  free_mem_list :: "u32 list"
  allocated_mem_list :: "u32 list"
  K_END :: u32

definition kMemBlockTypeNum :: nat where
  "kMemBlockTypeNum = 26"

definition kNodePoolSize :: u32 where
  "kNodePoolSize = 0x100000"

definition kDirectMappingSize :: u32 where
  "kDirectMappingSize = 0x4000000"

definition kKVirtualAddr :: u32 where
  "kKVirtualAddr = 0xc0000000"

definition DirectMappingVirtualAddr :: "u32 \<Rightarrow> u32" where
  "DirectMappingVirtualAddr physical_addr = physical_addr + kKVirtualAddr"

definition DirectMappingPhysAddr :: "u32 \<Rightarrow> u32" where
  "DirectMappingPhysAddr virtual_addr = virtual_addr - kKVirtualAddr"

section \<open>Fields of a MemBlock\<close>

text \<open>
  A \<^verbatim>\<open>MemBlock\<close> is eight bytes: \<^verbatim>\<open>addr\<close> at offset 0 and the list node at offset 4.
\<close>

definition mb_of_node :: "u32 \<Rightarrow> u32" where
  "mb_of_node n = n - 4"

definition node_of_mb :: "u32 \<Rightarrow> u32" where
  "node_of_mb b = b + 4"

definition get_mb_addr :: "u32 \<Rightarrow> 'a dma_scheme \<Rightarrow> u32 kres" where
  "get_mb_addr b s = (if b = NULL then Fault NullDeref else Ok (mb_addr s b))"

definition set_mb_addr :: "u32 \<Rightarrow> u32 \<Rightarrow> 'a dma_scheme \<Rightarrow> 'a dma_scheme kres" where
  "set_mb_addr b a s =
     (if b = NULL then Fault NullDeref else Ok (s\<lparr>mb_addr := (mb_addr s)(b := a)\<rparr>))"

definition free_head :: "nat \<Rightarrow> 'a dma_scheme \<Rightarrow> u32 kres" where
  "free_head t s =
     (if t < length (free_mem_list s) then Ok (free_mem_list s ! t) else Fault OutOfBounds)"

definition alloc_head :: "nat \<Rightarrow> 'a dma_scheme \<Rightarrow> u32 kres" where
  "alloc_head t s =
     (if t < length (allocated_mem_list s) then Ok (allocated_mem_list s ! t)
      else Fault OutOfBounds)"

definition set_free_head :: "nat \<Rightarrow> u32 \<Rightarrow> 'a dma_scheme \<Rightarrow> 'a dma_scheme kres" where
  "set_free_head t v s =
     (if t < length (free_mem_list s) then Ok (s\<lparr>free_mem_list := (free_mem_list s)[t := v]\<rparr>)
      else Fault OutOfBounds)"

definition set_alloc_head :: "nat \<Rightarrow> u32 \<Rightarrow> 'a dma_scheme \<Rightarrow> 'a dma_scheme kres" where
  "set_alloc_head t v s =
     (if t < length (allocated_mem_list s)
      then Ok (s\<lparr>allocated_mem_list := (allocated_mem_list s)[t := v]\<rparr>)
      else Fault OutOfBounds)"

section \<open>Size types\<close>

definition GetMemBlockSize :: "nat \<Rightarrow> u32 kres" where
  "GetMemBlockSize size_type = shl1 size_type"

definition GetMemBlockSizeType :: "u32 \<Rightarrow> nat kres" where
  "GetMemBlockSizeType sz =
     kbind (kwhile (\<lambda>i. Ok (i < 32 \<and> drop_bit i sz \<noteq> 1)) (\<lambda>i. Ok (Suc i)) 0) (\<lambda>i.
     kbind (shl1 i) (\<lambda>b.
     if sz AND b = sz then Ok i else Ok (i + 1)))"

section \<open>The pool of MemBlock structures\<close>

definition MemBlockPoolInit :: "u32 \<Rightarrow> u32 \<Rightarrow> 'a dma_scheme \<Rightarrow> 'a dma_scheme kres" where
  "MemBlockPoolInit addr sz s =
     (let pool = node_of_mb addr in
      kbind (set_next pool pool (s\<lparr>mem_block_pool := pool\<rparr>)) (\<lambda>s.
      kbind (kwhile (\<lambda>(tmp, s). Ok (tmp < mb_of_node (mem_block_pool s) + sz))
                    (\<lambda>(tmp, s). kbind (ListAdd (mem_block_pool s) (node_of_mb tmp) s)
                                       (\<lambda>s. Ok (tmp + 8, s)))
                    (mb_of_node pool, s)) (\<lambda>(tmp, s).
      Ok s)))"

definition ReqMemBlock :: "'a dma_scheme \<Rightarrow> (u32 \<times> 'a dma_scheme) kres" where
  "ReqMemBlock s =
     kbind (IsListEmpty (mem_block_pool s) s) (\<lambda>e.
     if e then Ok (NULL, s)
     else kbind (ListRemove (mem_block_pool s) s) (\<lambda>(n, s). Ok (mb_of_node n, s)))"

definition RelMemBlock :: "u32 \<Rightarrow> 'a dma_scheme \<Rightarrow> 'a dma_scheme kres" where
  "RelMemBlock mem_block s =
     (if mem_block = NULL then Fault NullDeref
      else kbind (set_next (node_of_mb mem_block) NULL s) (\<lambda>s.
           ListAdd (mem_block_pool s) (node_of_mb mem_block) s))"

section \<open>Requesting memory\<close>

partial_function (option) DivBlock :: "nat \<Rightarrow> 'a dma_scheme \<Rightarrow> (bool \<times> 'a dma_scheme) kres" where
  "DivBlock size_type s =
     (if size_type = 0 \<or> size_type = kMemBlockTypeNum then Ok (False, s)
      else
        kbind (free_head size_type s) (\<lambda>head.
        kbind (IsListEmpty head s) (\<lambda>e.
        if \<not> e then
          kbind (ListRemove head s) (\<lambda>(n1, s).
          kbind (ReqMemBlock s) (\<lambda>(new_block2, s).
          kbind (get_mb_addr (mb_of_node n1) s) (\<lambda>a1.
          kbind (GetMemBlockSize (size_type - 1)) (\<lambda>sz.
          kbind (set_mb_addr new_block2 (a1 + sz) s) (\<lambda>s.
          kbind (free_head (size_type - 1) s) (\<lambda>head'.
          kbind (ListAdd head' n1 s) (\<lambda>s.
          kbind (ListAdd head' (node_of_mb new_block2) s) (\<lambda>s.
          Ok (True, s)))))))))
        else
          kbind (DivBlock (size_type + 1) s) (\<lambda>(r, s).
          if r then DivBlock size_type s else Ok (False, s)))))"

partial_function (option) ReqBytes :: "u32 \<Rightarrow> 'a dma_scheme \<Rightarrow> (u32 \<times> 'a dma_scheme) kres" where
  "ReqBytes sz s =
     kbind (GetMemBlockSizeType sz) (\<lambda>size_type.
     kbind (free_head size_type s) (\<lambda>head.
     kbind (IsListEmpty head s) (\<lambda>e.
     if e then
       kbind (DivBlock (size_type + 1) s) (\<lambda>(r, s).
       if r then ReqBytes sz s else Ok (0, s))
     else
       kbind (ListRemove head s) (\<lambda>(n, s).
       kbind (alloc_head size_type s) (\<lambda>ahead.
       kbind (get_mb_addr (mb_of_node n) s) (\<lambda>a.
       kbind (walk ahead (\<lambda>m. kbind (get_mb_addr (mb_of_node m) s) (\<lambda>b. Ok (b < a))) s ahead) (\<lambda>tmp.
       kbind (ListAdd tmp n s) (\<lambda>s.
       Ok (a, s)))))))))"

section \<open>Releasing memory\<close>

text \<open>
  The scan of one list for a mergeable pair: the loop stops with \<open>found\<close> where the source
  enters the branch that merges and returns.
\<close>

definition MergeCandidate :: "nat \<Rightarrow> u32 \<Rightarrow> u32 \<Rightarrow> u32 \<Rightarrow> 'a dma_scheme \<Rightarrow> bool kres" where
  "MergeCandidate size_type sz head tmp s =
     kbind (get_next tmp s) (\<lambda>n1.
     kbind (get_next n1 s) (\<lambda>n2.
     if n2 = head then Ok False
     else
       kbind (get_mb_addr (mb_of_node n1) s) (\<lambda>a1.
       kbind (get_mb_addr (mb_of_node n2) s) (\<lambda>a2.
       if a1 + sz = a2 then
         kbind (GetMemBlockSizeType (K_END s)) (\<lambda>rt.
         kbind (GetMemBlockSize rt) (\<lambda>reserved_size.
         Ok (((a1 - reserved_size) div sz) mod 2 = 0)))
       else Ok False))))"

definition MergeScan :: "nat \<Rightarrow> u32 \<Rightarrow> u32 \<Rightarrow> 'a dma_scheme \<Rightarrow> (u32 \<times> bool) kres" where
  "MergeScan size_type sz head s =
     kwhile (\<lambda>(tmp, found). if found then Ok False
                            else kbind (get_next tmp s) (\<lambda>n. Ok (n \<noteq> head)))
            (\<lambda>(tmp, found).
               kbind (MergeCandidate size_type sz head tmp s) (\<lambda>c.
               if c then Ok (tmp, True)
               else kbind (get_next tmp s) (\<lambda>n. Ok (n, False))))
            (head, False)"

partial_function (option) MergeBlock :: "nat \<Rightarrow> 'a dma_scheme \<Rightarrow> 'a dma_scheme kres" where
  "MergeBlock size_type s =
     (if size_type = kMemBlockTypeNum - 1 then Ok s
      else
        kbind (GetMemBlockSize size_type) (\<lambda>sz.
        kbind (free_head size_type s) (\<lambda>head.
        kbind (MergeScan size_type sz head s) (\<lambda>(tmp, found).
        if \<not> found then Ok s
        else
          kbind (get_next tmp s) (\<lambda>n1.
          kbind (get_next n1 s) (\<lambda>n2.
          kbind (get_mb_addr (mb_of_node n1) s) (\<lambda>a1.
          kbind (ListRemove tmp s) (\<lambda>(_, s).
          kbind (get_next tmp s) (\<lambda>p.
          kbind (ListRemove p s) (\<lambda>(_, s).
          kbind (RelMemBlock (mb_of_node n2) s) (\<lambda>s.
          kbind (free_head (size_type + 1) s) (\<lambda>head'.
          kbind (walk head' (\<lambda>m. kbind (get_mb_addr (mb_of_node m) s) (\<lambda>b. Ok (b < a1))) s head') (\<lambda>tmp.
          kbind (ListAdd tmp n1 s) (\<lambda>s.
          MergeBlock (size_type + 1) s)))))))))))))) "

text \<open>
  The search of \<^verbatim>\<open>RelBytes\<close> through one allocated list.  The three ways to leave the loop are
  kept apart: the end of the list (\<open>Exhausted\<close>), the block found and unlinked (\<open>Hit\<close>), and the
  jump to \<^verbatim>\<open>out\<close> at a block above \<open>addr\<close> (\<open>Passed\<close>), where \<^verbatim>\<open>remove\<close> is still the node before it.
\<close>

datatype scan_exit = Exhausted | Hit | Passed

definition RelScan :: "u32 \<Rightarrow> u32 \<Rightarrow> 'a dma_scheme \<Rightarrow> (scan_exit \<times> u32 \<times> 'a dma_scheme) kres" where
  "RelScan addr head s =
     kwhile (\<lambda>(x, remove, s). if x \<noteq> Exhausted then Ok False
                              else kbind (get_next remove s) (\<lambda>n. Ok (n \<noteq> head)))
            (\<lambda>(x, remove, s).
               kbind (get_next remove s) (\<lambda>n.
               kbind (get_mb_addr (mb_of_node n) s) (\<lambda>a.
               if a = addr then
                 kbind (ListRemove remove s) (\<lambda>(del, s). Ok (Hit, del, s))
               else if addr < a then Ok (Passed, remove, s)
               else Ok (Exhausted, n, s))))
            (Exhausted, head, s)"

definition RelSearchLoop ::
    "u32 \<Rightarrow> scan_exit \<times> nat \<times> u32 \<times> 'a dma_scheme \<Rightarrow> (scan_exit \<times> nat \<times> u32 \<times> 'a dma_scheme) kres" where
  "RelSearchLoop addr =
     kwhile
       (\<lambda>(x, size_type, remove, s). Ok (x = Exhausted \<and> size_type < kMemBlockTypeNum))
       (\<lambda>(x, size_type, remove, s).
          kbind (alloc_head size_type s) (\<lambda>head.
          kbind (IsListEmpty head s) (\<lambda>e.
          if e then Ok (Exhausted, Suc size_type, head, s)
          else kbind (RelScan addr head s) (\<lambda>(x, remove, s).
               if x = Exhausted then Ok (Exhausted, Suc size_type, remove, s)
               else Ok (x, size_type, remove, s)))))"

definition RelSearch :: "u32 \<Rightarrow> 'a dma_scheme \<Rightarrow> (nat \<times> u32 \<times> 'a dma_scheme) kres" where
  "RelSearch addr s =
     kbind (RelSearchLoop addr (Exhausted, 0, NULL, s)) (\<lambda>(x, size_type, remove, s).
     Ok (size_type, remove, s))"

definition RelBytes :: "u32 \<Rightarrow> 'a dma_scheme \<Rightarrow> 'a dma_scheme kres" where
  "RelBytes addr s =
     kbind (RelSearch addr s) (\<lambda>(size_type, remove, s).
     if size_type = kMemBlockTypeNum then Ok s
     else
       kbind (free_head size_type s) (\<lambda>head.
       kbind (walk head (\<lambda>m. kbind (get_mb_addr (mb_of_node m) s) (\<lambda>b. Ok (b < addr))) s head) (\<lambda>tmp.
       kbind (ListAdd tmp remove s) (\<lambda>s.
       MergeBlock size_type s))))"

section \<open>Initialisation\<close>

definition NewListHead :: "'a dma_scheme \<Rightarrow> (u32 \<times> 'a dma_scheme) kres" where
  "NewListHead s =
     kbind (ReqMemBlock s) (\<lambda>(b, s).
     if b = NULL then Fault NullDeref
     else kbind (set_next (node_of_mb b) (node_of_mb b) s) (\<lambda>s. Ok (node_of_mb b, s)))"

definition InitLists :: "'a dma_scheme \<Rightarrow> 'a dma_scheme kres" where
  "InitLists s =
     for_up kMemBlockTypeNum 0
       (\<lambda>i s.
          kbind (NewListHead s) (\<lambda>(f, s).
          kbind (set_free_head i f s) (\<lambda>s.
          kbind (NewListHead s) (\<lambda>(a, s).
          set_alloc_head i a s))))
       s"

text \<open>
  The greedy division of the memory after the reserved block.  The counters \<^verbatim>\<open>i\<close> and \<^verbatim>\<open>j\<close>
  are C \<^verbatim>\<open>int\<close>s; \<^verbatim>\<open>i\<close> stays below \<open>2 ^ 27\<close> and \<^verbatim>\<open>j\<close> within -1 and 25.
\<close>

definition FillLimit :: u32 where
  "FillLimit = kDirectMappingSize - kNodePoolSize"

definition FillLevel :: "nat \<Rightarrow> u32 \<times> 'a dma_scheme \<Rightarrow> (u32 \<times> 'a dma_scheme) kres" where
  "FillLevel j =
     kwhile (\<lambda>(i, s). kbind (GetMemBlockSize j) (\<lambda>sz. Ok (i + sz \<le> FillLimit)))
            (\<lambda>(i, s).
               kbind (ReqMemBlock s) (\<lambda>(new_block, s).
               kbind (set_mb_addr new_block (DirectMappingVirtualAddr i) s) (\<lambda>s.
               kbind (free_head j s) (\<lambda>head.
               kbind (ListAdd head (node_of_mb new_block) s) (\<lambda>s.
               kbind (GetMemBlockSize j) (\<lambda>sz.
               Ok (i + sz, s)))))))"

definition FillFree :: "u32 \<Rightarrow> 'a dma_scheme \<Rightarrow> 'a dma_scheme kres" where
  "FillFree sz s =
     kbind (kwhile (\<lambda>(j, i, s). Ok (0 \<le> j \<and> i < FillLimit))
                   (\<lambda>(j, i, s). kbind (FillLevel (nat j) (i, s)) (\<lambda>(i, s). Ok (j - 1, i, s)))
                   (int kMemBlockTypeNum - 1, sz, s)) (\<lambda>(j, i, s).
     Ok s)"

definition DirectMappingInit :: "'a dma_scheme \<Rightarrow> 'a dma_scheme kres" where
  "DirectMappingInit s =
     kbind (MemBlockPoolInit (DirectMappingVirtualAddr (kDirectMappingSize - kNodePoolSize))
              kNodePoolSize s) (\<lambda>s.
     kbind (InitLists s) (\<lambda>s.
     kbind (GetMemBlockSizeType (K_END s)) (\<lambda>size_type.
     kbind (GetMemBlockSize size_type) (\<lambda>sz.
     kbind (ReqMemBlock s) (\<lambda>(reserved, s).
     kbind (set_mb_addr reserved kKVirtualAddr s) (\<lambda>s.
     kbind (alloc_head size_type s) (\<lambda>head.
     kbind (ListAdd head (node_of_mb reserved) s) (\<lambda>s.
     FillFree sz s))))))))"

end
