(* ===== verification/AllocSize.thy ===== *)
theory AllocSize
  imports Allocator
begin

text \<open>
  The size arithmetic of the allocator: \<^verbatim>\<open>GetMemBlockSizeType\<close> rounds a size up to a power of
  two.
\<close>

lemma and_exp_word: "(w :: 'a::len word) AND 2 ^ n = (if bit w n then 2 ^ n else 0)"
  by (rule bit_word_eqI) (auto simp: bit_simps)

lemma drop_bit_eq_1_iff:
  "drop_bit i (x :: u32) = 1 \<longleftrightarrow> 2 ^ i \<le> unat x \<and> unat x < 2 * 2 ^ i"
proof -
  have "drop_bit i x = 1 \<longleftrightarrow> unat (drop_bit i x) = 1"
    by (metis unat_1 word_unat_eq_iff)
  also have "unat (drop_bit i x) = unat x div 2 ^ i"
    by (simp only: unat_drop_bit_eq) (rule drop_bit_eq_div)
  also have "unat x div 2 ^ i = 1 \<longleftrightarrow> 2 ^ i \<le> unat x \<and> unat x < 2 * 2 ^ i"
  proof
    assume "unat x div 2 ^ i = 1"
    then have "unat x = 2 ^ i + unat x mod 2 ^ i"
      using div_mult_mod_eq [of "unat x" "2 ^ i"] by simp
    moreover have "unat x mod 2 ^ i < 2 ^ i" by simp
    ultimately show "2 ^ i \<le> unat x \<and> unat x < 2 * 2 ^ i" by linarith
  qed (auto intro: div_nat_eqI)
  finally show ?thesis .
qed

lemma floor_log2_exists: "x \<noteq> (0 :: u32) \<Longrightarrow> \<exists>i<32. 2 ^ i \<le> unat x \<and> unat x < 2 * 2 ^ i"
proof -
  assume "x \<noteq> 0"
  then have "\<exists>i. 2 ^ i \<le> unat x \<and> unat x < 2 ^ (i + 1)"
    by (intro ex_power_ivl1) (auto simp: Suc_leI unat_gt_0)
  then obtain i where i: "2 ^ i \<le> unat x" "unat x < 2 * 2 ^ i"
    by auto
  have "i < 32"
  proof (rule ccontr)
    assume "\<not> i < 32"
    then have "(2 :: nat) ^ 32 \<le> 2 ^ i"
      by (intro power_increasing) auto
    with i(1) unat_u32_bound [of x] show False by simp
  qed
  with i show ?thesis by blast
qed

lemma power2_interval_unique:
  "2 ^ i \<le> (n :: nat) \<Longrightarrow> n < 2 * 2 ^ i \<Longrightarrow> 2 ^ j \<le> n \<Longrightarrow> n < 2 * 2 ^ j \<Longrightarrow> i = j"
proof (rule linorder_cases [of i j])
  assume "i < j" and *: "n < 2 * 2 ^ i" "2 ^ j \<le> n"
  from \<open>i < j\<close> have "(2 :: nat) ^ Suc i \<le> 2 ^ j"
    by (intro power_increasing) auto
  with * show ?thesis by simp
next
  assume "j < i" and *: "n < 2 * 2 ^ j" "2 ^ i \<le> n"
  from \<open>j < i\<close> have "(2 :: nat) ^ Suc j \<le> 2 ^ i"
    by (intro power_increasing) auto
  with * show ?thesis by simp
qed

lemma size_type_loop:
  fixes x :: u32
  assumes "2 ^ i \<le> unat x" "unat x < 2 * 2 ^ i" "i < 32"
  shows "kwhile (\<lambda>i. Ok (i < 32 \<and> drop_bit i x \<noteq> 1)) (\<lambda>i. Ok (Suc i)) 0 = Ok i"
proof -
  let ?b = "\<lambda>i. Ok (i < 32 \<and> drop_bit i x \<noteq> 1)"
  have "\<exists>j. kwhile ?b (\<lambda>i. Ok (Suc i)) 0 = Ok j \<and> j \<le> i \<and> ?b j = Ok False"
  proof (rule kwhile_rule [where P = "\<lambda>j. j \<le> i" and m = "\<lambda>j. i - j"])
    fix j
    assume "j \<le> i" "?b j = Ok True"
    then have "j \<noteq> i"
      using assms drop_bit_eq_1_iff [of i x] by auto
    with \<open>j \<le> i\<close> show "\<exists>s'. Ok (Suc j) = Ok s' \<and> s' \<le> i \<and> i - s' < i - j"
      by auto
  qed auto
  then obtain j where j: "kwhile ?b (\<lambda>i. Ok (Suc i)) 0 = Ok j" "j \<le> i" "drop_bit j x = 1"
    using assms(3) by auto
  then have "j = i"
    using assms by (intro power2_interval_unique [of j "unat x" i]) (auto simp: drop_bit_eq_1_iff)
  with j show ?thesis by simp
qed

lemma GetMemBlockSizeType_Ok:
  assumes "x \<noteq> 0"
  shows "\<exists>t. GetMemBlockSizeType x = Ok t \<and> unat x \<le> 2 ^ t \<and> unat x > 2 ^ t div 2"
proof -
  obtain i where i: "i < 32" "2 ^ i \<le> unat x" "unat x < 2 * 2 ^ i"
    using floor_log2_exists [OF assms] by blast
  have pow: "unat (2 ^ i :: u32) = 2 ^ i"
    using i(1) by simp
  have loop: "GetMemBlockSizeType x = (if x AND 2 ^ i = x then Ok i else Ok (i + 1))"
    unfolding GetMemBlockSizeType_def size_type_loop [OF i(2,3,1)] using i(1) by simp
  show ?thesis
  proof (cases "x = 2 ^ i")
    case True
    then have "GetMemBlockSizeType x = Ok i"
      using loop by simp
    with True pow show ?thesis by (intro exI [of _ i]) simp
  next
    case False
    then have "x AND 2 ^ i \<noteq> x"
      using assms by (auto simp: and_exp_word split: if_splits)
    then have "GetMemBlockSizeType x = Ok (i + 1)"
      by (simp add: loop)
    moreover have "unat x \<noteq> 2 ^ i"
      using False pow by (simp add: word_unat_eq_iff)
    ultimately show ?thesis
      using i by (intro exI [of _ "i + 1"]) auto
  qed
qed

text \<open>A request of zero bytes runs the loop to its end and then shifts by 32.\<close>

lemma GetMemBlockSizeType_0: "GetMemBlockSizeType 0 = Fault ShiftTooLarge"
proof -
  let ?b = "\<lambda>i. Ok (i < 32 \<and> drop_bit i (0 :: u32) \<noteq> 1)"
  have "\<exists>j. kwhile ?b (\<lambda>i. Ok (Suc i)) 0 = Ok j \<and> True \<and> ?b j = Ok False"
    by (rule kwhile_rule [where m = "\<lambda>j. 32 - j"]) auto
  then obtain j where "kwhile ?b (\<lambda>i. Ok (Suc i)) 0 = Ok j" "\<not> j < 32"
    by auto
  then show ?thesis
    by (simp add: GetMemBlockSizeType_def shl1_def)
qed

definition block_order :: "u32 \<Rightarrow> nat" where
  "block_order x = (LEAST t. unat x \<le> 2 ^ t)"

lemma block_order_unique:
  assumes "unat x \<le> 2 ^ t" "2 ^ t div 2 < unat x"
  shows "block_order x = t"
  unfolding block_order_def
proof (rule Least_equality)
  fix u assume "unat x \<le> 2 ^ u"
  show "t \<le> u"
  proof (rule ccontr)
    assume "\<not> t \<le> u"
    then have "Suc u \<le> t" by simp
    then have "(2 :: nat) ^ Suc u \<le> 2 ^ t"
      by (intro power_increasing) auto
    with \<open>unat x \<le> 2 ^ u\<close> assms(2) show False by simp
  qed
qed (use assms in simp)

lemma GetMemBlockSizeType_class: "x \<noteq> 0 \<Longrightarrow> GetMemBlockSizeType x = Ok (block_order x)"
  using GetMemBlockSizeType_Ok [of x] by (auto simp: block_order_unique)

lemma block_order_le: "unat x \<le> 2 ^ block_order x"
  unfolding block_order_def by (rule LeastI [of _ 32]) (simp add: less_imp_le unat_u32_bound)

lemma block_order_less_26: "unat x \<le> 2 ^ 25 \<Longrightarrow> block_order x < 26"
  unfolding block_order_def by (rule le_less_trans [OF Least_le [of _ 25]]) auto

lemma GetMemBlockSize_Ok [simp]: "t < 32 \<Longrightarrow> GetMemBlockSize t = Ok (2 ^ t)"
  by (simp add: GetMemBlockSize_def)

end
