(* ===== verification/AllocInv.thy ===== *)
theory AllocInv
  imports AllocSize
begin

text \<open>
  The invariant of the byte allocator and the effect of its list operations on it.

  \<open>L\<close> gives, for every list of the allocator, the nodes it holds; it is determined by the
  heap.  \<open>dma_wf\<close> says that the 53 lists (the pool, 26 free and 26 allocated lists) are
  well-formed circular lists without common nodes.  \<open>tiled\<close> says that the blocks that the
  nodes of the free and allocated lists describe are disjoint and cover the 63 MB the
  allocator manages exactly: no byte belongs to two blocks and none is lost.  \<open>srt\<close> is the
  promise of the source that the lists are sorted by address.
\<close>

datatype lid = Pool | FreeL nat | AllocL nat

definition lids :: "lid set" where
  "lids = insert Pool (FreeL ` {..<kMemBlockTypeNum} \<union> AllocL ` {..<kMemBlockTypeNum})"

primrec lhead :: "'a dma_scheme \<Rightarrow> lid \<Rightarrow> u32" where
  "lhead s Pool = mem_block_pool s"
| "lhead s (FreeL t) = free_mem_list s ! t"
| "lhead s (AllocL t) = allocated_mem_list s ! t"

definition baddr :: "'a dma_scheme \<Rightarrow> u32 \<Rightarrow> u32" where
  "baddr s n = mb_addr s (mb_of_node n)"

definition footprint :: "'a dma_scheme \<Rightarrow> (lid \<Rightarrow> u32 list) \<Rightarrow> u32 set" where
  "footprint s L = (\<Union>k\<in>lids. nodes (lhead s) L k)"

definition dma_wf :: "'a dma_scheme \<Rightarrow> (lid \<Rightarrow> u32 list) \<Rightarrow> bool" where
  "dma_wf s L \<longleftrightarrow>
     lists_ok (nxt s) lids (lhead s) L \<and>
     length (free_mem_list s) = kMemBlockTypeNum \<and>
     length (allocated_mem_list s) = kMemBlockTypeNum \<and>
     4 \<notin> footprint s L"

definition blocks :: "(lid \<Rightarrow> u32 list) \<Rightarrow> (u32 \<times> nat) set" where
  "blocks L = {(n, t). t < kMemBlockTypeNum \<and> (n \<in> set (L (FreeL t)) \<or> n \<in> set (L (AllocL t)))}"

definition region :: "u32 \<Rightarrow> nat \<Rightarrow> nat set" where
  "region a t = {unat a ..< unat a + 2 ^ t}"

definition span :: "'a dma_scheme \<Rightarrow> u32 \<times> nat \<Rightarrow> nat set" where
  "span s b = region (baddr s (fst b)) (snd b)"

definition tiles :: "('b \<Rightarrow> nat set) \<Rightarrow> 'b set \<Rightarrow> nat set \<Rightarrow> bool" where
  "tiles I B U \<longleftrightarrow> (\<forall>b\<in>B. \<forall>c\<in>B. b \<noteq> c \<longrightarrow> I b \<inter> I c = {}) \<and> \<Union>(I ` B) = U"

definition arena :: "nat set" where
  "arena = {0xc0000000 ..< 0xc3f00000}"

definition tiled :: "'a dma_scheme \<Rightarrow> (lid \<Rightarrow> u32 list) \<Rightarrow> bool" where
  "tiled s L \<longleftrightarrow> tiles (span s) (blocks L) arena"

definition srt :: "nat set \<Rightarrow> 'a dma_scheme \<Rightarrow> (lid \<Rightarrow> u32 list) \<Rightarrow> bool" where
  "srt T s L \<longleftrightarrow>
     (\<forall>t<kMemBlockTypeNum. t \<notin> T \<longrightarrow> sorted (map (baddr s) (L (FreeL t)))) \<and>
     (\<forall>t<kMemBlockTypeNum. sorted (map (baddr s) (L (AllocL t))))"

definition dma_inv :: "'a dma_scheme \<Rightarrow> (lid \<Rightarrow> u32 list) \<Rightarrow> bool" where
  "dma_inv s L \<longleftrightarrow> dma_wf s L \<and> tiled s L \<and> srt {} s L"

text \<open>The allocated blocks, as address and size type.\<close>

definition live :: "'a dma_scheme \<Rightarrow> (lid \<Rightarrow> u32 list) \<Rightarrow> (u32 \<times> nat) set" where
  "live s L = {(a, t). t < kMemBlockTypeNum \<and> a \<in> set (map (baddr s) (L (AllocL t)))}"

text \<open>What an allocator operation leaves alone.\<close>

definition dma_frame ::
    "'a dma_scheme \<Rightarrow> (lid \<Rightarrow> u32 list) \<Rightarrow> 'a dma_scheme \<Rightarrow> (lid \<Rightarrow> u32 list) \<Rightarrow> bool" where
  "dma_frame s L s' L' \<longleftrightarrow>
     mem_block_pool s' = mem_block_pool s \<and> free_mem_list s' = free_mem_list s \<and>
     allocated_mem_list s' = allocated_mem_list s \<and> K_END s' = K_END s \<and>
     dma.more s' = dma.more s \<and>
     footprint s' L' = footprint s L \<and>
     (\<forall>x. x \<notin> footprint s L \<longrightarrow> nxt s' x = nxt s x)"

lemma lids_simps [simp]:
  "Pool \<in> lids" "FreeL t \<in> lids \<longleftrightarrow> t < kMemBlockTypeNum" "AllocL t \<in> lids \<longleftrightarrow> t < kMemBlockTypeNum"
  by (auto simp: lids_def)

lemma node_of_mb_inverse [simp]: "node_of_mb (mb_of_node n) = n"
  by (simp add: node_of_mb_def mb_of_node_def)

lemma mb_of_node_inverse [simp]: "mb_of_node (node_of_mb b) = b"
  by (simp add: node_of_mb_def mb_of_node_def)

lemma mb_of_node_eq_0 [simp]: "mb_of_node n = 0 \<longleftrightarrow> n = 4"
  by (simp add: mb_of_node_def)

lemma mb_of_node_eq [simp]: "mb_of_node n = mb_of_node m \<longleftrightarrow> n = m"
  by (simp add: mb_of_node_def)

lemma lhead_nxt [simp]: "lhead (s\<lparr>nxt := h\<rparr>) = lhead s"
proof
  fix k show "lhead (s\<lparr>nxt := h\<rparr>) k = lhead s k" by (cases k) auto
qed

lemma lhead_mb_addr [simp]: "lhead (s\<lparr>mb_addr := f\<rparr>) = lhead s"
proof
  fix k show "lhead (s\<lparr>mb_addr := f\<rparr>) k = lhead s k" by (cases k) auto
qed

lemma baddr_nxt [simp]: "baddr (s\<lparr>nxt := h\<rparr>) = baddr s"
  by (simp add: baddr_def fun_eq_iff)

lemma footprint_nxt [simp]: "footprint (s\<lparr>nxt := h\<rparr>) = footprint s"
  by (simp add: footprint_def fun_eq_iff)

lemma footprint_mb_addr [simp]: "footprint (s\<lparr>mb_addr := f\<rparr>) = footprint s"
  by (simp add: footprint_def fun_eq_iff)

lemma dma_wf_mb_addr [simp]: "dma_wf (s\<lparr>mb_addr := f\<rparr>) L = dma_wf s L"
  by (simp add: dma_wf_def)

lemma dma_frame_refl [simp]: "dma_frame s L s L"
  by (simp add: dma_frame_def)

lemma dma_frame_trans: "dma_frame s L s' L' \<Longrightarrow> dma_frame s' L' s'' L'' \<Longrightarrow> dma_frame s L s'' L''"
  by (auto simp: dma_frame_def)

lemma live_cong:
  "(\<And>t. t < kMemBlockTypeNum \<Longrightarrow> map (baddr s') (L' (AllocL t)) = map (baddr s) (L (AllocL t))) \<Longrightarrow>
   live s' L' = live s L"
  unfolding live_def by (intro Collect_cong) (simp only: split_beta cong: conj_cong)

lemma srt_cong:
  assumes "srt T s L"
    and "\<And>t. t < kMemBlockTypeNum \<Longrightarrow> t \<notin> T' \<Longrightarrow>
      map (baddr s') (L' (FreeL t)) = map (baddr s) (L (FreeL t)) \<and> t \<notin> T \<or>
      sorted (map (baddr s') (L' (FreeL t)))"
    and "\<And>t. t < kMemBlockTypeNum \<Longrightarrow>
      map (baddr s') (L' (AllocL t)) = map (baddr s) (L (AllocL t)) \<or>
      sorted (map (baddr s') (L' (AllocL t)))"
  shows "srt T' s' L'"
  using assms unfolding srt_def by metis

lemma get_mb_addr_node [simp]: "n \<noteq> 4 \<Longrightarrow> get_mb_addr (mb_of_node n) s = Ok (baddr s n)"
  by (simp add: get_mb_addr_def baddr_def)

lemma dma_wf_list: "dma_wf s L \<Longrightarrow> k \<in> lids \<Longrightarrow> clist (nxt s) (lhead s k) (L k)"
  unfolding dma_wf_def using lists_okD [of "nxt s" lids "lhead s" L k] by blast

lemma footprint_head: "k \<in> lids \<Longrightarrow> lhead s k \<in> footprint s L"
  by (auto simp: footprint_def nodes_def)

lemma footprint_member: "k \<in> lids \<Longrightarrow> n \<in> set (L k) \<Longrightarrow> n \<in> footprint s L"
  by (auto simp: footprint_def nodes_def)

lemma footprint_last: "k \<in> lids \<Longrightarrow> L k = xs @ ys \<Longrightarrow> last (lhead s k # xs) \<in> footprint s L"
  using last_in_set [of "lhead s k # xs"] footprint_head [of k s L] footprint_member [of k _ L s]
  by (auto split: if_splits)

lemma dma_wf_member: "dma_wf s L \<Longrightarrow> k \<in> lids \<Longrightarrow> n \<in> set (L k) \<Longrightarrow> n \<noteq> 0 \<and> n \<noteq> 4"
  using dma_wf_list [of s L k] footprint_member [of k n L s]
  by (auto simp: clist_def dma_wf_def)

lemma dma_wf_head_nonzero: "dma_wf s L \<Longrightarrow> k \<in> lids \<Longrightarrow> lhead s k \<noteq> 0"
  using dma_wf_list [of s L k] by (simp add: clist_def)

lemma dma_wf_unique_list:
  "dma_wf s L \<Longrightarrow> k \<in> lids \<Longrightarrow> k' \<in> lids \<Longrightarrow> n \<in> set (L k) \<Longrightarrow> n \<in> set (L k') \<Longrightarrow> k = k'"
  using lists_ok_disjoint [of "nxt s" lids "lhead s" L k k'] by (auto simp: dma_wf_def nodes_def)

lemma free_head_Ok [simp]: "dma_wf s L \<Longrightarrow> t < kMemBlockTypeNum \<Longrightarrow> free_head t s = Ok (lhead s (FreeL t))"
  by (simp add: free_head_def dma_wf_def)

lemma alloc_head_Ok [simp]: "dma_wf s L \<Longrightarrow> t < kMemBlockTypeNum \<Longrightarrow> alloc_head t s = Ok (lhead s (AllocL t))"
  by (simp add: alloc_head_def dma_wf_def)

lemma dma_IsListEmpty [simp]:
  "dma_wf s L \<Longrightarrow> k \<in> lids \<Longrightarrow> IsListEmpty (lhead s k) s = Ok (L k = [])"
  using dma_wf_list [of s L k] dma_wf_head_nonzero [of s L k]
  by (simp add: IsListEmpty_Ok clist_empty_iff)

section \<open>List operations\<close>

lemma dma_ListRemove:
  assumes wf: "dma_wf s L" and k: "k \<in> lids" and L: "L k = xs @ n # ys"
  obtains h where "ListRemove (last (lhead s k # xs)) s = Ok (n, s\<lparr>nxt := h\<rparr>)"
    and "dma_wf (s\<lparr>nxt := h\<rparr>) (L(k := xs @ ys))"
    and "n \<notin> footprint s (L(k := xs @ ys))"
    and "insert n (footprint s (L(k := xs @ ys))) = footprint s L"
    and "\<forall>x. x \<notin> footprint s L \<longrightarrow> h x = nxt s x"
proof
  let ?p = "last (lhead s k # xs)"
  let ?h = "(nxt s)(?p := nxt s n, n := 0)"
  let ?L = "L(k := xs @ ys)"
  have ok: "lists_ok (nxt s) lids (lhead s) L"
    using wf by (simp add: dma_wf_def)
  have cl: "clist (nxt s) (lhead s k) (xs @ n # ys)"
    using dma_wf_list [OF wf k] L by simp
  have p: "?p \<noteq> 0" "nxt s ?p = n"
    using clist_last_nonzero [OF cl] clist_split [OF cl] by auto
  have n: "n \<noteq> 0"
    using cl by (simp add: clist_def)
  show "ListRemove ?p s = Ok (n, s\<lparr>nxt := ?h\<rparr>)"
    using ListRemove_Ok [of ?p s] p n by simp
  show fresh: "n \<notin> footprint s ?L"
    using lists_ok_delete_fresh [OF ok k L] by (auto simp: footprint_def)
  have fp: "nodes (lhead s) ?L k' \<subseteq> nodes (lhead s) L k'" for k'
    using L by (auto simp: nodes_def)
  then have sub: "footprint s ?L \<subseteq> footprint s L"
    unfolding footprint_def by blast
  have mem: "n \<in> footprint s L" "?p \<in> footprint s L"
    using footprint_member [OF k, of n L] footprint_last [of k L xs "n # ys" s] k L by auto
  have nk: "nodes (lhead s) L k' \<subseteq> insert n (nodes (lhead s) ?L k')" for k'
    using L by (auto simp: nodes_def)
  show "insert n (footprint s ?L) = footprint s L"
    using sub mem(1) nk unfolding footprint_def by blast
  show "dma_wf (s\<lparr>nxt := ?h\<rparr>) ?L"
    using wf lists_ok_delete [OF ok k L, of 0] sub by (auto simp: dma_wf_def)
  show "\<forall>x. x \<notin> footprint s L \<longrightarrow> ?h x = nxt s x"
    using mem by auto
qed

lemma dma_ListAdd:
  assumes wf: "dma_wf s L" and k: "k \<in> lids" and L: "L k = xs @ ys"
    and n: "n \<noteq> 0" "n \<noteq> 4" "n \<notin> footprint s L"
  obtains h where "ListAdd (last (lhead s k # xs)) n s = Ok (s\<lparr>nxt := h\<rparr>)"
    and "dma_wf (s\<lparr>nxt := h\<rparr>) (L(k := xs @ n # ys))"
    and "footprint s (L(k := xs @ n # ys)) = insert n (footprint s L)"
    and "\<forall>x. x \<notin> insert n (footprint s L) \<longrightarrow> h x = nxt s x"
proof
  let ?p = "last (lhead s k # xs)"
  let ?h = "(nxt s)(?p := n, n := nxt s ?p)"
  let ?L = "L(k := xs @ n # ys)"
  have ok: "lists_ok (nxt s) lids (lhead s) L"
    using wf by (simp add: dma_wf_def)
  have cl: "clist (nxt s) (lhead s k) (xs @ ys)"
    using dma_wf_list [OF wf k] L by simp
  have p: "?p \<noteq> 0"
    using clist_last_nonzero [OF cl] .
  then show "ListAdd ?p n s = Ok (s\<lparr>nxt := ?h\<rparr>)"
    using n by (simp add: ListAdd_Ok)
  have nd: "nodes (lhead s) ?L k' = (if k' = k then insert n (nodes (lhead s) L k') else nodes (lhead s) L k')" for k'
    using L by (auto simp: nodes_def)
  show fp: "footprint s ?L = insert n (footprint s L)"
    using k unfolding footprint_def nd by auto
  have mem: "?p \<in> footprint s L"
    using footprint_last [of k L xs ys s] k L by simp
  have "lists_ok ?h lids (lhead s) ?L"
    using n(3) by (intro lists_ok_insert [OF ok k L n(1)]) (auto simp: footprint_def)
  then show "dma_wf (s\<lparr>nxt := ?h\<rparr>) ?L"
    using wf fp n(2) by (auto simp: dma_wf_def)
  show "\<forall>x. x \<notin> insert n (footprint s L) \<longrightarrow> ?h x = nxt s x"
    using mem by auto
qed

text \<open>The same as existence statements, and at the front of a list.\<close>

lemma dma_ListRemove_at:
  assumes "dma_wf s L" "k \<in> lids" "L k = xs @ n # ys"
  shows "\<exists>h. ListRemove (last (lhead s k # xs)) s = Ok (n, s\<lparr>nxt := h\<rparr>) \<and>
    dma_wf (s\<lparr>nxt := h\<rparr>) (L(k := xs @ ys)) \<and> n \<notin> footprint s (L(k := xs @ ys)) \<and>
    insert n (footprint s (L(k := xs @ ys))) = footprint s L \<and>
    (\<forall>x. x \<notin> footprint s L \<longrightarrow> h x = nxt s x)"
  using dma_ListRemove [OF assms] by metis

lemma dma_ListAdd_at:
  assumes "dma_wf s L" "k \<in> lids" "L k = xs @ ys" "n \<noteq> 0" "n \<noteq> 4" "n \<notin> footprint s L"
  shows "\<exists>h. ListAdd (last (lhead s k # xs)) n s = Ok (s\<lparr>nxt := h\<rparr>) \<and>
    dma_wf (s\<lparr>nxt := h\<rparr>) (L(k := xs @ n # ys)) \<and>
    footprint s (L(k := xs @ n # ys)) = insert n (footprint s L) \<and>
    (\<forall>x. x \<notin> insert n (footprint s L) \<longrightarrow> h x = nxt s x)"
  using dma_ListAdd [OF assms] by metis

lemma dma_ListRemove_front:
  assumes "dma_wf s L" "k \<in> lids" "L k = n # ns"
  shows "\<exists>h. ListRemove (lhead s k) s = Ok (n, s\<lparr>nxt := h\<rparr>) \<and> dma_wf (s\<lparr>nxt := h\<rparr>) (L(k := ns)) \<and>
    n \<notin> footprint s (L(k := ns)) \<and> insert n (footprint s (L(k := ns))) = footprint s L \<and>
    (\<forall>x. x \<notin> footprint s L \<longrightarrow> h x = nxt s x)"
  using dma_ListRemove [OF assms(1,2), of "[]" n ns] assms(3) by (metis append_Nil last.simps)

lemma dma_ListAdd_front:
  assumes "dma_wf s L" "k \<in> lids" "n \<noteq> 0" "n \<noteq> 4" "n \<notin> footprint s L"
  shows "\<exists>h. ListAdd (lhead s k) n s = Ok (s\<lparr>nxt := h\<rparr>) \<and>
    dma_wf (s\<lparr>nxt := h\<rparr>) (L(k := n # L k)) \<and>
    footprint s (L(k := n # L k)) = insert n (footprint s L) \<and>
    (\<forall>x. x \<notin> insert n (footprint s L) \<longrightarrow> h x = nxt s x)"
  using dma_ListAdd [OF assms(1,2), of "[]" "L k" n] assms(3-5) by (metis append_Nil last.simps)

lemma dma_walk:
  assumes wf: "dma_wf s L" and k: "k \<in> lids"
  shows "walk (lhead s k) (\<lambda>m. kbind (get_mb_addr (mb_of_node m) s) (\<lambda>b. Ok (b < a))) s (lhead s k) =
         Ok (last (lhead s k # takeWhile (\<lambda>m. baddr s m < a) (L k)))"
proof (rule walk_clist)
  show "clist (nxt s) (lhead s k) (L k)"
    using wf k by (rule dma_wf_list)
  fix x assume "x \<in> set (L k)"
  then show "kbind (get_mb_addr (mb_of_node x) s) (\<lambda>b. Ok (b < a)) = Ok (baddr s x < a)"
    using dma_wf_member [OF wf k] by simp
qed

lemma dma_ReqMemBlock:
  assumes "dma_wf s L" "L Pool = p # ps"
  shows "\<exists>h. ReqMemBlock s = Ok (mb_of_node p, s\<lparr>nxt := h\<rparr>) \<and> dma_wf (s\<lparr>nxt := h\<rparr>) (L(Pool := ps)) \<and>
    p \<notin> footprint s (L(Pool := ps)) \<and> insert p (footprint s (L(Pool := ps))) = footprint s L \<and>
    (\<forall>x. x \<notin> footprint s L \<longrightarrow> h x = nxt s x)"
  using dma_ListRemove_front [of s L Pool p ps] dma_IsListEmpty [OF assms(1), of Pool] assms
  by (auto simp: ReqMemBlock_def)

lemma dma_ReqMemBlock_empty: "dma_wf s L \<Longrightarrow> L Pool = [] \<Longrightarrow> ReqMemBlock s = Ok (0, s)"
  using dma_IsListEmpty [of s L Pool] by (simp add: ReqMemBlock_def)

section \<open>Tilings\<close>

lemma tiles_split:
  assumes "tiles I B U" "b \<in> B" "c1 \<notin> B - {b}" "c2 \<notin> B - {b}" "c1 \<noteq> c2"
    and "I' c1 \<union> I' c2 = I b" "I' c1 \<inter> I' c2 = {}" "\<And>x. x \<in> B - {b} \<Longrightarrow> I' x = I x"
  shows "tiles I' (insert c1 (insert c2 (B - {b}))) U"
proof -
  have sub: "I' c1 \<subseteq> I b" "I' c2 \<subseteq> I b" using assms(6) by auto
  have dis: "I b \<inter> I x = {}" if "x \<in> B - {b}" for x
    using assms(1,2) that by (auto simp: tiles_def)
  have "I' x \<inter> I' y = {}" if "x \<in> insert c1 (insert c2 (B - {b}))"
    "y \<in> insert c1 (insert c2 (B - {b}))" "x \<noteq> y" for x y
    using that assms(1,5,7,8) sub dis unfolding tiles_def by (auto simp: assms(8)) blast+
  moreover have "\<Union>(I' ` (B - {b})) = \<Union>(I ` (B - {b}))"
    using assms(8) by auto
  then have "\<Union>(I' ` insert c1 (insert c2 (B - {b}))) = U"
    using assms(1,2,6) by (auto simp: tiles_def)
  ultimately show ?thesis
    unfolding tiles_def by blast
qed

lemma region_split: "0 < t \<Longrightarrow> unat a + 2 ^ (t - 1) < 2 ^ 32 \<Longrightarrow> t \<le> 32 \<Longrightarrow>
    region a (t - 1) \<union> region (a + 2 ^ (t - 1)) (t - 1) = region a t \<and>
    region a (t - 1) \<inter> region (a + 2 ^ (t - 1)) (t - 1) = {}"
proof -
  assume t: "0 < t" "unat a + 2 ^ (t - 1) < 2 ^ 32" "t \<le> 32"
  then have "unat (a + 2 ^ (t - 1)) = unat a + 2 ^ (t - 1)"
    by (subst unat_add_u32_small) auto
  moreover from t obtain u where "t = Suc u" by (cases t) auto
  ultimately show ?thesis
    by (auto simp: region_def)
qed

lemma tiled_span_arena: "tiled s L \<Longrightarrow> (n, t) \<in> blocks L \<Longrightarrow> region (baddr s n) t \<subseteq> arena"
  by (force simp: tiled_def tiles_def span_def)

lemma tiled_bounds:
  assumes "tiled s L" "(n, t) \<in> blocks L"
  shows "0xc0000000 \<le> unat (baddr s n)" "unat (baddr s n) + 2 ^ t \<le> 0xc3f00000"
proof -
  have "{unat (baddr s n) ..< unat (baddr s n) + 2 ^ t} \<subseteq> {0xc0000000 ..< 0xc3f00000}"
    using tiled_span_arena [OF assms] by (simp add: region_def arena_def)
  then show "0xc0000000 \<le> unat (baddr s n)" "unat (baddr s n) + 2 ^ t \<le> 0xc3f00000"
    by (auto simp: atLeastLessThan_subset_iff)
qed

end
