(* ===== verification/AllocInit.thy ===== *)
theory AllocInit
  imports AllocInv
begin

text \<open>
  \<^verbatim>\<open>DirectMappingInit\<close> establishes the allocator's invariant: it builds the pool, the 52 list
  heads and the reserved block, and divides the rest of the 63 MB into free blocks.
\<close>

section \<open>The pool\<close>

definition pnode :: "nat \<Rightarrow> u32" where
  "pnode j = 0xc3f00004 + of_nat (8 * j)"

definition pool_nodes :: "nat \<Rightarrow> u32 list" where
  "pool_nodes i = rev (map pnode [1..<i])"

lemma unat_pnode: "j \<le> 131072 \<Longrightarrow> unat (pnode j) = 0xc3f00004 + 8 * j"
proof -
  assume "j \<le> 131072"
  then have "unat (of_nat (8 * j) :: u32) = 8 * j"
    by (intro unat_of_nat_u32) simp
  with \<open>j \<le> 131072\<close> show ?thesis
    unfolding pnode_def by (subst unat_add_u32_small) (simp_all del: of_nat_mult)
qed

lemma unat_pnode_mb: "j \<le> 131072 \<Longrightarrow> unat (mb_of_node (pnode j)) = 0xc3f00000 + 8 * j"
  unfolding mb_of_node_def by (subst unat_sub_u32) (simp_all add: u32_le_iff_unat unat_pnode)

lemma pnode_inj: "i < 131072 \<Longrightarrow> j < 131072 \<Longrightarrow> pnode i = pnode j \<longleftrightarrow> i = j"
  by (simp add: u32_eq_iff_unat unat_pnode)

lemma pnode_nonzero: "j < 131072 \<Longrightarrow> pnode j \<noteq> 0 \<and> pnode j \<noteq> 4"
  by (simp add: u32_eq_iff_unat unat_pnode)

lemma pool_nodes_Suc: "0 < i \<Longrightarrow> pool_nodes (Suc i) = pnode i # pool_nodes i"
  by (simp add: pool_nodes_def)

lemma set_pool_nodes: "set (pool_nodes i) = pnode ` {1..<i}"
  by (auto simp: pool_nodes_def)

lemma pool_loop:
  assumes "clist h (pnode 0) []"
  shows "\<exists>h'. kwhile (\<lambda>(tmp, s). Ok (tmp < mb_of_node (mem_block_pool s) + 0x100000))
                     (\<lambda>(tmp, s). kbind (ListAdd (mem_block_pool s) (node_of_mb tmp) s)
                                        (\<lambda>s. Ok (tmp + 8, s)))
                     (mb_of_node (pnode 0), s\<lparr>mem_block_pool := pnode 0, nxt := h\<rparr>) =
               Ok (mb_of_node (pnode 131072), s\<lparr>mem_block_pool := pnode 0, nxt := h'\<rparr>) \<and>
              clist h' (pnode 0) (pool_nodes 131072)"
proof -
  let ?b = "\<lambda>(tmp, s). Ok (tmp < mb_of_node (mem_block_pool s) + 0x100000)"
  let ?c = "\<lambda>(tmp, s). kbind (ListAdd (mem_block_pool s) (node_of_mb tmp) s) (\<lambda>s. Ok (tmp + 8, s))"
  let ?st = "\<lambda>i h. (mb_of_node (pnode i), s\<lparr>mem_block_pool := pnode 0, nxt := h\<rparr>)"
  have b: "?b (?st i h) = Ok (i < 131072)" if "i \<le> 131072" for i h
  proof -
    have "unat (mb_of_node (pnode 0) + 0x100000) = 0xc4000000"
      by (simp add: pnode_def mb_of_node_def)
    then show ?thesis
      using that by (auto simp: u32_less_iff_unat unat_pnode_mb)
  qed
  have next_tmp: "mb_of_node (pnode i) + 8 = mb_of_node (pnode (Suc i))" for i
    by (simp add: pnode_def mb_of_node_def algebra_simps)
  have c: "?c (?st i h) = Ok (?st (Suc i) (h(pnode 0 := pnode i, pnode i := h (pnode 0))))"
    if "i < 131072" for i h
    using that pnode_nonzero [of i] pnode_nonzero [of 0] by (simp add: ListAdd_Ok next_tmp)
  have clist_next: "clist (h(pnode 0 := pnode i, pnode i := h (pnode 0))) (pnode 0) (pool_nodes (Suc i))"
    if "clist h (pnode 0) (pool_nodes i)" "0 < i" "i < 131072" for i h
  proof -
    have "pnode i \<notin> set (pnode 0 # pool_nodes i)"
      using that by (auto simp: set_pool_nodes pnode_inj)
    then show ?thesis
      using clist_insert [of h "pnode 0" "[]" "pool_nodes i" "pnode i"] that pnode_nonzero [of i]
      by (simp add: pool_nodes_Suc)
  qed
  let ?P = "\<lambda>x. \<exists>i h. x = ?st i h \<and> 0 < i \<and> i \<le> 131072 \<and> clist h (pnode 0) (pool_nodes i)"
  have "\<exists>x'. kwhile ?b ?c (?st 1 h) = Ok x' \<and> ?P x' \<and> ?b x' = Ok False"
  proof (rule kwhile_rule [where m = "\<lambda>x. 0xc4000000 - unat (fst x)"])
    show "?P (?st 1 h)"
      using assms by (intro exI [of _ 1] exI [of _ h]) (simp add: pool_nodes_def)
  next
    fix x assume "?P x" "?b x = Ok True"
    then obtain i h where x: "x = ?st i h" "0 < i" "i \<le> 131072" "clist h (pnode 0) (pool_nodes i)"
      by blast
    with \<open>?b x = Ok True\<close> b have i: "i < 131072" by simp
    let ?h = "h(pnode 0 := pnode i, pnode i := h (pnode 0))"
    have "?P (?st (Suc i) ?h)"
      using clist_next [OF x(4,2) i] i by (intro exI [of _ "Suc i"] exI [of _ ?h]) simp
    moreover have "?c x = Ok (?st (Suc i) ?h)"
      unfolding x(1) by (rule c [OF i])
    moreover have "0xc4000000 - unat (mb_of_node (pnode (Suc i))) < 0xc4000000 - unat (mb_of_node (pnode i))"
      using i by (simp add: unat_pnode_mb)
    ultimately show "\<exists>x'. ?c x = Ok x' \<and> ?P x' \<and>
        0xc4000000 - unat (fst x') < 0xc4000000 - unat (fst x)"
      unfolding x(1) by (intro exI [of _ "?st (Suc i) ?h"] conjI) (assumption | simp only: fst_conv)+
  next
    fix x assume "?P x"
    then show "\<exists>t. ?b x = Ok t" by (cases x) auto
  qed
  then obtain i h' where fin: "kwhile ?b ?c (?st 1 h) = Ok (?st i h')" "i \<le> 131072"
      "clist h' (pnode 0) (pool_nodes i)" "?b (?st i h') = Ok False"
    by blast
  have "i = 131072"
    using fin(2,4) b [OF fin(2), of h'] by simp
  moreover have "kwhile ?b ?c (?st 0 h) = kwhile ?b ?c (?st 1 h)"
  proof -
    have "h(pnode 0 := pnode 0, pnode 0 := h (pnode 0)) = h" by simp
    then show ?thesis
      using b [of 0 h] c [of 0 h] by (intro kwhile_step) auto
  qed
  ultimately show ?thesis
    using fin by auto
qed

lemma MemBlockPoolInit_ok:
  "\<exists>h. MemBlockPoolInit (DirectMappingVirtualAddr (kDirectMappingSize - kNodePoolSize)) kNodePoolSize s =
       Ok (s\<lparr>mem_block_pool := pnode 0, nxt := h\<rparr>) \<and> clist h (pnode 0) (pool_nodes 131072)"
proof -
  have args: "DirectMappingVirtualAddr (kDirectMappingSize - kNodePoolSize) = mb_of_node (pnode 0)"
      "kNodePoolSize = 0x100000"
    by (simp_all add: mb_of_node_def DirectMappingVirtualAddr_def kDirectMappingSize_def
        kNodePoolSize_def kKVirtualAddr_def pnode_def)
  have "clist ((nxt s)(pnode 0 := pnode 0)) (pnode 0) []"
    using pnode_nonzero [of 0] by (simp add: clist_Nil)
  from pool_loop [OF this, of s] obtain h' where
    "kwhile (\<lambda>(tmp, s). Ok (tmp < mb_of_node (mem_block_pool s) + 0x100000))
       (\<lambda>(tmp, s). kbind (ListAdd (mem_block_pool s) (node_of_mb tmp) s) (\<lambda>s. Ok (tmp + 8, s)))
       (mb_of_node (pnode 0), s\<lparr>mem_block_pool := pnode 0, nxt := (nxt s)(pnode 0 := pnode 0)\<rparr>) =
     Ok (mb_of_node (pnode 131072), s\<lparr>mem_block_pool := pnode 0, nxt := h'\<rparr>)"
    "clist h' (pnode 0) (pool_nodes 131072)"
    by blast
  then show ?thesis
    using pnode_nonzero [of 0] unfolding args(1) unfolding args(2)
    by (auto simp: MemBlockPoolInit_def Let_def)
qed

section \<open>The list heads\<close>

definition lids_upto :: "nat \<Rightarrow> lid set" where
  "lids_upto i = insert Pool (FreeL ` {..<i} \<union> AllocL ` {..<i})"

definition only_pool :: "u32 list \<Rightarrow> lid \<Rightarrow> u32 list" where
  "only_pool ps = (\<lambda>k. if k = Pool then ps else [])"

lemma NewListHead_ok:
  assumes ok: "lists_ok (nxt s) K (lhead s) L" and k: "Pool \<in> K" and pool: "L Pool = p # ps" and p: "p \<noteq> 4"
  shows "\<exists>h. NewListHead s = Ok (p, s\<lparr>nxt := h\<rparr>) \<and> lists_ok h K (lhead s) (L(Pool := ps)) \<and>
    (\<forall>k\<in>K. p \<notin> nodes (lhead s) (L(Pool := ps)) k) \<and> h p = p \<and> p \<noteq> 0"
proof -
  let ?q = "mem_block_pool s"
  let ?h = "(nxt s)(?q := nxt s p, p := 0, p := p)"
  have cl: "clist (nxt s) ?q (p # ps)"
    using lists_okD [OF ok k] pool by simp
  then have q: "?q \<noteq> 0" "nxt s ?q = p" "p \<noteq> 0" "p \<noteq> ?q"
    by (auto simp: clist_def)
  have del: "lists_ok ((nxt s)(?q := nxt s p, p := 0)) K (lhead s) (L(Pool := ps))"
    using lists_ok_delete [OF ok k, of "[]" p ps 0] pool by simp
  have fresh: "p \<notin> nodes (lhead s) (L(Pool := ps)) k'" if "k' \<in> K" for k'
    using lists_ok_delete_fresh [OF ok k, of "[]" p ps k'] pool that by simp
  have "lists_ok ?h K (lhead s) (L(Pool := ps))"
    using lists_ok_upd_outside [OF del fresh] by blast
  moreover have "NewListHead s = Ok (p, s\<lparr>nxt := ?h\<rparr>)"
    using q p by (simp add: NewListHead_def ReqMemBlock_def IsListEmpty_Ok ListRemove_Ok)
  ultimately show ?thesis
    using fresh q(3) by (intro exI [of _ ?h]) auto
qed

definition heads_inv :: "'a dma_scheme \<Rightarrow> nat \<Rightarrow> 'a dma_scheme \<Rightarrow> bool" where
  "heads_inv s0 i s \<longleftrightarrow>
     lists_ok (nxt s) (lids_upto i) (lhead s) (only_pool (drop (2 * i) (pool_nodes 131072))) \<and>
     (\<forall>k\<in>lids_upto i. lhead s k \<in> pnode ` {..<131072}) \<and>
     length (free_mem_list s) = kMemBlockTypeNum \<and> length (allocated_mem_list s) = kMemBlockTypeNum \<and>
     mb_addr s = mb_addr s0 \<and> K_END s = K_END s0 \<and> dma.more s = dma.more s0"

lemma lids_upto_Suc: "lids_upto (Suc i) = insert (AllocL i) (insert (FreeL i) (lids_upto i))"
  by (auto simp: lids_upto_def less_Suc_eq)

lemma InitLists_step:
  assumes inv: "heads_inv s0 i s" and i: "i < kMemBlockTypeNum"
  shows "\<exists>s'. kbind (NewListHead s) (\<lambda>(f, s). kbind (set_free_head i f s) (\<lambda>s.
      kbind (NewListHead s) (\<lambda>(a, s). set_alloc_head i a s))) = Ok s' \<and> heads_inv s0 (Suc i) s'"
proof -
  let ?K = "lids_upto i" and ?P = "pool_nodes 131072"
  have len: "length ?P = 131071" by (simp add: pool_nodes_def)
  define f where "f = ?P ! (2 * i)"
  define a where "a = ?P ! (2 * i + 1)"
  have lt: "2 * i + 1 < length ?P"
    using i by (simp add: len kMemBlockTypeNum_def)
  have d: "drop (2 * i) ?P = f # drop (2 * i + 1) ?P" "drop (2 * i + 1) ?P = a # drop (2 * Suc i) ?P"
    using lt Cons_nth_drop_Suc [of "2 * i" ?P] Cons_nth_drop_Suc [of "2 * i + 1" ?P]
    by (simp_all add: f_def a_def)
  have fa: "f \<in> pnode ` {..<131072}" "a \<in> pnode ` {..<131072}"
    using lt nth_mem [of "2 * i" ?P] nth_mem [of "2 * i + 1" ?P]
    by (auto simp: f_def a_def set_pool_nodes)
  then have fa4: "f \<noteq> 4" "a \<noteq> 4"
    using pnode_nonzero by auto
  from inv have ok: "lists_ok (nxt s) ?K (lhead s) (only_pool (drop (2 * i) ?P))"
    and len2: "i < length (free_mem_list s)" "i < length (allocated_mem_list s)"
    using i by (auto simp: heads_inv_def)
  have op: "(only_pool xs)(Pool := ys) = only_pool ys" "(only_pool ys)(FreeL n := []) = only_pool ys"
      "(only_pool ys)(AllocL n := []) = only_pool ys" for xs ys n
    by (auto simp: only_pool_def)
  obtain h1 where h1: "NewListHead s = Ok (f, s\<lparr>nxt := h1\<rparr>)"
      "lists_ok h1 ?K (lhead s) (only_pool (drop (2 * i + 1) ?P))"
      "\<forall>k\<in>?K. f \<notin> nodes (lhead s) (only_pool (drop (2 * i + 1) ?P)) k" "h1 f = f" "f \<noteq> 0"
    using NewListHead_ok [OF ok, of f "drop (2 * i + 1) ?P"] d fa4 unfolding op
    by (auto simp: lids_upto_def only_pool_def)
  define s1 where "s1 = s\<lparr>nxt := h1, free_mem_list := (free_mem_list s)[i := f]\<rparr>"
  have head1: "lhead s1 k = lhead s k" if "k \<in> ?K" for k
    using that by (auto simp: s1_def lids_upto_def)
  have "lists_ok h1 (insert (FreeL i) ?K) (lhead s1) ((only_pool (drop (2 * i + 1) ?P))(FreeL i := []))"
    using h1 head1 len2 by (intro lists_ok_new [OF h1(2)]) (auto simp: s1_def lids_upto_def)
  then have ok1: "lists_ok (nxt s1) (insert (FreeL i) ?K) (lhead s1) (only_pool (drop (2 * i + 1) ?P))"
    by (simp add: op s1_def)
  obtain h2 where h2: "NewListHead s1 = Ok (a, s1\<lparr>nxt := h2\<rparr>)"
      "lists_ok h2 (insert (FreeL i) ?K) (lhead s1) (only_pool (drop (2 * Suc i) ?P))"
      "\<forall>k\<in>insert (FreeL i) ?K. a \<notin> nodes (lhead s1) (only_pool (drop (2 * Suc i) ?P)) k" "h2 a = a" "a \<noteq> 0"
    using NewListHead_ok [OF ok1, of a "drop (2 * Suc i) ?P"] d fa4 unfolding op
    by (auto simp: lids_upto_def only_pool_def)
  define s2 where "s2 = s1\<lparr>nxt := h2, allocated_mem_list := (allocated_mem_list s1)[i := a]\<rparr>"
  have head2: "lhead s2 k = lhead s1 k" if "k \<in> insert (FreeL i) ?K" for k
    using that by (auto simp: s2_def lids_upto_def)
  have "lists_ok h2 (lids_upto (Suc i)) (lhead s2) ((only_pool (drop (2 * Suc i) ?P))(AllocL i := []))"
    unfolding lids_upto_Suc using h2 head2 len2
    by (intro lists_ok_new [OF h2(2)]) (auto simp: s2_def s1_def lids_upto_def)
  then have ok2: "lists_ok (nxt s2) (lids_upto (Suc i)) (lhead s2) (only_pool (drop (2 * Suc i) ?P))"
    by (simp add: op s2_def)
  have "lhead s2 k \<in> pnode ` {..<131072}" if "k \<in> lids_upto (Suc i)" for k
    using that inv head1 head2 fa len2 unfolding lids_upto_Suc heads_inv_def
    by (auto simp: s2_def s1_def)
  then have "heads_inv s0 (Suc i) s2"
    using ok2 inv by (auto simp: heads_inv_def s2_def s1_def)
  moreover have "set_free_head i f (s\<lparr>nxt := h1\<rparr>) = Ok s1" "set_alloc_head i a (s1\<lparr>nxt := h2\<rparr>) = Ok s2"
    using len2 by (auto simp: set_free_head_def set_alloc_head_def s1_def s2_def)
  ultimately show ?thesis
    using h1(1) h2(1) by simp
qed

lemma InitLists_ok: "heads_inv s0 0 s \<Longrightarrow> \<exists>s'. InitLists s = Ok s' \<and> heads_inv s0 kMemBlockTypeNum s'"
  unfolding InitLists_def
  by (rule for_up_rule [where P = "heads_inv s0" and i = 0, simplified]) (auto intro: InitLists_step)

section \<open>Filling the free lists\<close>

lemma tiles_add:
  assumes "tiles I B U" "I' c \<inter> U = {}" "\<And>x. x \<in> B \<Longrightarrow> I' x = I x" "c \<notin> B"
  shows "tiles I' (insert c B) (U \<union> I' c)"
proof -
  have sub: "I' x \<subseteq> U" if "x \<in> B" for x
    using assms(1,3) that by (auto simp: tiles_def)
  have "I' x \<inter> I' y = {}" if "x \<in> insert c B" "y \<in> insert c B" "x \<noteq> y" for x y
    using that assms sub unfolding tiles_def by (metis Int_commute disjoint_iff insertE subsetD)
  moreover have "\<Union>(I' ` insert c B) = U \<union> I' c"
    using assms(1,3) by (auto simp: tiles_def)
  ultimately show ?thesis
    unfolding tiles_def by blast
qed

definition arena_prefix :: "nat \<Rightarrow> nat set" where
  "arena_prefix i = {0xc0000000 ..< 0xc0000000 + i}"

definition fill_inv :: "nat \<Rightarrow> nat \<Rightarrow> 'a dma_scheme \<Rightarrow> (lid \<Rightarrow> u32 list) \<Rightarrow> bool" where
  "fill_inv j i s L \<longleftrightarrow>
     dma_wf s L \<and> tiles (span s) (blocks L) (arena_prefix i) \<and> srt {} s L \<and>
     i \<le> 0x3f00000 \<and> 0x3f00000 - i < 2 ^ j \<and> (\<forall>u<j. L (FreeL u) = []) \<and>
     130000 + j \<le> length (L Pool)"

text \<open>
  A node from the pool becomes the only node of the list \<open>k\<close> of size type \<open>j\<close>, for a block at
  \<open>a\<close> next to the part of the arena divided so far.
\<close>

lemma add_block_heap:
  assumes wf: "dma_wf s L" and pool: "L Pool = p # ps" and k: "k \<in> lids" "k \<noteq> Pool"
  shows "\<exists>h1 s2 h2. ReqMemBlock s = Ok (mb_of_node p, s\<lparr>nxt := h1\<rparr>) \<and>
    set_mb_addr (mb_of_node p) a (s\<lparr>nxt := h1\<rparr>) = Ok s2 \<and> dma_wf s2 (L(Pool := ps)) \<and>
    lhead s2 = lhead s \<and> ListAdd (lhead s k) p s2 = Ok (s2\<lparr>nxt := h2\<rparr>) \<and>
    dma_wf (s2\<lparr>nxt := h2\<rparr>) (L(Pool := ps, k := p # L k)) \<and>
    dma_frame s L (s2\<lparr>nxt := h2\<rparr>) (L(Pool := ps, k := p # L k)) \<and> baddr s2 = (baddr s)(p := a)"
proof -
  define L1 where "L1 = L(Pool := ps)"
  obtain h1 where h1: "ReqMemBlock s = Ok (mb_of_node p, s\<lparr>nxt := h1\<rparr>)" "dma_wf (s\<lparr>nxt := h1\<rparr>) L1"
      "p \<notin> footprint s L1" "insert p (footprint s L1) = footprint s L"
      "\<forall>x. x \<notin> footprint s L \<longrightarrow> h1 x = nxt s x"
    using dma_ReqMemBlock [OF wf pool] unfolding L1_def by blast
  have p0: "p \<noteq> 0" "p \<noteq> 4"
    using dma_wf_member [OF wf, of Pool p] pool by auto
  define s2 where "s2 = s\<lparr>nxt := h1, mb_addr := (mb_addr s)(mb_of_node p := a)\<rparr>"
  have s2: "dma_wf s2 L1" "footprint s2 = footprint s" "lhead s2 = lhead s" "nxt s2 = h1"
    using h1(2) by (auto simp: s2_def fun_eq_iff)
  obtain h2 where h2: "ListAdd (lhead s k) p s2 = Ok (s2\<lparr>nxt := h2\<rparr>)"
      "dma_wf (s2\<lparr>nxt := h2\<rparr>) (L1(k := p # L1 k))" "footprint s (L1(k := p # L1 k)) = insert p (footprint s L1)"
      "\<forall>x. x \<notin> insert p (footprint s L1) \<longrightarrow> h2 x = h1 x"
    using dma_ListAdd_front [OF s2(1) k(1), of p] p0 h1(3) s2(2-4) by fastforce
  have L1k: "L1 k = L k" using k(2) by (simp add: L1_def)
  have "dma_frame s L (s2\<lparr>nxt := h2\<rparr>) (L1(k := p # L k))"
    unfolding dma_frame_def using h1(4,5) h2(3,4) by (auto simp: s2_def L1k)
  moreover have "set_mb_addr (mb_of_node p) a (s\<lparr>nxt := h1\<rparr>) = Ok s2"
    using p0 by (simp add: set_mb_addr_def s2_def)
  moreover have "baddr s2 = (baddr s)(p := a)"
    by (auto simp: baddr_def s2_def fun_eq_iff)
  ultimately show ?thesis
    using h1(1) h2(1,2) s2(1,3) unfolding L1_def L1k [unfolded L1_def]
    by (intro exI [of _ h1] exI [of _ s2] exI [of _ h2]) simp
qed

lemma add_block_tiles:
  assumes wf: "dma_wf s L" and pool: "L Pool = p # ps" and j: "j < kMemBlockTypeNum"
    and k: "k = FreeL j \<or> k = AllocL j"
    and til: "tiles (span s) (blocks L) (arena_prefix i)" and a: "unat a = 0xc0000000 + i"
    and ba: "baddr s' = (baddr s)(p := a)"
  shows "tiles (span s') (blocks (L(Pool := ps, k := p # L k))) (arena_prefix (i + 2 ^ j))"
proof -
  have pool': "p \<notin> set (L k)" if "k \<in> lids" "k \<noteq> Pool" for k
    using dma_wf_unique_list [OF wf, of Pool k p] pool that by auto
  have notin: "(p, t) \<notin> blocks L" for t
    using pool' [of "FreeL t"] pool' [of "AllocL t"] by (auto simp: blocks_def)
  have "blocks (L(Pool := ps, k := p # L k)) = insert (p, j) (blocks L)"
    using k j unfolding blocks_def by (auto split: if_splits)
  moreover have sp: "span s' (p, j) = {0xc0000000 + i ..< 0xc0000000 + i + 2 ^ j}"
    by (simp add: span_def region_def ba a)
  moreover have "tiles (span s') (insert (p, j) (blocks L)) (arena_prefix i \<union> span s' (p, j))"
  proof (rule tiles_add [OF til])
    show "span s' (p, j) \<inter> arena_prefix i = {}"
      by (auto simp: sp arena_prefix_def)
    show "span s' x = span s x" if "x \<in> blocks L" for x
      using that notin by (cases x) (auto simp: span_def ba)
  qed (rule notin)
  moreover have "arena_prefix i \<union> {0xc0000000 + i ..< 0xc0000000 + i + 2 ^ j} = arena_prefix (i + 2 ^ j)"
    by (auto simp: arena_prefix_def)
  ultimately show ?thesis
    by simp
qed

lemma add_block_lists:
  assumes wf: "dma_wf s L" and pool: "L Pool = p # ps" and k: "L k = []"
    and srt: "srt {} s L" and ba: "baddr s' = (baddr s)(p := a)"
  shows "srt {} s' (L(Pool := ps, k := p # L k))"
    and "k = FreeL j \<Longrightarrow> live s' (L(Pool := ps, k := p # L k)) = live s L"
proof -
  let ?L' = "L(Pool := ps, k := p # L k)"
  have same: "map (baddr s') (L k) = map (baddr s) (L k)" if "k \<in> lids" "k \<noteq> Pool" for k
    using dma_wf_unique_list [OF wf, of Pool k p] pool that by (auto simp: ba)
  show "srt {} s' ?L'"
  proof (rule srt_cong [OF srt])
    fix t assume t: "t < kMemBlockTypeNum"
    show "map (baddr s') (?L' (FreeL t)) = map (baddr s) (L (FreeL t)) \<and> t \<notin> {} \<or>
        sorted (map (baddr s') (?L' (FreeL t)))"
      using same [of "FreeL t"] t k by (cases "k = FreeL t") (simp_all del: map_eq_conv)
    show "map (baddr s') (?L' (AllocL t)) = map (baddr s) (L (AllocL t)) \<or>
        sorted (map (baddr s') (?L' (AllocL t)))"
      using same [of "AllocL t"] t k by (cases "k = AllocL t") (simp_all del: map_eq_conv)
  qed
  show "live s' ?L' = live s L" if "k = FreeL j"
    by (rule live_cong) (use same that in \<open>simp del: map_eq_conv\<close>)
qed

text \<open>One turn of the inner loop.\<close>

lemma FillLevel_body:
  assumes inv: "fill_inv (Suc j) (unat i) s L" and j: "j < kMemBlockTypeNum"
    and fits: "unat i + 2 ^ j \<le> 0x3f00000"
  shows "\<exists>s' L'. kbind (ReqMemBlock s) (\<lambda>(new_block, s).
               kbind (set_mb_addr new_block (DirectMappingVirtualAddr i) s) (\<lambda>s.
               kbind (free_head j s) (\<lambda>head.
               kbind (ListAdd head (node_of_mb new_block) s) (\<lambda>s.
               kbind (GetMemBlockSize j) (\<lambda>sz.
               Ok (i + sz, s)))))) = Ok (i + 2 ^ j, s') \<and>
           fill_inv j (unat i + 2 ^ j) s' L' \<and> dma_frame s L s' L' \<and> live s' L' = live s L \<and>
           L' (FreeL j) \<noteq> [] \<and> (\<forall>u > j. L' (FreeL u) = L (FreeL u))"
proof -
  have wf: "dma_wf s L" and til: "tiles (span s) (blocks L) (arena_prefix (unat i))" and srt: "srt {} s L"
    and Fj: "\<forall>u \<le> j. L (FreeL u) = []" and len: "130000 + Suc j \<le> length (L Pool)"
    and rem: "0x3f00000 - unat i < 2 * 2 ^ j"
    using inv by (auto simp: fill_inv_def)
  obtain p ps where p: "L Pool = p # ps"
    using len by (cases "L Pool") auto
  define a where "a = DirectMappingVirtualAddr i"
  have a: "unat a = 0xc0000000 + unat i"
    unfolding a_def DirectMappingVirtualAddr_def kKVirtualAddr_def using fits
    by (subst unat_add_u32_small) auto
  let ?L' = "L(Pool := ps, FreeL j := p # L (FreeL j))"
  obtain h1 s2 h2 where h: "ReqMemBlock s = Ok (mb_of_node p, s\<lparr>nxt := h1\<rparr>)"
      "set_mb_addr (mb_of_node p) a (s\<lparr>nxt := h1\<rparr>) = Ok s2" "dma_wf s2 (L(Pool := ps))"
      "lhead s2 = lhead s" "ListAdd (lhead s (FreeL j)) p s2 = Ok (s2\<lparr>nxt := h2\<rparr>)"
      "dma_wf (s2\<lparr>nxt := h2\<rparr>) ?L'" "dma_frame s L (s2\<lparr>nxt := h2\<rparr>) ?L'"
      "baddr s2 = (baddr s)(p := a)"
    using add_block_heap [OF wf p, of "FreeL j" a] j by auto
  have ba: "baddr (s2\<lparr>nxt := h2\<rparr>) = (baddr s)(p := a)"
    using h(8) by simp
  have "tiles (span (s2\<lparr>nxt := h2\<rparr>)) (blocks ?L') (arena_prefix (unat i + 2 ^ j))"
    using add_block_tiles [OF wf p j _ til a ba] by simp
  moreover have "srt {} (s2\<lparr>nxt := h2\<rparr>) ?L'" "live (s2\<lparr>nxt := h2\<rparr>) ?L' = live s L"
    using add_block_lists [OF wf p, of "FreeL j", OF _ srt ba] Fj by auto
  moreover have "\<forall>u<j. ?L' (FreeL u) = []" "130000 + j \<le> length (?L' Pool)"
    using Fj len p by auto
  ultimately have "fill_inv j (unat i + 2 ^ j) (s2\<lparr>nxt := h2\<rparr>) ?L'" "live (s2\<lparr>nxt := h2\<rparr>) ?L' = live s L"
    using h(6) fits rem by (auto simp: fill_inv_def)
  moreover have "free_head j s2 = Ok (lhead s (FreeL j))" "j < 32"
    using free_head_Ok [OF h(3) j] h(4) j by (auto simp: kMemBlockTypeNum_def)
  ultimately show ?thesis
    using h(1,2,5,7) a_def by (intro exI [of _ "s2\<lparr>nxt := h2\<rparr>"] exI [of _ ?L']) (simp del: lhead.simps)
qed

lemma FillLevel_ok:
  assumes inv: "fill_inv (Suc j) (unat i) s L" and j: "j < kMemBlockTypeNum"
  shows "\<exists>i' s' L'. FillLevel j (i, s) = Ok (i', s') \<and> fill_inv j (unat i') s' L' \<and>
           dma_frame s L s' L' \<and> live s' L' = live s L \<and>
           (unat i + 2 ^ j \<le> 0x3f00000 \<longrightarrow> L' (FreeL j) \<noteq> []) \<and> (\<forall>u > j. L' (FreeL u) = L (FreeL u))"
proof -
  have j32: "j < 32" "(2 :: nat) ^ j \<le> 2 ^ 25"
    using j by (simp add: kMemBlockTypeNum_def) (intro power_increasing, use j in \<open>auto simp: kMemBlockTypeNum_def\<close>)
  have lim: "i + 2 ^ j \<le> FillLimit \<longleftrightarrow> unat i + 2 ^ j \<le> 0x3f00000" if "unat i \<le> 0x3f00000" for i
    using j32 that unat_add_u32_small [of i "2 ^ j"]
    by (simp add: u32_le_iff_unat FillLimit_def kDirectMappingSize_def kNodePoolSize_def)
  have i: "unat i \<le> 0x3f00000" "0x3f00000 - unat i < 2 * 2 ^ j"
    using inv by (auto simp: fill_inv_def)
  show ?thesis
  proof (cases "unat i + 2 ^ j \<le> 0x3f00000")
    case True
    from FillLevel_body [OF inv j True] obtain s' L' where b:
      "kbind (ReqMemBlock s) (\<lambda>(new_block, s).
               kbind (set_mb_addr new_block (DirectMappingVirtualAddr i) s) (\<lambda>s.
               kbind (free_head j s) (\<lambda>head.
               kbind (ListAdd head (node_of_mb new_block) s) (\<lambda>s.
               kbind (GetMemBlockSize j) (\<lambda>sz.
               Ok (i + sz, s)))))) = Ok (i + 2 ^ j, s')"
      "fill_inv j (unat i + 2 ^ j) s' L'" "dma_frame s L s' L'" "live s' L' = live s L"
      "L' (FreeL j) \<noteq> []" "\<forall>u > j. L' (FreeL u) = L (FreeL u)"
      by blast
    have u: "unat (i + 2 ^ j) = unat i + 2 ^ j"
      using True j32 by (subst unat_add_u32_small) auto
    have "FillLevel j (i, s) = FillLevel j (i + 2 ^ j, s')"
      unfolding FillLevel_def using lim [OF i(1)] True j32 b(1) by (intro kwhile_step) simp_all
    also have "\<dots> = Ok (i + 2 ^ j, s')"
      unfolding FillLevel_def using lim [of "i + 2 ^ j"] True i(2) j32 u by (intro kwhile_stop) simp
    finally show ?thesis
      using b(2-6) u by auto
  next
    case False
    then have "FillLevel j (i, s) = Ok (i, s)"
      unfolding FillLevel_def using lim [OF i(1)] j32 by (intro kwhile_stop) simp
    moreover have "fill_inv j (unat i) s L"
      using inv False by (auto simp: fill_inv_def)
    ultimately show ?thesis using False by (intro exI [of _ i] exI [of _ s] exI [of _ L]) simp
  qed
qed

lemma FillFree_ok:
  assumes inv: "fill_inv kMemBlockTypeNum (unat i) s L"
  shows "\<exists>s' L'. FillFree i s = Ok s' \<and> dma_inv s' L' \<and> dma_frame s L s' L' \<and> live s' L' = live s L \<and>
           130000 \<le> length (L' Pool) \<and> (unat i \<le> 2 ^ 24 \<longrightarrow> L' (FreeL 25) \<noteq> [])"
proof -
  let ?b = "\<lambda>(j, i, s :: 'a dma_scheme). Ok ((0 :: int) \<le> j \<and> i < FillLimit)"
  let ?c = "\<lambda>(j, i, s). kbind (FillLevel (nat j) (i, s)) (\<lambda>(i, s). Ok (j - 1, i, s))"
  let ?P = "\<lambda>(j :: int, i', s'). -1 \<le> j \<and> j < int kMemBlockTypeNum \<and>
    (\<exists>L'. fill_inv (nat (j + 1)) (unat i') s' L' \<and> dma_frame s L s' L' \<and> live s' L' = live s L \<and>
      (if j = 25 then unat i' = unat i else unat i \<le> 2 ^ 24 \<longrightarrow> L' (FreeL 25) \<noteq> []))"
  have "\<exists>x. kwhile ?b ?c (int kMemBlockTypeNum - 1, i, s) = Ok x \<and> ?P x \<and> ?b x = Ok False"
  proof (rule kwhile_rule [where m = "\<lambda>(j, i, s). nat (j + 1)"])
    show "?P (int kMemBlockTypeNum - 1, i, s)"
      using inv by (auto simp: kMemBlockTypeNum_def)
  next
    fix x assume P: "?P x" and b: "?b x = Ok True"
    obtain j i1 s1 where x: "x = (j, i1, s1)" by (cases x)
    from P x obtain L1 where L1: "fill_inv (nat (j + 1)) (unat i1) s1 L1" "dma_frame s L s1 L1"
        "live s1 L1 = live s L" "j < int kMemBlockTypeNum"
        "if j = 25 then unat i1 = unat i else unat i \<le> 2 ^ 24 \<longrightarrow> L1 (FreeL 25) \<noteq> []" by auto
    have j: "0 \<le> j" "nat (j + 1) = Suc (nat j)" "nat j < kMemBlockTypeNum"
      using b x L1(4) by auto
    from FillLevel_ok [OF L1(1) [unfolded j(2)] j(3)] obtain i2 s2 L2 where
      l: "FillLevel (nat j) (i1, s1) = Ok (i2, s2)" "fill_inv (nat j) (unat i2) s2 L2"
         "dma_frame s1 L1 s2 L2" "live s2 L2 = live s1 L1"
         "unat i1 + 2 ^ nat j \<le> 0x3f00000 \<longrightarrow> L2 (FreeL (nat j)) \<noteq> []"
         "\<forall>u > nat j. L2 (FreeL u) = L1 (FreeL u)" by blast
    have "unat i \<le> 2 ^ 24 \<longrightarrow> L2 (FreeL 25) \<noteq> []"
    proof (cases "j = 25")
      case True
      then show ?thesis using L1(5) l(5) by auto
    next
      case False
      then have "nat j < 25" using j(3) by (auto simp: kMemBlockTypeNum_def)
      then show ?thesis using False L1(5) l(6) by auto
    qed
    then have "?P (j - 1, i2, s2)"
      using l(2,4) L1(3,4) j dma_frame_trans [OF L1(2) l(3)] by (auto simp: kMemBlockTypeNum_def)
    then show "\<exists>x'. ?c x = Ok x' \<and> ?P x' \<and> (\<lambda>(j, i, s). nat (j + 1)) x' < (\<lambda>(j, i, s). nat (j + 1)) x"
      using l(1) j by (intro exI [of _ "(j - 1, i2, s2)"]) (auto simp: x)
  qed auto
  then obtain j i1 s1 L1 where r: "kwhile ?b ?c (int kMemBlockTypeNum - 1, i, s) = Ok (j, i1, s1)"
      "fill_inv (nat (j + 1)) (unat i1) s1 L1" "dma_frame s L s1 L1" "live s1 L1 = live s L"
      "-1 \<le> j" "\<not> (0 \<le> j \<and> i1 < FillLimit)"
      "if j = 25 then unat i1 = unat i else unat i \<le> 2 ^ 24 \<longrightarrow> L1 (FreeL 25) \<noteq> []"
    by auto
  have fl: "unat FillLimit = 0x3f00000"
    by (simp add: FillLimit_def kDirectMappingSize_def kNodePoolSize_def)
  have "unat i1 = 0x3f00000"
  proof (cases "0 \<le> j")
    case True
    then show ?thesis
      using r(2,6) fl by (auto simp: fill_inv_def u32_less_iff_unat)
  next
    case False
    then have "j = -1" using r(5) by simp
    with r(2) show ?thesis by (auto simp: fill_inv_def)
  qed
  then have "dma_inv s1 L1" "130000 \<le> length (L1 Pool)"
    using r(2) by (auto simp: fill_inv_def dma_inv_def tiled_def arena_prefix_def arena_def)
  moreover have "FillFree i s = Ok s1"
    using r(1) by (simp add: FillFree_def)
  moreover have "unat i \<le> 2 ^ 24 \<longrightarrow> L1 (FreeL 25) \<noteq> []"
    using r(7) \<open>unat i1 = 0x3f00000\<close> by (auto split: if_splits)
  ultimately show ?thesis
    using r(3,4) by blast
qed

section \<open>The whole initialisation\<close>

lemma heads_inv_start:
  assumes "length (free_mem_list s) = kMemBlockTypeNum" "length (allocated_mem_list s) = kMemBlockTypeNum"
    and "clist h (pnode 0) (pool_nodes 131072)"
  shows "heads_inv s 0 (s\<lparr>mem_block_pool := pnode 0, nxt := h\<rparr>)"
  using assms by (auto simp: heads_inv_def lists_ok_def lids_upto_def only_pool_def)

lemma heads_inv_footprint:
  assumes "heads_inv s0 kMemBlockTypeNum s"
  shows "footprint s (only_pool (drop 52 (pool_nodes 131072))) \<subseteq> pnode ` {..<131072}"
proof
  fix n assume "n \<in> footprint s (only_pool (drop 52 (pool_nodes 131072)))"
  then obtain k where k: "k \<in> lids" "n \<in> nodes (lhead s) (only_pool (drop 52 (pool_nodes 131072))) k"
    by (auto simp: footprint_def)
  have l: "lids_upto kMemBlockTypeNum = lids"
    by (simp add: lids_upto_def lids_def)
  show "n \<in> pnode ` {..<131072}"
  proof (cases "n = lhead s k")
    case True
    then show ?thesis using assms k(1) l by (auto simp: heads_inv_def)
  next
    case False
    then have "n \<in> set (drop 52 (pool_nodes 131072))"
      using k(2) by (auto simp: nodes_def only_pool_def split: if_splits)
    then show ?thesis
      using set_drop_subset [of 52 "pool_nodes 131072"] by (auto simp: set_pool_nodes)
  qed
qed

lemma heads_inv_end:
  assumes "heads_inv s0 kMemBlockTypeNum s"
  shows "dma_wf s (only_pool (drop 52 (pool_nodes 131072)))"
proof -
  have l: "lids_upto kMemBlockTypeNum = lids"
    by (simp add: lids_upto_def lids_def)
  have "4 \<notin> pnode ` {..<131072}"
    using pnode_nonzero by fastforce
  then have "4 \<notin> footprint s (only_pool (drop 52 (pool_nodes 131072)))"
    using heads_inv_footprint [OF assms] by blast
  then show ?thesis
    using assms l by (auto simp: dma_wf_def heads_inv_def kMemBlockTypeNum_def)
qed

lemma pnode_outside_arena: "i < 131072 \<Longrightarrow> unat (pnode i) \<notin> arena"
  by (simp add: unat_pnode arena_def)

lemma DirectMappingInit_ok:
  assumes len: "length (free_mem_list s) = kMemBlockTypeNum" "length (allocated_mem_list s) = kMemBlockTypeNum"
    and ke: "K_END s \<noteq> 0" "unat (K_END s) \<le> 2 ^ 25"
  shows "\<exists>s' L. DirectMappingInit s = Ok s' \<and> dma_inv s' L \<and>
    live s' L = {(kKVirtualAddr, block_order (K_END s))} \<and> 130000 \<le> length (L Pool) \<and>
    (\<forall>n\<in>footprint s' L. unat n \<notin> arena) \<and> K_END s' = K_END s \<and> dma.more s' = dma.more s \<and>
    (unat (K_END s) \<le> 2 ^ 24 \<longrightarrow> L (FreeL 25) \<noteq> [])"
proof -
  let ?t = "block_order (K_END s)"
  have t: "?t < kMemBlockTypeNum" "?t < 32"
    using block_order_less_26 [OF ke(2)] by (auto simp: kMemBlockTypeNum_def)
  have t25: "(2 :: nat) ^ ?t \<le> 2 ^ 25"
    using t by (intro power_increasing) (auto simp: kMemBlockTypeNum_def)
  obtain h0 where h0: "MemBlockPoolInit (DirectMappingVirtualAddr (kDirectMappingSize - kNodePoolSize))
      kNodePoolSize s = Ok (s\<lparr>mem_block_pool := pnode 0, nxt := h0\<rparr>)" "clist h0 (pnode 0) (pool_nodes 131072)"
    using MemBlockPoolInit_ok by blast
  obtain s1 where s1: "InitLists (s\<lparr>mem_block_pool := pnode 0, nxt := h0\<rparr>) = Ok s1"
      "heads_inv s kMemBlockTypeNum s1"
    using InitLists_ok [OF heads_inv_start [OF len h0(2)]] by blast
  define L where "L = only_pool (drop 52 (pool_nodes 131072))"
  have wf: "dma_wf s1 L" and same: "K_END s1 = K_END s" "dma.more s1 = dma.more s"
    using heads_inv_end [OF s1(2)] s1(2) by (auto simp: L_def heads_inv_def)
  have pl: "length (L Pool) = 131019"
    by (simp add: L_def only_pool_def pool_nodes_def)
  then obtain p ps where p: "L Pool = p # ps"
    by (cases "L Pool") auto
  have empty: "L (FreeL u) = []" "L (AllocL u) = []" for u
    by (simp_all add: L_def only_pool_def)
  let ?L' = "L(Pool := ps, AllocL ?t := p # L (AllocL ?t))"
  obtain h1 s2 h2 where h: "ReqMemBlock s1 = Ok (mb_of_node p, s1\<lparr>nxt := h1\<rparr>)"
      "set_mb_addr (mb_of_node p) kKVirtualAddr (s1\<lparr>nxt := h1\<rparr>) = Ok s2" "dma_wf s2 (L(Pool := ps))"
      "lhead s2 = lhead s1" "ListAdd (lhead s1 (AllocL ?t)) p s2 = Ok (s2\<lparr>nxt := h2\<rparr>)"
      "dma_wf (s2\<lparr>nxt := h2\<rparr>) ?L'" "dma_frame s1 L (s2\<lparr>nxt := h2\<rparr>) ?L'"
      "baddr s2 = (baddr s1)(p := kKVirtualAddr)"
    using add_block_heap [OF wf p, of "AllocL ?t" kKVirtualAddr] t by auto
  let ?s3 = "s2\<lparr>nxt := h2\<rparr>"
  have ba: "baddr ?s3 = (baddr s1)(p := kKVirtualAddr)"
    using h(8) by simp
  have "tiles (span s1) (blocks L) (arena_prefix 0)"
    using empty by (auto simp: tiles_def blocks_def arena_prefix_def)
  then have "tiles (span ?s3) (blocks ?L') (arena_prefix (0 + 2 ^ ?t))"
    by (intro add_block_tiles [OF wf p t(1) _ _ _ ba]) (auto simp: kKVirtualAddr_def)
  moreover have "srt {} ?s3 ?L'"
    using empty by (intro add_block_lists(1) [OF wf p _ _ ba]) (auto simp: srt_def)
  ultimately have "fill_inv kMemBlockTypeNum (unat (2 ^ ?t :: u32)) ?s3 ?L'"
    using h(6) t t25 pl p empty by (auto simp: fill_inv_def kMemBlockTypeNum_def)
  from FillFree_ok [OF this] obtain s' L'' where f: "FillFree (2 ^ ?t) ?s3 = Ok s'" "dma_inv s' L''"
      "dma_frame ?s3 ?L' s' L''" "live s' L'' = live ?s3 ?L'" "130000 \<le> length (L'' Pool)"
      "unat (2 ^ ?t :: u32) \<le> 2 ^ 24 \<longrightarrow> L'' (FreeL 25) \<noteq> []"
    by blast
  have "unat (K_END s) \<le> 2 ^ 24 \<Longrightarrow> ?t \<le> 24"
    unfolding block_order_def by (rule Least_le)
  then have "unat (K_END s) \<le> 2 ^ 24 \<longrightarrow> L'' (FreeL 25) \<noteq> []"
    using f(6) t(2) by (auto dest!: power_increasing [of _ 24 "2 :: nat"])
  moreover have "live ?s3 ?L' = {(kKVirtualAddr, ?t)}"
    using empty t h(8) by (auto simp: live_def split: if_splits)
  moreover have "alloc_head ?t s2 = Ok (lhead s1 (AllocL ?t))"
    using alloc_head_Ok [OF h(3) t(1)] h(4) by simp
  then have "DirectMappingInit s = Ok s'"
    using h0(1) s1(1) same(1) h(1,2,5) f(1) GetMemBlockSizeType_class [OF ke(1)] t(2)
    by (simp add: DirectMappingInit_def del: lhead.simps)
  moreover have "footprint s' L'' = footprint s1 L" "K_END s' = K_END s" "dma.more s' = dma.more s"
    using dma_frame_trans [OF h(7) f(3)] same by (auto simp: dma_frame_def)
  moreover have "\<forall>n\<in>footprint s1 L. unat n \<notin> arena"
    using heads_inv_footprint [OF s1(2)] pnode_outside_arena by (auto simp: L_def)
  ultimately show ?thesis
    using f(2,4,5) by auto
qed

end
