(* ===== verification/AllocReq.thy ===== *)
theory AllocReq
  imports AllocInv
begin

text \<open>
  \<^verbatim>\<open>DivBlock\<close> and \<^verbatim>\<open>ReqBytes\<close> keep the allocator's invariant and do what they promise.
\<close>

lemma baddr_set_mb_addr:
  "baddr (s\<lparr>mb_addr := (mb_addr s)(mb_of_node p := a)\<rparr>) = (baddr s)(p := a)"
  by (auto simp: baddr_def fun_eq_iff)

section \<open>Dividing one block\<close>

lemma DivBlock_hit_heap:
  assumes wf: "dma_wf s L" and k: "Suc k < kMemBlockTypeNum"
    and L: "L (FreeL (Suc k)) = n1 # rest" "L Pool = p # ps"
  defines "L' \<equiv> L(FreeL (Suc k) := rest, Pool := ps, FreeL k := p # n1 # L (FreeL k))"
  shows "\<exists>s'. DivBlock (Suc k) s = Ok (True, s') \<and> dma_wf s' L' \<and> dma_frame s L s' L' \<and>
    baddr s' = (baddr s)(p := baddr s n1 + 2 ^ k)"
proof -
  define L1 where "L1 = L(FreeL (Suc k) := rest)"
  define L2 where "L2 = L1(Pool := ps)"
  define L3 where "L3 = L2(FreeL k := n1 # L2 (FreeL k))"
  have L': "L' = L3(FreeL k := p # L3 (FreeL k))"
    by (simp add: L'_def L3_def L2_def L1_def)
  obtain h1 where h1: "ListRemove (lhead s (FreeL (Suc k))) s = Ok (n1, s\<lparr>nxt := h1\<rparr>)"
      "dma_wf (s\<lparr>nxt := h1\<rparr>) L1" "n1 \<notin> footprint s L1"
      "insert n1 (footprint s L1) = footprint s L" "\<forall>x. x \<notin> footprint s L \<longrightarrow> h1 x = nxt s x"
    using dma_ListRemove_front [OF wf _ L(1)] k unfolding L1_def by auto
  have "L1 Pool = p # ps"
    using L(2) by (simp add: L1_def)
  then obtain h2 where h2: "ReqMemBlock (s\<lparr>nxt := h1\<rparr>) = Ok (mb_of_node p, s\<lparr>nxt := h2\<rparr>)"
      "dma_wf (s\<lparr>nxt := h2\<rparr>) L2" "p \<notin> footprint s L2"
      "insert p (footprint s L2) = footprint s L1" "\<forall>x. x \<notin> footprint s L1 \<longrightarrow> h2 x = h1 x"
    using dma_ReqMemBlock [OF h1(2)] unfolding L2_def by auto
  have n1: "n1 \<noteq> 0" "n1 \<noteq> 4" and p: "p \<noteq> 0" "p \<noteq> 4"
    using dma_wf_member [OF wf, of "FreeL (Suc k)" n1] dma_wf_member [OF wf, of Pool p] L k by auto
  define a where "a = baddr s n1 + 2 ^ k"
  define s3 where "s3 = s\<lparr>nxt := h2, mb_addr := (mb_addr s)(mb_of_node p := a)\<rparr>"
  have s3: "dma_wf s3 L2" "footprint s3 = footprint s" "lhead s3 = lhead s" "nxt s3 = h2"
    using h2(2) by (auto simp: s3_def fun_eq_iff)
  have "n1 \<notin> footprint s3 L2"
    using h1(3) h2(4) s3(2) by auto
  then obtain h3 where h3: "ListAdd (lhead s (FreeL k)) n1 s3 = Ok (s3\<lparr>nxt := h3\<rparr>)"
      "dma_wf (s3\<lparr>nxt := h3\<rparr>) L3" "footprint s L3 = insert n1 (footprint s L2)"
      "\<forall>x. x \<notin> insert n1 (footprint s L2) \<longrightarrow> h3 x = h2 x"
    using dma_ListAdd_front [OF s3(1), of "FreeL k" n1] n1 k unfolding L3_def s3 by fastforce
  have "p \<notin> footprint (s3\<lparr>nxt := h3\<rparr>) L3"
    using h3(3) h2(3,4) h1(3) s3(2) by auto
  then obtain h4 where h4: "ListAdd (lhead s (FreeL k)) p (s3\<lparr>nxt := h3\<rparr>) = Ok (s3\<lparr>nxt := h4\<rparr>)"
      "dma_wf (s3\<lparr>nxt := h4\<rparr>) L'" "footprint s L' = insert p (footprint s L3)"
      "\<forall>x. x \<notin> insert p (footprint s L3) \<longrightarrow> h4 x = h3 x"
    using dma_ListAdd_front [OF h3(2), of "FreeL k" p] p k s3(2,3) unfolding L' by fastforce
  have f: "free_head (Suc k) s = Ok (lhead s (FreeL (Suc k)))" "free_head k s3 = Ok (lhead s (FreeL k))"
      "IsListEmpty (lhead s (FreeL (Suc k))) s = Ok False" "k < 32"
      "set_mb_addr (mb_of_node p) a (s\<lparr>nxt := h2\<rparr>) = Ok s3"
    using free_head_Ok [OF wf, of "Suc k"] free_head_Ok [OF s3(1), of k]
      dma_IsListEmpty [OF wf, of "FreeL (Suc k)"] L(1) k p s3(3)
    by (auto simp: set_mb_addr_def s3_def kMemBlockTypeNum_def)
  have "DivBlock (Suc k) s = Ok (True, s3\<lparr>nxt := h4\<rparr>)"
    using k n1 by (subst DivBlock.simps)
      (simp add: f h1(1) h2(1) h3(1) h4(1) a_def [symmetric] del: lhead.simps)
  moreover have "h4 x = nxt s x" if "x \<notin> footprint s L" for x
  proof -
    have "x \<notin> insert p (footprint s L3)" "x \<notin> insert n1 (footprint s L2)" "x \<notin> footprint s L1"
      using that h1(4) h2(4) h3(3) by auto
    with that h1(5) h2(5) h3(4) h4(4) show ?thesis by metis
  qed
  then have "dma_frame s L (s3\<lparr>nxt := h4\<rparr>) L'"
    unfolding dma_frame_def using h1(4) h2(4) h3(3) h4(3) by (auto simp: s3_def)
  moreover have "baddr (s3\<lparr>nxt := h4\<rparr>) = (baddr s)(p := a)"
    by (auto simp: baddr_def s3_def fun_eq_iff)
  ultimately show ?thesis
    using h4(2) a_def by blast
qed

lemma blocks_div:
  assumes wf: "dma_wf s L" and k: "Suc k < kMemBlockTypeNum"
    and L: "L (FreeL (Suc k)) = n1 # rest"
  shows "blocks (L(FreeL (Suc k) := rest, Pool := ps, FreeL k := p # n1 # L (FreeL k))) =
         insert (n1, k) (insert (p, k) (blocks L - {(n1, Suc k)}))"
    (is "blocks ?L' = ?B")
proof -
  have "n1 \<notin> set rest"
    using dma_wf_list [OF wf, of "FreeL (Suc k)"] k L by (simp add: clist_def)
  moreover have "n1 \<notin> set (L (AllocL (Suc k)))"
    using dma_wf_unique_list [OF wf, of "FreeL (Suc k)" "AllocL (Suc k)" n1] k L by auto
  ultimately have "(n, t) \<in> blocks ?L' \<longleftrightarrow> (n, t) \<in> ?B" for n t
    using k L by (cases "t = Suc k"; cases "t = k") (simp_all add: blocks_def, blast+)
  then show ?thesis by (simp add: set_eq_iff split_paired_all)
qed

lemma tiled_div:
  assumes wf: "dma_wf s L" and til: "tiled s L" and k: "Suc k < kMemBlockTypeNum"
    and L: "L (FreeL (Suc k)) = n1 # rest" "L Pool = p # ps"
    and ba: "baddr s' = (baddr s)(p := baddr s n1 + 2 ^ k)"
  shows "tiled s' (L(FreeL (Suc k) := rest, Pool := ps, FreeL k := p # n1 # L (FreeL k)))"
proof -
  have pool: "p \<notin> set (L k')" if "k' \<in> lids" "k' \<noteq> Pool" for k'
    using dma_wf_unique_list [OF wf, of Pool k' p] L(2) that by auto
  have n1p: "n1 \<noteq> p"
    using pool [of "FreeL (Suc k)"] k L by auto
  have mem: "(n1, Suc k) \<in> blocks L"
    using k L by (auto simp: blocks_def)
  have notin: "(p, t) \<notin> blocks L" for t
    using pool [of "FreeL t"] pool [of "AllocL t"] by (auto simp: blocks_def)
  have n1_other: "(n1, k) \<notin> blocks L"
    using dma_wf_unique_list [OF wf, of "FreeL (Suc k)" "AllocL k" n1]
      dma_wf_unique_list [OF wf, of "FreeL (Suc k)" "FreeL k" n1] k L by (auto simp: blocks_def)
  have "unat (baddr s n1) + 2 ^ k < 2 ^ 32"
    using tiled_bounds(2) [OF til mem] by simp
  then have split: "region (baddr s n1) k \<union> region (baddr s n1 + 2 ^ k) k = region (baddr s n1) (Suc k)"
      "region (baddr s n1) k \<inter> region (baddr s n1 + 2 ^ k) k = {}"
    using region_split [of "Suc k" "baddr s n1"] k by (auto simp: kMemBlockTypeNum_def)
  have "tiles (span s') (insert (n1, k) (insert (p, k) (blocks L - {(n1, Suc k)}))) arena"
  proof (rule tiles_split [where I = "span s" and b = "(n1, Suc k)"])
    show "tiles (span s) (blocks L) arena" using til by (simp add: tiled_def)
    show "span s' (n1, k) \<union> span s' (p, k) = span s (n1, Suc k)"
      and "span s' (n1, k) \<inter> span s' (p, k) = {}"
      using split n1p by (auto simp: span_def ba)
    fix x assume "x \<in> blocks L - {(n1, Suc k)}"
    then show "span s' x = span s x"
      using notin by (cases x) (auto simp: span_def ba)
  qed (use mem notin n1p n1_other in auto)
  then show ?thesis
    unfolding tiled_def blocks_div [OF wf k L(1)] .
qed

text \<open>
  The lists that a division leaves sorted: all but the one that receives the two halves, which
  stand in descending order there.
\<close>

lemma DivBlock_hit:
  assumes wf: "dma_wf s L" and til: "tiled s L" and srt: "srt {Suc k} s L"
    and k: "Suc k < kMemBlockTypeNum"
    and L: "L (FreeL (Suc k)) = n1 # rest" "L (FreeL k) = []" "L Pool = p # ps"
    and rest: "sorted (map (baddr s) rest)"
  defines "L' \<equiv> L(FreeL (Suc k) := rest, Pool := ps, FreeL k := [p, n1])"
  shows "\<exists>s'. DivBlock (Suc k) s = Ok (True, s') \<and> dma_wf s' L' \<and> dma_frame s L s' L' \<and>
    tiled s' L' \<and> srt {k} s' L' \<and> live s' L' = live s L"
proof -
  have L': "L' = L(FreeL (Suc k) := rest, Pool := ps, FreeL k := p # n1 # L (FreeL k))"
    by (simp add: L'_def L(2))
  obtain s' where s': "DivBlock (Suc k) s = Ok (True, s')" "dma_wf s' L'" "dma_frame s L s' L'"
      and ba: "baddr s' = (baddr s)(p := baddr s n1 + 2 ^ k)"
    using DivBlock_hit_heap [OF wf k L(1,3)] unfolding L' by blast
  have til': "tiled s' L'"
    unfolding L' by (rule tiled_div [OF wf til k L(1,3) ba])
  have pool: "p \<notin> set (L k')" if "k' \<in> lids" "k' \<noteq> Pool" for k'
    using dma_wf_unique_list [OF wf, of Pool k' p] L(3) that by auto
  have same: "map (baddr s') (L k') = map (baddr s) (L k')" if "k' \<in> lids" "k' \<noteq> Pool" for k'
    using pool [OF that] by (auto simp: ba)
  have rest': "map (baddr s') rest = map (baddr s) rest"
    using same [of "FreeL (Suc k)"] k L by simp
  have "srt {k} s' L'"
  proof (rule srt_cong [OF srt])
    fix t assume t: "t < kMemBlockTypeNum"
    show "map (baddr s') (L' (AllocL t)) = map (baddr s) (L (AllocL t)) \<or>
        sorted (map (baddr s') (L' (AllocL t)))"
      using same [of "AllocL t"] t by (simp add: L'_def del: map_eq_conv)
    show "map (baddr s') (L' (FreeL t)) = map (baddr s) (L (FreeL t)) \<and> t \<notin> {Suc k} \<or>
        sorted (map (baddr s') (L' (FreeL t)))" if "t \<notin> {k}"
      using rest rest' same [of "FreeL t"] t that
      by (cases "t = Suc k") (simp_all add: L'_def del: map_eq_conv)
  qed
  moreover have "live s' L' = live s L"
    by (rule live_cong) (use same in \<open>simp add: L'_def del: map_eq_conv\<close>)
  ultimately show ?thesis
    using s' til' by blast
qed

section \<open>Dividing down from the next larger free block\<close>

definition div_post :: "nat \<Rightarrow> nat \<Rightarrow> 'a dma_scheme \<Rightarrow> (lid \<Rightarrow> u32 list) \<Rightarrow> 'a dma_scheme \<Rightarrow> (lid \<Rightarrow> u32 list) \<Rightarrow> bool" where
  "div_post k j s L s' L' \<longleftrightarrow>
     dma_wf s' L' \<and> dma_frame s L s' L' \<and> tiled s' L' \<and> srt {k} s' L' \<and> live s' L' = live s L \<and>
     (\<exists>n1 n2. L' (FreeL k) = [n2, n1]) \<and> (\<forall>u < k. L' (FreeL u) = L (FreeL u)) \<and>
     (\<forall>u. k \<le> u \<and> u < j \<longrightarrow> L' (FreeL u) \<noteq> []) \<and> (\<forall>u > j. L' (FreeL u) = L (FreeL u)) \<and>
     length (L Pool) = length (L' Pool) + (j - k)"

lemma DivBlock_empty_step:
  assumes "dma_wf s L" "Suc k < kMemBlockTypeNum" "L (FreeL (Suc k)) = []"
  shows "DivBlock (Suc k) s =
    kbind (DivBlock (Suc (Suc k)) s) (\<lambda>(r, s). if r then DivBlock (Suc k) s else Ok (False, s))"
  using assms dma_IsListEmpty [OF assms(1), of "FreeL (Suc k)"] free_head_Ok [OF assms(1), of "Suc k"]
  by (subst DivBlock.simps) (simp del: lhead.simps)

lemma DivBlock_found:
  assumes "dma_inv s L" "k < j" "j < kMemBlockTypeNum"
    and "L (FreeL j) \<noteq> []" "\<And>u. k \<le> u \<Longrightarrow> u < j \<Longrightarrow> L (FreeL u) = []"
    and "j - k \<le> length (L Pool)"
  shows "\<exists>s' L'. DivBlock (Suc k) s = Ok (True, s') \<and> div_post k j s L s' L'"
  using assms
proof (induction "j - Suc k" arbitrary: k)
  case 0
  then have j: "j = Suc k" by simp
  obtain n1 rest where n1: "L (FreeL (Suc k)) = n1 # rest"
    using 0 j by (cases "L (FreeL (Suc k))") auto
  obtain p ps where p: "L Pool = p # ps"
    using 0 by (cases "L Pool") auto
  have inv: "dma_wf s L" "tiled s L" "srt {Suc k} s L" "sorted (map (baddr s) rest)"
    using 0 j n1 by (auto simp: dma_inv_def srt_def dest!: spec [of _ "Suc k"])
  have "L (FreeL k) = []" using 0 j by simp
  from DivBlock_hit [OF inv(1-3) _ n1 this p inv(4)] obtain s' where
    "DivBlock (Suc k) s = Ok (True, s')"
    "div_post k j s L s' (L(FreeL (Suc k) := rest, Pool := ps, FreeL k := [p, n1]))"
    using 0 j p by (auto simp: div_post_def)
  then show ?case by blast
next
  case (Suc x)
  then have kj: "Suc k < j" by simp
  have "\<exists>s' L'. DivBlock (Suc (Suc k)) s = Ok (True, s') \<and> div_post (Suc k) j s L s' L'"
    by (rule Suc.hyps(1)) (use Suc.hyps(2) Suc.prems kj in auto)
  then obtain s1 L1 n1 n2 where IH: "DivBlock (Suc (Suc k)) s = Ok (True, s1)" "dma_wf s1 L1"
      "dma_frame s L s1 L1" "tiled s1 L1" "srt {Suc k} s1 L1" "live s1 L1 = live s L"
      "L1 (FreeL (Suc k)) = [n2, n1]" "\<forall>u < Suc k. L1 (FreeL u) = L (FreeL u)"
      "length (L Pool) = length (L1 Pool) + (j - Suc k)"
      "\<forall>u. Suc k \<le> u \<and> u < j \<longrightarrow> L1 (FreeL u) \<noteq> []" "\<forall>u > j. L1 (FreeL u) = L (FreeL u)"
    by (auto simp: div_post_def)
  have "L1 (FreeL k) = []"
    using IH(8) Suc.prems by simp
  moreover obtain p ps where p: "L1 Pool = p # ps"
    using IH(9) Suc.prems kj by (cases "L1 Pool") auto
  ultimately obtain s2 where hit: "DivBlock (Suc k) s1 = Ok (True, s2)"
      "dma_wf s2 (L1(FreeL (Suc k) := [n1], Pool := ps, FreeL k := [p, n2]))"
      "dma_frame s1 L1 s2 (L1(FreeL (Suc k) := [n1], Pool := ps, FreeL k := [p, n2]))"
      "tiled s2 (L1(FreeL (Suc k) := [n1], Pool := ps, FreeL k := [p, n2]))"
      "srt {k} s2 (L1(FreeL (Suc k) := [n1], Pool := ps, FreeL k := [p, n2]))"
      "live s2 (L1(FreeL (Suc k) := [n1], Pool := ps, FreeL k := [p, n2])) = live s1 L1"
    using DivBlock_hit [OF IH(2,4,5) _ IH(7) _ p] Suc.prems kj by auto
  have "div_post k j s L s2 (L1(FreeL (Suc k) := [n1], Pool := ps, FreeL k := [p, n2]))"
    using hit(2-6) IH(3,6,8-11) dma_frame_trans p kj by (auto simp: div_post_def)
  moreover have "DivBlock (Suc k) s = Ok (True, s2)"
    using DivBlock_empty_step [of s L k] Suc.prems kj IH(1) hit(1) by (simp add: dma_inv_def)
  ultimately show ?case by blast
qed

lemma DivBlock_none:
  assumes "dma_wf s L" "k < kMemBlockTypeNum"
    and "\<And>u. k < u \<Longrightarrow> u < kMemBlockTypeNum \<Longrightarrow> L (FreeL u) = []"
  shows "DivBlock (Suc k) s = Ok (False, s)"
  using assms
proof (induction "kMemBlockTypeNum - Suc k" arbitrary: k)
  case 0
  then have "Suc k = kMemBlockTypeNum" by simp
  then show ?case by (subst DivBlock.simps) simp
next
  case (Suc x)
  then have "DivBlock (Suc (Suc k)) s = Ok (False, s)"
    by (intro Suc.hyps(1)) auto
  then show ?case
    using DivBlock_empty_step [of s L k] Suc.prems Suc.hyps(2) by simp
qed

text \<open>With an empty pool, dividing a block dereferences NULL.\<close>

lemma DivBlock_pool_exhausted:
  assumes wf: "dma_wf s L" and k: "Suc k < kMemBlockTypeNum"
    and L: "L (FreeL (Suc k)) \<noteq> []" "L Pool = []"
  shows "DivBlock (Suc k) s = Fault NullDeref"
proof -
  obtain n1 rest where n1: "L (FreeL (Suc k)) = n1 # rest"
    using L(1) by (cases "L (FreeL (Suc k))") auto
  have n4: "n1 \<noteq> 4"
    using dma_wf_member [OF wf, of "FreeL (Suc k)" n1] k n1 by auto
  obtain h where h: "ListRemove (lhead s (FreeL (Suc k))) s = Ok (n1, s\<lparr>nxt := h\<rparr>)"
      "dma_wf (s\<lparr>nxt := h\<rparr>) (L(FreeL (Suc k) := rest))"
    using dma_ListRemove_front [OF wf _ n1] k by auto
  have "ReqMemBlock (s\<lparr>nxt := h\<rparr>) = Ok (0, s\<lparr>nxt := h\<rparr>)"
    using dma_ReqMemBlock_empty [OF h(2)] L(2) by simp
  then show ?thesis
    using k h(1) n4 free_head_Ok [OF wf, of "Suc k"] dma_IsListEmpty [OF wf, of "FreeL (Suc k)"] L(1)
    by (subst DivBlock.simps)
      (simp add: set_mb_addr_def kMemBlockTypeNum_def del: lhead.simps)
qed

section \<open>ReqBytes\<close>

lemma sorted_insert_takeWhile:
  fixes f :: "'b \<Rightarrow> 'c::linorder"
  assumes "sorted (map f xs)"
  shows "sorted (map f (takeWhile (\<lambda>x. f x < f y) xs @ y # dropWhile (\<lambda>x. f x < f y) xs))"
  using assms
proof (induction xs)
  case (Cons x xs)
  then show ?case
    by (cases "f x < f y") (auto dest: set_takeWhileD set_dropWhileD)
qed simp

lemma blocks_move:
  "t < kMemBlockTypeNum \<Longrightarrow> L (FreeL t) = n # ns \<Longrightarrow> L (AllocL t) = xs @ ys \<Longrightarrow>
   blocks (L(FreeL t := ns, AllocL t := xs @ n # ys)) = blocks L"
  unfolding blocks_def by (intro Collect_cong) (auto split: if_splits)

lemma tiled_disjoint:
  assumes "tiled s L" "(n, t) \<in> blocks L" "(m, u) \<in> blocks L" "(n, t) \<noteq> (m, u)"
  shows "region (baddr s n) t \<inter> region (baddr s m) u = {}"
  using assms unfolding tiled_def tiles_def span_def by fastforce

text \<open>The branch of \<^verbatim>\<open>ReqBytes\<close> that finds a free block of the right size.\<close>

lemma ReqBytes_hit:
  assumes wf: "dma_wf s L" and til: "tiled s L" and srt: "srt {t} s L"
    and t: "t < kMemBlockTypeNum" "GetMemBlockSizeType sz = Ok t"
    and L: "L (FreeL t) = n # ns" and ns: "sorted (map (baddr s) ns)"
  shows "\<exists>s' L'. ReqBytes sz s = Ok (baddr s n, s') \<and> dma_inv s' L' \<and> dma_frame s L s' L' \<and>
    live s' L' = insert (baddr s n, t) (live s L) \<and> L' Pool = L Pool \<and>
    (\<forall>u. u \<noteq> t \<longrightarrow> L' (FreeL u) = L (FreeL u)) \<and> L' (FreeL t) = ns"
proof -
  let ?a = "baddr s n"
  define xs where "xs = takeWhile (\<lambda>m. baddr s m < ?a) (L (AllocL t))"
  define ys where "ys = dropWhile (\<lambda>m. baddr s m < ?a) (L (AllocL t))"
  have xy: "L (AllocL t) = xs @ ys"
    by (simp add: xs_def ys_def)
  define L1 where "L1 = L(FreeL t := ns)"
  define L' where "L' = L1(AllocL t := xs @ n # ys)"
  obtain h1 where h1: "ListRemove (lhead s (FreeL t)) s = Ok (n, s\<lparr>nxt := h1\<rparr>)"
      "dma_wf (s\<lparr>nxt := h1\<rparr>) L1" "n \<notin> footprint s L1"
      "insert n (footprint s L1) = footprint s L" "\<forall>x. x \<notin> footprint s L \<longrightarrow> h1 x = nxt s x"
    using dma_ListRemove_front [OF wf _ L] t unfolding L1_def by auto
  let ?s1 = "s\<lparr>nxt := h1\<rparr>"
  have n: "n \<noteq> 0" "n \<noteq> 4"
    using dma_wf_member [OF wf, of "FreeL t" n] t L by auto
  have L1: "L1 (AllocL t) = xs @ ys"
    by (simp add: L1_def xy)
  have "\<exists>h. ListAdd (last (lhead ?s1 (AllocL t) # xs)) n ?s1 = Ok (?s1\<lparr>nxt := h\<rparr>) \<and>
      dma_wf (?s1\<lparr>nxt := h\<rparr>) L' \<and> footprint ?s1 L' = insert n (footprint ?s1 L1) \<and>
      (\<forall>x. x \<notin> insert n (footprint ?s1 L1) \<longrightarrow> h x = nxt ?s1 x)"
    unfolding L'_def by (rule dma_ListAdd [OF h1(2) _ L1 n]) (use t h1(3) in auto)
  then obtain h2 where h2: "ListAdd (last (lhead s (AllocL t) # xs)) n ?s1 = Ok (s\<lparr>nxt := h2\<rparr>)"
      "dma_wf (s\<lparr>nxt := h2\<rparr>) L'" "footprint s L' = insert n (footprint s L1)"
      "\<forall>x. x \<notin> insert n (footprint s L1) \<longrightarrow> h2 x = h1 x"
    by auto
  have walk: "walk (lhead s (AllocL t))
      (\<lambda>m. kbind (get_mb_addr (mb_of_node m) ?s1) (\<lambda>b. Ok (b < ?a))) ?s1 (lhead s (AllocL t)) =
      Ok (last (lhead s (AllocL t) # xs))"
    using dma_walk [OF h1(2), of "AllocL t" ?a] t(1) by (simp add: L1_def xs_def del: lhead.simps)
  have "ReqBytes sz s = Ok (?a, s\<lparr>nxt := h2\<rparr>)"
    using t n h1(1) h2(1) free_head_Ok [OF wf t(1)] alloc_head_Ok [OF h1(2) t(1)] walk
      dma_IsListEmpty [OF wf, of "FreeL t"] L
    by (subst ReqBytes.simps) (simp del: lhead.simps last.simps)
  moreover have "blocks L' = blocks L"
    unfolding L'_def L1_def by (rule blocks_move [OF t(1) L xy])
  then have "tiled (s\<lparr>nxt := h2\<rparr>) L'"
    using til by (simp add: tiled_def tiles_def span_def)
  moreover have "srt {} (s\<lparr>nxt := h2\<rparr>) L'"
  proof (rule srt_cong [OF srt])
    fix u assume u: "u < kMemBlockTypeNum"
    show "map (baddr (s\<lparr>nxt := h2\<rparr>)) (L' (FreeL u)) = map (baddr s) (L (FreeL u)) \<and> u \<notin> {t} \<or>
        sorted (map (baddr (s\<lparr>nxt := h2\<rparr>)) (L' (FreeL u)))"
      using ns by (cases "u = t") (simp_all add: L'_def L1_def)
    have "sorted (map (baddr s) (xs @ n # ys))"
      unfolding xs_def ys_def using srt t by (intro sorted_insert_takeWhile) (simp add: srt_def)
    then show "map (baddr (s\<lparr>nxt := h2\<rparr>)) (L' (AllocL u)) = map (baddr s) (L (AllocL u)) \<or>
        sorted (map (baddr (s\<lparr>nxt := h2\<rparr>)) (L' (AllocL u)))"
      by (cases "u = t") (simp_all add: L'_def L1_def)
  qed
  moreover have "dma_frame s L (s\<lparr>nxt := h2\<rparr>) L'"
    unfolding dma_frame_def using h1(4,5) h2(3,4) by auto
  moreover have "live (s\<lparr>nxt := h2\<rparr>) L' = insert (?a, t) (live s L)"
    using t(1) xy by (auto simp: live_def L'_def L1_def split: if_splits)
  ultimately show ?thesis
    using h2(2) by (intro exI [of _ "s\<lparr>nxt := h2\<rparr>"] exI [of _ L']) (auto simp: dma_inv_def L'_def L1_def)
qed

lemma free_block_apart:
  assumes wf: "dma_wf s L" and til: "tiled s L" and t: "t < kMemBlockTypeNum" "n \<in> set (L (FreeL t))"
  shows "region (baddr s n) t \<subseteq> arena"
    and "(b, u) \<in> live s L \<Longrightarrow> region (baddr s n) t \<inter> region b u = {}"
proof -
  have n: "(n, t) \<in> blocks L"
    using t by (simp add: blocks_def)
  show "region (baddr s n) t \<subseteq> arena"
    by (rule tiled_span_arena [OF til n])
  assume "(b, u) \<in> live s L"
  then obtain m where m: "b = baddr s m" "u < kMemBlockTypeNum" "m \<in> set (L (AllocL u))"
    by (auto simp: live_def)
  then have "m \<noteq> n"
    using dma_wf_unique_list [OF wf, of "FreeL t" "AllocL u" n] t by auto
  with m show "region (baddr s n) t \<inter> region b u = {}"
    using tiled_disjoint [OF til n, of m u] by (simp add: blocks_def)
qed

text \<open>Some free block has order \<open>t\<close> or more.  A request leaves half of such a block free.\<close>

definition can_serve :: "nat \<Rightarrow> (lid \<Rightarrow> u32 list) \<Rightarrow> bool" where
  "can_serve t L \<longleftrightarrow> (\<exists>u. t \<le> u \<and> u < kMemBlockTypeNum \<and> L (FreeL u) \<noteq> [])"

definition req_post :: "nat \<Rightarrow> u32 \<Rightarrow> 'a dma_scheme \<Rightarrow> (lid \<Rightarrow> u32 list) \<Rightarrow> 'a dma_scheme \<Rightarrow> (lid \<Rightarrow> u32 list) \<Rightarrow> bool" where
  "req_post t a s L s' L' \<longleftrightarrow>
     dma_inv s' L' \<and> dma_frame s L s' L' \<and>
     live s' L' = insert (a, t) (live s L) \<and> region a t \<subseteq> arena \<and>
     (\<forall>(b, u) \<in> live s L. region a t \<inter> region b u = {}) \<and>
     length (L Pool) \<le> length (L' Pool) + 25 \<and>
     (\<forall>u \<ge> t. can_serve (Suc u) L \<longrightarrow> can_serve u L')"

lemma ReqBytes_served:
  assumes inv: "dma_inv s L" and t: "t < kMemBlockTypeNum" "GetMemBlockSizeType sz = Ok t"
    and pool: "25 \<le> length (L Pool)" and serve: "can_serve t L"
  shows "\<exists>a s' L'. ReqBytes sz s = Ok (a, s') \<and> req_post t a s L s' L'"
proof (cases "L (FreeL t)")
  case (Cons n ns)
  have *: "dma_wf s L" "tiled s L" "srt {t} s L" "sorted (map (baddr s) ns)"
    using inv Cons t(1) by (auto simp: dma_inv_def srt_def dest!: spec [of _ t])
  from ReqBytes_hit [OF *(1-3) t Cons *(4)] obtain s' L' where
    r: "ReqBytes sz s = Ok (baddr s n, s')" "dma_inv s' L'" "dma_frame s L s' L'"
       "live s' L' = insert (baddr s n, t) (live s L)" "L' Pool = L Pool"
       "\<forall>u. u \<noteq> t \<longrightarrow> L' (FreeL u) = L (FreeL u)"
    by blast
  moreover have "\<forall>u \<ge> t. can_serve (Suc u) L \<longrightarrow> can_serve u L'"
  proof (intro allI impI)
    fix u assume u: "t \<le> u" "can_serve (Suc u) L"
    then obtain v where "Suc u \<le> v" "v < kMemBlockTypeNum" "L (FreeL v) \<noteq> []" by (auto simp: can_serve_def)
    then show "can_serve u L'" using r(6) u(1) by (auto simp: can_serve_def intro!: exI [of _ v])
  qed
  ultimately have "req_post t (baddr s n) s L s' L'"
    unfolding req_post_def split_beta using free_block_apart [OF *(1,2) t(1), of n] Cons by simp
  with r(1) show ?thesis by blast
next
  case Nil
  define j where "j = (LEAST u. t \<le> u \<and> u < kMemBlockTypeNum \<and> L (FreeL u) \<noteq> [])"
  have j: "t \<le> j" "j < kMemBlockTypeNum" "L (FreeL j) \<noteq> []"
    using serve LeastI_ex [of "\<lambda>u. t \<le> u \<and> u < kMemBlockTypeNum \<and> L (FreeL u) \<noteq> []"]
    by (auto simp: can_serve_def j_def)
  have below: "L (FreeL u) = []" if "t \<le> u" "u < j" for u
    using not_less_Least [of u "\<lambda>u. t \<le> u \<and> u < kMemBlockTypeNum \<and> L (FreeL u) \<noteq> []"] that j(2)
    by (auto simp: j_def)
  have tj: "t < j" "j - t \<le> length (L Pool)" "j - t \<le> 25"
    using j Nil pool by (cases "t = j"; simp add: kMemBlockTypeNum_def)+
  from DivBlock_found [OF inv tj(1) j(2,3) below tj(2)] obtain s1 L1 where
    div: "DivBlock (Suc t) s = Ok (True, s1)" "div_post t j s L s1 L1" by blast
  then obtain n1 n2 where d: "dma_wf s1 L1" "tiled s1 L1" "srt {t} s1 L1" "live s1 L1 = live s L"
      "dma_frame s L s1 L1" "L1 (FreeL t) = [n2, n1]" "length (L Pool) = length (L1 Pool) + (j - t)"
      "\<forall>u. t \<le> u \<and> u < j \<longrightarrow> L1 (FreeL u) \<noteq> []" "\<forall>u > j. L1 (FreeL u) = L (FreeL u)"
    by (auto simp: div_post_def)
  from ReqBytes_hit [OF d(1-3) t d(6)] obtain s' L' where
    r: "ReqBytes sz s1 = Ok (baddr s1 n2, s')" "dma_inv s' L'" "dma_frame s1 L1 s' L'"
       "live s' L' = insert (baddr s1 n2, t) (live s1 L1)" "L' Pool = L1 Pool"
       "\<forall>u. u \<noteq> t \<longrightarrow> L' (FreeL u) = L1 (FreeL u)" "L' (FreeL t) = [n1]"
    by auto
  have room: "\<forall>u \<ge> t. can_serve (Suc u) L \<longrightarrow> can_serve u L'"
  proof (intro allI impI)
    fix u assume u: "t \<le> u" "can_serve (Suc u) L"
    then obtain v where v: "Suc u \<le> v" "v < kMemBlockTypeNum" "L (FreeL v) \<noteq> []" by (auto simp: can_serve_def)
    then have "j \<le> v" using below [of v] u(1) by force
    show "can_serve u L'"
    proof (cases "j = v")
      case True
      then have "L' (FreeL u) \<noteq> []" using v(1) u(1) d(8) r(6,7) by (cases "u = t") auto
      then show ?thesis using v by (auto simp: can_serve_def intro!: exI [of _ u])
    next
      case False
      then show ?thesis using \<open>j \<le> v\<close> v d(9) r(6) u(1) by (auto simp: can_serve_def intro!: exI [of _ v])
    qed
  qed
  have "ReqBytes sz s = ReqBytes sz s1"
    using inv t Nil div(1) free_head_Ok [of s L t] dma_IsListEmpty [of s L "FreeL t"]
    by (subst ReqBytes.simps) (simp add: dma_inv_def del: lhead.simps)
  moreover have "req_post t (baddr s1 n2) s L s' L'"
    unfolding req_post_def split_beta
    using r room d(4,7) tj(3) dma_frame_trans [OF d(5) r(3)] free_block_apart [OF d(1,2) t(1), of n2] d(6)
    by simp
  ultimately show ?thesis
    using r(1) by auto
qed

lemma ReqBytes_unserved:
  assumes inv: "dma_inv s L" and t: "t < kMemBlockTypeNum" "GetMemBlockSizeType sz = Ok t"
    and serve: "\<not> can_serve t L"
  shows "ReqBytes sz s = Ok (0, s)"
proof -
  have "L (FreeL u) = []" if "t \<le> u" "u < kMemBlockTypeNum" for u
    using serve that by (auto simp: can_serve_def)
  then have "DivBlock (Suc t) s = Ok (False, s)" "L (FreeL t) = []"
    using DivBlock_none [of s L t] inv t(1) by (auto simp: dma_inv_def)
  then show ?thesis
    using inv t free_head_Ok [of s L t] dma_IsListEmpty [of s L "FreeL t"]
    by (subst ReqBytes.simps) (simp add: dma_inv_def del: lhead.simps)
qed

lemma ReqBytes_total:
  assumes inv: "dma_inv s L" and sz: "sz \<noteq> 0" "unat sz \<le> 2 ^ 25" and pool: "25 \<le> length (L Pool)"
  shows "if can_serve (block_order sz) L
         then \<exists>a s' L'. ReqBytes sz s = Ok (a, s') \<and> req_post (block_order sz) a s L s' L'
         else ReqBytes sz s = Ok (0, s)"
  using ReqBytes_served [OF inv _ GetMemBlockSizeType_class [OF sz(1)] pool]
    ReqBytes_unserved [OF inv _ GetMemBlockSizeType_class [OF sz(1)]] block_order_less_26 [OF sz(2)]
  by (auto simp: kMemBlockTypeNum_def)

end
