(* ===== verification/AllocRel.thy ===== *)
theory AllocRel
  imports AllocReq
begin

text \<open>
  \<^verbatim>\<open>RelBytes\<close> and \<^verbatim>\<open>MergeBlock\<close>.

  A release keeps the invariant and moves exactly the released block from the allocated to the
  free side, provided that the search through the smaller size types does not meet a block
  at a higher address and that the released block has no free buddy.  Without the first
  condition the search stops in the wrong list and links a node that is still in use into a
  free list; without the second the merge unlinks the wrong node.  Both are proved below as
  statements about the code.
\<close>

section \<open>Scanning for a pair to merge\<close>

definition buddies :: "nat \<Rightarrow> 'a dma_scheme \<Rightarrow> u32 \<Rightarrow> u32 \<Rightarrow> bool" where
  "buddies t s n1 n2 \<longleftrightarrow>
     baddr s n1 + 2 ^ t = baddr s n2 \<and>
     ((baddr s n1 - 2 ^ block_order (K_END s)) div 2 ^ t) mod 2 = 0"

fun mergeable :: "nat \<Rightarrow> 'a dma_scheme \<Rightarrow> u32 list \<Rightarrow> bool" where
  "mergeable t s (n1 # n2 # ns) \<longleftrightarrow> buddies t s n1 n2 \<or> mergeable t s (n2 # ns)"
| "mergeable t s _ \<longleftrightarrow> False"

definition kend_ok :: "'a dma_scheme \<Rightarrow> bool" where
  "kend_ok s \<longleftrightarrow> K_END s \<noteq> 0 \<and> unat (K_END s) \<le> 2 ^ 25"

lemma kend_size:
  assumes "kend_ok s"
  shows "GetMemBlockSizeType (K_END s) = Ok (block_order (K_END s))"
    and "GetMemBlockSize (block_order (K_END s)) = Ok (2 ^ block_order (K_END s))"
  using assms block_order_less_26 [of "K_END s"] by (simp_all add: kend_ok_def GetMemBlockSizeType_class)

lemma MergeCandidate_ok:
  assumes wf: "dma_wf s L" and t: "t < kMemBlockTypeNum" and ke: "kend_ok s"
    and L: "L (FreeL t) = xs @ n1 # ys"
  shows "MergeCandidate t (2 ^ t) (lhead s (FreeL t)) (last (lhead s (FreeL t) # xs)) s =
         Ok (case ys of [] \<Rightarrow> False | n2 # _ \<Rightarrow> buddies t s n1 n2)"
proof -
  let ?H = "lhead s (FreeL t)"
  have cl: "clist (nxt s) ?H (xs @ n1 # ys)"
    using dma_wf_list [OF wf, of "FreeL t"] t L by simp
  have tmp: "last (?H # xs) \<noteq> 0" "nxt s (last (?H # xs)) = n1"
    using clist_last_nonzero [OF cl] clist_split [OF cl] by auto
  have n: "n \<noteq> 0 \<and> n \<noteq> 4" if "n \<in> set (xs @ n1 # ys)" for n
    using dma_wf_member [OF wf, of "FreeL t" n] t L that by auto
  show ?thesis
  proof (cases ys)
    case Nil
    have "nxt s n1 = ?H"
      using clist_split [of "nxt s" ?H "xs @ [n1]" "[]"] cl Nil by simp
    with tmp n [of n1] Nil show ?thesis
      by (simp add: MergeCandidate_def del: lhead.simps last.simps)
  next
    case (Cons n2 zs)
    have "nxt s n1 = n2" "n2 \<noteq> ?H"
      using clist_split [of "nxt s" ?H "xs @ [n1]" "n2 # zs"] cl Cons by (auto simp: clist_def)
    with tmp n [of n1] n [of n2] Cons kend_size [OF ke] show ?thesis
      by (simp add: MergeCandidate_def buddies_def del: lhead.simps last.simps)
  qed
qed

lemma MergeScan_from:
  assumes wf: "dma_wf s L" and t: "t < kMemBlockTypeNum" and ke: "kend_ok s"
  defines "H \<equiv> lhead s (FreeL t)"
  defines "b \<equiv> \<lambda>(tmp, found). if found then Ok False else kbind (get_next tmp s) (\<lambda>n. Ok (n \<noteq> H))"
  defines "c \<equiv> \<lambda>(tmp, found). kbind (MergeCandidate t (2 ^ t) H tmp s) (\<lambda>c.
               if c then Ok (tmp, True) else kbind (get_next tmp s) (\<lambda>n. Ok (n, False)))"
  assumes L: "L (FreeL t) = xs @ ys" and no: "\<not> mergeable t s ys"
  shows "kwhile b c (last (H # xs), False) = Ok (last (H # xs @ ys), False)"
  using L no
proof (induction ys arbitrary: xs)
  case Nil
  have "clist (nxt s) H (xs @ [])"
    using dma_wf_list [OF wf, of "FreeL t"] t Nil by (simp add: H_def)
  from clist_last_nonzero [OF this] clist_split [OF this] show ?case
    by (simp add: kwhile_stop b_def del: last.simps)
next
  case (Cons n ys)
  have cl: "clist (nxt s) H (xs @ n # ys)"
    using dma_wf_list [OF wf, of "FreeL t"] t Cons by (simp add: H_def)
  have tmp: "last (H # xs) \<noteq> 0" "nxt s (last (H # xs)) = n" "n \<noteq> H"
    using clist_last_nonzero [OF cl] clist_split [OF cl] cl by (auto simp: clist_def)
  have "MergeCandidate t (2 ^ t) H (last (H # xs)) s = Ok False"
    using MergeCandidate_ok [OF wf t ke Cons.prems(1)] Cons.prems(2)
    by (auto simp: H_def split: list.splits)
  then have "kwhile b c (last (H # xs), False) = kwhile b c (n, False)"
    using tmp by (intro kwhile_step) (simp_all add: b_def c_def del: last.simps)
  also have "\<dots> = Ok (last (H # xs @ n # ys), False)"
  proof -
    have "\<not> mergeable t s ys" using Cons.prems(2) by (cases ys) auto
    then show ?thesis using Cons.IH [of "xs @ [n]"] Cons.prems(1) by simp
  qed
  finally show ?case .
qed

lemma MergeBlock_none:
  assumes wf: "dma_wf s L" and t: "t < kMemBlockTypeNum" and ke: "kend_ok s"
    and no: "t \<noteq> kMemBlockTypeNum - 1 \<Longrightarrow> \<not> mergeable t s (L (FreeL t))"
  shows "MergeBlock t s = Ok s"
proof (cases "t = kMemBlockTypeNum - 1")
  case True
  then show ?thesis by (subst MergeBlock.simps) simp
next
  case False
  have "MergeScan t (2 ^ t) (lhead s (FreeL t)) s = Ok (last (lhead s (FreeL t) # L (FreeL t)), False)"
    using MergeScan_from [OF wf t ke, of "[]" "L (FreeL t)"] no [OF False]
    by (simp add: MergeScan_def del: lhead.simps)
  moreover have "t < 32" using t by (simp add: kMemBlockTypeNum_def)
  ultimately show ?thesis
    using False free_head_Ok [OF wf t] by (subst MergeBlock.simps) (simp del: lhead.simps last.simps)
qed

section \<open>Searching the allocated lists\<close>

lemma RelScan_ok:
  assumes wf: "dma_wf s L" and u: "u < kMemBlockTypeNum"
    and L: "L (AllocL u) = xs @ ys" and xs: "\<forall>n\<in>set xs. baddr s n < addr"
    and ys: "ys \<noteq> [] \<Longrightarrow> addr \<le> baddr s (hd ys)"
  defines "H \<equiv> lhead s (AllocL u)"
  shows "RelScan addr H s =
    (case ys of [] \<Rightarrow> Ok (Exhausted, last (H # xs), s)
     | n # _ \<Rightarrow> if baddr s n = addr
                then kbind (ListRemove (last (H # xs)) s) (\<lambda>(del, s). Ok (Hit, del, s))
                else Ok (Passed, last (H # xs), s))"
proof -
  let ?b = "\<lambda>(x, remove, s). if x \<noteq> Exhausted then Ok False
                              else kbind (get_next remove s) (\<lambda>n. Ok (n \<noteq> H))"
  let ?c = "\<lambda>(x, remove, s).
               kbind (get_next remove s) (\<lambda>n.
               kbind (get_mb_addr (mb_of_node n) s) (\<lambda>a.
               if a = addr then
                 kbind (ListRemove remove s) (\<lambda>(del, s). Ok (Hit, del, s))
               else if addr < a then Ok (Passed, remove, s)
               else Ok (Exhausted, n, s)))"
  have cl: "clist (nxt s) H (xs @ ys)"
    using dma_wf_list [OF wf, of "AllocL u"] u L by (simp add: H_def)
  have n4: "n \<noteq> 4" if "n \<in> set (xs @ ys)" for n
    using dma_wf_member [OF wf, of "AllocL u" n] u L that by auto
  have walk: "kwhile ?b ?c (Exhausted, H, s) = kwhile ?b ?c (Exhausted, last (H # zs), s)"
    if "xs = zs @ ws" for zs ws
    using that
  proof (induction zs arbitrary: ws rule: rev_induct)
    case (snoc z zs)
    have cl': "clist (nxt s) H (zs @ z # ws @ ys)" using cl snoc.prems by simp
    have "last (H # zs) \<noteq> 0" "nxt s (last (H # zs)) = z" "z \<noteq> H" "z \<noteq> 4" "baddr s z < addr"
      using clist_last_nonzero [OF cl'] clist_split [OF cl'] cl' n4 [of z] xs snoc.prems
      by (auto simp: clist_def)
    then have "kwhile ?b ?c (Exhausted, last (H # zs), s) = kwhile ?b ?c (Exhausted, z, s)"
      by (intro kwhile_step) (auto simp del: last.simps)
    with snoc.IH [of "z # ws"] snoc.prems show ?case by simp
  qed simp
  have tmp: "last (H # xs) \<noteq> 0" "nxt s (last (H # xs)) = (case ys of [] \<Rightarrow> H | y # _ \<Rightarrow> y)"
    using clist_last_nonzero [OF cl] clist_split [OF cl] by auto
  show ?thesis
  proof (cases ys)
    case Nil
    with walk [of xs "[]"] tmp show ?thesis
      by (simp add: RelScan_def kwhile_stop del: last.simps)
  next
    case (Cons n zs)
    have n: "n \<noteq> H" "n \<noteq> 4" "addr \<le> baddr s n" "n \<noteq> 0"
      using cl n4 [of n] ys Cons by (auto simp: clist_def)
    show ?thesis
    proof (cases "baddr s n = addr")
      case True
      have "ListRemove (last (H # xs)) s = Ok (n, s\<lparr>nxt := (nxt s)(last (H # xs) := nxt s n, n := 0)\<rparr>)"
        using tmp Cons n by (simp add: ListRemove_Ok del: last.simps)
      then have "kwhile ?b ?c (Exhausted, last (H # xs), s) =
          kwhile ?b ?c (Hit, n, s\<lparr>nxt := (nxt s)(last (H # xs) := nxt s n, n := 0)\<rparr>)"
        using tmp n True Cons by (intro kwhile_step) (auto simp del: last.simps)
      with walk [of xs "[]"] True Cons \<open>ListRemove _ _ = _\<close> show ?thesis
        by (simp add: RelScan_def kwhile_stop del: last.simps)
    next
      case False
      then have "kwhile ?b ?c (Exhausted, last (H # xs), s) = kwhile ?b ?c (Passed, last (H # xs), s)"
        using tmp n Cons by (intro kwhile_step) (auto simp del: last.simps)
      with walk [of xs "[]"] False Cons show ?thesis
        by (simp add: RelScan_def kwhile_stop del: last.simps)
    qed
  qed
qed

text \<open>The search passes over lists whose blocks all lie below the address.\<close>

lemma search_skip:
  assumes wf: "dma_wf s L" and u: "u \<le> kMemBlockTypeNum"
    and below: "\<forall>v<u. \<forall>n\<in>set (L (AllocL v)). baddr s n < addr"
  shows "\<exists>rem. RelSearchLoop addr (Exhausted, 0, NULL, s) = RelSearchLoop addr (Exhausted, u, rem, s)"
  using u below
proof (induction u)
  case (Suc u)
  then obtain rem where IH:
    "RelSearchLoop addr (Exhausted, 0, NULL, s) = RelSearchLoop addr (Exhausted, u, rem, s)"
    by (metis Suc_leD less_SucI)
  have u: "u < kMemBlockTypeNum" using Suc.prems by simp
  let ?H = "lhead s (AllocL u)"
  have scan: "RelScan addr ?H s = Ok (Exhausted, last (?H # L (AllocL u)), s)"
    using RelScan_ok [OF wf u, of "L (AllocL u)" "[]" addr] spec [OF Suc.prems(2), of u]
    by (simp del: lhead.simps last.simps)
  have "\<exists>rem'. RelSearchLoop addr (Exhausted, u, rem, s) = RelSearchLoop addr (Exhausted, Suc u, rem', s)"
  proof (cases "L (AllocL u) = []")
    case True
    then show ?thesis
      unfolding RelSearchLoop_def
      using u alloc_head_Ok [OF wf u] dma_IsListEmpty [OF wf, of "AllocL u"]
      by (intro exI [of _ ?H] kwhile_step) (simp_all del: lhead.simps)
  next
    case False
    then show ?thesis
      unfolding RelSearchLoop_def
      using u scan alloc_head_Ok [OF wf u] dma_IsListEmpty [OF wf, of "AllocL u"]
      by (intro exI [of _ "last (?H # L (AllocL u))"] kwhile_step) (simp_all del: lhead.simps last.simps)
  qed
  with IH show ?case by simp
qed auto

lemma RelSearch_hit:
  assumes wf: "dma_wf s L" and u: "u < kMemBlockTypeNum"
    and below: "\<forall>v<u. \<forall>n\<in>set (L (AllocL v)). baddr s n < addr"
    and L: "L (AllocL u) = xs @ n # ys" "\<forall>m\<in>set xs. baddr s m < addr" "baddr s n = addr"
  shows "RelSearch addr s = kbind (ListRemove (last (lhead s (AllocL u) # xs)) s) (\<lambda>(del, s). Ok (u, del, s))"
proof -
  let ?H = "lhead s (AllocL u)"
  obtain rem where skip: "RelSearchLoop addr (Exhausted, 0, NULL, s) = RelSearchLoop addr (Exhausted, u, rem, s)"
    using search_skip [OF wf less_imp_le [OF u] below] by blast
  obtain h where rm: "ListRemove (last (?H # xs)) s = Ok (n, s\<lparr>nxt := h\<rparr>)"
    using dma_ListRemove_at [OF wf _ L(1)] u by auto
  have "RelScan addr ?H s = Ok (Hit, n, s\<lparr>nxt := h\<rparr>)"
    using RelScan_ok [OF wf u L(1,2)] L(3) rm by (simp del: lhead.simps last.simps)
  then have "RelSearchLoop addr (Exhausted, u, rem, s) = RelSearchLoop addr (Hit, u, n, s\<lparr>nxt := h\<rparr>)"
    unfolding RelSearchLoop_def
    using u alloc_head_Ok [OF wf u] dma_IsListEmpty [OF wf, of "AllocL u"] L(1)
    by (intro kwhile_step) (simp_all del: lhead.simps)
  then have "RelSearchLoop addr (Exhausted, u, rem, s) = Ok (Hit, u, n, s\<lparr>nxt := h\<rparr>)"
    by (simp add: RelSearchLoop_def kwhile_stop)
  with skip show ?thesis
    using rm by (simp add: RelSearch_def del: lhead.simps last.simps)
qed

lemma RelSearch_passed:
  assumes wf: "dma_wf s L" and u: "u < kMemBlockTypeNum"
    and below: "\<forall>v<u. \<forall>n\<in>set (L (AllocL v)). baddr s n < addr"
    and L: "L (AllocL u) = xs @ n # ys" "\<forall>m\<in>set xs. baddr s m < addr" "addr < baddr s n"
  shows "RelSearch addr s = Ok (u, last (lhead s (AllocL u) # xs), s)"
proof -
  let ?H = "lhead s (AllocL u)"
  obtain rem where skip: "RelSearchLoop addr (Exhausted, 0, NULL, s) = RelSearchLoop addr (Exhausted, u, rem, s)"
    using search_skip [OF wf less_imp_le [OF u] below] by blast
  have "RelScan addr ?H s = Ok (Passed, last (?H # xs), s)"
    using RelScan_ok [OF wf u L(1,2)] L(3) by (auto simp del: lhead.simps last.simps)
  then have "RelSearchLoop addr (Exhausted, u, rem, s) = RelSearchLoop addr (Passed, u, last (?H # xs), s)"
    unfolding RelSearchLoop_def
    using u alloc_head_Ok [OF wf u] dma_IsListEmpty [OF wf, of "AllocL u"] L(1)
    by (intro kwhile_step) (simp_all del: lhead.simps last.simps)
  then have "RelSearchLoop addr (Exhausted, u, rem, s) = Ok (Passed, u, last (?H # xs), s)"
    by (simp add: RelSearchLoop_def kwhile_stop del: lhead.simps last.simps)
  with skip show ?thesis
    by (simp add: RelSearch_def del: lhead.simps last.simps)
qed

lemma RelSearch_none:
  assumes wf: "dma_wf s L"
    and below: "\<forall>v<kMemBlockTypeNum. \<forall>n\<in>set (L (AllocL v)). baddr s n < addr"
  shows "\<exists>rem. RelSearch addr s = Ok (kMemBlockTypeNum, rem, s)"
proof -
  obtain rem where "RelSearchLoop addr (Exhausted, 0, NULL, s) =
      RelSearchLoop addr (Exhausted, kMemBlockTypeNum, rem, s)"
    using search_skip [OF wf order.refl below] by blast
  moreover have "RelSearchLoop addr (Exhausted, kMemBlockTypeNum, rem, s) = Ok (Exhausted, kMemBlockTypeNum, rem, s)"
    by (simp add: RelSearchLoop_def kwhile_stop)
  ultimately show ?thesis
    by (simp add: RelSearch_def)
qed

section \<open>Releasing a block that has no free buddy\<close>

text \<open>Blocks are never empty, so no two of them have the same address.\<close>

lemma tiled_addr_inj:
  assumes "tiled s L" "(n, t) \<in> blocks L" "(m, u) \<in> blocks L" "baddr s n = baddr s m"
  shows "(n, t) = (m, u)"
proof (rule ccontr)
  assume "(n, t) \<noteq> (m, u)"
  from tiled_disjoint [OF assms(1-3) this] have "region (baddr s n) t \<inter> region (baddr s n) u = {}"
    using assms(4) by simp
  then show False by (auto simp: region_def set_eq_iff dest: spec [of _ "unat (baddr s n)"])
qed

lemma sorted_before:
  assumes inv: "dma_inv s L" and t: "t < kMemBlockTypeNum" and L: "L (AllocL t) = xs @ n # ys"
  shows "\<forall>m\<in>set xs. baddr s m < baddr s n"
proof
  fix m assume m: "m \<in> set xs"
  have "sorted (map (baddr s) (xs @ n # ys))"
    using inv t L by (auto simp: dma_inv_def srt_def dest!: spec [of _ t])
  then have "baddr s m \<le> baddr s n"
    using m by (auto simp: sorted_append)
  moreover have "baddr s m \<noteq> baddr s n"
  proof
    assume "baddr s m = baddr s n"
    then have "m = n"
      using tiled_addr_inj [of s L m t n t] inv t L m by (auto simp: dma_inv_def blocks_def)
    then show False
      using dma_wf_list [of s L "AllocL t"] inv t L m by (auto simp: dma_inv_def clist_def)
  qed
  ultimately show "baddr s m < baddr s n" by simp
qed

definition freed_list :: "'a dma_scheme \<Rightarrow> (lid \<Rightarrow> u32 list) \<Rightarrow> nat \<Rightarrow> u32 \<Rightarrow> u32 list" where
  "freed_list s L t n =
     takeWhile (\<lambda>m. baddr s m < baddr s n) (L (FreeL t)) @ n #
     dropWhile (\<lambda>m. baddr s m < baddr s n) (L (FreeL t))"

text \<open>The state after the block is relinked, where \<^verbatim>\<open>MergeBlock\<close> starts.\<close>

lemma RelBytes_relink:
  assumes inv: "dma_inv s L" and t: "t < kMemBlockTypeNum" and L: "L (AllocL t) = xs @ n # ys"
    and below: "\<forall>v<t. \<forall>m\<in>set (L (AllocL v)). baddr s m < baddr s n"
  defines "L' \<equiv> L(AllocL t := xs @ ys, FreeL t := freed_list s L t n)"
  shows "\<exists>h. RelBytes (baddr s n) s = MergeBlock t (s\<lparr>nxt := h\<rparr>) \<and> dma_inv (s\<lparr>nxt := h\<rparr>) L' \<and>
    dma_frame s L (s\<lparr>nxt := h\<rparr>) L' \<and> live (s\<lparr>nxt := h\<rparr>) L' = live s L - {(baddr s n, t)}"
proof -
  let ?a = "baddr s n"
  have wf: "dma_wf s L" and til: "tiled s L" and srt: "srt {} s L"
    using inv by (auto simp: dma_inv_def)
  define us where "us = takeWhile (\<lambda>m. baddr s m < ?a) (L (FreeL t))"
  define vs where "vs = dropWhile (\<lambda>m. baddr s m < ?a) (L (FreeL t))"
  have uv: "L (FreeL t) = us @ vs" by (simp add: us_def vs_def)
  define L1 where "L1 = L(AllocL t := xs @ ys)"
  have L': "L' = L1(FreeL t := us @ n # vs)"
    by (simp add: L'_def L1_def freed_list_def us_def vs_def)
  obtain h1 where h1: "ListRemove (last (lhead s (AllocL t) # xs)) s = Ok (n, s\<lparr>nxt := h1\<rparr>)"
      "dma_wf (s\<lparr>nxt := h1\<rparr>) L1" "n \<notin> footprint s L1"
      "insert n (footprint s L1) = footprint s L" "\<forall>x. x \<notin> footprint s L \<longrightarrow> h1 x = nxt s x"
    using dma_ListRemove_at [OF wf _ L] t unfolding L1_def by auto
  have n: "n \<noteq> 0" "n \<noteq> 4"
    using dma_wf_member [OF wf, of "AllocL t" n] t L by auto
  have L1f: "L1 (FreeL t) = us @ vs" by (simp add: L1_def uv)
  obtain h2 where h2: "ListAdd (last (lhead s (FreeL t) # us)) n (s\<lparr>nxt := h1\<rparr>) = Ok (s\<lparr>nxt := h2\<rparr>)"
      "dma_wf (s\<lparr>nxt := h2\<rparr>) L'" "footprint s L' = insert n (footprint s L1)"
      "\<forall>x. x \<notin> insert n (footprint s L1) \<longrightarrow> h2 x = h1 x"
    using dma_ListAdd_at [OF h1(2) _ L1f n] t h1(3) unfolding L' by auto
  have walk: "walk (lhead s (FreeL t))
      (\<lambda>m. kbind (get_mb_addr (mb_of_node m) (s\<lparr>nxt := h1\<rparr>)) (\<lambda>b. Ok (b < ?a))) (s\<lparr>nxt := h1\<rparr>)
      (lhead s (FreeL t)) = Ok (last (lhead s (FreeL t) # us))"
    using dma_walk [OF h1(2), of "FreeL t" ?a] t by (simp add: L1_def us_def del: lhead.simps)
  have "RelSearch ?a s = Ok (t, n, s\<lparr>nxt := h1\<rparr>)"
    using RelSearch_hit [OF wf t below L sorted_before [OF inv t L] refl] h1(1)
    by (simp del: lhead.simps last.simps)
  then have "RelBytes ?a s = MergeBlock t (s\<lparr>nxt := h2\<rparr>)"
    using t free_head_Ok [OF h1(2) t] walk h2(1) by (simp add: RelBytes_def del: lhead.simps last.simps)
  moreover have "blocks L' = blocks L"
    using t L uv unfolding blocks_def L' L1_def by (intro Collect_cong) (auto split: if_splits)
  then have "tiled (s\<lparr>nxt := h2\<rparr>) L'"
    using til by (simp add: tiled_def tiles_def span_def)
  moreover have "srt {} (s\<lparr>nxt := h2\<rparr>) L'"
  proof (rule srt_cong [OF srt])
    fix u assume u: "u < kMemBlockTypeNum"
    have "sorted (map (baddr s) (us @ n # vs))"
      unfolding us_def vs_def using srt t by (intro sorted_insert_takeWhile) (simp add: srt_def)
    then show "map (baddr (s\<lparr>nxt := h2\<rparr>)) (L' (FreeL u)) = map (baddr s) (L (FreeL u)) \<and> u \<notin> {} \<or>
        sorted (map (baddr (s\<lparr>nxt := h2\<rparr>)) (L' (FreeL u)))"
      by (cases "u = t") (simp_all add: L' L1_def)
    have "sorted (map (baddr s) (L (AllocL t)))"
      using srt t by (simp add: srt_def)
    then have "sorted (map (baddr s) (xs @ ys))"
      using L by (auto simp: sorted_append)
    then show "map (baddr (s\<lparr>nxt := h2\<rparr>)) (L' (AllocL u)) = map (baddr s) (L (AllocL u)) \<or>
        sorted (map (baddr (s\<lparr>nxt := h2\<rparr>)) (L' (AllocL u)))"
      by (cases "u = t") (simp_all add: L' L1_def)
  qed
  moreover have "dma_frame s L (s\<lparr>nxt := h2\<rparr>) L'"
    unfolding dma_frame_def using h1(4,5) h2(3,4) by auto
  moreover have "live (s\<lparr>nxt := h2\<rparr>) L' = live s L - {(?a, t)}"
  proof -
    have "?a \<notin> baddr s ` set (xs @ ys)"
    proof
      assume "?a \<in> baddr s ` set (xs @ ys)"
      then obtain m where m: "m \<in> set (xs @ ys)" "baddr s m = ?a" by (metis imageE)
      then have "m = n"
        using tiled_addr_inj [OF til, of m t n t] t L by (auto simp: blocks_def)
      with m(1) show False
        using dma_wf_list [OF wf, of "AllocL t"] t L by (auto simp: clist_def)
    qed
    then show ?thesis
      using L by (auto simp: live_def L' L1_def split: if_splits)
  qed
  ultimately show ?thesis
    using h2(2) by (auto simp: dma_inv_def)
qed

lemma RelBytes_ok:
  assumes inv: "dma_inv s L" and ke: "kend_ok s"
    and t: "t < kMemBlockTypeNum" and n: "n \<in> set (L (AllocL t))"
    and below: "\<forall>v<t. \<forall>m\<in>set (L (AllocL v)). baddr s m < baddr s n"
    and alone: "\<not> mergeable t s (freed_list s L t n)"
  shows "\<exists>s' L'. RelBytes (baddr s n) s = Ok s' \<and> dma_inv s' L' \<and> dma_frame s L s' L' \<and>
    live s' L' = live s L - {(baddr s n, t)}"
proof -
  obtain xs ys where L: "L (AllocL t) = xs @ n # ys"
    using split_list [OF n] by blast
  let ?L' = "L(AllocL t := xs @ ys, FreeL t := freed_list s L t n)"
  obtain h where h: "RelBytes (baddr s n) s = MergeBlock t (s\<lparr>nxt := h\<rparr>)" "dma_inv (s\<lparr>nxt := h\<rparr>) ?L'"
      "dma_frame s L (s\<lparr>nxt := h\<rparr>) ?L'" "live (s\<lparr>nxt := h\<rparr>) ?L' = live s L - {(baddr s n, t)}"
    using RelBytes_relink [OF inv t L below] by blast
  have "mergeable t (s\<lparr>nxt := h\<rparr>) zs = mergeable t s zs" for zs
    by (induction t s zs rule: mergeable.induct) (auto simp: buddies_def)
  then have "MergeBlock t (s\<lparr>nxt := h\<rparr>) = Ok (s\<lparr>nxt := h\<rparr>)"
    using h(2) ke t alone by (intro MergeBlock_none [of _ ?L']) (auto simp: dma_inv_def kend_ok_def)
  with h show ?thesis by auto
qed

section \<open>Releasing the buddy of a free block\<close>

text \<open>
  After \<^verbatim>\<open>ListRemove(tmp)\<close> has unlinked \<^verbatim>\<open>block1\<close>, the second call \<^verbatim>\<open>ListRemove(tmp->next)\<close> unlinks
  the successor of \<^verbatim>\<open>block2\<close>, not \<^verbatim>\<open>block2\<close>.  When the two buddies are the whole list, that
  successor is the list head, whose \<^verbatim>\<open>next\<close> becomes NULL.
\<close>

lemma free_list_apart:
  assumes wf: "dma_wf s L" and k: "k \<in> lids" "k' \<in> lids" "k \<noteq> k'"
    and x: "x = lhead s k \<or> x \<in> set (L k)" and y: "y = lhead s k' \<or> y \<in> set (L k')"
  shows "x \<noteq> y"
  using lists_ok_disjoint [of "nxt s" lids "lhead s" L k k'] wf k x y by (auto simp: dma_wf_def nodes_def)

lemma MergeScan_single:
  assumes "H \<noteq> 0" "n \<noteq> 0" "nxt s H = n" "nxt s n = H" "n \<noteq> H"
  shows "MergeScan t z H s = Ok (n, False)"
  using assms by (simp add: MergeScan_def kwhile.simps MergeCandidate_def)

lemma MergeBlock_unlinks_head:
  assumes wf: "dma_wf s L" and ke: "kend_ok s" and t: "Suc t < kMemBlockTypeNum"
    and L: "L (FreeL t) = [n1, n2]" "L (FreeL (Suc t)) = []" and bud: "buddies t s n1 n2"
  shows "\<exists>s'. MergeBlock t s = Ok s' \<and> nxt s' (lhead s (FreeL t)) = 0 \<and> free_mem_list s' = free_mem_list s"
proof -
  define H where "H = lhead s (FreeL t)"
  define G where "G = lhead s (FreeL (Suc t))"
  define Q where "Q = lhead s Pool"
  have t': "t < kMemBlockTypeNum" "t < 32" "Suc t < 32" using t by (auto simp: kMemBlockTypeNum_def)
  have cH: "clist (nxt s) H [n1, n2]" and cG: "clist (nxt s) G []"
    using dma_wf_list [OF wf, of "FreeL t"] dma_wf_list [OF wf, of "FreeL (Suc t)"] t L
    by (auto simp: H_def G_def)
  have heap: "nxt s H = n1" "nxt s n1 = n2" "nxt s n2 = H" "nxt s G = G"
    using cH cG by (auto simp: clist_def)
  have nz: "H \<noteq> 0" "n1 \<noteq> 0" "n2 \<noteq> 0" "G \<noteq> 0" "Q \<noteq> 0" "n1 \<noteq> 4" "n2 \<noteq> 4" "H \<noteq> n1" "H \<noteq> n2" "n1 \<noteq> n2"
    using cH cG dma_wf_head_nonzero [OF wf, of Pool] dma_wf_member [OF wf, of "FreeL t"] t' L
    by (auto simp: clist_def Q_def)
  have ap: "x \<noteq> G" "x \<noteq> Q" if "x \<in> {H, n1, n2}" for x
    using that t L free_list_apart [OF wf, of "FreeL t" "FreeL (Suc t)" x G]
      free_list_apart [OF wf, of "FreeL t" Pool x Q] by (auto simp: H_def G_def Q_def)
  have GQ: "G \<noteq> Q"
    using free_list_apart [OF wf, of "FreeL (Suc t)" Pool G Q] t by (auto simp: G_def Q_def)
  note neq = ap [of H] ap [of n1] ap [of n2] GQ nz
  have scan: "MergeScan t (2 ^ t) H s = Ok (H, True)"
    using MergeCandidate_ok [OF wf t'(1) ke, of "[]" n1 "[n2]"] L(1) bud heap nz
    by (simp add: MergeScan_def kwhile.simps H_def del: lhead.simps)
  define s1 where "s1 = s\<lparr>nxt := (nxt s)(H := n2, n1 := 0)\<rparr>"
  define s2 where "s2 = s1\<lparr>nxt := (nxt s1)(n2 := n2, H := 0)\<rparr>"
  define s3 where "s3 = s2\<lparr>nxt := (nxt s2)(n2 := 0)\<rparr>"
  define s4 where "s4 = s3\<lparr>nxt := (nxt s3)(Q := n2, n2 := nxt s3 Q)\<rparr>"
  define s5 where "s5 = s4\<lparr>nxt := (nxt s4)(G := n1, n1 := G)\<rparr>"
  have e1: "ListRemove H s = Ok (n1, s1)" "nxt s1 H = n2"
    using neq heap by (auto simp: ListRemove_Ok s1_def)
  have e2: "ListRemove n2 s1 = Ok (H, s2)"
    using neq heap by (simp add: ListRemove_Ok s2_def s1_def)
  have e3: "RelMemBlock (mb_of_node n2) s2 = Ok s4"
    using neq by (simp add: RelMemBlock_def ListAdd_Ok s4_def s3_def s2_def s1_def Q_def)
  have same: "free_mem_list s4 = free_mem_list s" "free_mem_list s5 = free_mem_list s" "nxt s4 G = G"
    using neq heap by (simp_all add: s5_def s4_def s3_def s2_def s1_def)
  have len: "length (free_mem_list s) = kMemBlockTypeNum" using wf by (simp add: dma_wf_def)
  have fh: "free_head t s = Ok H" "free_head (Suc t) s4 = Ok G" "free_head (Suc t) s5 = Ok G"
    using len t t'(1) same by (simp_all add: H_def G_def free_head_def)
  have e4: "walk G f s4 G = Ok G" for f
    using neq same(3) by (simp add: walk_def kwhile_stop)
  have e5: "ListAdd G n1 s4 = Ok s5"
    using neq same(3) by (simp add: ListAdd_Ok s5_def)
  have "MergeScan (Suc t) z G s5 = Ok (n1, False)" for z
    using neq by (intro MergeScan_single) (auto simp: s5_def)
  then have e6: "MergeBlock (Suc t) s5 = Ok s5"
    using fh(3) t' by (subst MergeBlock.simps) simp
  have "MergeBlock t s = Ok s5"
    using t t' fh scan heap nz e1 e2 e3 e4 e5 e6 by (subst MergeBlock.simps) simp
  moreover have "nxt s5 H = 0"
    using neq by (simp add: s5_def s4_def s3_def s2_def)
  ultimately show ?thesis
    using same(2) by (auto simp: H_def)
qed

lemma ReqBytes_broken_list:
  assumes "GetMemBlockSizeType sz = Ok t" "free_head t s = Ok H" "H \<noteq> 0" "nxt s H = 0"
  shows "ReqBytes sz s = Fault NullDeref"
  using assms by (subst ReqBytes.simps) (simp add: IsListEmpty_Ok ListRemove_def get_next_def)

lemma release_buddy_then_request:
  assumes inv: "dma_inv s L" and ke: "kend_ok s"
    and t: "Suc t < kMemBlockTypeNum" and n: "n \<in> set (L (AllocL t))"
    and below: "\<forall>v<t. \<forall>m\<in>set (L (AllocL v)). baddr s m < baddr s n"
    and buddy: "freed_list s L t n = [n1, n2]" "buddies t s n1 n2" "L (FreeL (Suc t)) = []"
    and sz: "sz \<noteq> 0" "block_order sz = t"
  shows "\<exists>s'. RelBytes (baddr s n) s = Ok s' \<and> ReqBytes sz s' = Fault NullDeref"
proof -
  have t': "t < kMemBlockTypeNum" using t by simp
  obtain xs ys where L: "L (AllocL t) = xs @ n # ys"
    using split_list [OF n] by blast
  let ?L' = "L(AllocL t := xs @ ys, FreeL t := freed_list s L t n)"
  obtain h where h: "RelBytes (baddr s n) s = MergeBlock t (s\<lparr>nxt := h\<rparr>)" "dma_inv (s\<lparr>nxt := h\<rparr>) ?L'"
    using RelBytes_relink [OF inv t' L below] by blast
  have wf: "dma_wf (s\<lparr>nxt := h\<rparr>) ?L'"
    using h(2) by (simp add: dma_inv_def)
  obtain s' where s': "MergeBlock t (s\<lparr>nxt := h\<rparr>) = Ok s'" "nxt s' (lhead s (FreeL t)) = 0"
      "free_mem_list s' = free_mem_list s"
    using MergeBlock_unlinks_head [OF wf _ t, of n1 n2] ke buddy
    by (auto simp: kend_ok_def buddies_def)
  have "free_head t s' = Ok (lhead s (FreeL t))"
    using s'(3) inv t' by (simp add: free_head_def dma_inv_def dma_wf_def)
  moreover have "lhead s (FreeL t) \<noteq> 0"
    using dma_wf_head_nonzero [of s L "FreeL t"] inv t' by (simp add: dma_inv_def)
  ultimately have "ReqBytes sz s' = Fault NullDeref"
    using s'(2) sz GetMemBlockSizeType_class [OF sz(1)] by (intro ReqBytes_broken_list) auto
  with h(1) s'(1) show ?thesis by auto
qed

section \<open>Releasing past a smaller block at a higher address\<close>

lemma RelBytes_wrong_list:
  assumes inv: "dma_inv s L" and u: "u < t" "t < kMemBlockTypeNum"
    and below: "\<forall>v<u. \<forall>m\<in>set (L (AllocL v)). baddr s m < addr"
    and L: "L (AllocL u) = m # ms" "addr < baddr s m" "L (FreeL u) = []"
  shows "\<exists>s'. RelBytes addr s = Ok s' \<and>
    nxt s' (lhead s (FreeL u)) = lhead s (AllocL u) \<and> nxt s' (lhead s (AllocL u)) = lhead s (FreeL u) \<and>
    clist (nxt s') (lhead s (AllocL t)) (L (AllocL t))"
proof -
  have wf: "dma_wf s L" using inv by (simp add: dma_inv_def)
  have u': "u < kMemBlockTypeNum" "u \<noteq> kMemBlockTypeNum - 1" "u < 32"
    using u by (auto simp: kMemBlockTypeNum_def)
  define F where "F = lhead s (FreeL u)"
  define A where "A = lhead s (AllocL u)"
  have nz: "F \<noteq> 0" "A \<noteq> 0" "F \<noteq> A"
    using dma_wf_head_nonzero [OF wf, of "FreeL u"] dma_wf_head_nonzero [OF wf, of "AllocL u"]
      free_list_apart [OF wf, of "FreeL u" "AllocL u" F A] u' by (auto simp: F_def A_def)
  have F: "nxt s F = F"
    using dma_wf_list [OF wf, of "FreeL u"] u' L(3) by (simp add: F_def clist_Nil)
  define s' where "s' = s\<lparr>nxt := (nxt s)(F := A, A := F)\<rparr>"
  have search: "RelSearch addr s = Ok (u, A, s)"
    using RelSearch_passed [OF wf u'(1) below, of "[]" m ms] L by (simp add: A_def)
  have fh: "free_head u s = Ok F" "free_head u s' = Ok F"
    using wf u'(1) by (simp_all add: F_def s'_def free_head_def dma_wf_def)
  have "walk F f s F = Ok F" for f
    using nz F by (simp add: walk_def kwhile_stop)
  moreover have "ListAdd F A s = Ok s'"
    using nz F by (simp add: ListAdd_Ok s'_def)
  moreover have "MergeScan u z F s' = Ok (A, False)" for z
    using nz by (intro MergeScan_single) (auto simp: s'_def)
  then have "MergeBlock u s' = Ok s'"
    using fh(2) u' by (subst MergeBlock.simps) simp
  ultimately have "RelBytes addr s = Ok s'"
    using search fh(1) u'(1) by (simp add: RelBytes_def)
  moreover have "clist (nxt s') (lhead s (AllocL t)) (L (AllocL t))"
  proof -
    have ne: "x \<noteq> lhead s (AllocL t) \<and> x \<notin> set (L (AllocL t))" if "x = F \<or> x = A" for x
      using that u free_list_apart [OF wf, of "FreeL u" "AllocL t" F]
        free_list_apart [OF wf, of "AllocL u" "AllocL t" A] by (auto simp: F_def A_def)
    show ?thesis
      using dma_wf_list [OF wf, of "AllocL t"] u ne [of F] ne [of A] by (simp add: s'_def clist_upd)
  qed
  ultimately show ?thesis
    using nz by (intro exI [of _ s']) (auto simp: s'_def F_def A_def)
qed

end
