(* ===== verification/AllocSpec.thy ===== *)
theory AllocSpec
  imports AllocInit AllocRel
begin

text \<open>
  The contract of the byte allocator for the rest of the kernel.

  \<open>alloc_ok n s\<close> says that the allocator is in a state from which \<open>n\<close> more requests cannot
  exhaust the pool of block descriptors (each splits at most 25 blocks), and that no list node
  of the allocator lies in the memory it hands out.  \<open>held s\<close> is the set of blocks in use.
  The locale \<open>byte_allocator\<close> is the interface that \<^verbatim>\<open>List()\<close>, \<^verbatim>\<open>queue()\<close> and the other
  callers rely on; it is interpreted on \<open>ReqBytes\<close>.
\<close>

definition alloc_ok :: "nat \<Rightarrow> 'a dma_scheme \<Rightarrow> bool" where
  "alloc_ok n s \<longleftrightarrow>
     (\<exists>L. dma_inv s L \<and> 25 * n \<le> length (L Pool) \<and> (\<forall>x\<in>footprint s L. unat x \<notin> arena))"

definition held :: "'a dma_scheme \<Rightarrow> (u32 \<times> nat) set" where
  "held s = {b. \<exists>L. dma_inv s L \<and> b \<in> live s L}"

text \<open>Some free block has at least the order \<open>t\<close>.\<close>

definition room :: "nat \<Rightarrow> 'a dma_scheme \<Rightarrow> bool" where
  "room t s \<longleftrightarrow> (\<exists>L. dma_inv s L \<and> can_serve t L)"

text \<open>A request of order \<open>t\<close> leaves at least half of the largest free block free.\<close>

definition keeps_room :: "nat \<Rightarrow> 'a dma_scheme \<Rightarrow> 'a dma_scheme \<Rightarrow> bool" where
  "keeps_room t s s' \<longleftrightarrow> (\<forall>u \<ge> t. room (Suc u) s \<longrightarrow> room u s')"

lemma keeps_roomD: "keeps_room t s s' \<Longrightarrow> room (Suc u) s \<Longrightarrow> t \<le> u \<Longrightarrow> room u s'"
  by (simp add: keeps_room_def)

lemma room_mono: "room t s \<Longrightarrow> u \<le> t \<Longrightarrow> room u s"
  unfolding room_def can_serve_def by (meson le_trans)

lemma dma_inv_unique: "dma_inv s L \<Longrightarrow> dma_inv s L' \<Longrightarrow> k \<in> lids \<Longrightarrow> L k = L' k"
  using dma_wf_list [of s L k] dma_wf_list [of s L' k] clist_unique
  by (auto simp: dma_inv_def)

lemma held_eq: "dma_inv s L \<Longrightarrow> held s = live s L"
proof -
  assume inv: "dma_inv s L"
  have "live s L' = live s L" if "dma_inv s L'" for L'
    using dma_inv_unique [OF that inv] by (intro live_cong) simp
  then have "held s = {b. \<exists>L'. dma_inv s L' \<and> b \<in> live s L}"
    unfolding held_def by blast
  with inv show ?thesis by blast
qed

lemma room_eq: "dma_inv s L \<Longrightarrow> room t s \<longleftrightarrow> can_serve t L"
  unfolding room_def can_serve_def using dma_inv_unique [of s] lids_simps(2) by metis

lemma alloc_ok_mono: "alloc_ok n s \<Longrightarrow> m \<le> n \<Longrightarrow> alloc_ok m s"
  unfolding alloc_ok_def by (meson le_trans mult_le_mono2)

section \<open>What the invariant depends on\<close>

lemma lhead_truncate: "lhead (dma.truncate s) = lhead s"
proof
  fix k show "lhead (dma.truncate s) k = lhead s k"
    by (cases k) (simp_all add: dma.truncate_def)
qed

lemma dma_inv_truncate: "dma_inv (dma.truncate s) L = dma_inv s L"
proof -
  have "baddr (dma.truncate s) = baddr s"
    by (simp add: baddr_def fun_eq_iff dma.truncate_def)
  then show ?thesis
    by (simp add: dma_inv_def dma_wf_def tiled_def srt_def footprint_def lhead_truncate span_def
        [abs_def])
      (simp add: dma.truncate_def)
qed

lemma footprint_truncate: "footprint (dma.truncate s) L = footprint s L"
  by (simp add: footprint_def lhead_truncate)

lemma live_truncate: "live (dma.truncate s) L = live s L"
  by (simp add: live_def baddr_def dma.truncate_def)

lemma alloc_ok_cong: "dma.truncate s = dma.truncate s' \<Longrightarrow> alloc_ok n s = alloc_ok n s'"
  unfolding alloc_ok_def by (metis dma_inv_truncate footprint_truncate)

lemma held_cong: "dma.truncate s = dma.truncate s' \<Longrightarrow> held s = held s'"
  unfolding held_def by (metis dma_inv_truncate live_truncate)

lemma room_cong: "dma.truncate s = dma.truncate s' \<Longrightarrow> room t s = room t s'"
  unfolding room_def by (metis dma_inv_truncate)

text \<open>A write to a \<^verbatim>\<open>next\<close> field in the memory that the allocator hands out.\<close>

lemma dma_inv_poke:
  assumes inv: "dma_inv s L" and p: "p \<notin> footprint s L"
  shows "dma_inv (s\<lparr>nxt := (nxt s)(p := v)\<rparr>) L"
proof -
  have "lists_ok ((nxt s)(p := v)) lids (lhead s) L"
    using inv p by (intro lists_ok_upd_outside) (auto simp: dma_inv_def dma_wf_def footprint_def)
  then show ?thesis
    using inv by (simp add: dma_inv_def dma_wf_def tiled_def srt_def span_def [abs_def])
qed

lemma alloc_ok_poke:
  assumes "alloc_ok n s" "unat p \<in> arena"
  shows "alloc_ok n (s\<lparr>nxt := (nxt s)(p := v)\<rparr>)" "held (s\<lparr>nxt := (nxt s)(p := v)\<rparr>) = held s"
proof -
  obtain L where L: "dma_inv s L" "25 * n \<le> length (L Pool)" "\<forall>x\<in>footprint s L. unat x \<notin> arena"
    using assms(1) by (auto simp: alloc_ok_def)
  then have inv: "dma_inv (s\<lparr>nxt := (nxt s)(p := v)\<rparr>) L"
    using assms(2) by (intro dma_inv_poke) auto
  show "alloc_ok n (s\<lparr>nxt := (nxt s)(p := v)\<rparr>)"
    using inv L(2,3) by (auto simp: alloc_ok_def)
  show "held (s\<lparr>nxt := (nxt s)(p := v)\<rparr>) = held s"
    using held_eq [OF inv] held_eq [OF L(1)] by (simp add: live_def)
qed

lemma room_poke:
  assumes "alloc_ok n s" "unat p \<in> arena"
  shows "room t (s\<lparr>nxt := (nxt s)(p := v)\<rparr>) = room t s"
proof -
  obtain L where L: "dma_inv s L" "\<forall>x\<in>footprint s L. unat x \<notin> arena"
    using assms(1) by (auto simp: alloc_ok_def)
  then have "dma_inv (s\<lparr>nxt := (nxt s)(p := v)\<rparr>) L"
    using assms(2) by (intro dma_inv_poke) auto
  then show ?thesis using L(1) by (simp add: room_eq)
qed

text \<open>Any change of the words that the allocator hands out.\<close>

lemma alloc_heap:
  assumes "alloc_ok n s" "\<And>x. unat x \<notin> arena \<Longrightarrow> h x = nxt s x"
  shows "alloc_ok n (s\<lparr>nxt := h\<rparr>)" "held (s\<lparr>nxt := h\<rparr>) = held s" "room t (s\<lparr>nxt := h\<rparr>) = room t s"
proof -
  obtain L where L: "dma_inv s L" "25 * n \<le> length (L Pool)" "\<forall>x\<in>footprint s L. unat x \<notin> arena"
    using assms(1) by (auto simp: alloc_ok_def)
  have "lists_ok h lids (lhead s) L"
  proof -
    have "path h (lhead s k) (L k) q = path (nxt s) (lhead s k) (L k) q" if "k \<in> lids" for k q
      using that L(3) assms(2) by (intro path_cong) (auto simp: footprint_def nodes_def)
    then show ?thesis
      using L(1) by (auto simp: dma_inv_def dma_wf_def lists_ok_def clist_def)
  qed
  then have inv: "dma_inv (s\<lparr>nxt := h\<rparr>) L"
    using L(1) by (simp add: dma_inv_def dma_wf_def tiled_def srt_def span_def [abs_def])
  show "alloc_ok n (s\<lparr>nxt := h\<rparr>)" using inv L(2,3) by (auto simp: alloc_ok_def)
  show "held (s\<lparr>nxt := h\<rparr>) = held s" using held_eq [OF inv] held_eq [OF L(1)] by (simp add: live_def)
  show "room t (s\<lparr>nxt := h\<rparr>) = room t s" using room_eq [OF inv] room_eq [OF L(1)] by simp
qed

section \<open>The interface\<close>

text \<open>
  \<open>granted h sz a\<close>: the block at \<open>a\<close> is large enough for \<open>sz\<close> bytes, lies in the managed
  memory and is disjoint from every block of \<open>h\<close>.
\<close>

definition granted :: "(u32 \<times> nat) set \<Rightarrow> u32 \<Rightarrow> u32 \<Rightarrow> bool" where
  "granted h sz a \<longleftrightarrow>
     unat sz \<le> 2 ^ block_order sz \<and> region a (block_order sz) \<subseteq> arena \<and>
     (\<forall>(b, u)\<in>h. region a (block_order sz) \<inter> region b u = {})"

definition apart :: "(u32 \<times> nat) set \<Rightarrow> bool" where
  "apart h \<longleftrightarrow> (\<forall>(a, t)\<in>h. \<forall>(b, u)\<in>h. (a, t) \<noteq> (b, u) \<longrightarrow> region a t \<inter> region b u = {})"

primrec req_all ::
    "(u32 \<Rightarrow> 's \<Rightarrow> (u32 \<times> 's) kres) \<Rightarrow> u32 list \<Rightarrow> 's \<Rightarrow> (u32 list \<times> 's) kres" where
  "req_all req [] s = Ok ([], s)"
| "req_all req (sz # szs) s =
     kbind (req sz s) (\<lambda>(a, s). kbind (req_all req szs s) (\<lambda>(as, s). Ok (a # as, s)))"

definition req_sizes_ok :: "u32 list \<Rightarrow> bool" where
  "req_sizes_ok szs \<longleftrightarrow> (\<forall>sz\<in>set szs. sz \<noteq> 0 \<and> unat sz \<le> 2 ^ 25)"

locale byte_allocator =
  fixes req :: "u32 \<Rightarrow> 's \<Rightarrow> (u32 \<times> 's) kres"
    and ok :: "nat \<Rightarrow> 's \<Rightarrow> bool"
    and inuse :: "'s \<Rightarrow> (u32 \<times> nat) set"
    and space :: "nat \<Rightarrow> 's \<Rightarrow> bool"
    and peek :: "u32 \<Rightarrow> 's \<Rightarrow> u32"
    and poke :: "u32 \<Rightarrow> u32 \<Rightarrow> 's \<Rightarrow> 's"
  assumes req_ok: "ok (Suc n) s \<Longrightarrow> sz \<noteq> 0 \<Longrightarrow> unat sz \<le> 2 ^ 25 \<Longrightarrow>
      \<exists>a s'. req sz s = Ok (a, s') \<and> ok n s' \<and> (a = 0 \<longleftrightarrow> \<not> space (block_order sz) s) \<and>
        (\<forall>p. unat p \<in> arena \<longrightarrow> peek p s' = peek p s) \<and>
        (if a = 0 then s' = s
         else inuse s' = insert (a, block_order sz) (inuse s) \<and> granted (inuse s) sz a)"
    and space_mono: "space t s \<Longrightarrow> u \<le> t \<Longrightarrow> space u s"
    and poke_ok: "ok n s \<Longrightarrow> unat p \<in> arena \<Longrightarrow> ok n (poke p v s) \<and> inuse (poke p v s) = inuse s"
begin

lemma req_all_ok:
  assumes "ok (length szs) s" "req_sizes_ok szs" "apart (inuse s)"
  shows "\<exists>as s'. req_all req szs s = Ok (as, s') \<and> ok 0 s' \<and> length as = length szs \<and>
    inuse s' = inuse s \<union> {(a, block_order sz) |a sz. (a, sz) \<in> set (zip as szs) \<and> a \<noteq> 0} \<and>
    apart (inuse s')"
  using assms
proof (induction szs arbitrary: s)
  case Nil
  then show ?case by auto
next
  case (Cons sz szs)
  from req_ok [of "length szs" s sz] Cons.prems obtain a s1 where
    r: "req sz s = Ok (a, s1)" "ok (length szs) s1"
       "if a = 0 then s1 = s
        else inuse s1 = insert (a, block_order sz) (inuse s) \<and> granted (inuse s) sz a"
    by (auto simp: req_sizes_ok_def)
  have "apart (inuse s1)"
    using r(3) Cons.prems(3) by (cases "a = 0") (fastforce simp: apart_def granted_def)+
  moreover have "req_sizes_ok szs"
    using Cons.prems(2) by (simp add: req_sizes_ok_def)
  ultimately obtain as s' where
    ih: "req_all req szs s1 = Ok (as, s')" "ok 0 s'" "length as = length szs" "apart (inuse s')"
        "inuse s' = inuse s1 \<union> {(a, block_order sz) |a sz. (a, sz) \<in> set (zip as szs) \<and> a \<noteq> 0}"
    using Cons.IH [OF r(2)] by blast
  then show ?case
    using r by (intro exI [of _ "a # as"] exI [of _ s']) (auto split: if_splits)
qed

text \<open>A request that fails shows that every larger request fails as well.\<close>

lemma req_fail_mono:
  assumes "ok (Suc n) s" "req sz s = Ok (0, s')" "sz \<noteq> 0" "unat sz \<le> 2 ^ 25"
    and "block_order sz \<le> block_order sz'" "sz' \<noteq> 0" "unat sz' \<le> 2 ^ 25"
  shows "req sz' s = Ok (0, s)"
proof -
  have "\<not> space (block_order sz) s"
    using req_ok [OF assms(1,3,4)] assms(2) by auto
  then have "\<not> space (block_order sz') s"
    using space_mono assms(5) by blast
  then show ?thesis
    using req_ok [OF assms(1,6,7)] by auto
qed

end

lemma ReqBytes_alloc:
  assumes "alloc_ok (Suc n) s" "sz \<noteq> 0" "unat sz \<le> 2 ^ 25"
  shows "\<exists>a s'. ReqBytes sz s = Ok (a, s') \<and> alloc_ok n s' \<and> dma.more s' = dma.more s \<and>
     K_END s' = K_END s \<and> (a = 0 \<longleftrightarrow> \<not> room (block_order sz) s) \<and>
     keeps_room (block_order sz) s s' \<and>
     (\<forall>p. unat p \<in> arena \<longrightarrow> nxt s' p = nxt s p) \<and>
     (if a = 0 then s' = s
      else held s' = insert (a, block_order sz) (held s) \<and> granted (held s) sz a)"
proof -
  obtain L where L: "dma_inv s L" "25 * Suc n \<le> length (L Pool)" "\<forall>x\<in>footprint s L. unat x \<notin> arena"
    using assms(1) by (auto simp: alloc_ok_def)
  show ?thesis
  proof (cases "can_serve (block_order sz) L")
    case True
    then obtain a s' L' where r: "ReqBytes sz s = Ok (a, s')" "req_post (block_order sz) a s L s' L'"
      using ReqBytes_total [OF L(1) assms(2,3)] L(2) by auto
    then have post: "dma_inv s' L'" "dma_frame s L s' L'" "live s' L' = insert (a, block_order sz) (live s L)"
        "region a (block_order sz) \<subseteq> arena" "\<forall>(b, u) \<in> live s L. region a (block_order sz) \<inter> region b u = {}"
        "length (L Pool) \<le> length (L' Pool) + 25" "\<forall>u \<ge> block_order sz. can_serve (Suc u) L \<longrightarrow> can_serve u L'"
      by (auto simp: req_post_def)
    have "a \<noteq> 0"
      using post(4) by (auto simp: region_def arena_def)
    moreover have "alloc_ok n s'"
      using post(1,2,6) L(2,3) by (auto simp: alloc_ok_def dma_frame_def)
    moreover have "\<forall>p. unat p \<in> arena \<longrightarrow> nxt s' p = nxt s p" "dma.more s' = dma.more s" "K_END s' = K_END s"
      using post(2) L(3) by (auto simp: dma_frame_def)
    ultimately show ?thesis
      using r(1) post(3-5,7) held_eq [OF post(1)] held_eq [OF L(1)] block_order_le [of sz] room_eq [OF L(1)]
        room_eq [OF post(1)] True
      by (auto simp: granted_def keeps_room_def)
  next
    case False
    then have "ReqBytes sz s = Ok (0, s)"
      using ReqBytes_total [OF L(1) assms(2,3)] L(2) by simp
    then show ?thesis
      using alloc_ok_mono [OF assms(1), of n] room_eq [OF L(1)] room_mono [of _ s] False by (auto simp: keeps_room_def)
  qed
qed

interpretation dmi: byte_allocator ReqBytes alloc_ok held room "\<lambda>p s. nxt s p" "\<lambda>p v s. s\<lparr>nxt := (nxt s)(p := v)\<rparr>"
proof
  fix n and sz :: u32 and s :: "'a dma_scheme"
  assume "alloc_ok (Suc n) s" "sz \<noteq> 0" "unat sz \<le> 2 ^ 25"
  from ReqBytes_alloc [OF this] show
    "\<exists>a s'. ReqBytes sz s = Ok (a, s') \<and> alloc_ok n s' \<and> (a = 0 \<longleftrightarrow> \<not> room (block_order sz) s) \<and>
       (\<forall>p. unat p \<in> arena \<longrightarrow> nxt s' p = nxt s p) \<and>
       (if a = 0 then s' = s
        else held s' = insert (a, block_order sz) (held s) \<and> granted (held s) sz a)"
    by blast
next
  fix n and p v :: u32 and s :: "'a dma_scheme"
  assume "alloc_ok n s" "unat p \<in> arena"
  then show "alloc_ok n (s\<lparr>nxt := (nxt s)(p := v)\<rparr>) \<and> held (s\<lparr>nxt := (nxt s)(p := v)\<rparr>) = held s"
    using alloc_ok_poke by blast
qed (rule room_mono)

text \<open>After initialisation the allocator has budget for 5200 requests.\<close>

lemma DirectMappingInit_alloc:
  assumes "length (free_mem_list s) = kMemBlockTypeNum" "length (allocated_mem_list s) = kMemBlockTypeNum"
    and "K_END s \<noteq> 0" "unat (K_END s) \<le> 2 ^ 25"
  shows "\<exists>s'. DirectMappingInit s = Ok s' \<and> alloc_ok 5200 s' \<and> kend_ok s' \<and>
    held s' = {(kKVirtualAddr, block_order (K_END s))} \<and> dma.more s' = dma.more s \<and>
    (unat (K_END s) \<le> 2 ^ 24 \<longrightarrow> room 25 s')"
proof -
  obtain s' L where r: "DirectMappingInit s = Ok s'" "dma_inv s' L"
      "live s' L = {(kKVirtualAddr, block_order (K_END s))}" "130000 \<le> length (L Pool)"
      "\<forall>n\<in>footprint s' L. unat n \<notin> arena" "K_END s' = K_END s" "dma.more s' = dma.more s"
      "unat (K_END s) \<le> 2 ^ 24 \<longrightarrow> L (FreeL 25) \<noteq> []"
    using DirectMappingInit_ok [OF assms] by blast
  have "unat (K_END s) \<le> 2 ^ 24 \<longrightarrow> room 25 s'"
    using r(8) room_eq [OF r(2)] by (auto simp: can_serve_def kMemBlockTypeNum_def)
  moreover have "alloc_ok 5200 s'"
    using r(2,4,5) by (auto simp: alloc_ok_def)
  ultimately show ?thesis
    using r assms(3,4) held_eq [OF r(2)] by (auto simp: kend_ok_def)
qed

section \<open>Words of blocks\<close>

text \<open>\<open>off_block a n x\<close>: the address \<open>x\<close> is none of the \<open>n\<close> bytes from \<open>a\<close> on.\<close>

definition off_block :: "u32 \<Rightarrow> nat \<Rightarrow> u32 \<Rightarrow> bool" where
  "off_block a n x \<longleftrightarrow> (\<forall>d<n. x \<noteq> a + of_nat d)"

lemma off_blockD: "off_block a n x \<Longrightarrow> unat d < n \<Longrightarrow> x \<noteq> a + d"
  by (auto simp: off_block_def dest!: spec [of _ "unat d"])

lemma off_block_mono: "off_block a n x \<Longrightarrow> m \<le> n \<Longrightarrow> off_block a m x"
  by (auto simp: off_block_def)

text \<open>A block of the arena and an address in it.\<close>

lemma block_word:
  assumes "region a t \<subseteq> arena" "unat d < 2 ^ t"
  shows "unat (a + d) \<in> region a t" "unat (a + d) \<in> arena" "a + d \<noteq> 0"
proof -
  have "unat a + unat d \<in> region a t" using assms(2) by (simp add: region_def)
  moreover from this have "unat a + unat d \<in> arena" using assms(1) by blast
  moreover from this have "unat (a + d) = unat a + unat d" by (subst unat_add_u32_small) (auto simp: arena_def)
  ultimately show "unat (a + d) \<in> region a t" "unat (a + d) \<in> arena" "a + d \<noteq> 0"
    by (auto simp: arena_def)
qed

lemma apart_off_block:
  assumes "region a t \<inter> region b u = {}" "region b u \<subseteq> arena" "unat x \<in> region a t"
  shows "off_block b (2 ^ u) x"
  unfolding off_block_def
proof (intro allI impI notI)
  fix d assume d: "d < (2 :: nat) ^ u" "x = b + of_nat d"
  have "unat b + d \<in> arena" using d(1) assms(2) by (auto simp: region_def)
  then have "d < 4294967296" by (auto simp: arena_def)
  then have "unat (of_nat d :: u32) = d" by (rule unat_of_nat_u32)
  then have "unat x \<in> region b u" using block_word(1) [OF assms(2), of "of_nat d"] d by simp
  then show False using assms(1,3) by blast
qed

lemma off_block_0: "region b u \<subseteq> arena \<Longrightarrow> off_block b (2 ^ u) 0"
proof -
  assume b: "region b u \<subseteq> arena"
  have "0 \<noteq> b + of_nat d" if d: "d < 2 ^ u" for d
  proof -
    have "unat b + d \<in> arena" using d b by (auto simp: region_def)
    then have "d < 4294967296" by (auto simp: arena_def)
    then show ?thesis using block_word(3) [OF b, of "of_nat d"] d by (simp add: unat_of_nat_u32)
  qed
  then show ?thesis by (simp add: off_block_def)
qed

lemma held_arena: "alloc_ok n s \<Longrightarrow> (a, t) \<in> held s \<Longrightarrow> region a t \<subseteq> arena"
proof -
  assume "alloc_ok n s" "(a, t) \<in> held s"
  then obtain L where L: "dma_inv s L" "(a, t) \<in> live s L" by (auto simp: alloc_ok_def held_def)
  then obtain m where "a = baddr s m" "(m, t) \<in> blocks L" by (auto simp: live_def blocks_def)
  then show ?thesis using tiled_span_arena [of s L m t] L(1) by (simp add: dma_inv_def)
qed

text \<open>A word of a new block differs from the words of the blocks in use.\<close>

lemma granted_neq:
  assumes "granted h sz a" "(b, u) \<in> h" "region b u \<subseteq> arena" "unat d < 2 ^ block_order sz" "unat e < 2 ^ u"
  shows "a + d \<noteq> b + e"
proof -
  have r: "region a (block_order sz) \<subseteq> arena" "region a (block_order sz) \<inter> region b u = {}"
    using assms(1,2) by (auto simp: granted_def)
  show ?thesis using off_blockD [OF apart_off_block [OF r(2) assms(3) block_word(1) [OF r(1) assms(4)]] assms(5)] .
qed

lemma granted_off_block:
  assumes "granted h sz a" "(b, u) \<in> h" "region b u \<subseteq> arena" "unat d < 2 ^ block_order sz"
  shows "off_block b (2 ^ u) (a + d)"
proof -
  have r: "region a (block_order sz) \<subseteq> arena" "region a (block_order sz) \<inter> region b u = {}"
    using assms(1,2) by (auto simp: granted_def)
  show ?thesis by (rule apart_off_block [OF r(2) assms(3) block_word(1) [OF r(1) assms(4)]])
qed

lemma held_apart: "alloc_ok n s \<Longrightarrow> apart (held s)"
proof -
  assume "alloc_ok n s"
  then obtain L where L: "dma_inv s L" by (auto simp: alloc_ok_def)
  have "region a t \<inter> region b u = {}" if ab: "(a, t) \<in> live s L" "(b, u) \<in> live s L" "(a, t) \<noteq> (b, u)" for a t b u
  proof -
    obtain m m' where "a = baddr s m" "b = baddr s m'" "(m, t) \<in> blocks L" "(m', u) \<in> blocks L"
      using ab(1,2) by (auto simp: live_def blocks_def)
    then show ?thesis using tiled_disjoint [of s L m t m' u] L ab(3) by (auto simp: dma_inv_def)
  qed
  then show ?thesis unfolding apart_def held_eq [OF L] by blast
qed

text \<open>Words of different blocks in use are different.\<close>

lemma held_neq:
  assumes "alloc_ok n s" "(a, t) \<in> held s" "(b, u) \<in> held s" "(a, t) \<noteq> (b, u)" "unat d < 2 ^ t" "unat e < 2 ^ u"
  shows "a + d \<noteq> b + e"
proof -
  have "region a t \<inter> region b u = {}" using held_apart [OF assms(1)] assms(2-4) unfolding apart_def by fast
  then show ?thesis
    using off_blockD [OF apart_off_block [OF _ held_arena [OF assms(1,3)] block_word(1) [OF held_arena [OF assms(1,2)] assms(5)]] assms(6)] by blast
qed

end
