(* ===== verification/Queues.thy ===== *)
theory Queues
  imports AllocSpec
begin

text \<open>
  \<^verbatim>\<open>List()\<close> and \<^verbatim>\<open>DestructList()\<close> of \<^verbatim>\<open>kernel/lib/list.h\<close> and the queues of
  \<^verbatim>\<open>kernel/lib/queue.h\<close>.  The record \<open>kheap\<close> adds to the allocator's state the fields of the
  structures of \<^verbatim>\<open>kernel/lib\<close>.

  A \<^verbatim>\<open>Queue\<close> holds pointers to the head and to the last node of a circular list.  \<open>queues s Q M\<close>
  says that the addresses \<open>Q\<close> hold well-formed queues without common nodes and that the queue at
  \<open>q\<close> holds the nodes \<open>M q\<close>; it is the abstraction relation under which \<open>Enqueue\<close> and \<open>Dequeue\<close>
  refine appending to and taking from the list \<open>M q\<close>.  The locale \<open>fifo\<close> states that contract;
  its lemmas (first in, first out; rotation) are what the scheduler needs.
\<close>

record kheap = dma +
  q_head :: "u32 \<Rightarrow> u32"
  q_tail :: "u32 \<Rightarrow> u32"
  dl_prev :: "u32 \<Rightarrow> u32"
  dl_next :: "u32 \<Rightarrow> u32"
  me_key :: "u32 \<Rightarrow> u8"
  me_value :: "u32 \<Rightarrow> u32"

section \<open>Creating and destroying lists\<close>

definition List :: "'a dma_scheme \<Rightarrow> (u32 \<times> 'a dma_scheme) kres" where
  "List s =
     kbind (ReqBytes 4 s) (\<lambda>(head, s).
     if head = NULL then Ok (NULL, s)
     else kbind (set_next head head s) (\<lambda>s. Ok (head, s)))"

definition DestructList :: "u32 \<Rightarrow> 'a dma_scheme \<Rightarrow> 'a dma_scheme kres" where
  "DestructList head s = RelBytes head s"

section \<open>queue.h\<close>

definition queue :: "'a kheap_scheme \<Rightarrow> (u32 \<times> 'a kheap_scheme) kres" where
  "queue s =
     kbind (List s) (\<lambda>(head, s).
     kbind (ReqBytes 8 s) (\<lambda>(q, s).
     kbind (wr q_head q_head_update q head s) (\<lambda>s.
     kbind (wr q_tail q_tail_update q head s) (\<lambda>s.
     Ok (q, s)))))"

definition Enqueue :: "u32 \<Rightarrow> u32 \<Rightarrow> 'a kheap_scheme \<Rightarrow> 'a kheap_scheme kres" where
  "Enqueue q new_node s =
     kbind (rd q_tail q s) (\<lambda>tail.
     kbind (ListAdd tail new_node s) (\<lambda>s.
     wr q_tail q_tail_update q new_node s))"

definition Dequeue :: "u32 \<Rightarrow> 'a kheap_scheme \<Rightarrow> (u32 \<times> 'a kheap_scheme) kres" where
  "Dequeue q s =
     kbind (rd q_head q s) (\<lambda>head.
     kbind (IsListEmpty head s) (\<lambda>e.
     if e then Ok (NULL, s)
     else
       kbind (get_next head s) (\<lambda>first.
       kbind (rd q_tail q s) (\<lambda>tail.
       kbind (if first = tail then wr q_tail q_tail_update q head s else Ok s) (\<lambda>s.
       ListRemove head s)))))"

definition QueueGetHead :: "u32 \<Rightarrow> 'a kheap_scheme \<Rightarrow> u32 kres" where
  "QueueGetHead q s =
     kbind (rd q_head q s) (\<lambda>head.
     kbind (IsListEmpty head s) (\<lambda>e.
     if e then Ok NULL else get_next head s))"

definition DestructQueue :: "u32 \<Rightarrow> 'a kheap_scheme \<Rightarrow> 'a kheap_scheme kres" where
  "DestructQueue q s =
     kbind (rd q_head q s) (\<lambda>head.
     kbind (DestructList head s) (\<lambda>s.
     RelBytes q s))"

section \<open>The interface: a family of first-in first-out queues\<close>

text \<open>
  \<open>rep s Q M\<close>: in state \<open>s\<close> the queues \<open>Q\<close> hold the lists \<open>M\<close>; \<open>fresh s Q M n\<close>: the node \<open>n\<close> may
  be inserted.
\<close>

primrec enq_all :: "('q \<Rightarrow> 'n \<Rightarrow> 's \<Rightarrow> 's kres) \<Rightarrow> 'q \<Rightarrow> 'n list \<Rightarrow> 's \<Rightarrow> 's kres" where
  "enq_all enq q [] s = Ok s"
| "enq_all enq q (n # ns) s = kbind (enq q n s) (enq_all enq q ns)"

primrec deq_times :: "('q \<Rightarrow> 's \<Rightarrow> ('n \<times> 's) kres) \<Rightarrow> 'q \<Rightarrow> nat \<Rightarrow> 's \<Rightarrow> ('n list \<times> 's) kres" where
  "deq_times deq q 0 s = Ok ([], s)"
| "deq_times deq q (Suc k) s =
     kbind (deq q s) (\<lambda>(n, s). kbind (deq_times deq q k s) (\<lambda>(ns, s). Ok (n # ns, s)))"

definition requeue :: "('q \<Rightarrow> 'n \<Rightarrow> 's \<Rightarrow> 's kres) \<Rightarrow> ('q \<Rightarrow> 's \<Rightarrow> ('n \<times> 's) kres) \<Rightarrow> 'q \<Rightarrow> 's \<Rightarrow> 's kres" where
  "requeue enq deq q s = kbind (deq q s) (\<lambda>(n, s). enq q n s)"

locale fifo =
  fixes enq :: "'q \<Rightarrow> 'n \<Rightarrow> 's \<Rightarrow> 's kres"
    and deq :: "'q \<Rightarrow> 's \<Rightarrow> ('n \<times> 's) kres"
    and front :: "'q \<Rightarrow> 's \<Rightarrow> 'n kres"
    and nil :: 'n
    and rep :: "'s \<Rightarrow> 'q set \<Rightarrow> ('q \<Rightarrow> 'n list) \<Rightarrow> bool"
    and fresh :: "'s \<Rightarrow> 'q set \<Rightarrow> ('q \<Rightarrow> 'n list) \<Rightarrow> 'n \<Rightarrow> bool"
  assumes enq_ok: "rep s Q M \<Longrightarrow> q \<in> Q \<Longrightarrow> fresh s Q M n \<Longrightarrow>
      \<exists>s'. enq q n s = Ok s' \<and> rep s' Q (M(q := M q @ [n])) \<and>
        (\<forall>m. fresh s' Q (M(q := M q @ [n])) m \<longleftrightarrow> fresh s Q M m \<and> m \<noteq> n)"
    and deq_nil: "rep s Q M \<Longrightarrow> q \<in> Q \<Longrightarrow> M q = [] \<Longrightarrow> deq q s = Ok (nil, s)"
    and deq_cons: "rep s Q M \<Longrightarrow> q \<in> Q \<Longrightarrow> M q = n # ns \<Longrightarrow>
      \<exists>s'. deq q s = Ok (n, s') \<and> rep s' Q (M(q := ns)) \<and> fresh s' Q (M(q := ns)) n \<and>
        (\<forall>m. fresh s Q M m \<longrightarrow> fresh s' Q (M(q := ns)) m)"
    and front_ok: "rep s Q M \<Longrightarrow> q \<in> Q \<Longrightarrow> front q s = Ok (if M q = [] then nil else hd (M q))"
begin

lemma enq_all_ok:
  assumes "rep s Q M" "q \<in> Q" "distinct ns" "\<forall>n\<in>set ns. fresh s Q M n"
  shows "\<exists>s'. enq_all enq q ns s = Ok s' \<and> rep s' Q (M(q := M q @ ns))"
  using assms
proof (induction ns arbitrary: s M)
  case Nil
  then show ?case by simp
next
  case (Cons n ns)
  let ?M = "M(q := M q @ [n])"
  from enq_ok [OF Cons.prems(1,2), of n] Cons.prems(4) obtain s1 where
    s1: "enq q n s = Ok s1" "rep s1 Q ?M" "\<forall>m. fresh s1 Q ?M m \<longleftrightarrow> fresh s Q M m \<and> m \<noteq> n"
    by auto
  have "\<forall>m\<in>set ns. fresh s1 Q ?M m"
    using s1(3) Cons.prems(3,4) by auto
  from Cons.IH [OF s1(2) Cons.prems(2) _ this] Cons.prems(3)
  have "\<exists>s'. enq_all enq q ns s1 = Ok s' \<and> rep s' Q (M(q := M q @ n # ns))"
    by (simp add: fun_upd_def cong: if_cong)
  then show ?case
    using s1(1) by (simp add: fun_upd_def)
qed

lemma deq_times_ok:
  assumes "rep s Q M" "q \<in> Q" "M q = ns @ rest"
  shows "\<exists>s'. deq_times deq q (length ns) s = Ok (ns, s') \<and> rep s' Q (M(q := rest))"
  using assms
proof (induction ns arbitrary: s M)
  case Nil
  then have "M(q := rest) = M" by auto
  with Nil show ?case by simp
next
  case (Cons n ns)
  from deq_cons [OF Cons.prems(1,2), of n "ns @ rest"] Cons.prems(3) obtain s1 where
    s1: "deq q s = Ok (n, s1)" "rep s1 Q (M(q := ns @ rest))"
    by auto
  from Cons.IH [OF s1(2) Cons.prems(2)]
  have "\<exists>s'. deq_times deq q (length ns) s1 = Ok (ns, s') \<and> rep s' Q (M(q := rest))"
    by (simp add: fun_upd_def cong: if_cong)
  then show ?case
    using s1(1) by (auto simp: fun_upd_def)
qed

lemma first_in_first_out:
  assumes "rep s Q M" "q \<in> Q" "M q = []" "distinct ns" "\<forall>n\<in>set ns. fresh s Q M n"
  shows "\<exists>s' s''. enq_all enq q ns s = Ok s' \<and> deq_times deq q (length ns) s' = Ok (ns, s'') \<and> rep s'' Q M"
proof -
  obtain s' where s': "enq_all enq q ns s = Ok s'" "rep s' Q (M(q := ns))"
    using enq_all_ok [OF assms(1,2,4,5)] assms(3) by auto
  from deq_times_ok [OF s'(2) assms(2), of ns "[]"] obtain s'' where
    "deq_times deq q (length ns) s' = Ok (ns, s'')" "rep s'' Q (M(q := []))" by auto
  moreover have "M(q := []) = M" using assms(3) by auto
  ultimately show ?thesis using s'(1) by auto
qed

lemma requeue_ok:
  assumes "rep s Q M" "q \<in> Q" "M q \<noteq> []"
  shows "\<exists>s'. requeue enq deq q s = Ok s' \<and> rep s' Q (M(q := rotate1 (M q)))"
proof -
  obtain n ns where M: "M q = n # ns" using assms(3) by (cases "M q") auto
  from deq_cons [OF assms(1,2) M] obtain s1 where
    s1: "deq q s = Ok (n, s1)" "rep s1 Q (M(q := ns))" "fresh s1 Q (M(q := ns)) n" by blast
  from enq_ok [OF s1(2) assms(2) s1(3)] show ?thesis
    using s1(1) M by (auto simp: requeue_def)
qed

end

section \<open>The queues refine the interface\<close>

definition queues :: "'a kheap_scheme \<Rightarrow> u32 set \<Rightarrow> (u32 \<Rightarrow> u32 list) \<Rightarrow> bool" where
  "queues s Q M \<longleftrightarrow>
     0 \<notin> Q \<and> lists_ok (nxt s) Q (q_head s) M \<and>
     (\<forall>q\<in>Q. q_tail s q = last (q_head s q # M q))"

definition unlinked :: "'a kheap_scheme \<Rightarrow> u32 set \<Rightarrow> (u32 \<Rightarrow> u32 list) \<Rightarrow> u32 \<Rightarrow> bool" where
  "unlinked s Q M n \<longleftrightarrow> n \<noteq> 0 \<and> (\<forall>q\<in>Q. n \<notin> nodes (q_head s) M q)"

lemma queues_clist: "queues s Q M \<Longrightarrow> q \<in> Q \<Longrightarrow> q \<noteq> 0 \<and> clist (nxt s) (q_head s q) (M q)"
  unfolding queues_def using lists_okD [of "nxt s" Q "q_head s" M q] by auto

lemma queues_head_nonzero: "queues s Q M \<Longrightarrow> q \<in> Q \<Longrightarrow> q_head s q \<noteq> 0"
  using queues_clist [of s Q M q] by (simp add: clist_def)

lemma queues_empty: "queues s Q M \<Longrightarrow> q \<in> Q \<Longrightarrow> nxt s (q_head s q) = q_head s q \<longleftrightarrow> M q = []"
  using queues_clist [of s Q M q] clist_empty_iff [of "nxt s"] by blast

lemma Enqueue_ok:
  assumes qs: "queues s Q M" and q: "q \<in> Q" and n: "unlinked s Q M n"
  shows "\<exists>h. Enqueue q n s = Ok (s\<lparr>nxt := h, q_tail := (q_tail s)(q := n)\<rparr>) \<and>
    queues (s\<lparr>nxt := h, q_tail := (q_tail s)(q := n)\<rparr>) Q (M(q := M q @ [n])) \<and>
    (\<forall>x. x \<noteq> n \<and> (\<forall>q\<in>Q. x \<notin> nodes (q_head s) M q) \<longrightarrow> h x = nxt s x)"
proof -
  let ?p = "last (q_head s q # M q)"
  let ?h = "(nxt s)(?p := n, n := nxt s ?p)"
  let ?s = "s\<lparr>nxt := ?h, q_tail := (q_tail s)(q := n)\<rparr>"
  have c: "clist (nxt s) (q_head s q) (M q @ [])" and q0: "q \<noteq> 0"
    using queues_clist [OF qs q] by auto
  have p: "?p \<noteq> 0" using clist_last_nonzero [OF c] by simp
  have e: "Enqueue q n s = Ok ?s"
    using qs q q0 p n by (simp add: Enqueue_def queues_def ListAdd_Ok unlinked_def)
  have "lists_ok ?h Q (q_head s) (M(q := M q @ [n]))"
    using lists_ok_insert [of "nxt s" Q "q_head s" M q "M q" "[]" n] qs q n
    by (simp add: queues_def unlinked_def)
  then have "queues ?s Q (M(q := M q @ [n]))"
    using qs by (simp add: queues_def)
  moreover have "?p \<in> nodes (q_head s) M q"
    using last_in_set [of "q_head s q # M q"] by (simp add: nodes_def)
  then have "\<forall>x. x \<noteq> n \<and> (\<forall>q\<in>Q. x \<notin> nodes (q_head s) M q) \<longrightarrow> ?h x = nxt s x"
    using q by auto
  ultimately show ?thesis
    using e by blast
qed

lemma Dequeue_nil: "queues s Q M \<Longrightarrow> q \<in> Q \<Longrightarrow> M q = [] \<Longrightarrow> Dequeue q s = Ok (NULL, s)"
  using queues_clist [of s Q M q] queues_empty [of s Q M q] queues_head_nonzero [of s Q M q]
  by (simp add: Dequeue_def IsListEmpty_Ok)

lemma Dequeue_cons:
  assumes qs: "queues s Q M" and q: "q \<in> Q" and M: "M q = n # ns"
  shows "\<exists>h t. Dequeue q s = Ok (n, s\<lparr>nxt := h, q_tail := t\<rparr>) \<and>
    queues (s\<lparr>nxt := h, q_tail := t\<rparr>) Q (M(q := ns)) \<and>
    unlinked (s\<lparr>nxt := h, q_tail := t\<rparr>) Q (M(q := ns)) n \<and>
    (\<forall>q'. q' \<noteq> q \<longrightarrow> t q' = q_tail s q') \<and>
    (\<forall>x. (\<forall>q\<in>Q. x \<notin> nodes (q_head s) M q) \<longrightarrow> h x = nxt s x)"
proof -
  let ?H = "q_head s q"
  let ?h = "(nxt s)(?H := nxt s n, n := 0)"
  let ?t = "(q_tail s)(q := last (?H # ns))"
  let ?s = "s\<lparr>nxt := ?h, q_tail := ?t\<rparr>"
  have c: "clist (nxt s) ?H (n # ns)" and q0: "q \<noteq> 0"
    using queues_clist [OF qs q] M by auto
  then have H: "?H \<noteq> 0" "nxt s ?H = n" "n \<noteq> 0" "n \<noteq> ?H" "n \<notin> set ns"
    by (auto simp: clist_def)
  have t: "q_tail s q = last (n # ns)"
    using qs q M by (simp add: queues_def)
  have tail: "(if n = q_tail s q then (q_tail s)(q := ?H) else q_tail s) = ?t"
    using t H(5) last_in_set [of ns] by (cases ns) (auto simp: fun_eq_iff)
  have ListRem: "ListRemove ?H (s\<lparr>q_tail := t'\<rparr>) = Ok (n, s\<lparr>nxt := ?h, q_tail := t'\<rparr>)" for t'
    using H by (simp add: ListRemove_Ok)
  have e: "Dequeue q s = Ok (n, ?s)"
  proof -
    have "kbind (if n = q_tail s q then wr q_tail q_tail_update q ?H s else Ok s) (ListRemove ?H) = Ok (n, ?s)"
    proof (cases "n = q_tail s q")
      case True
      then have "?t = (q_tail s)(q := ?H)" using tail by simp
      then show ?thesis using True ListRem [of ?t] q0 by (simp del: fun_upd_apply)
    next
      case False
      then have "?t = q_tail s" using tail by simp
      then show ?thesis using False ListRem [of ?t] by (simp del: fun_upd_apply)
    qed
    then show ?thesis
      using q0 H by (simp add: Dequeue_def IsListEmpty_Ok)
  qed
  have ok: "lists_ok (nxt s) Q (q_head s) M" using qs by (simp add: queues_def)
  have "lists_ok ?h Q (q_head s) (M(q := ns))"
    using lists_ok_delete [OF ok q, of "[]" n ns 0] M by simp
  then have "queues ?s Q (M(q := ns))"
    using qs by (simp add: queues_def)
  moreover have "unlinked ?s Q (M(q := ns)) n"
    using lists_ok_delete_fresh [OF ok q, of "[]" n ns] M H(3) by (simp add: unlinked_def)
  moreover have "\<forall>x. (\<forall>q\<in>Q. x \<notin> nodes (q_head s) M q) \<longrightarrow> ?h x = nxt s x"
    using q M by (auto simp: nodes_def)
  ultimately show ?thesis
    using e by (intro exI [of _ ?h] exI [of _ ?t]) simp
qed

lemma QueueGetHead_ok:
  "queues s Q M \<Longrightarrow> q \<in> Q \<Longrightarrow> QueueGetHead q s = Ok (if M q = [] then NULL else hd (M q))"
  using queues_clist [of s Q M q] queues_empty [of s Q M q] queues_head_nonzero [of s Q M q]
  by (cases "M q") (auto simp: QueueGetHead_def IsListEmpty_Ok clist_first)

interpretation kq: fifo Enqueue Dequeue QueueGetHead NULL queues unlinked
proof
  fix s :: "'a kheap_scheme" and Q M q n
  assume *: "queues s Q M" "q \<in> Q" "unlinked s Q M n"
  let ?s = "\<lambda>h. s\<lparr>nxt := h, q_tail := (q_tail s)(q := n)\<rparr>" and ?M = "M(q := M q @ [n])"
  obtain h where h: "Enqueue q n s = Ok (?s h)" "queues (?s h) Q ?M"
    using Enqueue_ok [OF *] by blast
  have "unlinked (?s h) Q ?M m \<longleftrightarrow> unlinked s Q M m \<and> m \<noteq> n" for m
    using *(2) by (auto simp: unlinked_def nodes_def split: if_splits)
  then show "\<exists>s'. Enqueue q n s = Ok s' \<and> queues s' Q ?M \<and>
      (\<forall>m. unlinked s' Q ?M m \<longleftrightarrow> unlinked s Q M m \<and> m \<noteq> n)"
    using h by blast
next
  fix s :: "'a kheap_scheme" and Q M q n ns
  assume *: "queues s Q M" "q \<in> Q" "M q = n # ns"
  obtain h t where r: "Dequeue q s = Ok (n, s\<lparr>nxt := h, q_tail := t\<rparr>)"
      "queues (s\<lparr>nxt := h, q_tail := t\<rparr>) Q (M(q := ns))"
      "unlinked (s\<lparr>nxt := h, q_tail := t\<rparr>) Q (M(q := ns)) n"
    using Dequeue_cons [OF *] by blast
  have "unlinked s Q M m \<Longrightarrow> unlinked (s\<lparr>nxt := h, q_tail := t\<rparr>) Q (M(q := ns)) m" for m
    using *(2,3) by (auto simp: unlinked_def nodes_def)
  with r show "\<exists>s'. Dequeue q s = Ok (n, s') \<and> queues s' Q (M(q := ns)) \<and>
      unlinked s' Q (M(q := ns)) n \<and> (\<forall>m. unlinked s Q M m \<longrightarrow> unlinked s' Q (M(q := ns)) m)"
    by blast
qed (auto simp: Dequeue_nil QueueGetHead_ok)

section \<open>Creating lists and queues\<close>

lemma block_order_Suc:
  assumes "unat x \<le> 2 ^ Suc t" "2 ^ t < unat x"
  shows "block_order x = Suc t"
  unfolding block_order_def
proof (rule Least_equality)
  fix u assume "unat x \<le> 2 ^ u"
  with assms(2) have "(2 :: nat) ^ t < 2 ^ u" by (rule less_le_trans)
  then have "t < u" by (rule power_less_imp_less_exp [rotated]) simp
  then show "Suc t \<le> u" by simp
qed (rule assms(1))

lemma block_order_small [simp]: "block_order 4 = 2" "block_order 8 = 3"
  using block_order_Suc [of 4 1] block_order_Suc [of 8 2] by simp_all

lemma granted_arena:
  assumes "granted h sz a"
  shows "unat a \<in> arena \<and> a \<noteq> 0"
proof -
  have "unat a \<in> region a (block_order sz)" by (simp add: region_def)
  then have "unat a \<in> arena" using assms by (auto simp: granted_def)
  then show ?thesis by (auto simp: arena_def)
qed

lemma List_ok:
  assumes "alloc_ok (Suc n) s"
  shows "\<exists>h s'. List s = Ok (h, s') \<and> alloc_ok n s' \<and> dma.more s' = dma.more s \<and> (h = 0 \<longleftrightarrow> \<not> room 2 s) \<and> keeps_room 2 s s' \<and>
    (if h = 0 then s' = s
     else clist (nxt s') h [] \<and> held s' = insert (h, 2) (held s) \<and> granted (held s) 4 h \<and>
          (\<forall>p. unat p \<in> arena \<and> p \<noteq> h \<longrightarrow> nxt s' p = nxt s p))"
proof -
  obtain h s1 where r: "ReqBytes 4 s = Ok (h, s1)" "alloc_ok n s1" "dma.more s1 = dma.more s"
      "h = 0 \<longleftrightarrow> \<not> room 2 s" "\<forall>p. unat p \<in> arena \<longrightarrow> nxt s1 p = nxt s p"
      "if h = 0 then s1 = s else held s1 = insert (h, 2) (held s) \<and> granted (held s) 4 h" "keeps_room 2 s s1"
    using ReqBytes_alloc [OF assms, of 4] by auto
  show ?thesis
  proof (cases "h = 0")
    case True
    then show ?thesis using r by (simp add: List_def)
  next
    case False
    then have h: "unat h \<in> arena" "h \<noteq> 0"
      using r(6) granted_arena by auto
    then show ?thesis
      using r alloc_ok_poke [OF r(2) h(1), of h] room_poke [OF r(2) h(1)]
      by (simp add: List_def clist_Nil keeps_room_def)
  qed
qed

lemma kheap_more_eq:
  "dma.more s = dma.more s' \<Longrightarrow> q_head s = q_head s' \<and> q_tail s = q_tail s'"
  by (cases s; cases s') simp

lemma alloc_ok_q [simp]:
  "alloc_ok n (s\<lparr>q_head := x\<rparr>) = alloc_ok n s" "alloc_ok n (s\<lparr>q_tail := x\<rparr>) = alloc_ok n s"
  "held (s\<lparr>q_head := x\<rparr>) = held s" "held (s\<lparr>q_tail := x\<rparr>) = held s"
  by (rule alloc_ok_cong held_cong; simp add: dma.truncate_def)+

lemma queue_ok:
  assumes ok: "alloc_ok (Suc (Suc n)) s"
  shows "queue s = Fault NullDeref \<or>
    (\<exists>q s' h. queue s = Ok (q, s') \<and> alloc_ok n s' \<and> queues s' {q} (\<lambda>_. []) \<and> h = q_head s' q \<and>
       held s' = insert (q, 3) (insert (h, 2) (held s)) \<and>
       granted (held s) 4 h \<and> granted (insert (h, 2) (held s)) 8 q)"
proof -
  obtain h s1 where l: "List s = Ok (h, s1)" "alloc_ok (Suc n) s1" "h = 0 \<longleftrightarrow> \<not> room 2 s"
      "if h = 0 then s1 = s
       else clist (nxt s1) h [] \<and> held s1 = insert (h, 2) (held s) \<and> granted (held s) 4 h"
    using List_ok [OF ok] by auto
  obtain q s2 where r: "ReqBytes 8 s1 = Ok (q, s2)" "alloc_ok n s2" "q = 0 \<longleftrightarrow> \<not> room 3 s1"
      "\<forall>p. unat p \<in> arena \<longrightarrow> nxt s2 p = nxt s1 p"
      "if q = 0 then s2 = s1 else held s2 = insert (q, 3) (held s1) \<and> granted (held s1) 8 q"
    using ReqBytes_alloc [OF l(2), of 8] by auto
  show ?thesis
  proof (cases "q = 0")
    case True
    then show ?thesis using l(1) r(1) by (simp add: queue_def)
  next
    case False
    then have "room 2 s1" using r(3) room_mono [of 3 s1 2] by simp
    then have h: "h \<noteq> 0" using l(3,4) by auto
    let ?s = "s2\<lparr>q_head := (q_head s2)(q := h), q_tail := (q_tail s2)(q := h)\<rparr>"
    have "queue s = Ok (q, ?s)"
      using l(1) r(1) False by (simp add: queue_def)
    moreover have "nxt s2 h = h"
      using h l(4) r(4) granted_arena [of "held s" 4 h] by (simp add: clist_Nil)
    then have "queues ?s {q} (\<lambda>_. [])"
      using False h by (simp add: queues_def lists_ok_def clist_Nil)
    ultimately show ?thesis
      using False h l(4) r(2,5) by (intro disjI2 exI [of _ q] exI [of _ ?s] exI [of _ h]) simp
  qed
qed

section \<open>Requests that are granted\<close>

text \<open>With a free block of twice the size, a request is granted and half of that block stays free.\<close>

lemma req_room:
  assumes "alloc_ok (Suc n) s" "room (Suc u) s" "sz \<noteq> 0" "unat sz \<le> 2 ^ 25" "block_order sz \<le> u"
  shows "\<exists>a s'. ReqBytes sz s = Ok (a, s') \<and> a \<noteq> 0 \<and> alloc_ok n s' \<and> room u s' \<and>
    held s' = insert (a, block_order sz) (held s) \<and> granted (held s) sz a \<and> dma.more s' = dma.more s \<and>
    (\<forall>p. unat p \<in> arena \<longrightarrow> nxt s' p = nxt s p)"
proof -
  obtain a s' where r: "ReqBytes sz s = Ok (a, s')" "alloc_ok n s'" "dma.more s' = dma.more s"
      "a = 0 \<longleftrightarrow> \<not> room (block_order sz) s" "keeps_room (block_order sz) s s'"
      "\<forall>p. unat p \<in> arena \<longrightarrow> nxt s' p = nxt s p"
      "if a = 0 then s' = s else held s' = insert (a, block_order sz) (held s) \<and> granted (held s) sz a"
    using ReqBytes_alloc [OF assms(1,3,4)] by auto
  moreover have "a \<noteq> 0" using r(4) room_mono [OF assms(2), of "block_order sz"] assms(5) by simp
  ultimately show ?thesis using keeps_roomD [OF r(5) assms(2,5)] by auto
qed

lemma list_room:
  assumes "alloc_ok (Suc n) s" "room (Suc u) s" "2 \<le> u"
  shows "\<exists>h s'. List s = Ok (h, s') \<and> h \<noteq> 0 \<and> alloc_ok n s' \<and> room u s' \<and> clist (nxt s') h [] \<and>
    held s' = insert (h, 2) (held s) \<and> granted (held s) 4 h \<and> dma.more s' = dma.more s \<and>
    (\<forall>p. unat p \<in> arena \<and> p \<noteq> h \<longrightarrow> nxt s' p = nxt s p)"
proof -
  obtain h s' where r: "List s = Ok (h, s')" "alloc_ok n s'" "dma.more s' = dma.more s" "h = 0 \<longleftrightarrow> \<not> room 2 s"
      "keeps_room 2 s s'" "if h = 0 then s' = s
       else clist (nxt s') h [] \<and> held s' = insert (h, 2) (held s) \<and> granted (held s) 4 h \<and>
          (\<forall>p. unat p \<in> arena \<and> p \<noteq> h \<longrightarrow> nxt s' p = nxt s p)"
    using List_ok [OF assms(1)] by auto
  moreover have "h \<noteq> 0" using r(4) room_mono [OF assms(2), of 2] assms(3) by simp
  ultimately show ?thesis using keeps_roomD [OF r(5) assms(2,3)] by auto
qed

lemma room_q [simp]: "room t (s\<lparr>q_head := x\<rparr>) = room t s" "room t (s\<lparr>q_tail := x\<rparr>) = room t s"
  by (rule room_cong; simp add: dma.truncate_def)+

lemma dma_more_kheap: "dma.more s' = dma.more s \<Longrightarrow> kheap.more s' = kheap.more s"
  by (cases s; cases s') simp

lemma queue_room:
  assumes "alloc_ok (Suc (Suc n)) s" "room (Suc (Suc u)) s" "3 \<le> u"
  shows "\<exists>q h s'. queue s = Ok (q, s') \<and> q \<noteq> 0 \<and> alloc_ok n s' \<and> room u s' \<and> queues s' {q} (\<lambda>_. []) \<and> q_head s' q = h \<and>
    held s' = insert (q, 3) (insert (h, 2) (held s)) \<and> granted (held s) 4 h \<and> granted (insert (h, 2) (held s)) 8 q \<and>
    kheap.more s' = kheap.more s \<and> (\<forall>p. unat p \<in> arena \<and> p \<noteq> h \<longrightarrow> nxt s' p = nxt s p)"
proof -
  obtain h s1 where l: "List s = Ok (h, s1)" "h \<noteq> 0" "alloc_ok (Suc n) s1" "room (Suc u) s1" "clist (nxt s1) h []"
      "held s1 = insert (h, 2) (held s)" "granted (held s) 4 h" "dma.more s1 = dma.more s"
      "\<forall>p. unat p \<in> arena \<and> p \<noteq> h \<longrightarrow> nxt s1 p = nxt s p"
    using list_room [OF assms(1,2)] assms(3) by auto
  obtain q s2 where r: "ReqBytes 8 s1 = Ok (q, s2)" "q \<noteq> 0" "alloc_ok n s2" "room u s2" "held s2 = insert (q, 3) (held s1)"
      "granted (held s1) 8 q" "dma.more s2 = dma.more s1" "\<forall>p. unat p \<in> arena \<longrightarrow> nxt s2 p = nxt s1 p"
    using req_room [OF l(3,4), of 8] assms(3) by auto
  let ?s = "s2\<lparr>q_head := (q_head s2)(q := h), q_tail := (q_tail s2)(q := h)\<rparr>"
  have "queue s = Ok (q, ?s)" using l(1) r(1,2) by (simp add: queue_def)
  moreover have "nxt s2 h = h" using l(5) r(8) granted_arena [OF l(7)] by (simp add: clist_Nil)
  then have "queues ?s {q} (\<lambda>_. [])" using r(2) l(2) by (simp add: queues_def lists_ok_def clist_Nil)
  moreover have "kheap.more ?s = kheap.more s" using dma_more_kheap [OF r(7)] dma_more_kheap [OF l(8)] by simp
  ultimately show ?thesis
    using l r by (intro exI [of _ q] exI [of _ h] exI [of _ ?s]) simp
qed

end
