(* ===== verification/Console.thy ===== *)
theory Console
  imports XyPrelude
begin

text \<open>
  \<^verbatim>\<open>kernel/driver/console.c\<close> and \<^verbatim>\<open>console.h\<close>: the text console.

  The state is the cursor, the pointer \<^verbatim>\<open>video\<close> and the bytes of memory that are reached through
  it.  \<open>con_ok\<close> is the invariant: the pointer is set up and the cursor is on the screen, so that
  every write stays inside the 80 by 24 cells of video memory (\<open>screen\<close>).  \<^verbatim>\<open>itoa\<close> is modelled
  with its in-place reversal; it is shown to produce the digits of the number, so that reading
  the string back gives the number.  The arguments of \<^verbatim>\<open>printf\<close> are a list of values; taking an
  argument that is not there or has the wrong type is a fault.
\<close>

record con =
  xpos :: nat
  ypos :: nat
  video :: u32
  vmem :: "u32 \<Rightarrow> u8"

definition COLUMNS :: nat where "COLUMNS = 80"

definition LINES :: nat where "LINES = 24"

definition ATTRIBUTE :: u8 where "ATTRIBUTE = 7"

definition VIDEO :: u32 where "VIDEO = 0xB8000"

definition vput :: "u32 \<Rightarrow> u8 \<Rightarrow> con \<Rightarrow> con kres" where
  "vput off v s =
     (if video s = NULL then Fault NullDeref
      else Ok (s\<lparr>vmem := (vmem s)(video s + off := v)\<rparr>))"

definition cls :: "con \<Rightarrow> con kres" where
  "cls s =
     kbind (for_up (COLUMNS * LINES * 2) 0 (\<lambda>i s. vput (of_nat i) 0 s) (s\<lparr>video := VIDEO\<rparr>)) (\<lambda>s.
     Ok (s\<lparr>xpos := 0, ypos := 0\<rparr>))"

definition newline :: "con \<Rightarrow> con" where
  "newline s = (let y = Suc (ypos s) in s\<lparr>xpos := 0, ypos := (if LINES \<le> y then 0 else y)\<rparr>)"

definition putchar :: "u32 \<Rightarrow> con \<Rightarrow> con kres" where
  "putchar c s =
     (if c = 10 \<or> c = 13 then Ok (newline s)
      else
        kbind (vput (of_nat ((xpos s + ypos s * COLUMNS) * 2)) (ucast (c AND 0xFF)) s) (\<lambda>s.
        kbind (vput (of_nat ((xpos s + ypos s * COLUMNS) * 2 + 1)) ATTRIBUTE s) (\<lambda>s.
        let s = s\<lparr>xpos := Suc (xpos s)\<rparr> in
        if COLUMNS \<le> xpos s then Ok (newline s) else Ok s)))"

section \<open>itoa\<close>

definition itoa_digit :: "u32 \<Rightarrow> char" where
  "itoa_digit remainder =
     (if remainder < 10 then char_of (unat (remainder + 48)) else char_of (unat (remainder + 97 - 10)))"

definition divisor :: "char \<Rightarrow> u32" where
  "divisor base = (if base = CHR ''x'' then 16 else 10)"

lemma divisor_cases: "divisor base = 16 \<or> divisor base = 10"
  by (simp add: divisor_def)

lemma u32_div_less:
  assumes "(x :: u32) div d \<noteq> 0" "1 < unat d"
  shows "unat (x div d) < unat x"
proof -
  have "0 < unat x" using assms(1) by (auto simp: unat_gt_0)
  then show ?thesis using assms(2) by (simp add: unat_div)
qed

text \<open>The do-while loop that stores the digits, least significant first.\<close>

function itoa_loop :: "char \<Rightarrow> u32 \<Rightarrow> char list" where
  "itoa_loop base ud =
     itoa_digit (ud mod divisor base) #
     (if ud div divisor base = 0 then [] else itoa_loop base (ud div divisor base))"
  by pat_completeness auto
termination
  by (relation "measure (\<lambda>(base, ud). unat ud)")
    (use divisor_cases in \<open>auto intro!: u32_div_less simp: divisor_def\<close>)

declare itoa_loop.simps [simp del]

text \<open>The loop that swaps the outer characters of \<open>buf[p1 .. p2]\<close> and moves inwards.\<close>

function swap_loop :: "nat \<Rightarrow> nat \<Rightarrow> 'c list \<Rightarrow> 'c list" where
  "swap_loop p1 p2 buf =
     (if p1 < p2 then swap_loop (p1 + 1) (p2 - 1) (buf[p1 := buf ! p2, p2 := buf ! p1]) else buf)"
  by pat_completeness auto
termination
  by (relation "measure (\<lambda>(p1, p2, buf). p2 - p1)") auto

declare swap_loop.simps [simp del]

text \<open>
  \<^verbatim>\<open>itoa\<close> stores the returned string and a terminating NUL at \<^verbatim>\<open>buf\<close>.  \<^verbatim>\<open>-d\<close> overflows for the
  smallest integer.
\<close>

definition itoa :: "char \<Rightarrow> u32 \<Rightarrow> string kres" where
  "itoa base d =
     (if base = CHR ''d'' \<and> d <s 0 then
        if d = 0x80000000 then Fault IntOverflow
        else let ds = itoa_loop base (- d) in Ok (CHR ''-'' # swap_loop 0 (length ds - 1) ds)
      else let ds = itoa_loop base d in Ok (swap_loop 0 (length ds - 1) ds))"

section \<open>printf\<close>

datatype parg = PInt u32 | PStr "string option"

primrec putstr :: "string \<Rightarrow> con \<Rightarrow> con kres" where
  "putstr [] s = Ok s"
| "putstr (c # cs) s = kbind (putchar (of_char c) s) (putstr cs)"

text \<open>The part at the label \<^verbatim>\<open>string\<close>: the padding, then the characters.\<close>

definition put_padded :: "bool \<Rightarrow> nat \<Rightarrow> string \<Rightarrow> con \<Rightarrow> con kres" where
  "put_padded pad0 pad p s =
     kbind (putstr (replicate (pad - length p) (if pad0 then CHR ''0'' else CHR '' '')) s) (putstr p)"

definition is_digit :: "char \<Rightarrow> bool" where
  "is_digit c \<longleftrightarrow> 48 \<le> (of_char c :: nat) \<and> (of_char c :: nat) \<le> 57"

definition put_conv :: "bool \<Rightarrow> nat \<Rightarrow> char \<Rightarrow> parg list \<Rightarrow> con \<Rightarrow> (parg list \<times> con) kres" where
  "put_conv pad0 pad c args s =
     (case args of
        [] \<Rightarrow> Fault BadArgument
      | a # args' \<Rightarrow>
          if c = CHR ''d'' \<or> c = CHR ''u'' \<or> c = CHR ''x'' then
            (case a of
               PInt n \<Rightarrow> kbind (itoa c n) (\<lambda>p. kbind (put_padded pad0 pad p s) (\<lambda>s. Ok (args', s)))
             | PStr _ \<Rightarrow> Fault BadArgument)
          else if c = CHR ''s'' then
            (case a of
               PStr (Some p) \<Rightarrow> kbind (put_padded pad0 pad p s) (\<lambda>s. Ok (args', s))
             | PStr None \<Rightarrow> kbind (put_padded pad0 pad ''(null)'' s) (\<lambda>s. Ok (args', s))
             | PInt _ \<Rightarrow> Fault BadArgument)
          else
            (case a of
               PInt n \<Rightarrow> kbind (putchar n s) (\<lambda>s. Ok (args', s))
             | PStr _ \<Rightarrow> Fault BadArgument))"

text \<open>
  The flags after a \<^verbatim>\<open>%\<close>.  \<open>None\<close> is the end of the format, where the source goes on to read
  behind the terminator.
\<close>

fun parse_pad0 :: "string \<Rightarrow> bool \<times> string" where
  "parse_pad0 (c # cs) = (if c = CHR ''0'' then (True, cs) else (False, c # cs))"
| "parse_pad0 [] = (False, [])"

fun parse_pad :: "string \<Rightarrow> nat \<times> string" where
  "parse_pad (c # cs) = (if is_digit c then (of_char c - 48, cs) else (0, c # cs))"
| "parse_pad [] = (0, [])"

lemma parse_pad0_length: "length (snd (parse_pad0 cs)) \<le> length cs"
  by (cases cs) auto

lemma parse_pad_length: "length (snd (parse_pad cs)) \<le> length cs"
  by (cases cs) auto

function printf :: "string \<Rightarrow> parg list \<Rightarrow> con \<Rightarrow> con kres" where
  "printf [] args s = Ok s"
| "printf (c # cs) args s =
     (if c \<noteq> CHR ''%'' then kbind (putchar (of_char c) s) (printf cs args)
      else
        let pad0 = fst (parse_pad0 cs); cs1 = snd (parse_pad0 cs);
            pad = fst (parse_pad cs1); cs2 = snd (parse_pad cs1) in
        if cs2 = [] then Fault OutOfBounds
        else kbind (put_conv pad0 pad (hd cs2) args s) (\<lambda>r. printf (tl cs2) (fst r) (snd r)))"
  by pat_completeness auto
termination
proof (relation "measure (\<lambda>(cs, args, s). length cs)", goal_cases)
  case (3 c cs args s x xa xb xc r)
  then have "length xc \<le> length cs" "xc \<noteq> []"
    using parse_pad0_length [of cs] parse_pad_length [of "snd (parse_pad0 cs)"] by auto
  then show ?case by (cases xc) auto
qed auto

section \<open>The screen invariant\<close>

definition screen :: "u32 set" where
  "screen = {VIDEO + of_nat i |i. i < 3840}"

definition con_ok :: "con \<Rightarrow> bool" where
  "con_ok s \<longleftrightarrow> video s = VIDEO \<and> xpos s < COLUMNS \<and> ypos s < LINES"

definition con_step :: "con \<Rightarrow> con \<Rightarrow> bool" where
  "con_step s s' \<longleftrightarrow> con_ok s' \<and> (\<forall>a. a \<notin> screen \<longrightarrow> vmem s' a = vmem s a)"

lemma con_step_refl: "con_ok s \<Longrightarrow> con_step s s"
  by (simp add: con_step_def)

lemma con_step_trans: "con_step s s' \<Longrightarrow> con_step s' s'' \<Longrightarrow> con_step s s''"
  by (auto simp: con_step_def)

lemma cell_bound: "x < COLUMNS \<Longrightarrow> y < LINES \<Longrightarrow> Suc ((x + y * COLUMNS) * 2) < 3840"
  by (auto simp: COLUMNS_def LINES_def)

lemma newline_ok: "con_ok s \<Longrightarrow> con_step s (newline s)"
  by (auto simp: con_step_def con_ok_def newline_def Let_def COLUMNS_def LINES_def)

lemma VIDEO_nonzero [simp]: "VIDEO \<noteq> 0"
  by (simp add: VIDEO_def)

lemma putchar_ok:
  assumes "con_ok s"
  shows "\<exists>s'. putchar c s = Ok s' \<and> con_step s s'"
proof (cases "c = 10 \<or> c = 13")
  case True
  then show ?thesis using newline_ok [OF assms] by (simp add: putchar_def)
next
  case False
  let ?i = "(xpos s + ypos s * COLUMNS) * 2"
  let ?m = "(vmem s)(VIDEO + of_nat ?i := ucast (c AND 0xFF), VIDEO + of_nat (?i + 1) := ATTRIBUTE)"
  let ?s = "s\<lparr>vmem := ?m, xpos := Suc (xpos s)\<rparr>"
  have v: "video s = VIDEO" and i: "?i + 1 < 3840" "?i < 3840"
    using assms cell_bound [of "xpos s" "ypos s"] by (auto simp: con_ok_def)
  then have scr: "VIDEO + of_nat ?i \<in> screen" "VIDEO + of_nat (?i + 1) \<in> screen"
    unfolding screen_def by blast+
  then have fr: "\<forall>a. a \<notin> screen \<longrightarrow> ?m a = vmem s a"
    by (metis fun_upd_apply)
  have p: "putchar c s = Ok (if COLUMNS \<le> Suc (xpos s) then newline ?s else ?s)"
    using False v by (simp add: putchar_def vput_def Let_def)
  have "con_step s (if COLUMNS \<le> Suc (xpos s) then newline ?s else ?s)"
    using assms fr by (auto simp: con_step_def con_ok_def newline_def Let_def COLUMNS_def LINES_def)
  with p show ?thesis by blast
qed

lemma putstr_ok: "con_ok s \<Longrightarrow> \<exists>s'. putstr cs s = Ok s' \<and> con_step s s'"
proof (induction cs arbitrary: s)
  case Nil
  then show ?case by (simp add: con_step_refl)
next
  case (Cons c cs)
  obtain s1 where s1: "putchar (of_char c) s = Ok s1" "con_step s s1"
    using putchar_ok [OF Cons.prems] by blast
  then have "con_ok s1" by (simp add: con_step_def)
  from Cons.IH [OF this] s1 show ?case
    using con_step_trans by fastforce
qed

lemma put_padded_ok: "con_ok s \<Longrightarrow> \<exists>s'. put_padded pad0 pad p s = Ok s' \<and> con_step s s'"
proof -
  let ?pad = "replicate (pad - length p) (if pad0 then CHR ''0'' else CHR '' '')"
  assume "con_ok s"
  then obtain s1 where s1: "putstr ?pad s = Ok s1" "con_step s s1"
    using putstr_ok by blast
  then have "con_ok s1" by (simp add: con_step_def)
  then obtain s2 where "putstr p s1 = Ok s2" "con_step s1 s2"
    using putstr_ok by blast
  with s1 show ?thesis
    using con_step_trans [OF s1(2)] by (simp add: put_padded_def)
qed

text \<open>A format without conversions, as in every call but one, prints its characters.\<close>

lemma printf_plain: "CHR ''%'' \<notin> set cs \<Longrightarrow> printf cs args s = putstr cs s"
proof (induction cs arbitrary: s)
  case (Cons c cs)
  then show ?case by (auto simp: fun_eq_iff intro!: arg_cong [where f = "kbind _"])
qed simp

text \<open>
  \<open>fmt_ok fmt args\<close>: the format is complete and the arguments fit its conversions.
\<close>

definition arg_ok :: "char \<Rightarrow> parg \<Rightarrow> bool" where
  "arg_ok c a =
     (case a of
        PInt n \<Rightarrow> c \<noteq> CHR ''s'' \<and> \<not> (c = CHR ''d'' \<and> n = 0x80000000)
      | PStr _ \<Rightarrow> c = CHR ''s'')"

function fmt_ok :: "string \<Rightarrow> parg list \<Rightarrow> bool" where
  "fmt_ok [] args = True"
| "fmt_ok (c # cs) args =
     (if c \<noteq> CHR ''%'' then fmt_ok cs args
      else
        let cs2 = snd (parse_pad (snd (parse_pad0 cs))) in
        if cs2 = [] \<or> args = [] then False
        else arg_ok (hd cs2) (hd args) \<and> fmt_ok (tl cs2) (tl args))"
  by pat_completeness auto
termination
proof (relation "measure (\<lambda>(cs, args). length cs)", goal_cases)
  case (3 c cs args cs2)
  then have "length cs2 \<le> length cs" "cs2 \<noteq> []"
    using parse_pad0_length [of cs] parse_pad_length [of "snd (parse_pad0 cs)"] by auto
  then show ?case by (cases cs2) auto
qed auto

lemma put_conv_ok:
  assumes "con_ok s" "arg_ok c a"
  shows "\<exists>s'. put_conv pad0 pad c (a # args) s = Ok (args, s') \<and> con_step s s'"
proof (cases a)
  case (PInt n)
  show ?thesis
  proof (cases "c = CHR ''d'' \<or> c = CHR ''u'' \<or> c = CHR ''x''")
    case True
    have "\<not> (c = CHR ''d'' \<and> n = 0x80000000)"
      using assms(2) PInt by (simp add: arg_ok_def)
    then have "\<exists>p. itoa c n = Ok p"
      by (simp add: itoa_def Let_def)
    then obtain p where p: "itoa c n = Ok p" by blast
    obtain s' where "put_padded pad0 pad p s = Ok s'" "con_step s s'"
      using put_padded_ok [OF assms(1)] by blast
    then show ?thesis
      using True PInt p by (auto simp: put_conv_def)
  next
    case False
    then show ?thesis
      using PInt assms(2) putchar_ok [OF assms(1), of n] by (auto simp: put_conv_def arg_ok_def)
  qed
next
  case (PStr p)
  then have "c = CHR ''s''" using assms(2) by (simp add: arg_ok_def)
  then show ?thesis
    using PStr put_padded_ok [OF assms(1), of pad0 pad "''(null)''"]
      put_padded_ok [OF assms(1), of pad0 pad "the p"]
    by (cases p) (auto simp: put_conv_def)
qed

lemma printf_ok: "con_ok s \<Longrightarrow> fmt_ok cs args \<Longrightarrow> \<exists>s'. printf cs args s = Ok s' \<and> con_step s s'"
proof (induction cs args arbitrary: s rule: fmt_ok.induct)
  case (1 args)
  then show ?case by (simp add: con_step_refl)
next
  case (2 c cs args)
  show ?case
  proof (cases "c = CHR ''%''")
    case False
    obtain s1 where s1: "putchar (of_char c) s = Ok s1" "con_step s s1"
      using putchar_ok [OF 2(3)] by blast
    then have "con_ok s1" by (simp add: con_step_def)
    from 2(1) [OF False this] 2(4) False s1 show ?thesis
      using con_step_trans [OF s1(2)] by auto
  next
    case True
    let ?cs2 = "snd (parse_pad (snd (parse_pad0 cs)))"
    obtain a as where a: "args = a # as" "?cs2 \<noteq> []" "arg_ok (hd ?cs2) a" "fmt_ok (tl ?cs2) as"
      using 2(4) True by (cases args) (auto simp: Let_def split: if_splits)
    obtain s1 where s1: "con_step s s1"
        "put_conv (fst (parse_pad0 cs)) (fst (parse_pad (snd (parse_pad0 cs)))) (hd ?cs2) args s = Ok (as, s1)"
      using put_conv_ok [OF 2(3) a(3)] a(1) by blast
    then have "con_ok s1" by (simp add: con_step_def)
    with 2(2) [of ?cs2 s1] a obtain s2 where "printf (tl ?cs2) as s1 = Ok s2" "con_step s1 s2"
      using True by auto
    with s1 a(2) True show ?thesis
      using con_step_trans [OF s1(1)] by (auto simp: Let_def)
  qed
qed

lemma cls_ok: "\<exists>s'. cls s = Ok s' \<and> con_ok s' \<and> (\<forall>i<3840. vmem s' (VIDEO + of_nat i) = 0) \<and>
    (\<forall>a. a \<notin> screen \<longrightarrow> vmem s' a = vmem s a)"
proof -
  let ?P = "\<lambda>i s'. video s' = VIDEO \<and> (\<forall>j<i. vmem s' (VIDEO + of_nat j) = 0) \<and>
    (\<forall>a. a \<notin> screen \<longrightarrow> vmem s' a = vmem s a)"
  have n: "COLUMNS * LINES * 2 = 3840" by (simp add: COLUMNS_def LINES_def)
  have "\<exists>s'. for_up 3840 0 (\<lambda>i s. vput (of_nat i) 0 s) (s\<lparr>video := VIDEO\<rparr>) = Ok s' \<and> ?P (0 + 3840) s'"
  proof (rule for_up_rule [where P = ?P])
    fix j and s' :: con assume "0 \<le> j" "j < 0 + (3840 :: nat)" "?P j s'"
    moreover from this have "VIDEO + of_nat j \<in> screen" by (auto simp: screen_def)
    ultimately show "\<exists>s''. vput (of_nat j) 0 s' = Ok s'' \<and> ?P (Suc j) s''"
      by (auto simp: vput_def less_Suc_eq)
  qed simp
  then show ?thesis
    using n by (auto simp: cls_def con_ok_def COLUMNS_def LINES_def)
qed

section \<open>The numbers that itoa prints\<close>

lemma swap_loop_rev:
  "swap_loop (length xs) (length xs + length ys - 1) (xs @ ys @ zs) = xs @ rev ys @ zs"
proof (induction "length ys" arbitrary: xs ys zs rule: less_induct)
  case less
  show ?case
  proof (cases "length ys < 2")
    case True
    then have "rev ys = ys" "\<not> length xs < length xs + length ys - 1"
      by (cases ys; auto)+
    then show ?thesis by (subst swap_loop.simps) simp
  next
    case False
    then obtain y ys' where "ys = y # ys'" "ys' \<noteq> []" by (cases ys) auto
    then obtain m z where ys: "ys = y # m @ [z]" by (cases ys' rule: rev_cases) auto
    let ?p1 = "length xs" and ?p2 = "length xs + length ys - 1"
    have p2: "?p2 = length (xs @ y # m)" using ys by simp
    have "(xs @ ys @ zs)[?p1 := (xs @ ys @ zs) ! ?p2, ?p2 := (xs @ ys @ zs) ! ?p1]
        = (xs @ [z]) @ m @ (y # zs)"
      unfolding p2 using ys by (simp add: nth_append list_update_append)
    moreover have "swap_loop (length (xs @ [z])) (length (xs @ [z]) + length m - 1) ((xs @ [z]) @ m @ (y # zs))
        = (xs @ [z]) @ rev m @ (y # zs)"
      using ys by (intro less) simp
    ultimately show ?thesis
      using ys by (subst swap_loop.simps) simp
  qed
qed

lemma swap_loop_eq: "swap_loop 0 (length ds - 1) ds = rev ds"
  using swap_loop_rev [of "[]" ds "[]"] by simp

definition digit_val :: "char \<Rightarrow> nat" where
  "digit_val c = (if 97 \<le> (of_char c :: nat) then of_char c - 87 else of_char c - 48)"

definition num_of :: "nat \<Rightarrow> string \<Rightarrow> nat" where
  "num_of b cs = foldl (\<lambda>n c. n * b + digit_val c) 0 cs"

lemma num_of_snoc: "num_of b (cs @ [c]) = num_of b cs * b + digit_val c"
  by (simp add: num_of_def)

lemma unat_add_small: "unat (r :: u32) < 16 \<Longrightarrow> k < 256 \<Longrightarrow> unat (r + of_nat k) = unat r + k"
  using unat_of_nat_u32 [of k] by (subst unat_add_u32_small) auto

lemma digit_val_itoa: "r < 16 \<Longrightarrow> digit_val (itoa_digit r) = unat (r :: u32)"
proof -
  assume "r < 16"
  then have r: "unat r < 16" by (simp add: u32_less_iff_unat)
  show ?thesis
  proof (cases "r < 10")
    case True
    then have "unat r < 10" by (simp add: u32_less_iff_unat)
    then show ?thesis
      using True unat_add_small [OF r, of 48] by (simp add: itoa_digit_def digit_val_def of_char_of)
  next
    case False
    then have "10 \<le> unat r" by (simp add: u32_less_iff_unat)
    moreover have "unat (87 + r) = unat r + 87"
      using unat_add_small [OF r, of 87] by (simp add: add.commute)
    ultimately show ?thesis
      using False r by (simp add: itoa_digit_def digit_val_def of_char_of)
  qed
qed

lemma itoa_loop_num: "num_of (unat (divisor base)) (rev (itoa_loop base ud)) = unat ud"
proof (induction base ud rule: itoa_loop.induct)
  case (1 base ud)
  let ?d = "divisor base"
  have "0 < ?d" "?d \<le> 16" using divisor_cases [of base] by auto
  then have "ud mod ?d < 16" by (meson order.strict_trans2 word_mod_less_divisor)
  then have v: "digit_val (itoa_digit (ud mod ?d)) = unat ud mod unat ?d"
    by (simp add: digit_val_itoa unat_mod)
  show ?case
  proof (cases "ud div ?d = 0")
    case True
    then have "unat ud div unat ?d = 0" by (metis unat_0 unat_div)
    then have "unat ud mod unat ?d = unat ud" using div_mult_mod_eq [of "unat ud" "unat ?d"] by simp
    then show ?thesis using True v by (subst itoa_loop.simps) (simp add: num_of_def)
  next
    case False
    then show ?thesis
      using 1 v by (subst itoa_loop.simps) (simp add: num_of_snoc unat_div)
  qed
qed

lemma itoa_loop_length: "unat ud < 10 ^ Suc k \<Longrightarrow> length (itoa_loop base ud) \<le> Suc k"
proof (induction k arbitrary: ud)
  case 0
  then have "unat ud < unat (divisor base)"
    using divisor_cases [of base] by auto
  then have "ud div divisor base = 0"
    by (simp add: u32_eq_iff_unat unat_div)
  then show ?case by (subst itoa_loop.simps) simp
next
  case (Suc k)
  have "unat (ud div divisor base) \<le> unat ud div 10"
    using divisor_cases [of base] by (auto simp: unat_div intro: div_le_mono2)
  also have "\<dots> < 10 ^ Suc k"
    using Suc.prems by (intro less_mult_imp_div_less) simp
  finally have "length (itoa_loop base (ud div divisor base)) \<le> Suc k"
    by (rule Suc.IH)
  then show ?case by (subst itoa_loop.simps) simp
qed

lemma itoa_loop_bound: "length (itoa_loop base ud) \<le> 10"
  using itoa_loop_length [of ud 9 base] unat_u32_bound [of ud] by simp

lemma itoa_eq:
  "itoa base d =
     (if base = CHR ''d'' \<and> d <s 0 then
        if d = 0x80000000 then Fault IntOverflow else Ok (CHR ''-'' # rev (itoa_loop base (- d)))
      else Ok (rev (itoa_loop base d)))"
  unfolding itoa_def Let_def swap_loop_eq by (rule refl)

section \<open>Reading the numbers back\<close>

lemma sint_of_unat:
  fixes d :: u32
  assumes "unat d = n"
  shows "sint d = (if 2147483648 \<le> n then int n - 4294967296 else int n)"
proof -
  have sd: "sint d = signed_take_bit 31 (int n)" using assms by (auto simp: sint_uint)
  have n: "n < 4294967296" using assms unat_u32_bound [of d] by simp
  show ?thesis
  proof (cases "n < 2147483648")
    case True
    then have "signed_take_bit 31 (int n) = int n" by (intro signed_take_bit_int_eq_self) auto
    then show ?thesis unfolding sd using True by simp
  next
    case False
    have "signed_take_bit 31 (int n) = signed_take_bit 31 (int n - 4294967296)"
      by (simp add: signed_take_bit_eq_iff_take_bit_eq take_bit_eq_mod)
    also have "\<dots> = int n - 4294967296"
      using False n by (intro signed_take_bit_int_eq_self) auto
    finally show ?thesis unfolding sd using False by simp
  qed
qed

lemma neg_iff: "(d :: u32) <s 0 \<longleftrightarrow> 2147483648 \<le> unat d"
proof -
  define n where "n = unat d"
  then have "sint d = (if 2147483648 \<le> n then int n - 4294967296 else int n)" "n < 4294967296"
    using sint_of_unat [of d n] unat_u32_bound [of d] by auto
  then show ?thesis unfolding word_sless_alt n_def [symmetric] by simp
qed

lemma unat_neg: "(d :: u32) \<noteq> 0 \<Longrightarrow> unat (- d) = 4294967296 - unat d"
proof -
  assume d: "d \<noteq> 0"
  have "unat (- d + d) = (unat (- d) + unat d) mod 4294967296" by (rule unat_add_u32)
  then have m: "(unat (- d) + unat d) mod 4294967296 = 0" by simp
  have "0 < unat d" using d by (simp add: unat_gt_0)
  moreover obtain k where "unat (- d) + unat d = 4294967296 * k" using m by auto
  moreover have "unat (- d) + unat d < 4294967296 * 2" using unat_u32_bound [of d] unat_u32_bound [of "- d"] by linarith
  ultimately have "0 < k" "4294967296 * k < 4294967296 * (2 :: nat)" by (auto intro: Nat.gr0I)
  then have "k = 1" by simp
  then show ?thesis using \<open>unat (- d) + unat d = 4294967296 * k\<close> by simp
qed

definition scan_num :: "char \<Rightarrow> string \<Rightarrow> int" where
  "scan_num base p = (if base = CHR ''d'' \<and> p \<noteq> [] \<and> hd p = CHR ''-'' then - int (num_of 10 (tl p))
     else int (num_of (unat (divisor base)) p))"

lemma itoa_digit_not_minus: "r < 16 \<Longrightarrow> itoa_digit r \<noteq> CHR ''-''"
proof
  assume r: "r < 16" and e: "itoa_digit r = CHR ''-''"
  have u: "unat r < 16" using r by (simp add: u32_less_iff_unat)
  have "digit_val (CHR ''-'') = 0" by (simp add: digit_val_def)
  then have "unat r = 0" using digit_val_itoa [OF r] e by simp
  then have "r = 0" by (simp add: u32_eq_iff_unat)
  then have "of_char (char_of (48 :: nat)) = (of_char CHR ''-'' :: nat)" using e by (simp add: itoa_digit_def)
  then show False by simp
qed

lemma divisor_mod_16: "(ud :: u32) mod divisor base < 16"
proof -
  have "0 < divisor base" "divisor base \<le> 16" using divisor_cases [of base] by auto
  then show ?thesis by (meson order.strict_trans2 word_mod_less_divisor)
qed

lemma itoa_loop_digits: "CHR ''-'' \<notin> set (itoa_loop base ud)"
proof (induction base ud rule: itoa_loop.induct)
  case (1 base ud)
  then show ?case
    using itoa_digit_not_minus [OF divisor_mod_16 [of ud base]] by (subst itoa_loop.simps) auto
qed

lemma itoa_scan:
  assumes "itoa base d = Ok p"
  shows "scan_num base p = (if base = CHR ''d'' then sint d else int (unat d))"
proof (cases "base = CHR ''d'' \<and> d <s 0")
  case True
  then have p: "p = CHR ''-'' # rev (itoa_loop base (- d))" and d: "d \<noteq> 0"
    using assms by (auto simp: itoa_eq split: if_splits)
  have n: "num_of 10 (tl p) = 4294967296 - unat d" and big: "2147483648 \<le> unat d"
    using True p itoa_loop_num [of base "- d"] unat_neg [OF d] by (auto simp: divisor_def neg_iff)
  have "scan_num base p = - int (4294967296 - unat d)" using True p n by (simp add: scan_num_def)
  also have "\<dots> = sint d" using big unat_u32_bound [of d] unfolding sint_of_unat [OF refl, of d] by (simp add: of_nat_diff)
  finally show ?thesis using True by simp
next
  case False
  then have p: "p = rev (itoa_loop base d)" using assms by (auto simp: itoa_eq split: if_splits)
  then have "p \<noteq> [] \<Longrightarrow> hd p \<noteq> CHR ''-''" using itoa_loop_digits [of base d] hd_in_set [of p] by auto
  then have "scan_num base p = int (unat d)"
    using p itoa_loop_num [of base d] unfolding scan_num_def by auto
  moreover have "base = CHR ''d'' \<Longrightarrow> sint d = int (unat d)"
    using False unfolding sint_of_unat [OF refl, of d] by (auto simp: neg_iff)
  ultimately show ?thesis by simp
qed

lemma itoa_fault: "itoa base d = Fault e \<longleftrightarrow> base = CHR ''d'' \<and> d = 0x80000000 \<and> e = IntOverflow"
  by (auto simp: itoa_eq neg_iff)
end
