(* ===== verification/Machine.thy ===== *)
theory Machine
  imports Bits
begin

text \<open>
  The processor state and the port devices as \<^verbatim>\<open>kernel/lib/asm_wrapper.c\<close> and \<^verbatim>\<open>asm_wrapper.h\<close>
  reach them.

  Each wrapper is one or a few instructions, and is modelled by their effect on the registers.
  The devices behind the ports are not part of the kernel: \<open>dev\<close> and \<open>devl\<close> are parameters of
  the state that give the byte or word that a read of a port returns, as a function of the
  history of all port accesses (\<open>trace\<close>, the latest access first).  \<open>wmem\<close> is raw memory in
  32-bit words, for the buffers that \<^verbatim>\<open>insl\<close>, \<^verbatim>\<open>outsl\<close> and \<^verbatim>\<open>ClearPage\<close> access.
\<close>

datatype io = OutB u16 u8 | InB u16 u8 | OutL u16 u32 | InL u16 u32

record machine =
  creg :: "nat \<Rightarrow> u32"
  eflags :: u32
  esp_reg :: u32
  seg_reg :: "char \<Rightarrow> u16"
  gdtr_reg :: "u16 \<times> u32"
  idtr_reg :: "u16 \<times> u32"
  tr_reg :: u16
  wmem :: "u32 \<Rightarrow> u32"
  trace :: "io list"
  dev :: "io list \<Rightarrow> u16 \<Rightarrow> u8"
  devl :: "io list \<Rightarrow> u16 \<Rightarrow> u32"

section \<open>Ports\<close>

definition inb :: "u16 \<Rightarrow> machine \<Rightarrow> u8 \<times> machine" where
  "inb port m = (let d = dev m (trace m) port in (d, m\<lparr>trace := InB port d # trace m\<rparr>))"

definition outb :: "u16 \<Rightarrow> u8 \<Rightarrow> machine \<Rightarrow> machine" where
  "outb port data m = m\<lparr>trace := OutB port data # trace m\<rparr>"

text \<open>\<^verbatim>\<open>rep insl\<close> and \<^verbatim>\<open>rep outsl\<close>: the number of words counts down, the address moves up.\<close>

primrec insl_loop :: "nat \<Rightarrow> u16 \<Rightarrow> u32 \<Rightarrow> machine \<Rightarrow> machine" where
  "insl_loop 0 port addr m = m"
| "insl_loop (Suc n) port addr m =
     (let d = devl m (trace m) port in
      insl_loop n port (addr + 4) (m\<lparr>trace := InL port d # trace m, wmem := (wmem m)(addr := d)\<rparr>))"

definition insl :: "u32 \<Rightarrow> u32 \<Rightarrow> u32 \<Rightarrow> machine \<Rightarrow> machine" where
  "insl port addr word_num m = insl_loop (unat word_num) (ucast port) addr m"

primrec outsl_loop :: "nat \<Rightarrow> u16 \<Rightarrow> u32 \<Rightarrow> machine \<Rightarrow> machine" where
  "outsl_loop 0 port addr m = m"
| "outsl_loop (Suc n) port addr m =
     outsl_loop n port (addr + 4) (m\<lparr>trace := OutL port (wmem m addr) # trace m\<rparr>)"

definition outsl :: "u32 \<Rightarrow> u32 \<Rightarrow> u32 \<Rightarrow> machine \<Rightarrow> machine" where
  "outsl port addr word_num m = outsl_loop (unat word_num) (ucast port) addr m"

section \<open>Registers\<close>

definition get_cr :: "nat \<Rightarrow> machine \<Rightarrow> u32" where
  "get_cr cr_no m = (if cr_no \<le> 4 then creg m cr_no else 0)"

definition set_cr :: "nat \<Rightarrow> nat \<Rightarrow> machine \<Rightarrow> machine kres" where
  "set_cr cr_no i m =
     kbind (shl1 i) (\<lambda>cr.
     Ok (if cr_no \<le> 4 then m\<lparr>creg := (creg m)(cr_no := creg m cr_no OR cr)\<rparr> else m))"

definition clear_cr :: "nat \<Rightarrow> nat \<Rightarrow> machine \<Rightarrow> machine kres" where
  "clear_cr cr_no i m =
     kbind (shl1 i) (\<lambda>b. let cr = NOT b in
     Ok (if cr_no \<le> 4 then m\<lparr>creg := (creg m)(cr_no := creg m cr_no AND cr)\<rparr> else m))"

definition get_eflags :: "machine \<Rightarrow> u32" where
  "get_eflags m = eflags m"

definition get_seg_reg :: "char \<Rightarrow> machine \<Rightarrow> u16" where
  "get_seg_reg c m = (if c \<in> set ''cdefgs'' then seg_reg m c else 0)"

definition get_esp :: "machine \<Rightarrow> u32" where
  "get_esp m = esp_reg m"

text \<open>\<^verbatim>\<open>sti\<close> and \<^verbatim>\<open>cli\<close> set and clear the interrupt flag, bit 9 of \<^verbatim>\<open>EFLAGS\<close>.\<close>

definition intr_enable :: "machine \<Rightarrow> machine" where
  "intr_enable m = m\<lparr>eflags := eflags m OR 0x200\<rparr>"

definition intr_disable :: "machine \<Rightarrow> machine" where
  "intr_disable m = m\<lparr>eflags := eflags m AND NOT 0x200\<rparr>"

section \<open>Lemmas\<close>

lemma creg_set_cr:
  assumes "cr_no \<le> 4" "i < 32"
  shows "\<exists>m'. set_cr cr_no i m = Ok m' \<and>
    (\<forall>k j. bit (creg m' k) j \<longleftrightarrow> (k = cr_no \<and> j = i) \<or> bit (creg m k) j) \<and> dev m' = dev m"
  using assms by (auto simp: set_cr_def bit_or_exp)

lemma creg_clear_cr:
  assumes "cr_no \<le> 4" "i < 32"
  shows "\<exists>m'. clear_cr cr_no i m = Ok m' \<and>
    (\<forall>k j. bit (creg m' k) j \<longleftrightarrow> \<not> (k = cr_no \<and> j = i) \<and> bit (creg m k) j) \<and> dev m' = dev m"
  using assms by (auto simp: clear_cr_def bit_and_not_exp Let_def)

lemma insl_loop_frame:
  "(\<forall>j<n. x \<noteq> addr + 4 * of_nat j) \<Longrightarrow> wmem (insl_loop n port addr m) x = wmem m x"
proof (induction n arbitrary: addr m)
  case (Suc n)
  have "\<forall>j<n. x \<noteq> addr + 4 + 4 * of_nat j"
  proof (intro allI impI)
    fix j assume "j < n"
    then show "x \<noteq> addr + 4 + 4 * of_nat j"
      using Suc.prems [rule_format, of "Suc j"] by (simp add: algebra_simps)
  qed
  moreover have "x \<noteq> addr" using Suc.prems [rule_format, of 0] by simp
  ultimately show ?case using Suc.IH by (simp add: Let_def)
qed simp

end
