(* ===== verification/Segment.thy ===== *)
theory Segment
  imports Queues Console Machine
begin

text \<open>
  \<^verbatim>\<open>kernel/memory/segment.c\<close> and \<^verbatim>\<open>segment.h\<close>: the global descriptor table.

  The record \<open>kbase\<close> adds to the kernel heap the console, the processor and the table.  The
  descriptors are records with the bit fields of the source; \<open>seg_base\<close> and \<open>seg_limit\<close> read a
  descriptor the way the processor does.  \<^verbatim>\<open>GdtInit\<close> stores \<^verbatim>\<open>(uint16_t) GdtLimit\<close>, the low half
  of the address of the function and not its result; that address depends on the linker and is a
  parameter.
\<close>

record SegDescriptor =
  limit_0_15 :: u16
  base_addr_0_15 :: u16
  base_addr_16_23 :: u8
  seg_access :: u8
  limit_16_19 :: "4 word"
  seg_flags :: "4 word"
  base_addr_24_31 :: u8

record kbase = kheap +
  console :: con
  mach :: machine
  gdt_at :: "u32 \<Rightarrow> SegDescriptor"

definition kprintf :: "string \<Rightarrow> parg list \<Rightarrow> 'a kbase_scheme \<Rightarrow> 'a kbase_scheme kres" where
  "kprintf fmt args s = kbind (printf fmt args (console s)) (\<lambda>c. Ok (s\<lparr>console := c\<rparr>))"

definition koutb :: "u16 \<Rightarrow> u8 \<Rightarrow> 'a kbase_scheme \<Rightarrow> 'a kbase_scheme" where
  "koutb port data s = s\<lparr>mach := outb port data (mach s)\<rparr>"

definition kinb :: "u16 \<Rightarrow> 'a kbase_scheme \<Rightarrow> u8 \<times> 'a kbase_scheme" where
  "kinb port s = (let (d, m) = inb port (mach s) in (d, s\<lparr>mach := m\<rparr>))"

definition kGdtBaseAddr :: u32 where "kGdtBaseAddr = 0xc0000000"

definition kGdtNum :: u32 where "kGdtNum = 6"

definition kSegSize :: u32 where "kSegSize = 0xffffffff"

definition kDescriptorFlags :: u8 where "kDescriptorFlags = 0xc"

definition kSegBaseAddr :: u32 where "kSegBaseAddr = 0"

definition kSegPriority0 :: u32 where "kSegPriority0 = 0x9"

definition kSegPriority3 :: u32 where "kSegPriority3 = 0xf"

definition kSegTypeData :: u32 where "kSegTypeData = 0x2"

definition kSegTypeCode :: u32 where "kSegTypeCode = 0xa"

definition sTssSize :: u32 where "sTssSize = 103"

definition kTssAccess :: u8 where "kTssAccess = 0x89"

definition kTssFlags :: u8 where "kTssFlags = 0x1"

definition kTssBaseAddr :: u32 where "kTssBaseAddr = 0xc001e000"

definition kKCodeSeg :: u32 where "kKCodeSeg = 0x8"

definition kKDataSeg :: u32 where "kKDataSeg = 0x10"

definition kUCodeSeg :: u32 where "kUCodeSeg = 0x1b"

definition kUDataSeg :: u32 where "kUDataSeg = 0x23"

definition Access :: "u32 \<Rightarrow> u32 \<Rightarrow> u32" where
  "Access priority type = push_bit 4 priority OR type"

definition GdtLimit :: u32 where
  "GdtLimit = push_bit 3 kGdtNum - 1"

definition set_gdt_entry ::
    "u32 \<Rightarrow> u32 \<Rightarrow> u32 \<Rightarrow> u8 \<Rightarrow> u8 \<Rightarrow> 'a kbase_scheme \<Rightarrow> 'a kbase_scheme kres" where
  "set_gdt_entry entry base_addr limit access flags s =
     wr gdt_at gdt_at_update entry
       \<lparr>limit_0_15 = ucast limit,
        base_addr_0_15 = ucast base_addr,
        base_addr_16_23 = ucast (drop_bit 16 base_addr),
        seg_access = access,
        limit_16_19 = ucast (drop_bit 16 limit),
        seg_flags = ucast flags,
        base_addr_24_31 = ucast (drop_bit 24 base_addr)\<rparr> s"

definition gdt_entry :: "nat \<Rightarrow> u32" where
  "gdt_entry i = kGdtBaseAddr + 8 * of_nat i"

definition load_segments :: "u16 \<Rightarrow> machine \<Rightarrow> machine" where
  "load_segments sel m =
     m\<lparr>seg_reg := (seg_reg m)(CHR ''d'' := sel, CHR ''e'' := sel, CHR ''s'' := sel,
                              CHR ''f'' := sel, CHR ''g'' := sel)\<rparr>"

text \<open>
  The limit that is loaded comes from the address of the function \<^verbatim>\<open>GdtLimit\<close>.  Selectors that are loaded later are not compared with it.
\<close>

definition GdtInit :: "u32 \<Rightarrow> 'a kbase_scheme \<Rightarrow> 'a kbase_scheme kres" where
  "GdtInit addr_of_GdtLimit s =
     kbind (set_gdt_entry (gdt_entry 0) 0 0 0 0 s) (\<lambda>s.
     kbind (set_gdt_entry (gdt_entry 1) kSegBaseAddr kSegSize
              (ucast (Access kSegPriority0 kSegTypeCode)) kDescriptorFlags s) (\<lambda>s.
     kbind (set_gdt_entry (gdt_entry 2) kSegBaseAddr kSegSize
              (ucast (Access kSegPriority0 kSegTypeData)) kDescriptorFlags s) (\<lambda>s.
     kbind (set_gdt_entry (gdt_entry 3) kSegBaseAddr kSegSize
              (ucast (Access kSegPriority3 kSegTypeCode)) kDescriptorFlags s) (\<lambda>s.
     kbind (set_gdt_entry (gdt_entry 4) kSegBaseAddr kSegSize
              (ucast (Access kSegPriority3 kSegTypeData)) kDescriptorFlags s) (\<lambda>s.
     kbind (set_gdt_entry (gdt_entry 5) kTssBaseAddr sTssSize kTssAccess kTssFlags s) (\<lambda>s.
     let m = (mach s)\<lparr>gdtr_reg := (ucast addr_of_GdtLimit, kGdtBaseAddr)\<rparr> in
     Ok (s\<lparr>mach := load_segments (ucast kKDataSeg) m\<rparr>)))))))"

text \<open>
  \<^verbatim>\<open>print_seg_reg\<close> writes the digits through a pointer that it never sets.  Whether the memory behind it can be written is
  the parameter \<open>buf_ok\<close>; if it can, the string is what \<^verbatim>\<open>itoa\<close> has written.
\<close>

definition print_seg :: "bool \<Rightarrow> string \<Rightarrow> char \<Rightarrow> 'a kbase_scheme \<Rightarrow> 'a kbase_scheme kres" where
  "print_seg buf_ok name c s =
     kbind (if buf_ok then itoa CHR ''x'' (ucast (seg_reg (mach s) c)) else Fault PageFault) (\<lambda>buf.
     kbind (kprintf name [] s) (\<lambda>s.
     kbind (kprintf buf [] s) (\<lambda>s.
     kprintf '' '' [] s)))"

definition print_seg_reg :: "bool \<Rightarrow> 'a kbase_scheme \<Rightarrow> 'a kbase_scheme kres" where
  "print_seg_reg buf_ok s =
     kbind (print_seg buf_ok ''cs='' CHR ''c'' s) (\<lambda>s.
     kbind (print_seg buf_ok ''ds='' CHR ''d'' s) (\<lambda>s.
     kbind (print_seg buf_ok ''es='' CHR ''e'' s) (\<lambda>s.
     kbind (print_seg buf_ok ''fs='' CHR ''f'' s) (\<lambda>s.
     kbind (print_seg buf_ok ''gs='' CHR ''g'' s) (\<lambda>s.
     kbind (print_seg buf_ok ''ss='' CHR ''s'' s) (\<lambda>s.
     kprintf [CHR 0x0A] [] s))))))"

section \<open>How the processor reads a descriptor\<close>

definition seg_base :: "SegDescriptor \<Rightarrow> u32" where
  "seg_base d = push_bit 24 (ucast (base_addr_24_31 d)) OR push_bit 16 (ucast (base_addr_16_23 d)) OR
     ucast (base_addr_0_15 d)"

definition seg_limit :: "SegDescriptor \<Rightarrow> u32" where
  "seg_limit d =
     (let l = push_bit 16 (ucast (limit_16_19 d)) OR ucast (limit_0_15 d) :: u32 in
      if bit (seg_flags d) 3 then push_bit 12 l OR 0xfff else l)"

definition seg_present :: "SegDescriptor \<Rightarrow> bool" where
  "seg_present d \<longleftrightarrow> bit (seg_access d) 7"

definition seg_dpl :: "SegDescriptor \<Rightarrow> nat" where
  "seg_dpl d = unat (drop_bit 5 (seg_access d) AND 3)"

definition seg_is_code :: "SegDescriptor \<Rightarrow> bool" where
  "seg_is_code d \<longleftrightarrow> bit (seg_access d) 4 \<and> bit (seg_access d) 3"

definition seg_is_data :: "SegDescriptor \<Rightarrow> bool" where
  "seg_is_data d \<longleftrightarrow> bit (seg_access d) 4 \<and> \<not> bit (seg_access d) 3"

lemma base_fields:
  "push_bit 24 (ucast (ucast (drop_bit 24 b) :: u8)) OR push_bit 16 (ucast (ucast (drop_bit 16 b) :: u8)) OR
   ucast (ucast b :: u16) = (b :: u32)"
proof (rule bit_word_eqI)
  fix n assume "n < LENGTH(32)"
  then have n: "n < 32" by simp
  consider "n < 16" | "16 \<le> n" "n < 24" | "24 \<le> n" by linarith
  then show "bit (push_bit 24 (ucast (ucast (drop_bit 24 b) :: u8)) OR
      push_bit 16 (ucast (ucast (drop_bit 16 b) :: u8)) OR ucast (ucast b :: u16) :: u32) n = bit b n"
  proof cases
    case 1
    then show ?thesis by (simp add: bit_simps)
  next
    case 2
    then have "n - 16 < 8" "16 + (n - 16) = n" by auto
    with 2 n show ?thesis by (simp add: bit_simps)
  next
    case 3
    then have "n - 24 < 8" "24 + (n - 24) = n" "\<not> n - 16 < 8" using n by auto
    with 3 n show ?thesis by (auto simp: bit_simps)
  qed
qed

lemma limit_fields:
  assumes "\<And>n. 20 \<le> n \<Longrightarrow> \<not> bit l n"
  shows "push_bit 16 (ucast (ucast (drop_bit 16 l) :: 4 word)) OR ucast (ucast l :: u16) = (l :: u32)"
proof (rule bit_word_eqI)
  fix n assume "n < LENGTH(32)"
  then have n: "n < 32" by simp
  consider "n < 16" | "16 \<le> n" "n < 20" | "20 \<le> n" by linarith
  then show "bit (push_bit 16 (ucast (ucast (drop_bit 16 l) :: 4 word)) OR ucast (ucast l :: u16) :: u32) n
      = bit l n"
  proof cases
    case 1
    then show ?thesis by (simp add: bit_simps)
  next
    case 2
    then have "n - 16 < 4" "16 + (n - 16) = n" by auto
    with 2 n show ?thesis by (simp add: bit_simps)
  next
    case 3
    then have "\<not> n - 16 < 4" using n by auto
    with 3 n assms [of n] show ?thesis by (simp add: bit_simps)
  qed
qed

lemma bit_above:
  assumes "unat (l :: u32) < 2 ^ k" "k \<le> n"
  shows "\<not> bit l n"
proof -
  have "unat (take_bit k l) = unat l"
    using assms(1) by (simp add: unsigned_take_bit_eq take_bit_nat_eq_self)
  then have "take_bit k l = l" by (simp add: u32_eq_iff_unat)
  then show ?thesis
    using assms(2) by (metis bit_take_bit_iff not_le)
qed

lemma seg_base_roundtrip:
  "set_gdt_entry p b l a f s = Ok s' \<Longrightarrow> seg_base (gdt_at s' p) = b"
  by (cases "p = 0") (auto simp: set_gdt_entry_def seg_base_def base_fields)

lemma seg_limit_roundtrip:
  assumes "set_gdt_entry p b l a f s = Ok s'" "\<not> bit f 3" "unat l < 2 ^ 20"
  shows "seg_limit (gdt_at s' p) = l"
  using assms limit_fields [OF bit_above [OF assms(3)]]
  by (cases "p = 0") (auto simp: set_gdt_entry_def seg_limit_def Let_def bit_simps)

section \<open>The table that GdtInit builds\<close>

lemma GdtInit_ok:
  "\<exists>s'. GdtInit adr s = Ok s' \<and>
     (\<forall>i\<in>{1,2,3,4}. seg_base (gdt_at s' (gdt_entry i)) = 0 \<and>
        seg_limit (gdt_at s' (gdt_entry i)) = 0xffffffff \<and> seg_present (gdt_at s' (gdt_entry i)) \<and>
        (seg_is_code (gdt_at s' (gdt_entry i)) \<longleftrightarrow> i = 1 \<or> i = 3) \<and>
        (seg_is_data (gdt_at s' (gdt_entry i)) \<longleftrightarrow> i = 2 \<or> i = 4) \<and>
        seg_dpl (gdt_at s' (gdt_entry i)) = (if i \<le> 2 then 0 else 3)) \<and>
     \<not> seg_present (gdt_at s' (gdt_entry 0)) \<and>
     seg_base (gdt_at s' (gdt_entry 5)) = kTssBaseAddr \<and> seg_limit (gdt_at s' (gdt_entry 5)) = 103 \<and>
     gdtr_reg (mach s') = (ucast adr, kGdtBaseAddr) \<and>
     (\<forall>c\<in>set ''defgs''. seg_reg (mach s') c = 0x10)"
  by (simp add: GdtInit_def set_gdt_entry_def gdt_entry_def kGdtBaseAddr_def Access_def seg_base_def
      seg_limit_def seg_present_def seg_is_code_def seg_is_data_def seg_dpl_def kSegBaseAddr_def
      kSegSize_def kSegPriority0_def kSegPriority3_def kSegTypeCode_def kSegTypeData_def
      kDescriptorFlags_def kTssBaseAddr_def sTssSize_def kTssAccess_def kTssFlags_def kKDataSeg_def
      load_segments_def Let_def)

end
