(* ===== verification/Paging.thy ===== *)
theory Paging
  imports Segment
begin

text \<open>
  \<^verbatim>\<open>kernel/memory/paging.c\<close>, \<^verbatim>\<open>paging.h\<close> and the memory map of \<^verbatim>\<open>memory_manager.c\<close>: page
  tables and the allocator of physical pages.  The page fault handler calls the process
  manager and is modelled in the theory \<open>Process\<close>.

  Page directory and page table entries are records with the bit fields of the source and live
  at physical addresses.  A pointer is turned into a physical address by \<open>lin\<close>: the identity
  while paging is off, and the mapping that \<^verbatim>\<open>PagingInit\<close> installs (first 4 MB and the direct
  mapping area) once it is on.  The theory \<open>PagingProps\<close> shows that the tables do
  translate addresses that way.  \<open>avl_mem\<close> is the array of available memory regions that the boot
  code fills in.

  Page numbers and counters stay below \<open>2 ^ 20\<close>.  \<^verbatim>\<open>GetPagePhysAddr\<close> multiplies \<^verbatim>\<open>int\<close>s; the
  product is taken modulo \<open>2 ^ 32\<close>, as the compiled code computes it.
\<close>

record Pde =
  pde_access :: u8
  pde_ignored :: "4 word"
  pde_pt_addr :: "20 word"

record Pte =
  pte_access :: "9 word"
  pte_ignored :: "3 word"
  pte_page_addr :: "20 word"

record pgs = kbase +
  avl_mem :: "(u32 \<times> u32) list"
  page_state :: "u32 list"
  pde_at :: "u32 \<Rightarrow> Pde"
  pte_at :: "u32 \<Rightarrow> Pte"

section \<open>Constants\<close>

definition PageSize :: u32 where "PageSize = 0x1000"

definition kVirtualPageNum :: u32 where "kVirtualPageNum = 0x100000"

definition kDynamicMappingStartPage :: u32 where "kDynamicMappingStartPage = 0x4000"

definition kUPdeNum :: nat where "kUPdeNum = 768"

definition kKPdeDirectMappingNum :: nat where "kKPdeDirectMappingNum = 16"

definition kPdeNum :: nat where "kPdeNum = 1024"

definition kPteMaxNum :: nat where "kPteMaxNum = 1024"

definition kPtMaxSize :: u32 where "kPtMaxSize = 4096"

definition kPdSize :: u32 where "kPdSize = 4096"

definition kKPtAddr :: u32 where "kKPtAddr = 0xc000d000"

definition kKPdAddr :: u32 where "kKPdAddr = 0xc0001000"

definition kPdeAbsentAddr :: u32 where "kPdeAbsentAddr = 0"

definition PTE_ABSENT_ADDR :: u32 where "PTE_ABSENT_ADDR = 0"

definition kKPdeWritePresentAccess :: u8 where "kKPdeWritePresentAccess = 0x3"

definition kKPdeWriteAbsentAccess :: u8 where "kKPdeWriteAbsentAccess = 0x2"

definition kUPdeReadPresentAccess :: u8 where "kUPdeReadPresentAccess = 0x5"

definition kUPdeWritePresentAccess :: u8 where "kUPdeWritePresentAccess = 0x7"

definition kUPdeWriteAbsentAccess :: u8 where "kUPdeWriteAbsentAccess = 0x6"

definition kKPteWritePresentAccess :: u8 where "kKPteWritePresentAccess = 0x3"

definition kUPteReadPresentAccess :: u8 where "kUPteReadPresentAccess = 0x5"

definition kUPteWritePresentAccess :: u8 where "kUPteWritePresentAccess = 0x7"

section \<open>Addresses\<close>

definition paging_on :: "'a kbase_scheme \<Rightarrow> bool" where
  "paging_on s \<longleftrightarrow> bit (creg (mach s) 0) 31"

text \<open>
  Where an access of the kernel goes once paging is on: the mapping of the kernel's own page directory, whose entries \<^verbatim>\<open>UPdClone\<close> copies to
  others.  It does not read \<^verbatim>\<open>cr3\<close>; the only code that loads another value, \<^verbatim>\<open>ThreadSwitch\<close>, checks its next accesses against the walk from there
  (\<open>cr3_maps\<close> in \<open>Threads\<close>).
\<close>

definition lin :: "u32 \<Rightarrow> 'a kbase_scheme \<Rightarrow> u32 kres" where
  "lin p s =
     (if \<not> paging_on s \<or> p < 0x400000 then Ok p
      else if kKVirtualAddr \<le> p \<and> p < kKVirtualAddr + kDirectMappingSize then Ok (p - kKVirtualAddr)
      else Fault PageFault)"

definition rd_pde :: "u32 \<Rightarrow> 'a pgs_scheme \<Rightarrow> Pde kres" where
  "rd_pde p s = kbind (lin p s) (\<lambda>a. Ok (pde_at s a))"

definition wr_pde :: "u32 \<Rightarrow> Pde \<Rightarrow> 'a pgs_scheme \<Rightarrow> 'a pgs_scheme kres" where
  "wr_pde p d s = kbind (lin p s) (\<lambda>a. Ok (s\<lparr>pde_at := (pde_at s)(a := d)\<rparr>))"

definition rd_pte :: "u32 \<Rightarrow> 'a pgs_scheme \<Rightarrow> Pte kres" where
  "rd_pte p s = kbind (lin p s) (\<lambda>a. Ok (pte_at s a))"

definition wr_pte :: "u32 \<Rightarrow> Pte \<Rightarrow> 'a pgs_scheme \<Rightarrow> 'a pgs_scheme kres" where
  "wr_pte p d s = kbind (lin p s) (\<lambda>a. Ok (s\<lparr>pte_at := (pte_at s)(a := d)\<rparr>))"

definition GetSizeInPage :: "u32 \<Rightarrow> u32" where
  "GetSizeInPage byte_size = byte_size div PageSize"

text \<open>The factors are of type \<^verbatim>\<open>int\<close>; from page \<open>0x80000\<close> on the product is the one modulo \<open>2 ^ 32\<close> that the machine computes.\<close>

definition GetPagePhysAddr :: "u32 \<Rightarrow> u32" where
  "GetPagePhysAddr n = n * PageSize"

definition GetPageNo :: "u32 \<Rightarrow> u32" where
  "GetPageNo addr = addr div PageSize"

definition GetPdAddrInReg :: "u32 \<Rightarrow> u32" where
  "GetPdAddrInReg phys_addr = drop_bit 12 phys_addr"

definition GetPtAddrInPde :: "u32 \<Rightarrow> u32" where
  "GetPtAddrInPde phys_addr = drop_bit 12 phys_addr"

definition GetPageAddrInPte :: "u32 \<Rightarrow> u32" where
  "GetPageAddrInPte phys_addr = drop_bit 12 phys_addr"

definition SetPte :: "u32 \<Rightarrow> u8 \<Rightarrow> u32 \<Rightarrow> 'a pgs_scheme \<Rightarrow> 'a pgs_scheme kres" where
  "SetPte entry access address s =
     wr_pte entry \<lparr>pte_access = ucast access, pte_ignored = 0,
                   pte_page_addr = ucast (GetPageAddrInPte address)\<rparr> s"

definition SetPde :: "u32 \<Rightarrow> u8 \<Rightarrow> u32 \<Rightarrow> 'a pgs_scheme \<Rightarrow> 'a pgs_scheme kres" where
  "SetPde entry access address s =
     wr_pde entry \<lparr>pde_access = access, pde_ignored = 0,
                   pde_pt_addr = ucast (GetPtAddrInPde address)\<rparr> s"

definition SwitchPd :: "u32 \<Rightarrow> 'a kbase_scheme \<Rightarrow> 'a kbase_scheme" where
  "SwitchPd pd_addr s =
     (let phys_addr = DirectMappingPhysAddr pd_addr in
      s\<lparr>mach := (mach s)\<lparr>creg := (creg (mach s))(3 := phys_addr)\<rparr>\<rparr>)"

section \<open>The page allocator\<close>

definition UINT32_MAX :: u32 where "UINT32_MAX = 0xffffffff"

definition avl_get :: "nat \<Rightarrow> 'a pgs_scheme \<Rightarrow> (u32 \<times> u32) kres" where
  "avl_get t s = (if t < length (avl_mem s) then Ok (avl_mem s ! t) else Fault OutOfBounds)"

definition set_page :: "u32 \<Rightarrow> 'a pgs_scheme \<Rightarrow> 'a pgs_scheme kres" where
  "set_page n s = kbind (SetBitmap (page_state s) n) (\<lambda>bm. Ok (s\<lparr>page_state := bm\<rparr>))"

definition clear_page :: "u32 \<Rightarrow> 'a pgs_scheme \<Rightarrow> 'a pgs_scheme kres" where
  "clear_page n s = kbind (ClearBitmap (page_state s) n) (\<lambda>bm. Ok (s\<lparr>page_state := bm\<rparr>))"

text \<open>The two inner loops of the initialisation for one available region.\<close>

definition MarkGap :: "u32 \<Rightarrow> u32 \<times> 'a pgs_scheme \<Rightarrow> (u32 \<times> 'a pgs_scheme) kres" where
  "MarkGap t_addr =
     kwhile (\<lambda>(addr, s). Ok (addr < t_addr))
            (\<lambda>(addr, s). kbind (set_page (GetPageNo addr) s) (\<lambda>s. Ok (addr + PageSize, s)))"

definition MarkRegion :: "u32 \<Rightarrow> u32 \<Rightarrow> u32 \<times> 'a pgs_scheme \<Rightarrow> (u32 \<times> 'a pgs_scheme) kres" where
  "MarkRegion t_addr t_size =
     kwhile (\<lambda>(addr, s). Ok (addr + PageSize \<le> t_addr + t_size))
            (\<lambda>(addr, s). kbind (clear_page (GetPageNo addr) s) (\<lambda>s. Ok (addr + PageSize, s)))"

definition MarkRegions :: "nat \<times> u32 \<times> 'a pgs_scheme \<Rightarrow> (nat \<times> u32 \<times> 'a pgs_scheme) kres" where
  "MarkRegions =
     kwhile (\<lambda>(t, addr, s). kbind (avl_get t s) (\<lambda>r. Ok (snd r \<noteq> UINT32_MAX)))
            (\<lambda>(t, addr, s).
               kbind (avl_get t s) (\<lambda>(t_addr, t_size).
               kbind (MarkGap t_addr (addr, s)) (\<lambda>(addr, s).
               kbind (MarkRegion t_addr t_size (addr, s)) (\<lambda>(addr, s).
               Ok (Suc t, addr, s)))))"

definition MarkRest :: "u32 \<times> 'a pgs_scheme \<Rightarrow> (u32 \<times> 'a pgs_scheme) kres" where
  "MarkRest =
     kwhile (\<lambda>(addr, s). Ok (GetPageNo addr \<noteq> 0))
            (\<lambda>(addr, s). kbind (clear_page (GetPageNo addr) s) (\<lambda>s. Ok (addr + PageSize, s)))"

definition PageAllocatorInit :: "'a pgs_scheme \<Rightarrow> 'a pgs_scheme kres" where
  "PageAllocatorInit s =
     kbind (avl_get 0 s) (\<lambda>t0.
     kbind (if snd t0 = UINT32_MAX
            then kprintf (''No available memory for kernel, some error may happen in '' @
                          ''bootloader.'' @ [CHR 0x0A] @ ''XyOS will stop now.'' @ [CHR 0x0A]) [] s
            else Ok s) (\<lambda>s.
     kbind (MarkRegions (0, 0, s)) (\<lambda>(t, addr, s).
     kbind (MarkRest (addr, s)) (\<lambda>(addr, s).
     for_up (unat kDynamicMappingStartPage) 0 (\<lambda>i s. clear_page (of_nat i) s) s))))"

definition ReqPage :: "'a pgs_scheme \<Rightarrow> (u32 \<times> 'a pgs_scheme) kres" where
  "ReqPage s =
     kbind (kwhile
       (\<lambda>(ret, i, s). Ok (ret = None \<and> i < kVirtualPageNum))
       (\<lambda>(ret, i, s).
          kbind (IsBitmapSet (page_state s) i) (\<lambda>b.
          if \<not> b then kbind (set_page i s) (\<lambda>s. Ok (Some (GetPagePhysAddr i), i, s))
          else Ok (None, i + 1, s)))
       (None, kDynamicMappingStartPage, s)) (\<lambda>(ret, i, s).
     Ok (case ret of Some a \<Rightarrow> a | None \<Rightarrow> 0, s))"

definition ClearPage :: "u32 \<Rightarrow> 'a pgs_scheme \<Rightarrow> 'a pgs_scheme kres" where
  "ClearPage n s =
     (let physical_addr = GetPagePhysAddr n in
      kbind (kwhile (\<lambda>(p, s). Ok (p < physical_addr + PageSize))
                    (\<lambda>(p, s). kbind (lin p s) (\<lambda>a.
                       Ok (p + 4, s\<lparr>mach := (mach s)\<lparr>wmem := (wmem (mach s))(a := 0)\<rparr>\<rparr>)))
                    (physical_addr, s)) (\<lambda>(p, s).
      Ok s))"

definition RelPage :: "u32 \<Rightarrow> 'a pgs_scheme \<Rightarrow> 'a pgs_scheme kres" where
  "RelPage n s =
     (let addr = GetPagePhysAddr n in
      kbind (kwhile
        (\<lambda>(done, t, s). if done then Ok False
                        else kbind (avl_get t s) (\<lambda>r. Ok (snd r \<noteq> UINT32_MAX)))
        (\<lambda>(done, t, s).
           kbind (avl_get t s) (\<lambda>(t_addr, t_size).
           if t_addr < addr \<and> addr + PageSize \<le> t_addr + t_size then
             kbind (ClearPage n s) (\<lambda>s.
             kbind (clear_page n s) (\<lambda>s. Ok (True, t, s)))
           else Ok (False, Suc t, s)))
        (False, 0, s)) (\<lambda>(done, t, s).
      Ok s))"

section \<open>Page directories\<close>

definition UPdClone :: "u32 \<Rightarrow> u32 \<Rightarrow> 'a pgs_scheme \<Rightarrow> 'a pgs_scheme kres" where
  "UPdClone cur_pd father_pd s =
     kbind (for_up kUPdeNum 0
       (\<lambda>i s. let p = father_pd + 4 * of_nat i in
          kbind (rd_pde p s) (\<lambda>d. wr_pde p (d\<lparr>pde_access := pde_access d AND NOT 0x2\<rparr>) s)) s) (\<lambda>s.
     for_up kPdeNum 0
       (\<lambda>i s.
          kbind (rd_pde (father_pd + 4 * of_nat i) s) (\<lambda>d.
          wr_pde (cur_pd + 4 * of_nat i)
            \<lparr>pde_access = pde_access d, pde_ignored = pde_ignored d, pde_pt_addr = pde_pt_addr d\<rparr> s)) s)"

definition RelPages :: "u32 \<Rightarrow> 'a pgs_scheme \<Rightarrow> 'a pgs_scheme kres" where
  "RelPages pt s =
     for_up kPteMaxNum 0
       (\<lambda>i s.
          kbind (rd_pte (pt + 4 * of_nat i) s) (\<lambda>e.
          if ucast (pte_page_addr e) \<noteq> PTE_ABSENT_ADDR
          then RelPage (GetPageNo (push_bit 12 (ucast (pte_page_addr e)))) s
          else Ok s)) s"

text \<open>A page table whose entries map consecutive pages from \<open>first\<close> on.\<close>

definition SetPt :: "u32 \<Rightarrow> u32 \<Rightarrow> 'a pgs_scheme \<Rightarrow> 'a pgs_scheme kres" where
  "SetPt pt first s =
     for_up kPteMaxNum 0
       (\<lambda>j s. SetPte (pt + 4 * of_nat j) kKPteWritePresentAccess (first + of_nat j * PageSize) s) s"

definition PagingInit :: "'a pgs_scheme \<Rightarrow> 'a pgs_scheme kres" where
  "PagingInit s =
     kbind (PageAllocatorInit s) (\<lambda>s.
     let s = SwitchPd kKPdAddr s;
         k_pd = DirectMappingPhysAddr kKPdAddr;
         pt_addr = DirectMappingPhysAddr (kKPtAddr - kPtMaxSize) in
     kbind (SetPde k_pd kKPdeWritePresentAccess pt_addr s) (\<lambda>s.
     kbind (SetPt pt_addr 0 s) (\<lambda>s.
     kbind (for_up (kUPdeNum - 1) 1
       (\<lambda>i s. SetPde (k_pd + 4 * of_nat i) kUPdeWriteAbsentAccess kPdeAbsentAddr s) s) (\<lambda>s.
     let pt_addr = DirectMappingPhysAddr kKPtAddr in
     kbind (for_up kKPdeDirectMappingNum kUPdeNum
       (\<lambda>i (pt_addr, page_addr, s).
          kbind (SetPde (k_pd + 4 * of_nat i) kKPdeWritePresentAccess pt_addr s) (\<lambda>s.
          kbind (SetPt pt_addr page_addr s) (\<lambda>s.
          Ok (pt_addr + kPtMaxSize, page_addr + of_nat kPteMaxNum * PageSize, s))))
       (pt_addr, 0, s)) (\<lambda>(pt_addr, page_addr, s).
     kbind (for_up (kPdeNum - (kKPdeDirectMappingNum + kUPdeNum)) (kKPdeDirectMappingNum + kUPdeNum)
       (\<lambda>i s. SetPde (k_pd + 4 * of_nat i) kKPdeWriteAbsentAccess kPdeAbsentAddr s) s) (\<lambda>s.
     kbind (clear_cr 4 5 (mach s)) (\<lambda>m.
     kbind (set_cr 0 31 m) (\<lambda>m.
     Ok (s\<lparr>mach := m\<rparr>)))))))))"

lemma lin_low: "p < 0x400000 \<Longrightarrow> lin p s = Ok p"
  by (simp add: lin_def)

end
