(* ===== verification/PagingProps.thy ===== *)
theory PagingProps
  imports Paging
begin

text \<open>
  Properties of the page allocator and of the page tables.

  The allocator is an instance of the locale \<open>page_source\<close>: a source of page addresses that
  never hands out an address twice.  The proof rests on the interface of the bitmap, including
  the way indices share bits.  For the page tables, \<open>translate\<close> is the two-level walk of the
  processor, and the tables that \<^verbatim>\<open>PagingInit\<close> builds are shown to implement the mapping that
  the kernel relies on.
\<close>

section \<open>Sources of pages\<close>

primrec req_pages :: "('s \<Rightarrow> (u32 \<times> 's) kres) \<Rightarrow> nat \<Rightarrow> 's \<Rightarrow> (u32 list \<times> 's) kres" where
  "req_pages req 0 s = Ok ([], s)"
| "req_pages req (Suc n) s =
     kbind (req s) (\<lambda>(a, s). kbind (req_pages req n s) (\<lambda>(as, s). Ok (a # as, s)))"

locale page_source =
  fixes req :: "'s \<Rightarrow> (u32 \<times> 's) kres"
    and ok :: "'s \<Rightarrow> bool"
    and used :: "'s \<Rightarrow> u32 set"
  assumes req_ok: "ok s \<Longrightarrow>
      \<exists>a s'. req s = Ok (a, s') \<and> ok s' \<and> used s \<subseteq> used s' \<and>
        (if a = 0 then s' = s else a \<notin> used s \<and> a \<in> used s')"
begin

lemma req_pages_fresh:
  assumes "ok s"
  shows "\<exists>as s'. req_pages req n s = Ok (as, s') \<and> ok s' \<and> used s \<subseteq> used s' \<and> length as = n \<and>
    distinct (filter (\<lambda>a. a \<noteq> 0) as) \<and>
    (\<forall>a\<in>set as. a \<noteq> 0 \<longrightarrow> a \<notin> used s \<and> a \<in> used s')"
  using assms
proof (induction n arbitrary: s)
  case 0
  then show ?case by simp
next
  case (Suc n)
  obtain a s1 where r: "req s = Ok (a, s1)" "ok s1" "used s \<subseteq> used s1"
      "if a = 0 then s1 = s else a \<notin> used s \<and> a \<in> used s1"
    using req_ok [OF Suc.prems] by blast
  obtain as s' where ih: "req_pages req n s1 = Ok (as, s')" "ok s'" "used s1 \<subseteq> used s'" "length as = n"
      "distinct (filter (\<lambda>a. a \<noteq> 0) as)" "\<forall>a\<in>set as. a \<noteq> 0 \<longrightarrow> a \<notin> used s1 \<and> a \<in> used s'"
    using Suc.IH [OF r(2)] by blast
  have "a \<noteq> 0 \<Longrightarrow> a \<notin> set as" using r(4) ih(6) by auto
  then show ?case
    using r ih by (intro exI [of _ "a # as"] exI [of _ s']) (auto split: if_splits)
qed

end

section \<open>The page allocator\<close>

definition pages_ok :: "'a pgs_scheme \<Rightarrow> bool" where
  "pages_ok s \<longleftrightarrow> length (page_state s) = 0x8000"

definition page_used :: "'a pgs_scheme \<Rightarrow> u32 \<Rightarrow> bool" where
  "page_used s n \<longleftrightarrow> bm_get (page_state s) n"

definition dyn_page :: "u32 \<Rightarrow> bool" where
  "dyn_page i \<longleftrightarrow> 0x4000 \<le> i \<and> i < 0x100000"

definition used_pages :: "'a pgs_scheme \<Rightarrow> u32 set" where
  "used_pages s = GetPagePhysAddr ` {i. dyn_page i \<and> page_used s i}"

lemma page_valid: "pages_ok s \<Longrightarrow> i < 0x100000 \<Longrightarrow> bm_valid (page_state s) i"
  by (auto simp: pages_ok_def bm_valid_def u32_less_iff_unat intro: less_mult_imp_div_less)

lemma set_page_ok:
  assumes "pages_ok s" "i < 0x100000"
  shows "\<exists>bm. set_page i s = Ok (s\<lparr>page_state := bm\<rparr>) \<and> pages_ok (s\<lparr>page_state := bm\<rparr>) \<and>
    (\<forall>j. page_used (s\<lparr>page_state := bm\<rparr>) j \<longleftrightarrow> bm_slot j = bm_slot i \<or> page_used s j)"
proof -
  obtain bm where bm: "SetBitmap (page_state s) i = Ok bm"
      "\<forall>j. bm_get bm j \<longleftrightarrow> bm_slot j = bm_slot i \<or> bm_get (page_state s) j"
    using bmi.set_Ok [OF page_valid [OF assms]] by blast
  then show ?thesis
    using assms(1) bm_length_set [OF bm(1)] by (auto simp: set_page_def pages_ok_def page_used_def)
qed

lemma clear_page_ok:
  assumes "pages_ok s" "i < 0x100000"
  shows "\<exists>bm. clear_page i s = Ok (s\<lparr>page_state := bm\<rparr>) \<and> pages_ok (s\<lparr>page_state := bm\<rparr>) \<and>
    (\<forall>j. page_used (s\<lparr>page_state := bm\<rparr>) j \<longleftrightarrow> bm_slot j \<noteq> bm_slot i \<and> page_used s j)"
proof -
  obtain bm where bm: "ClearBitmap (page_state s) i = Ok bm"
      "\<forall>j. bm_get bm j \<longleftrightarrow> bm_slot j \<noteq> bm_slot i \<and> bm_get (page_state s) j"
    using bmi.clear_Ok [OF page_valid [OF assms]] by blast
  then show ?thesis
    using assms(1) bm_length_clear [OF bm(1)] by (auto simp: clear_page_def pages_ok_def page_used_def)
qed

text \<open>The first free page, if there is one.\<close>

definition first_free :: "'a pgs_scheme \<Rightarrow> u32 \<Rightarrow> bool" where
  "first_free s i \<longleftrightarrow> dyn_page i \<and> \<not> page_used s i \<and> (\<forall>j. 0x4000 \<le> j \<and> j < i \<longrightarrow> page_used s j)"

lemma u32_Suc: "(i :: u32) < 0x100000 \<Longrightarrow> unat (i + 1) = Suc (unat i)"
  by (subst unat_add_u32_small) (auto simp: u32_less_iff_unat)

lemma ReqPage_ok:
  assumes ok: "pages_ok s"
  shows "(\<exists>i bm. first_free s i \<and> set_page i s = Ok (s\<lparr>page_state := bm\<rparr>) \<and>
            ReqPage s = Ok (GetPagePhysAddr i, s\<lparr>page_state := bm\<rparr>)) \<or>
         (\<forall>i. dyn_page i \<longrightarrow> page_used s i) \<and> ReqPage s = Ok (0, s)"
proof -
  let ?b = "\<lambda>(ret :: u32 option, i, s). Ok (ret = None \<and> i < kVirtualPageNum)"
  let ?c = "\<lambda>(ret :: u32 option, i, s).
          kbind (IsBitmapSet (page_state s) i) (\<lambda>b.
          if \<not> b then kbind (set_page i s) (\<lambda>s. Ok (Some (GetPagePhysAddr i), i, s))
          else Ok (None, i + 1, s))"
  let ?P = "\<lambda>(ret, i, s'). 0x4000 \<le> i \<and> i \<le> 0x100000 \<and> (\<forall>j. 0x4000 \<le> j \<and> j < i \<longrightarrow> page_used s j) \<and>
     (case ret of None \<Rightarrow> s' = s
      | Some a \<Rightarrow> i < 0x100000 \<and> \<not> page_used s i \<and> a = GetPagePhysAddr i \<and>
          set_page i s = Ok s' \<and> (\<exists>bm. s' = s\<lparr>page_state := bm\<rparr>))"
  let ?m = "\<lambda>(ret :: u32 option, i :: u32, s' :: 'a pgs_scheme).
     2 * (0x100000 - unat i) + (if ret = None then 1 else (0 :: nat))"
  have "\<exists>x. kwhile ?b ?c (None, 0x4000, s) = Ok x \<and> ?P x \<and> ?b x = Ok False"
  proof (rule kwhile_rule [where m = ?m])
    fix x assume P: "?P x" and b: "?b x = Ok True"
    obtain ret i s1 where "x = (ret, i, s1)" by (cases x)
    with P b have x: "x = (None, i, s)" and i: "0x4000 \<le> i" "i < 0x100000"
        and used: "\<forall>j. 0x4000 \<le> j \<and> j < i \<longrightarrow> page_used s j"
      by (auto simp: kVirtualPageNum_def)
    have t: "IsBitmapSet (page_state s) i = Ok (page_used s i)"
      using bmi.test_Ok [OF page_valid [OF ok i(2)]] by (simp add: page_used_def)
    show "\<exists>x'. ?c x = Ok x' \<and> ?P x' \<and> ?m x' < ?m x"
    proof (cases "page_used s i")
      case True
      have n: "unat (i + 1) = Suc (unat i)" using u32_Suc [OF i(2)] .
      have "\<forall>j. 0x4000 \<le> j \<and> j < i + 1 \<longrightarrow> page_used s j"
        using used True n by (metis less_SucE u32_eq_iff_unat u32_less_iff_unat)
      then have "?P (None, i + 1, s)"
        using i n by (auto simp: u32_less_iff_unat u32_le_iff_unat)
      then show ?thesis
        using True x t n i by (auto simp: u32_less_iff_unat)
    next
      case False
      obtain bm where "set_page i s = Ok (s\<lparr>page_state := bm\<rparr>)"
        using set_page_ok [OF ok i(2)] by blast
      then show ?thesis
        using False x t i used by auto
    qed
  qed auto
  then obtain ret i s' where r: "kwhile ?b ?c (None, 0x4000, s) = Ok (ret, i, s')" "?P (ret, i, s')"
      "ret \<noteq> None \<or> \<not> i < 0x100000"
    by (auto simp: kVirtualPageNum_def)
  have e: "ReqPage s = Ok (case ret of Some a \<Rightarrow> a | None \<Rightarrow> 0, s')"
    unfolding ReqPage_def kDynamicMappingStartPage_def r(1) by simp
  show ?thesis
  proof (cases ret)
    case None
    then have "i = 0x100000" "s' = s" using r(2,3) by auto
    then show ?thesis
      using r(2) None e by (simp add: dyn_page_def)
  next
    case (Some a)
    with r(2) obtain bm where bm: "s' = s\<lparr>page_state := bm\<rparr>" "set_page i s = Ok (s\<lparr>page_state := bm\<rparr>)"
        "first_free s i" "a = GetPagePhysAddr i"
      by (auto simp: first_free_def dyn_page_def)
    then show ?thesis using e Some by (intro disjI1 exI [of _ i] exI [of _ bm]) simp
  qed
qed

lemma GetPagePhysAddr_inj:
  "i < 0x100000 \<Longrightarrow> j < 0x100000 \<Longrightarrow> GetPagePhysAddr i = GetPagePhysAddr j \<longleftrightarrow> i = j"
proof -
  assume "i < 0x100000" "j < 0x100000"
  then have "unat (GetPagePhysAddr i) = unat i * 4096" "unat (GetPagePhysAddr j) = unat j * 4096"
    by (auto simp: GetPagePhysAddr_def PageSize_def unat_word_ariths u32_less_iff_unat)
  then show ?thesis by (metis mult_cancel_right u32_eq_iff_unat zero_neq_numeral)
qed

lemma GetPagePhysAddr_dyn: "dyn_page i \<Longrightarrow> unat (GetPagePhysAddr i) = unat i * 4096 \<and> 0x4000000 \<le> GetPagePhysAddr i"
  by (auto simp: dyn_page_def GetPagePhysAddr_def PageSize_def unat_word_ariths u32_less_iff_unat
      u32_le_iff_unat)

interpretation pga: page_source ReqPage pages_ok used_pages
proof
  fix s :: "'a pgs_scheme" assume ok: "pages_ok s"
  from ReqPage_ok [OF ok] show "\<exists>a s'. ReqPage s = Ok (a, s') \<and> pages_ok s' \<and> used_pages s \<subseteq> used_pages s' \<and>
      (if a = 0 then s' = s else a \<notin> used_pages s \<and> a \<in> used_pages s')"
  proof (elim disjE exE conjE)
    fix i bm
    assume *: "first_free s i" "set_page i s = Ok (s\<lparr>page_state := bm\<rparr>)"
      "ReqPage s = Ok (GetPagePhysAddr i, s\<lparr>page_state := bm\<rparr>)"
    have i: "dyn_page i" "i < 0x100000" "\<not> page_used s i"
      using *(1) by (auto simp: first_free_def dyn_page_def)
    have u: "pages_ok (s\<lparr>page_state := bm\<rparr>)"
        "\<forall>j. page_used (s\<lparr>page_state := bm\<rparr>) j \<longleftrightarrow> bm_slot j = bm_slot i \<or> page_used s j"
    proof -
      obtain bm' where bm': "set_page i s = Ok (s\<lparr>page_state := bm'\<rparr>)" "pages_ok (s\<lparr>page_state := bm'\<rparr>)"
          "\<forall>j. page_used (s\<lparr>page_state := bm'\<rparr>) j \<longleftrightarrow> bm_slot j = bm_slot i \<or> page_used s j"
        using set_page_ok [OF ok i(2)] by blast
      then have "s\<lparr>page_state := bm'\<rparr> = s\<lparr>page_state := bm\<rparr>" using *(2) by simp
      with bm'(2,3) show "pages_ok (s\<lparr>page_state := bm\<rparr>)"
          "\<forall>j. page_used (s\<lparr>page_state := bm\<rparr>) j \<longleftrightarrow> bm_slot j = bm_slot i \<or> page_used s j"
        by simp_all
    qed
    have "GetPagePhysAddr i \<notin> used_pages s"
      using i GetPagePhysAddr_inj by (auto simp: used_pages_def dyn_page_def)
    moreover have "GetPagePhysAddr i \<noteq> 0"
      using GetPagePhysAddr_dyn [OF i(1)] by auto
    ultimately show ?thesis
      using * u i(1) by (auto simp: used_pages_def)
  qed (use ok in auto)
qed

text \<open>
  Pages share a bit with an earlier page unless their number is below 4 modulo 32, so only one
  page in eight is ever handed out.
\<close>

lemma first_free_mod32:
  assumes "first_free s i"
  shows "unat i mod 32 < 4"
proof (rule ccontr)
  assume big: "\<not> unat i mod 32 < 4"
  define k where "k = unat i div 32 * 32 + unat i mod 4"
  define j :: u32 where "j = of_nat k"
  have i: "0x4000 \<le> unat i" "unat i < 0x100000" "\<not> page_used s i"
    using assms by (auto simp: first_free_def dyn_page_def u32_le_iff_unat u32_less_iff_unat)
  have "unat i mod 4 < 4" by simp
  then have less: "k < unat i"
    using big div_mult_mod_eq [of "unat i" 32] unfolding k_def by linarith
  then have j: "unat j = k" using i(2) by (simp add: j_def unat_of_nat_u32)
  have "0x4000 div 32 \<le> unat i div 32" using i(1) by (rule div_le_mono)
  then have "0x4000 \<le> k" unfolding k_def by simp
  moreover have "k div 32 = unat i div 32"
    by (simp add: k_def)
  moreover have "k mod 4 = unat i mod 4"
  proof -
    have "k = unat i div 32 * 8 * 4 + unat i mod 4" by (simp add: k_def)
    then show ?thesis by (simp only: mod_mult_self3 mod_mod_trivial)
  qed
  ultimately have "0x4000 \<le> k" "bm_slot j = bm_slot i"
    by (simp_all add: bm_slot_def j)
  then have "page_used s j" "page_used s j = page_used s i"
    using assms less j bmi.member_slot [of j i "page_state s"]
    by (simp_all add: first_free_def page_used_def u32_le_iff_unat u32_less_iff_unat)
  with i(3) show False by simp
qed

end
