(* ===== verification/PageInit.thy ===== *)
theory PageInit
  imports PagingProps
begin

text \<open>
  The initialisation of the page allocator: it ends for every map of available memory that stays
  below the last two pages of the address space, and the pages of the direct mapping area are
  free afterwards.  So are the pages above the last available region (\<open>B\<close> bounds the regions).
\<close>

definition pa :: "nat \<Rightarrow> u32" where
  "pa k = of_nat (4096 * k)"

definition region_ok :: "nat \<Rightarrow> u32 \<times> u32 \<Rightarrow> bool" where
  "region_ok B r \<longleftrightarrow> snd r \<noteq> UINT32_MAX \<and> unat (fst r) \<le> 4096 * B \<and> unat (fst r) + unat (snd r) \<le> 4096 * B"

text \<open>Two states that differ at most in the bitmap of pages.\<close>

definition same_but_pages :: "'a pgs_scheme \<Rightarrow> 'a pgs_scheme \<Rightarrow> bool" where
  "same_but_pages s s' \<longleftrightarrow> s\<lparr>page_state := []\<rparr> = s'\<lparr>page_state := []\<rparr>"

lemma same_but_pages_simps [simp]:
  "same_but_pages s s" "same_but_pages s (s'\<lparr>page_state := ps\<rparr>) = same_but_pages s s'"
  by (simp_all add: same_but_pages_def)

lemma same_but_pages_trans: "same_but_pages s s' \<Longrightarrow> same_but_pages s' s'' \<Longrightarrow> same_but_pages s s''"
  by (simp add: same_but_pages_def)

lemma same_but_pagesD:
  assumes "same_but_pages s s'"
  shows "avl_mem s' = avl_mem s" "s' = s\<lparr>page_state := page_state s'\<rparr>"
proof -
  show "avl_mem s' = avl_mem s"
    using arg_cong [where f = avl_mem, OF assms [unfolded same_but_pages_def]] by simp
  show "s' = s\<lparr>page_state := page_state s'\<rparr>"
    using arg_cong [where f = "page_state_update (\<lambda>_. page_state s')", OF assms [unfolded same_but_pages_def]]
    by simp
qed

text \<open>What the marking loops do: they move from page \<open>k\<close> to page \<open>k'\<close> and change only the bitmap.\<close>

definition mark_rel :: "nat \<Rightarrow> nat \<Rightarrow> 'a pgs_scheme \<Rightarrow> nat \<Rightarrow> 'a pgs_scheme \<Rightarrow> bool" where
  "mark_rel B k s k' s' \<longleftrightarrow>
     same_but_pages s s' \<and> k \<le> k' \<and> k' \<le> B \<and> pages_ok s' \<and> (k' = 0 \<longrightarrow> s' = s)"

lemma unat_pa: "k < 0x100000 \<Longrightarrow> unat (pa k) = 4096 * k"
  by (simp add: pa_def unat_of_nat_u32 del: of_nat_mult)

lemma pa_0 [simp]: "pa 0 = 0"
  by (simp add: pa_def)

lemma pa_Suc: "pa k + PageSize = pa (Suc k)"
  by (simp add: pa_def PageSize_def)

lemma pa_wrap: "pa 0x100000 = 0"
  by (simp add: pa_def)

lemma GetPageNo_pa:
  assumes "k < 0x100000"
  shows "GetPageNo (pa k) = of_nat k" "unat (of_nat k :: u32) = k" "(of_nat k :: u32) < 0x100000"
proof -
  show u: "unat (of_nat k :: u32) = k"
    using assms by (simp add: unat_of_nat_u32)
  then show "(of_nat k :: u32) < 0x100000"
    using assms by (simp add: u32_less_iff_unat)
  show "GetPageNo (pa k) = of_nat k"
    using assms u by (simp add: u32_eq_iff_unat GetPageNo_def PageSize_def unat_div unat_pa)
qed

lemma mark_rel_refl: "pages_ok s \<Longrightarrow> k \<le> B \<Longrightarrow> mark_rel B k s k s"
  by (simp add: mark_rel_def)

lemma mark_rel_trans: "mark_rel B k s k' s' \<Longrightarrow> mark_rel B k' s' k'' s'' \<Longrightarrow> mark_rel B k s k'' s''"
  unfolding mark_rel_def using same_but_pages_trans by auto

lemma mark_rel_step:
  "mark_rel B k s k' s' \<Longrightarrow> Suc k' \<le> B \<Longrightarrow> s'' = s'\<lparr>page_state := ps\<rparr> \<Longrightarrow> pages_ok s'' \<Longrightarrow>
   mark_rel B k s (Suc k') s''"
  by (auto simp: mark_rel_def)

lemma MarkGap_ok:
  assumes ok: "pages_ok s" and k: "k \<le> B" "B < 0x100000" and t: "unat t_addr \<le> 4096 * B"
  shows "\<exists>k' s'. MarkGap t_addr (pa k, s) = Ok (pa k', s') \<and> mark_rel B k s k' s'"
proof -
  let ?b = "\<lambda>(addr, s). Ok (addr < t_addr)"
  let ?c = "\<lambda>(addr, s). kbind (set_page (GetPageNo addr) s) (\<lambda>s. Ok (addr + PageSize, s))"
  let ?P = "\<lambda>(addr, s'). \<exists>k'. addr = pa k' \<and> mark_rel B k s k' s'"
  let ?m = "\<lambda>(addr :: u32, s' :: 'a pgs_scheme). B - unat addr div 4096"
  have "\<exists>x. kwhile ?b ?c (pa k, s) = Ok x \<and> ?P x \<and> ?b x = Ok False"
  proof (rule kwhile_rule [where m = ?m])
    show "?P (pa k, s)" using mark_rel_refl [OF ok k(1)] by auto
  next
    fix x assume P: "?P x" and b: "?b x = Ok True"
    then obtain k' s1 where x: "x = (pa k', s1)" "mark_rel B k s k' s1" by (cases x) auto
    then have k': "k' < 0x100000" "pages_ok s1" using k by (auto simp: mark_rel_def)
    have "k' < B" using b x t unat_pa [OF k'(1)] by (simp add: u32_less_iff_unat)
    obtain bm where "set_page (of_nat k') s1 = Ok (s1\<lparr>page_state := bm\<rparr>)" "pages_ok (s1\<lparr>page_state := bm\<rparr>)"
      using set_page_ok [OF k'(2) GetPageNo_pa(3) [OF k'(1)]] by blast
    then show "\<exists>x'. ?c x = Ok x' \<and> ?P x' \<and> ?m x' < ?m x"
      using x \<open>k' < B\<close> GetPageNo_pa [OF k'(1)] k(2) unat_pa [of k'] unat_pa [of "Suc k'"]
        mark_rel_step [OF x(2), of "s1\<lparr>page_state := bm\<rparr>" bm]
      by (auto simp: pa_Suc)
  qed auto
  then show ?thesis by (auto simp: MarkGap_def)
qed

lemma MarkRegion_ok:
  assumes ok: "pages_ok s" and k: "k \<le> B" "B < 0xfffff" and t: "unat t_addr + unat t_size \<le> 4096 * B"
  shows "\<exists>k' s'. MarkRegion t_addr t_size (pa k, s) = Ok (pa k', s') \<and> mark_rel B k s k' s'"
proof -
  let ?b = "\<lambda>(addr, s). Ok (addr + PageSize \<le> t_addr + t_size)"
  let ?c = "\<lambda>(addr, s). kbind (clear_page (GetPageNo addr) s) (\<lambda>s. Ok (addr + PageSize, s))"
  let ?P = "\<lambda>(addr, s'). \<exists>k'. addr = pa k' \<and> mark_rel B k s k' s'"
  let ?m = "\<lambda>(addr :: u32, s' :: 'a pgs_scheme). B - unat addr div 4096"
  have e: "unat (t_addr + t_size) = unat t_addr + unat t_size"
    using t k(2) by (intro unat_add_u32_small) simp
  have "\<exists>x. kwhile ?b ?c (pa k, s) = Ok x \<and> ?P x \<and> ?b x = Ok False"
  proof (rule kwhile_rule [where m = ?m])
    show "?P (pa k, s)" using mark_rel_refl [OF ok k(1)] by auto
  next
    fix x assume P: "?P x" and b: "?b x = Ok True"
    then obtain k' s1 where x: "x = (pa k', s1)" "mark_rel B k s k' s1" by (cases x) auto
    then have k': "k' < 0x100000" "Suc k' < 0x100000" "pages_ok s1" using k by (auto simp: mark_rel_def)
    have "k' < B" using b x t e unat_pa [OF k'(2)] by (simp add: u32_le_iff_unat pa_Suc)
    obtain bm where "clear_page (of_nat k') s1 = Ok (s1\<lparr>page_state := bm\<rparr>)" "pages_ok (s1\<lparr>page_state := bm\<rparr>)"
      using clear_page_ok [OF k'(3) GetPageNo_pa(3) [OF k'(1)]] by blast
    then show "\<exists>x'. ?c x = Ok x' \<and> ?P x' \<and> ?m x' < ?m x"
      using x \<open>k' < B\<close> GetPageNo_pa [OF k'(1)] k(2) unat_pa [of k'] unat_pa [of "Suc k'"]
        mark_rel_step [OF x(2), of "s1\<lparr>page_state := bm\<rparr>" bm]
      by (auto simp: pa_Suc)
  qed auto
  then show ?thesis by (auto simp: MarkRegion_def)
qed

lemma MarkRegions_ok:
  assumes ok: "pages_ok s" and B: "B < 0xfffff"
    and avl: "avl_mem s = rs @ [(x0, UINT32_MAX)]" "\<forall>r\<in>set rs. region_ok B r"
  shows "\<exists>t k s'. MarkRegions (0, 0, s) = Ok (t, pa k, s') \<and> mark_rel B 0 s k s'"
proof -
  let ?b = "\<lambda>(t, addr :: u32, s). kbind (avl_get t s) (\<lambda>r. Ok (snd r \<noteq> UINT32_MAX))"
  let ?c = "\<lambda>(t, addr, s).
               kbind (avl_get t s) (\<lambda>(t_addr, t_size).
               kbind (MarkGap t_addr (addr, s)) (\<lambda>(addr, s).
               kbind (MarkRegion t_addr t_size (addr, s)) (\<lambda>(addr, s).
               Ok (Suc t, addr, s))))"
  let ?P = "\<lambda>(t, addr, s'). t \<le> length rs \<and> (\<exists>k. addr = pa k \<and> mark_rel B 0 s k s')"
  have get: "avl_get t s' = Ok ((rs @ [(x0, UINT32_MAX)]) ! t)" if "t \<le> length rs" "mark_rel B 0 s k s'" for t k s'
    using that avl(1) same_but_pagesD(1) [of s s'] by (simp add: avl_get_def mark_rel_def)
  have "\<exists>x. kwhile ?b ?c (0, 0, s) = Ok x \<and> ?P x \<and> ?b x = Ok False"
  proof (rule kwhile_rule [where m = "\<lambda>(t, addr, s'). length rs - t"])
    show "?P (0, 0, s)" using mark_rel_refl [OF ok, of 0 B] by (auto intro: exI [of _ 0])
  next
    fix x assume P: "?P x" and b: "?b x = Ok True"
    then obtain t k s1 where x: "x = (t, pa k, s1)" "mark_rel B 0 s k s1" "t \<le> length rs"
      by (cases x) auto
    have t: "t < length rs"
      using b x get [OF x(3,2)] by (cases "t = length rs") auto
    obtain a z where az: "rs ! t = (a, z)" by fastforce
    then have r: "region_ok B (a, z)" using avl(2) t nth_mem [OF t] by auto
    have g: "avl_get t s1 = Ok (a, z)" using get [OF x(3,2)] t az by (simp add: nth_append)
    have s1: "pages_ok s1" "k \<le> B" using x(2) by (auto simp: mark_rel_def)
    obtain k2 s2 where m2: "MarkGap a (pa k, s1) = Ok (pa k2, s2)" "mark_rel B k s1 k2 s2"
      using MarkGap_ok [OF s1, of a] r B by (auto simp: region_ok_def)
    then have s2: "pages_ok s2" "k2 \<le> B" by (auto simp: mark_rel_def)
    obtain k3 s3 where m3: "MarkRegion a z (pa k2, s2) = Ok (pa k3, s3)" "mark_rel B k2 s2 k3 s3"
      using MarkRegion_ok [OF s2 B, of a z] r by (auto simp: region_ok_def)
    have "mark_rel B 0 s k3 s3"
      using x(2) m2(2) m3(2) mark_rel_trans by blast
    then show "\<exists>x'. ?c x = Ok x' \<and> ?P x' \<and>
        (\<lambda>(t, addr, s'). length rs - t) x' < (\<lambda>(t, addr, s'). length rs - t) x"
      using x t g m2(1) m3(1) by auto
  next
    fix x assume "?P x"
    then show "\<exists>t. ?b x = Ok t" using get by (cases x) auto
  qed
  then show ?thesis by (auto simp: MarkRegions_def)
qed

section \<open>The rest of the address space\<close>

definition freed_from :: "nat \<Rightarrow> nat \<Rightarrow> 'a pgs_scheme \<Rightarrow> 'a pgs_scheme \<Rightarrow> bool" where
  "freed_from k j s s' \<longleftrightarrow>
     same_but_pages s s' \<and> pages_ok s' \<and>
     (\<forall>i. page_used s' i \<longrightarrow> page_used s i) \<and>
     (\<forall>i. k \<le> unat i \<and> unat i < j \<longrightarrow> \<not> page_used s' i)"

lemma freed_from_refl: "pages_ok s \<Longrightarrow> freed_from k k s s"
  by (auto simp: freed_from_def)

lemma freed_from_step:
  assumes f: "freed_from k j s s'" and j: "j < 0x100000"
  shows "\<exists>s''. clear_page (of_nat j) s' = Ok s'' \<and> freed_from k (Suc j) s s''"
proof -
  have u: "unat (of_nat j :: u32) = j" using GetPageNo_pa [OF j] by simp
  have ok: "pages_ok s'" using f by (simp add: freed_from_def)
  obtain bm where bm: "clear_page (of_nat j) s' = Ok (s'\<lparr>page_state := bm\<rparr>)" "pages_ok (s'\<lparr>page_state := bm\<rparr>)"
      "\<forall>i. page_used (s'\<lparr>page_state := bm\<rparr>) i \<longleftrightarrow> bm_slot i \<noteq> bm_slot (of_nat j) \<and> page_used s' i"
    using clear_page_ok [OF ok GetPageNo_pa(3) [OF j]] by blast
  have "\<not> page_used (s'\<lparr>page_state := bm\<rparr>) i" if "k \<le> unat i" "unat i < Suc j" for i
  proof (cases "unat i = j")
    case True
    then have "i = of_nat j" using u by (simp add: u32_eq_iff_unat)
    then show ?thesis using bm(3) by simp
  next
    case False
    then show ?thesis using that f bm(3) by (auto simp: freed_from_def)
  qed
  then show ?thesis
    using f bm by (auto simp: freed_from_def)
qed

lemma MarkRest_ok:
  assumes ok: "pages_ok s" and k: "0 < k" "k < 0x100000"
  shows "\<exists>a s'. MarkRest (pa k, s) = Ok (a, s') \<and> freed_from k 0x100000 s s'"
proof -
  let ?b = "\<lambda>(addr, s). Ok (GetPageNo addr \<noteq> 0)"
  let ?c = "\<lambda>(addr, s). kbind (clear_page (GetPageNo addr) s) (\<lambda>s. Ok (addr + PageSize, s))"
  let ?P = "\<lambda>(addr, s'). \<exists>j. addr = pa j \<and> k \<le> j \<and> j \<le> 0x100000 \<and> freed_from k j s s'"
  let ?m = "\<lambda>(addr :: u32, s' :: 'a pgs_scheme). if addr = 0 then 0 else 0x100000 - unat addr div 4096"
  have "\<exists>x. kwhile ?b ?c (pa k, s) = Ok x \<and> ?P x \<and> ?b x = Ok False"
  proof (rule kwhile_rule [where m = ?m])
    show "?P (pa k, s)" using freed_from_refl [OF ok] k by auto
  next
    fix x assume P: "?P x" and b: "?b x = Ok True"
    then obtain j s1 where x: "x = (pa j, s1)" "k \<le> j" "j \<le> 0x100000" "freed_from k j s s1"
      by (cases x) auto
    have j: "j < 0x100000" using b x by (cases "j = 0x100000") (auto simp: pa_wrap GetPageNo_def)
    obtain s2 where s2: "clear_page (of_nat j) s1 = Ok s2" "freed_from k (Suc j) s s2"
      using freed_from_step [OF x(4) j] by blast
    have m: "?m (pa (Suc j), s2) < ?m (pa j, s1)"
    proof -
      have "pa j \<noteq> 0" "unat (pa j) = 4096 * j"
        using unat_pa [OF j] x(2) k(1) by (auto simp: u32_eq_iff_unat)
      moreover have "pa (Suc j) = 0 \<or> unat (pa (Suc j)) = 4096 * Suc j"
        using j unat_pa [of "Suc j"] pa_wrap by (cases "Suc j = 0x100000") auto
      ultimately show ?thesis using j by auto
    qed
    have "?c x = Ok (pa (Suc j), s2)"
      using x(1) s2(1) GetPageNo_pa(1) [OF j] by (simp add: pa_Suc)
    moreover have "?P (pa (Suc j), s2)"
      using x(2) j s2(2) by auto
    ultimately show "\<exists>x'. ?c x = Ok x' \<and> ?P x' \<and> ?m x' < ?m x"
      using m x(1) by blast
  qed auto
  then obtain j s' where r: "kwhile ?b ?c (pa k, s) = Ok (pa j, s')" "k \<le> j" "j \<le> 0x100000"
      "freed_from k j s s'" "GetPageNo (pa j) = 0"
    by auto
  have "j = 0x100000"
  proof (rule ccontr)
    assume "j \<noteq> 0x100000"
    then have "j < 0x100000" using r(3) by simp
    then show False using r(2,5) k(1) GetPageNo_pa [of j] by auto
  qed
  then show ?thesis using r(1,4) by (auto simp: MarkRest_def)
qed

section \<open>The whole initialisation\<close>

lemma kprintf_ok:
  assumes "con_ok (console s)" "fmt_ok fmt args"
  shows "\<exists>c. kprintf fmt args s = Ok (s\<lparr>console := c\<rparr>) \<and> con_step (console s) c"
  using printf_ok [OF assms] by (auto simp: kprintf_def)

lemma PageAllocatorInit_ok:
  assumes ok: "pages_ok s" "\<forall>i<0x100000. \<not> page_used s i" and B: "B < 0xfffff" and con: "con_ok (console s)"
    and avl: "avl_mem s = rs @ [(x0, UINT32_MAX)]" "\<forall>r\<in>set rs. region_ok B r"
  shows "\<exists>c ps s'. PageAllocatorInit s = Ok s' \<and> s' = s\<lparr>console := c, page_state := ps\<rparr> \<and> con_ok c \<and>
    pages_ok s' \<and> (\<forall>i. unat i < 0x4000 \<or> B \<le> unat i \<and> unat i < 0x100000 \<longrightarrow> \<not> page_used s' i)"
proof -
  let ?msg = "''No available memory for kernel, some error may happen in '' @ ''bootloader.'' @ [CHR 0x0A] @
    ''XyOS will stop now.'' @ [CHR 0x0A]"
  have t0: "avl_get 0 s = Ok (avl_mem s ! 0)" using avl(1) by (simp add: avl_get_def)
  obtain c where c: "(if snd (avl_mem s ! 0) = UINT32_MAX then kprintf ?msg [] s else Ok s) = Ok (s\<lparr>console := c\<rparr>)"
      "con_ok c"
  proof (cases "snd (avl_mem s ! 0) = UINT32_MAX")
    case True
    have "fmt_ok ?msg []" by simp
    then show ?thesis using kprintf_ok [OF con, of ?msg "[]"] True that by (auto simp: con_step_def)
  next
    case False
    then show ?thesis using that [of "console s"] con by simp
  qed
  let ?s = "s\<lparr>console := c\<rparr>"
  have ok': "pages_ok ?s" "\<forall>i<0x100000. \<not> page_used ?s i" and avl': "avl_mem ?s = rs @ [(x0, UINT32_MAX)]"
    using ok avl(1) by (auto simp: pages_ok_def page_used_def)
  obtain t k s1 where m: "MarkRegions (0, 0, ?s) = Ok (t, pa k, s1)" "mark_rel B 0 ?s k s1"
    using MarkRegions_ok [OF ok'(1) B avl' avl(2)] by blast
  have "\<exists>a s2. MarkRest (pa k, s1) = Ok (a, s2) \<and> freed_from B 0x100000 s1 s2"
  proof (cases "k = 0")
    case True
    then have "s1 = ?s" using m(2) by (simp add: mark_rel_def)
    moreover have "MarkRest (pa k, s1) = Ok (pa k, s1)"
      using True by (simp add: MarkRest_def kwhile_stop GetPageNo_def)
    moreover have "freed_from B 0x100000 ?s ?s"
      using ok' by (simp add: freed_from_def u32_less_iff_unat)
    ultimately show ?thesis by auto
  next
    case False
    have "pages_ok s1" "0 < k" "k < 0x100000" "k \<le> B" using False m(2) B by (auto simp: mark_rel_def)
    then show ?thesis using MarkRest_ok [of s1 k] by (fastforce simp: freed_from_def)
  qed
  then obtain a s2 where r: "MarkRest (pa k, s1) = Ok (a, s2)" "freed_from B 0x100000 s1 s2" by blast
  have "pages_ok s2" using r(2) by (simp add: freed_from_def)
  then have "\<exists>s3. for_up 0x4000 0 (\<lambda>i s. clear_page (of_nat i) s) s2 = Ok s3 \<and> freed_from 0 (0 + 0x4000) s2 s3"
    by (intro for_up_rule freed_from_refl freed_from_step) auto
  then obtain s3 where f: "for_up 0x4000 0 (\<lambda>i s. clear_page (of_nat i) s) s2 = Ok s3" "freed_from 0 0x4000 s2 s3"
    by auto
  have "PageAllocatorInit s = Ok s3"
    unfolding PageAllocatorInit_def kDynamicMappingStartPage_def
    using t0 c(1) m(1) r(1) f(1) by simp
  moreover have "same_but_pages ?s s3"
    using m(2) r(2) f(2) same_but_pages_trans unfolding mark_rel_def freed_from_def by blast
  then have "s3 = s\<lparr>console := c, page_state := page_state s3\<rparr>"
    by (rule same_but_pagesD(2))
  moreover have "pages_ok s3" "\<forall>i. unat i < 0x4000 \<or> B \<le> unat i \<and> unat i < 0x100000 \<longrightarrow> \<not> page_used s3 i"
    using r(2) f(2) by (auto simp: freed_from_def)
  ultimately show ?thesis using c(2) by blast
qed

end
