(* ===== verification/PageTables.thy ===== *)
theory PageTables
  imports PageInit
begin

text \<open>
  The page tables that \<^verbatim>\<open>PagingInit\<close> builds, and the copy that \<^verbatim>\<open>UPdClone\<close> makes of a page
  directory.  \<open>translate\<close> is the walk of the processor through the directory that \<^verbatim>\<open>CR3\<close> points to.
\<close>

definition pde_index :: "u32 \<Rightarrow> nat" where
  "pde_index v = unat v div 0x400000"

definition pte_index :: "u32 \<Rightarrow> nat" where
  "pte_index v = unat v div 0x1000 mod 1024"

definition translate :: "'a pgs_scheme \<Rightarrow> u32 \<Rightarrow> u32 option" where
  "translate s v =
     (let pde = pde_at s ((creg (mach s) 3 AND NOT 0xfff) + 4 * of_nat (pde_index v)) in
      if \<not> bit (pde_access pde) 0 then None
      else
        let pte = pte_at s (push_bit 12 (ucast (pde_pt_addr pde)) + 4 * of_nat (pte_index v)) in
        if \<not> bit (pte_access pte) 0 then None
        else Some (push_bit 12 (ucast (pte_page_addr pte)) OR (v AND 0xfff)))"

section \<open>Filling an array of entries\<close>

lemma arr_index_inj:
  assumes "i < 0x40000000" "j < 0x40000000"
  shows "4 * of_nat i = (4 * of_nat j :: u32) \<longleftrightarrow> i = j"
    "(b :: u32) + 4 * of_nat i = b + 4 * of_nat j \<longleftrightarrow> i = j"
proof -
  have "unat (4 * of_nat i :: u32) = 4 * i" "unat (4 * of_nat j :: u32) = 4 * j"
    using assms unat_of_nat_u32 [of "4 * i"] unat_of_nat_u32 [of "4 * j"] by simp_all
  then show "4 * of_nat i = (4 * of_nat j :: u32) \<longleftrightarrow> i = j"
    by (metis mult_left_cancel zero_neq_numeral)
  then show "(b :: u32) + 4 * of_nat i = b + 4 * of_nat j \<longleftrightarrow> i = j" by simp
qed

definition mkpte :: "u8 \<Rightarrow> u32 \<Rightarrow> Pte" where
  "mkpte access a = \<lparr>pte_access = ucast access, pte_ignored = 0, pte_page_addr = ucast (GetPageAddrInPte a)\<rparr>"

definition mkpde :: "u8 \<Rightarrow> u32 \<Rightarrow> Pde" where
  "mkpde access a = \<lparr>pde_access = access, pde_ignored = 0, pde_pt_addr = ucast (GetPtAddrInPde a)\<rparr>"

lemma SetPte_low: "p < 0x400000 \<Longrightarrow> SetPte p acc a s = Ok (s\<lparr>pte_at := (pte_at s)(p := mkpte acc a)\<rparr>)"
  by (simp add: SetPte_def wr_pte_def lin_def mkpte_def)

lemma SetPde_low: "p < 0x400000 \<Longrightarrow> SetPde p acc a s = Ok (s\<lparr>pde_at := (pde_at s)(p := mkpde acc a)\<rparr>)"
  by (simp add: SetPde_def wr_pde_def lin_def mkpde_def)

lemma unat_index: "unat b + 4 * j < 0x100000000 \<Longrightarrow> unat ((b :: u32) + 4 * of_nat j) = unat b + 4 * j"
proof -
  assume *: "unat b + 4 * j < 0x100000000"
  then have "unat (4 * of_nat j :: u32) = 4 * j" using unat_of_nat_u32 [of "4 * j"] by simp
  with * show ?thesis by (simp add: unat_add_u32_small)
qed

lemma SetPt_ok:
  assumes "unat pt + 4096 \<le> 0x400000"
  shows "\<exists>h. SetPt pt first s = Ok (s\<lparr>pte_at := h\<rparr>) \<and>
    (\<forall>j<1024. h (pt + 4 * of_nat j) = mkpte kKPteWritePresentAccess (first + of_nat j * PageSize)) \<and>
    (\<forall>x. (\<forall>j<1024. x \<noteq> pt + 4 * of_nat j) \<longrightarrow> h x = pte_at s x)"
proof -
  let ?f = "\<lambda>j s. SetPte (pt + 4 * of_nat j) kKPteWritePresentAccess (first + of_nat j * PageSize) s"
  let ?P = "\<lambda>i s'. \<exists>h. s' = s\<lparr>pte_at := h\<rparr> \<and>
     (\<forall>j<i. h (pt + 4 * of_nat j) = mkpte kKPteWritePresentAccess (first + of_nat j * PageSize)) \<and>
     (\<forall>x. (\<forall>j<1024. x \<noteq> pt + 4 * of_nat j) \<longrightarrow> h x = pte_at s x)"
  have "\<exists>s'. for_up 1024 0 ?f s = Ok s' \<and> ?P (0 + 1024) s'"
  proof (rule for_up_rule [where P = ?P])
    show "?P 0 s" by (intro exI [of _ "pte_at s"]) simp
  next
    fix j s1 assume j: "0 \<le> j" "j < 0 + (1024 :: nat)" and "?P j s1"
    then obtain h where h: "s1 = s\<lparr>pte_at := h\<rparr>"
        "\<forall>i<j. h (pt + 4 * of_nat i) = mkpte kKPteWritePresentAccess (first + of_nat i * PageSize)"
        "\<forall>x. (\<forall>j<1024. x \<noteq> pt + 4 * of_nat j) \<longrightarrow> h x = pte_at s x" by blast
    let ?h = "h(pt + 4 * of_nat j := mkpte kKPteWritePresentAccess (first + of_nat j * PageSize))"
    have "pt + 4 * of_nat j < 0x400000"
      using assms j unat_index [of pt j] by (simp add: u32_less_iff_unat)
    then have "?f j s1 = Ok (s\<lparr>pte_at := ?h\<rparr>)"
      using h(1) by (simp add: SetPte_low)
    moreover have "\<forall>i<Suc j. ?h (pt + 4 * of_nat i) = mkpte kKPteWritePresentAccess (first + of_nat i * PageSize)"
      using h(2) j by (auto simp: less_Suc_eq arr_index_inj)
    moreover have "\<forall>x. (\<forall>j<1024. x \<noteq> pt + 4 * of_nat j) \<longrightarrow> ?h x = pte_at s x"
      using h(3) j by auto
    ultimately show "\<exists>s'. ?f j s1 = Ok s' \<and> ?P (Suc j) s'" by blast
  qed
  then show ?thesis by (simp add: SetPt_def kPteMaxNum_def) blast
qed

text \<open>A run of equal directory entries.\<close>

lemma SetPde_run:
  assumes "i + n \<le> 1024"
  shows "\<exists>h. for_up n i (\<lambda>i s. SetPde (0x1000 + 4 * of_nat i) acc a s) s = Ok (s\<lparr>pde_at := h\<rparr>) \<and>
    (\<forall>j<1024. h (0x1000 + 4 * of_nat j) =
       (if i \<le> j \<and> j < i + n then mkpde acc a else pde_at s (0x1000 + 4 * of_nat j)))"
proof -
  let ?f = "\<lambda>i s. SetPde (0x1000 + 4 * of_nat i) acc a s"
  let ?P = "\<lambda>k s'. \<exists>h. s' = s\<lparr>pde_at := h\<rparr> \<and>
     (\<forall>j<1024. h (0x1000 + 4 * of_nat j) =
       (if i \<le> j \<and> j < k then mkpde acc a else pde_at s (0x1000 + 4 * of_nat j)))"
  have "\<exists>s'. for_up n i ?f s = Ok s' \<and> ?P (i + n) s'"
  proof (rule for_up_rule [where P = ?P])
    show "?P i s" by (intro exI [of _ "pde_at s"]) auto
  next
    fix k s1 assume k: "i \<le> k" "k < i + n" and "?P k s1"
    then obtain h where h: "s1 = s\<lparr>pde_at := h\<rparr>" "\<forall>j<1024. h (0x1000 + 4 * of_nat j) =
       (if i \<le> j \<and> j < k then mkpde acc a else pde_at s (0x1000 + 4 * of_nat j))" by blast
    have "unat (0x1000 + 4 * of_nat k :: u32) = 0x1000 + 4 * k"
      using k assms unat_index [of "0x1000" k] by simp
    then have "0x1000 + 4 * of_nat k < (0x400000 :: u32)"
      using k assms by (simp add: u32_less_iff_unat)
    then have "?f k s1 = Ok (s\<lparr>pde_at := h(0x1000 + 4 * of_nat k := mkpde acc a)\<rparr>)"
      using h(1) by (simp add: SetPde_low)
    moreover have "\<forall>j<1024. (h(0x1000 + 4 * of_nat k := mkpde acc a)) (0x1000 + 4 * of_nat j) =
       (if i \<le> j \<and> j < Suc k then mkpde acc a else pde_at s (0x1000 + 4 * of_nat j))"
      using h(2) k assms by (auto simp: less_Suc_eq arr_index_inj)
    ultimately show "\<exists>s'. ?f k s1 = Ok s' \<and> ?P (Suc k) s'" by blast
  qed
  then show ?thesis by blast
qed

section \<open>The kernel's page directory\<close>

text \<open>The entries of the tables: the page table \<open>t\<close> lies at \<open>0xc000 + t * 0x1000\<close>.\<close>

definition kpt :: "nat \<Rightarrow> u32" where
  "kpt t = of_nat (0xc000 + 0x1000 * t)"

definition kpd_entry :: "nat \<Rightarrow> Pde" where
  "kpd_entry i =
     (if i = 0 then mkpde kKPdeWritePresentAccess (kpt 0)
      else if i < 768 then mkpde kUPdeWriteAbsentAccess kPdeAbsentAddr
      else if i < 784 then mkpde kKPdeWritePresentAccess (kpt (i - 767))
      else mkpde kKPdeWriteAbsentAccess kPdeAbsentAddr)"

definition tables_ok :: "nat \<Rightarrow> nat \<Rightarrow> 'a pgs_scheme \<Rightarrow> bool" where
  "tables_ok i n s \<longleftrightarrow>
     (\<forall>j<i. pde_at s (0x1000 + 4 * of_nat j) = kpd_entry j) \<and>
     (\<forall>t<n. \<forall>j<1024. pte_at s (kpt t + 4 * of_nat j) =
        mkpte kKPteWritePresentAccess (of_nat (0x1000 * ((if t = 0 then 0 else t - 1) * 1024 + j))))"

definition same_but_tables :: "'a pgs_scheme \<Rightarrow> 'a pgs_scheme \<Rightarrow> bool" where
  "same_but_tables s s' \<longleftrightarrow>
     s\<lparr>pde_at := (\<lambda>_. mkpde 0 0), pte_at := (\<lambda>_. mkpte 0 0)\<rparr> =
     s'\<lparr>pde_at := (\<lambda>_. mkpde 0 0), pte_at := (\<lambda>_. mkpte 0 0)\<rparr>"

lemma same_but_tables_simps [simp]:
  "same_but_tables s s" "same_but_tables s (s'\<lparr>pde_at := f\<rparr>) = same_but_tables s s'"
  "same_but_tables s (s'\<lparr>pte_at := g\<rparr>) = same_but_tables s s'"
  by (simp_all add: same_but_tables_def)

lemma same_but_tables_trans: "same_but_tables s s' \<Longrightarrow> same_but_tables s' s'' \<Longrightarrow> same_but_tables s s''"
  by (simp add: same_but_tables_def)

lemma same_but_tablesD:
  assumes "same_but_tables s s'"
  shows "mach s' = mach s" "page_state s' = page_state s" "console s' = console s" "avl_mem s' = avl_mem s"
    "free_mem_list s' = free_mem_list s" "allocated_mem_list s' = allocated_mem_list s" "K_END s' = K_END s"
    "pgs.more s' = pgs.more s"
  using assms [unfolded same_but_tables_def, THEN arg_cong [where f = mach]]
    assms [unfolded same_but_tables_def, THEN arg_cong [where f = page_state]]
    assms [unfolded same_but_tables_def, THEN arg_cong [where f = console]]
    assms [unfolded same_but_tables_def, THEN arg_cong [where f = avl_mem]]
    assms [unfolded same_but_tables_def, THEN arg_cong [where f = free_mem_list]]
    assms [unfolded same_but_tables_def, THEN arg_cong [where f = allocated_mem_list]]
    assms [unfolded same_but_tables_def, THEN arg_cong [where f = K_END]]
    assms [unfolded same_but_tables_def, THEN arg_cong [where f = pgs.more]]
  by simp_all

lemma unat_kpt: "t < 1000 \<Longrightarrow> unat (kpt t) = 0xc000 + 0x1000 * t"
  unfolding kpt_def by (rule unat_of_nat_u32) simp

lemma kpt_apart:
  assumes "t < 17" "t' < 17" "i < 1024" "j < 1024" "t \<noteq> t'"
  shows "kpt t + 4 * of_nat i \<noteq> kpt t' + 4 * of_nat j"
proof -
  have "unat (kpt t + 4 * of_nat i) = 0xc000 + 0x1000 * t + 4 * i"
       "unat (kpt t' + 4 * of_nat j) = 0xc000 + 0x1000 * t' + 4 * j"
    using assms unat_index [of "kpt t" i] unat_index [of "kpt t'" j] unat_kpt [of t] unat_kpt [of t'] by simp_all
  moreover have "0x1000 * t + 4 * i \<noteq> 0x1000 * t' + 4 * j"
    using assms(3-5) by (cases "t < t'") linarith+
  ultimately have "unat (kpt t + 4 * of_nat i) \<noteq> unat (kpt t' + 4 * of_nat j)" by linarith
  then show ?thesis by (rule contrapos_nn) simp
qed

lemma direct_step:
  assumes t: "t < 16" and ok: "tables_ok (768 + t) (Suc t) s"
  shows "\<exists>s'. kbind (SetPde (0x1000 + 4 * of_nat (768 + t)) kKPdeWritePresentAccess (kpt (Suc t)) s)
           (SetPt (kpt (Suc t)) (of_nat (0x400000 * t))) = Ok s' \<and>
         tables_ok (768 + Suc t) (Suc (Suc t)) s' \<and> same_but_tables s s'"
proof -
  let ?p = "0x1000 + 4 * of_nat (768 + t) :: u32"
  let ?f = "(pde_at s)(?p := mkpde kKPdeWritePresentAccess (kpt (Suc t)))"
  have "unat ?p = 0x1000 + 4 * (768 + t)"
    using t unat_index [of "0x1000" "768 + t"] by simp
  then have p: "?p < 0x400000" using t by (simp add: u32_less_iff_unat)
  obtain h where h: "SetPt (kpt (Suc t)) (of_nat (0x400000 * t)) (s\<lparr>pde_at := ?f\<rparr>) = Ok (s\<lparr>pde_at := ?f, pte_at := h\<rparr>)"
      "\<forall>j<1024. h (kpt (Suc t) + 4 * of_nat j) =
         mkpte kKPteWritePresentAccess (of_nat (0x400000 * t) + of_nat j * PageSize)"
      "\<forall>x. (\<forall>j<1024. x \<noteq> kpt (Suc t) + 4 * of_nat j) \<longrightarrow> h x = pte_at s x"
    using SetPt_ok [of "kpt (Suc t)" "of_nat (0x400000 * t)" "s\<lparr>pde_at := ?f\<rparr>"] unat_kpt [of "Suc t"] t by auto
  let ?s = "s\<lparr>pde_at := ?f, pte_at := h\<rparr>"
  have "pde_at ?s (0x1000 + 4 * of_nat j) = kpd_entry j" if "j < 768 + Suc t" for j
  proof (cases "j = 768 + t")
    case True
    then show ?thesis using t by (simp add: kpd_entry_def)
  next
    case False
    then have "j < 768 + t" using that by simp
    moreover have "(0x1000 :: u32) + 4 * of_nat j \<noteq> ?p"
      using False that t by (subst arr_index_inj) auto
    ultimately show ?thesis using ok by (simp add: tables_ok_def)
  qed
  moreover have "pte_at ?s (kpt t' + 4 * of_nat j) =
      mkpte kKPteWritePresentAccess (of_nat (0x1000 * ((if t' = 0 then 0 else t' - 1) * 1024 + j)))"
    if "t' < Suc (Suc t)" "j < 1024" for t' j
  proof (cases "t' = Suc t")
    case True
    have "(of_nat (0x400000 * t) + of_nat j * PageSize :: u32) = of_nat (0x1000 * (t * 1024 + j))"
      by (simp add: PageSize_def algebra_simps)
    then show ?thesis using True h(2) that(2) by simp
  next
    case False
    then have "\<forall>i<1024. kpt t' + 4 * of_nat j \<noteq> kpt (Suc t) + 4 * of_nat i"
      using that t kpt_apart [of t' "Suc t" j] by auto
    then show ?thesis using False that ok h(3) by (simp add: tables_ok_def)
  qed
  ultimately have "tables_ok (768 + Suc t) (Suc (Suc t)) ?s"
    by (simp add: tables_ok_def)
  moreover have "kbind (SetPde ?p kKPdeWritePresentAccess (kpt (Suc t)) s)
      (SetPt (kpt (Suc t)) (of_nat (0x400000 * t))) = Ok ?s"
    using h(1) p by (simp add: SetPde_low)
  moreover have "same_but_tables s ?s" by simp
  ultimately show ?thesis by blast
qed

lemma tables_start:
  "\<exists>s'. kbind (SetPde 0x1000 kKPdeWritePresentAccess 0xc000 s) (SetPt 0xc000 0) = Ok s' \<and>
     tables_ok 1 1 s' \<and> same_but_tables s s'"
proof -
  let ?f = "(pde_at s)(0x1000 := mkpde kKPdeWritePresentAccess 0xc000)"
  obtain h where h: "SetPt 0xc000 0 (s\<lparr>pde_at := ?f\<rparr>) = Ok (s\<lparr>pde_at := ?f, pte_at := h\<rparr>)"
      "\<forall>j<1024. h (0xc000 + 4 * of_nat j) = mkpte kKPteWritePresentAccess (0 + of_nat j * PageSize)"
    using SetPt_ok [of "0xc000" 0 "s\<lparr>pde_at := ?f\<rparr>"] by auto
  moreover have "SetPde 0x1000 kKPdeWritePresentAccess 0xc000 s = Ok (s\<lparr>pde_at := ?f\<rparr>)"
    by (simp add: SetPde_low)
  moreover have "tables_ok 1 1 (s\<lparr>pde_at := ?f, pte_at := h\<rparr>)"
    using h(2) by (simp add: tables_ok_def kpd_entry_def kpt_def PageSize_def mult.commute)
  ultimately show ?thesis by simp
qed

lemma tables_run:
  assumes ok: "tables_ok i m s" and n: "i + n \<le> 1024"
    and e: "\<And>j. i \<le> j \<Longrightarrow> j < i + n \<Longrightarrow> kpd_entry j = mkpde acc a"
  shows "\<exists>s'. for_up n i (\<lambda>i s. SetPde (0x1000 + 4 * of_nat i) acc a s) s = Ok s' \<and>
     tables_ok (i + n) m s' \<and> same_but_tables s s'"
proof -
  obtain h where h: "for_up n i (\<lambda>i s. SetPde (0x1000 + 4 * of_nat i) acc a s) s = Ok (s\<lparr>pde_at := h\<rparr>)"
      "\<forall>j<1024. h (0x1000 + 4 * of_nat j) =
         (if i \<le> j \<and> j < i + n then mkpde acc a else pde_at s (0x1000 + 4 * of_nat j))"
    using SetPde_run [OF n] by blast
  have "h (0x1000 + 4 * of_nat j) = kpd_entry j" if "j < i + n" for j
    using that n e [of j] ok h(2) by (cases "i \<le> j") (auto simp: tables_ok_def)
  then have "tables_ok (i + n) m (s\<lparr>pde_at := h\<rparr>)"
    using ok by (simp add: tables_ok_def)
  with h(1) show ?thesis by auto
qed

lemma direct_loop:
  assumes ok: "tables_ok 768 1 s"
  shows "\<exists>x y s'. for_up 16 768
       (\<lambda>i (pt_addr, page_addr, s).
          kbind (SetPde (0x1000 + 4 * of_nat i) kKPdeWritePresentAccess pt_addr s) (\<lambda>s.
          kbind (SetPt pt_addr page_addr s) (\<lambda>s.
          Ok (pt_addr + 0x1000, page_addr + 0x400000, s)))) (0xd000, 0, s) = Ok (x, y, s') \<and>
       tables_ok 784 17 s' \<and> same_but_tables s s'"
proof -
  let ?f = "\<lambda>i (pt_addr, page_addr, s).
          kbind (SetPde (0x1000 + 4 * of_nat i) kKPdeWritePresentAccess pt_addr s) (\<lambda>s.
          kbind (SetPt pt_addr page_addr s) (\<lambda>s.
          Ok (pt_addr + 0x1000, page_addr + 0x400000, s)))"
  let ?P = "\<lambda>i (pt_addr, page_addr :: u32, s'). pt_addr = kpt (Suc (i - 768)) \<and>
     page_addr = of_nat (0x400000 * (i - 768)) \<and> tables_ok i (Suc (i - 768)) s' \<and> same_but_tables s s'"
  have "\<exists>x. for_up 16 768 ?f (0xd000, 0, s) = Ok x \<and> ?P (768 + 16) x"
  proof (rule for_up_rule [where P = ?P])
    show "?P 768 (0xd000, 0, s)" using ok by (simp add: kpt_def)
  next
    fix i x assume i: "768 \<le> i" "i < 768 + 16" and P: "?P i x"
    define t where "t = i - 768"
    have it: "i = 768 + t" "t < 16" using i by (auto simp: t_def)
    obtain s1 where x: "x = (kpt (Suc t), of_nat (0x400000 * t), s1)" "tables_ok (768 + t) (Suc t) s1"
        "same_but_tables s s1"
      using P it by (cases x) auto
    obtain s2 where s2: "kbind (SetPde (0x1000 + 4 * of_nat (768 + t)) kKPdeWritePresentAccess (kpt (Suc t)) s1)
           (SetPt (kpt (Suc t)) (of_nat (0x400000 * t))) = Ok s2"
        "tables_ok (768 + Suc t) (Suc (Suc t)) s2" "same_but_tables s1 s2"
      using direct_step [OF it(2) x(2)] by blast
    have "?f i x = Ok (kpt (Suc t) + 0x1000, of_nat (0x400000 * t) + 0x400000, s2)"
      using s2(1) x(1) it(1) by (auto simp: kbind_eq_Ok)
    moreover have "?P (Suc i) (kpt (Suc t) + 0x1000, of_nat (0x400000 * t) + 0x400000, s2)"
      using s2(2) same_but_tables_trans [OF x(3) s2(3)] it(1)
      by (simp add: kpt_def algebra_simps Suc_diff_le)
    ultimately show "\<exists>x'. ?f i x = Ok x' \<and> ?P (Suc i) x'" by blast
  qed
  then show ?thesis by auto
qed

section \<open>Address translation\<close>

lemma unat_push12: "unat (push_bit 12 b :: u32) = 4096 * (unat b mod 1048576)"
proof -
  have "unat (push_bit 12 b :: u32) = (4096 * unat b) mod (4096 * 1048576)"
    by (simp add: push_bit_eq_mult unat_word_ariths mult.commute)
  then show ?thesis by (simp only: mult_mod_right)
qed

lemma unat_frame20: "unat (push_bit 12 (ucast (ucast (drop_bit 12 (a :: u32)) :: 20 word)) :: u32) = unat a div 4096 * 4096"
proof -
  have b: "unat a div 4096 < 1048576"
    using unat_u32_bound [of a] by (intro less_mult_imp_div_less) simp
  have d: "unat (drop_bit 12 a) = unat a div 4096"
    by (simp add: drop_bit_eq_div unat_div)
  have u: "unat (ucast (ucast (drop_bit 12 a) :: 20 word) :: u32) = unat a div 4096"
    using b d by (simp add: unsigned_ucast_eq unsigned_take_bit_eq take_bit_nat_eq_self)
  show ?thesis
    using b by (simp add: unat_push12 u)
qed

lemma unat_page_join:
  "unat (push_bit 12 b OR (v AND 0xfff) :: u32) = unat (push_bit 12 b :: u32) + unat v mod 4096"
proof -
  have m: "v AND 0xfff = take_bit 12 v"
    by (simp add: take_bit_eq_mask mask_eq_exp_minus_1)
  have "push_bit 12 b AND take_bit 12 v = 0"
    by (rule bit_word_eqI) (auto simp: bit_simps)
  then have "push_bit 12 b OR take_bit 12 v = push_bit 12 b + take_bit 12 v"
    using word_plus_and_or [of "push_bit 12 b" "take_bit 12 v"] by simp
  moreover have t: "unat (take_bit 12 v) = unat v mod 4096"
    by (simp add: take_bit_eq_mod unat_mod)
  moreover have "unat (push_bit 12 b) + unat v mod 4096 < 4294967296"
  proof -
    have "4096 * m + r < 4294967296" if "m < 1048576" "r < 4096" for m r :: nat
      using that by linarith
    then show ?thesis by (simp add: unat_push12)
  qed
  ultimately show ?thesis
    unfolding m by (simp add: unat_add_u32_small)
qed

definition kernel_map :: "u32 \<Rightarrow> u32 option" where
  "kernel_map v =
     (if v < 0x400000 then Some v
      else if 0xc0000000 \<le> v \<and> v < 0xc4000000 then Some (v - 0xc0000000) else None)"

lemma translate_present:
  assumes ok: "tables_ok 1024 17 s" and cr3: "creg (mach s) 3 = 0x1000"
    and i: "pde_index v < 1024" "kpd_entry (pde_index v) = mkpde kKPdeWritePresentAccess (kpt t)" "t < 17"
  shows "translate s v = Some (of_nat (0x1000 * ((if t = 0 then 0 else t - 1) * 1024 + pte_index v) + unat v mod 4096))"
proof -
  let ?n = "(if t = 0 then 0 else t - 1) * 1024 + pte_index v"
  have j: "pte_index v < 1024" by (simp add: pte_index_def)
  have n: "?n < 16384" using i(3) j by (auto split: if_splits)
  have pd: "pde_at s ((creg (mach s) 3 AND NOT 0xfff) + 4 * of_nat (pde_index v)) = mkpde kKPdeWritePresentAccess (kpt t)"
    using ok i cr3 by (simp add: tables_ok_def)
  have pt: "push_bit 12 (ucast (pde_pt_addr (mkpde kKPdeWritePresentAccess (kpt t)))) = kpt t"
    using unat_frame20 [of "kpt t"] unat_kpt [of t] i(3)
    by (simp add: u32_eq_iff_unat mkpde_def GetPtAddrInPde_def)
  have pte: "pte_at s (kpt t + 4 * of_nat (pte_index v)) = mkpte kKPteWritePresentAccess (of_nat (0x1000 * ?n))"
    using ok i(3) j by (simp add: tables_ok_def del: of_nat_mult of_nat_add)
  have un: "unat (of_nat (0x1000 * ?n) :: u32) = 0x1000 * ?n"
    using n by (intro unat_of_nat_u32) simp
  have "unat (push_bit 12 (ucast (pte_page_addr (mkpte kKPteWritePresentAccess (of_nat (0x1000 * ?n))))) OR
      (v AND 0xfff) :: u32) = 0x1000 * ?n + unat v mod 4096"
    using unat_frame20 [of "of_nat (0x1000 * ?n)"] un
    by (simp only: unat_page_join mkpte_def Pte.select_convs GetPageAddrInPte_def) simp
  moreover have "unat (of_nat (0x1000 * ?n + unat v mod 4096) :: u32) = 0x1000 * ?n + unat v mod 4096"
  proof (rule unat_of_nat_u32)
    have "0x1000 * m + r < 4294967296" if "m < 16384" "r < 4096" for m r :: nat
      using that by linarith
    then show "0x1000 * ?n + unat v mod 4096 < 4294967296" using n by simp
  qed
  ultimately have "push_bit 12 (ucast (pte_page_addr (mkpte kKPteWritePresentAccess (of_nat (0x1000 * ?n))))) OR
      (v AND 0xfff) = (of_nat (0x1000 * ?n + unat v mod 4096) :: u32)"
    by (simp only: u32_eq_iff_unat)
  moreover have "bit (pde_access (mkpde kKPdeWritePresentAccess (kpt t))) 0"
      "bit (pte_access (mkpte kKPteWritePresentAccess a)) 0" for a
    by (simp_all add: mkpde_def mkpte_def kKPdeWritePresentAccess_def kKPteWritePresentAccess_def)
  ultimately show ?thesis
    unfolding translate_def Let_def pd pt pte by simp
qed

lemma translate_absent:
  assumes ok: "tables_ok 1024 17 s" and cr3: "creg (mach s) 3 = 0x1000"
    and i: "pde_index v < 1024" "\<not> bit (pde_access (kpd_entry (pde_index v))) 0"
  shows "translate s v = None"
proof -
  have "pde_at s ((creg (mach s) 3 AND NOT 0xfff) + 4 * of_nat (pde_index v)) = kpd_entry (pde_index v)"
    using ok i(1) cr3 by (simp add: tables_ok_def)
  then show ?thesis using i(2) by (simp add: translate_def)
qed

lemma page_split: "unat v div 4096 * 4096 + unat v mod 4096 = unat v"
  by simp

lemma translate_kernel:
  assumes ok: "tables_ok 1024 17 s" and cr3: "creg (mach s) 3 = 0x1000"
  shows "translate s v = kernel_map v"
proof -
  let ?i = "pde_index v"
  have i: "?i < 1024"
    using unat_u32_bound [of v] by (auto simp: pde_index_def intro: less_mult_imp_div_less)
  have v: "unat v = 0x400000 * ?i + 0x1000 * pte_index v + unat v mod 4096"
  proof -
    have "unat v div 4096 = ?i * 1024 + pte_index v"
      using div_mult_mod_eq [of "unat v div 4096" 1024]
      by (simp add: pde_index_def pte_index_def div_mult2_eq [symmetric])
    then show ?thesis using page_split [of v] by (simp add: algebra_simps)
  qed
  have j: "pte_index v < 1024" "unat v mod 4096 < 4096" by (simp_all add: pte_index_def)
  consider "?i = 0" | "0 < ?i" "?i < 768" | "768 \<le> ?i" "?i < 784" | "784 \<le> ?i" by linarith
  then show ?thesis
  proof cases
    case 1
    then have "translate s v = Some (of_nat (0x1000 * (0 * 1024 + pte_index v) + unat v mod 4096))"
      using translate_present [OF ok cr3 i, of 0] by (simp add: kpd_entry_def)
    also have "\<dots> = Some v" using v 1 by simp
    also have "unat v < 0x400000" using v j 1 by linarith
    then have "Some v = kernel_map v" by (simp add: kernel_map_def u32_less_iff_unat)
    finally show ?thesis .
  next
    case 2
    then have "translate s v = None"
      by (intro translate_absent [OF ok cr3 i]) (simp add: kpd_entry_def mkpde_def kUPdeWriteAbsentAccess_def)
    moreover have "0x400000 \<le> unat v" "unat v < 0xc0000000" using v j 2 by linarith+
    ultimately show ?thesis by (simp add: kernel_map_def u32_less_iff_unat u32_le_iff_unat)
  next
    case 3
    define k where "k = ?i - 768"
    have k: "?i = 768 + k" "k < 16" using 3 by (auto simp: k_def)
    have "translate s v = Some (of_nat (0x1000 * (k * 1024 + pte_index v) + unat v mod 4096))"
      using translate_present [OF ok cr3 i, of "Suc k"] k by (simp add: kpd_entry_def Suc_diff_le)
    moreover have r: "0xc0000000 \<le> unat v" "unat v < 0xc4000000" using v j k by linarith+
    moreover have "of_nat (0x1000 * (k * 1024 + pte_index v) + unat v mod 4096) = v - 0xc0000000"
    proof -
      have "unat (v - 0xc0000000) = unat v - 0xc0000000"
        using r by (subst unat_sub_u32) (auto simp: u32_le_iff_unat)
      also have "\<dots> = 0x1000 * (k * 1024 + pte_index v) + unat v mod 4096"
      proof -
        have "unat v = 0x400000 * (768 + k) + 0x1000 * pte_index v + unat v mod 4096"
          using v k(1) by simp
        then show ?thesis by (simp add: algebra_simps)
      qed
      finally show ?thesis by (metis of_nat_unat ucast_id)
    qed
    ultimately show ?thesis by (simp add: kernel_map_def u32_less_iff_unat u32_le_iff_unat)
  next
    case 4
    then have "translate s v = None"
      by (intro translate_absent [OF ok cr3 i]) (simp add: kpd_entry_def mkpde_def kKPdeWriteAbsentAccess_def)
    moreover have "0xc4000000 \<le> unat v" using v 4 by linarith
    ultimately show ?thesis by (simp add: kernel_map_def u32_less_iff_unat u32_le_iff_unat)
  qed
qed

section \<open>PagingInit\<close>

lemma tables_all:
  "\<exists>s'. kbind (SetPde 0x1000 kKPdeWritePresentAccess 0xc000 s) (\<lambda>s.
     kbind (SetPt 0xc000 0 s) (\<lambda>s.
     kbind (for_up 767 1 (\<lambda>i s. SetPde (0x1000 + 4 * of_nat i) kUPdeWriteAbsentAccess kPdeAbsentAddr s) s) (\<lambda>s.
     kbind (for_up 16 768
       (\<lambda>i (pt_addr, page_addr, s).
          kbind (SetPde (0x1000 + 4 * of_nat i) kKPdeWritePresentAccess pt_addr s) (\<lambda>s.
          kbind (SetPt pt_addr page_addr s) (\<lambda>s.
          Ok (pt_addr + 0x1000, page_addr + 0x400000, s)))) (0xd000, 0, s)) (\<lambda>(pt_addr, page_addr, s).
     for_up 240 784 (\<lambda>i s. SetPde (0x1000 + 4 * of_nat i) kKPdeWriteAbsentAccess kPdeAbsentAddr s) s)))) = Ok s' \<and>
     tables_ok 1024 17 s' \<and> same_but_tables s s'"
proof -
  obtain s1 where s1: "kbind (SetPde 0x1000 kKPdeWritePresentAccess 0xc000 s) (SetPt 0xc000 0) = Ok s1"
      "tables_ok 1 1 s1" "same_but_tables s s1"
    using tables_start by blast
  obtain s2 where s2: "for_up 767 1 (\<lambda>i s. SetPde (0x1000 + 4 * of_nat i) kUPdeWriteAbsentAccess kPdeAbsentAddr s) s1 = Ok s2"
      "tables_ok (1 + 767) 1 s2" "same_but_tables s1 s2"
    using tables_run [OF s1(2), of 767 kUPdeWriteAbsentAccess kPdeAbsentAddr] by (auto simp: kpd_entry_def)
  obtain x y s3 where s3: "for_up 16 768
       (\<lambda>i (pt_addr, page_addr, s).
          kbind (SetPde (0x1000 + 4 * of_nat i) kKPdeWritePresentAccess pt_addr s) (\<lambda>s.
          kbind (SetPt pt_addr page_addr s) (\<lambda>s.
          Ok (pt_addr + 0x1000, page_addr + 0x400000, s)))) (0xd000, 0, s2) = Ok (x, y, s3)"
      "tables_ok 784 17 s3" "same_but_tables s2 s3"
    using direct_loop [of s2] s2(2) by auto
  obtain s4 where s4: "for_up 240 784 (\<lambda>i s. SetPde (0x1000 + 4 * of_nat i) kKPdeWriteAbsentAccess kPdeAbsentAddr s) s3 = Ok s4"
      "tables_ok (784 + 240) 17 s4" "same_but_tables s3 s4"
    using tables_run [OF s3(2), of 240 kKPdeWriteAbsentAccess kPdeAbsentAddr] by (auto simp: kpd_entry_def)
  have "same_but_tables s s4"
    using s1(3) s2(3) s3(3) s4(3) same_but_tables_trans by blast
  moreover obtain s0 where "SetPde 0x1000 kKPdeWritePresentAccess 0xc000 s = Ok s0" "SetPt 0xc000 0 s0 = Ok s1"
    using s1(1) by (auto simp: kbind_eq_Ok)
  ultimately show ?thesis
    using s2(1) s3(1) s4 by (intro exI [of _ s4]) simp
qed

lemma PagingInit_ok:
  assumes ok: "pages_ok s" "\<forall>i<0x100000. \<not> page_used s i" and B: "B < 0xfffff" and con: "con_ok (console s)"
    and avl: "avl_mem s = rs @ [(x0, UINT32_MAX)]" "\<forall>r\<in>set rs. region_ok B r"
  shows "\<exists>s'. PagingInit s = Ok s' \<and> (\<forall>v. translate s' v = kernel_map v) \<and> paging_on s' \<and>
    creg (mach s') 3 = 0x1000 \<and> \<not> bit (creg (mach s') 4) 5 \<and> pages_ok s' \<and> con_ok (console s') \<and>
    (\<forall>i. unat i < 0x4000 \<or> B \<le> unat i \<and> unat i < 0x100000 \<longrightarrow> \<not> page_used s' i) \<and>
    free_mem_list s' = free_mem_list s \<and> allocated_mem_list s' = allocated_mem_list s \<and>
    K_END s' = K_END s \<and> avl_mem s' = avl_mem s \<and> pgs.more s' = pgs.more s \<and> dev (mach s') = dev (mach s)"
proof -
  obtain c ps s1 where s1: "PageAllocatorInit s = Ok s1" "s1 = s\<lparr>console := c, page_state := ps\<rparr>" "con_ok c"
      "pages_ok s1" "\<forall>i. unat i < 0x4000 \<or> B \<le> unat i \<and> unat i < 0x100000 \<longrightarrow> \<not> page_used s1 i"
    using PageAllocatorInit_ok [OF ok B con avl] by blast
  let ?s2 = "SwitchPd kKPdAddr s1"
  have s2: "creg (mach ?s2) 3 = 0x1000" "page_state ?s2 = page_state s1" "console ?s2 = c"
      "avl_mem ?s2 = avl_mem s" "free_mem_list ?s2 = free_mem_list s" "K_END ?s2 = K_END s"
      "allocated_mem_list ?s2 = allocated_mem_list s" "pgs.more ?s2 = pgs.more s" "dev (mach ?s2) = dev (mach s)"
    using s1(2) by (simp_all add: SwitchPd_def kKPdAddr_def DirectMappingPhysAddr_def kKVirtualAddr_def Let_def)
  obtain s3 where s3: "tables_ok 1024 17 s3" "same_but_tables ?s2 s3" and
    run: "kbind (SetPde 0x1000 kKPdeWritePresentAccess 0xc000 ?s2) (\<lambda>s.
     kbind (SetPt 0xc000 0 s) (\<lambda>s.
     kbind (for_up 767 1 (\<lambda>i s. SetPde (0x1000 + 4 * of_nat i) kUPdeWriteAbsentAccess kPdeAbsentAddr s) s) (\<lambda>s.
     kbind (for_up 16 768
       (\<lambda>i (pt_addr, page_addr, s).
          kbind (SetPde (0x1000 + 4 * of_nat i) kKPdeWritePresentAccess pt_addr s) (\<lambda>s.
          kbind (SetPt pt_addr page_addr s) (\<lambda>s.
          Ok (pt_addr + 0x1000, page_addr + 0x400000, s)))) (0xd000, 0, s)) (\<lambda>(pt_addr, page_addr, s).
     for_up 240 784 (\<lambda>i s. SetPde (0x1000 + 4 * of_nat i) kKPdeWriteAbsentAccess kPdeAbsentAddr s) s)))) = Ok s3"
    using tables_all [of ?s2] by blast
  obtain m4 where m4: "clear_cr 4 5 (mach s3) = Ok m4"
      "\<forall>k j. bit (creg m4 k) j \<longleftrightarrow> \<not> (k = 4 \<and> j = 5) \<and> bit (creg (mach s3) k) j" "dev m4 = dev (mach s3)"
    using creg_clear_cr [of 4 5 "mach s3"] by auto
  obtain m5 where m5: "set_cr 0 31 m4 = Ok m5"
      "\<forall>k j. bit (creg m5 k) j \<longleftrightarrow> (k = 0 \<and> j = 31) \<or> bit (creg m4 k) j" "dev m5 = dev m4"
    using creg_set_cr [of 0 31 m4] by auto
  let ?s = "s3\<lparr>mach := m5\<rparr>"
  have cv: "DirectMappingPhysAddr kKPdAddr = 0x1000" "DirectMappingPhysAddr (kKPtAddr - 0x1000) = 0xc000"
      "DirectMappingPhysAddr kKPtAddr = 0xd000" "kUPdeNum - 1 = 767" "kKPdeDirectMappingNum = 16" "kUPdeNum = 768"
      "kPdeNum - (16 + 768) = 240" "kPdeNum - 784 = 240" "16 + 768 = (784 :: nat)" "768 - 1 = (767 :: nat)"
      "kPtMaxSize = 0x1000" "of_nat kPteMaxNum * PageSize = 0x400000"
    by (simp_all add: DirectMappingPhysAddr_def kKPdAddr_def kKVirtualAddr_def kKPtAddr_def kPtMaxSize_def
        kUPdeNum_def kKPdeDirectMappingNum_def kPdeNum_def kPteMaxNum_def PageSize_def)
  have e: "PagingInit s = Ok ?s"
    unfolding PagingInit_def Let_def cv s1(1) kbind_Ok
    using run m4(1) m5(1) by (auto simp: kbind_eq_Ok split: prod.splits)
  have cr3: "creg m5 3 = 0x1000"
  proof (rule bit_word_eqI)
    fix n show "bit (creg m5 3) n = bit (0x1000 :: u32) n"
      using m4(2) m5(2) same_but_tablesD(1) [OF s3(2)] s2(1) by simp
  qed
  have "tables_ok 1024 17 ?s" using s3(1) by (simp add: tables_ok_def)
  then have "\<forall>v. translate ?s v = kernel_map v"
    using translate_kernel [of ?s] cr3 by simp
  moreover have "paging_on ?s" "\<not> bit (creg (mach ?s) 4) 5"
    using m4(2) m5(2) by (auto simp: paging_on_def)
  moreover have "pages_ok ?s" "\<forall>i. page_used ?s i = page_used s1 i"
    using same_but_tablesD(2) [OF s3(2)] s2(2) s1(4) by (auto simp: pages_ok_def page_used_def)
  ultimately show ?thesis
    using e cr3 s1(3,5) s2 same_but_tablesD [OF s3(2)] m4(3) m5(3) by (intro exI [of _ ?s]) simp
qed

text \<open>With paging on, \<open>lin\<close> is the translation that the tables give.\<close>

lemma lin_kernel_map:
  "paging_on s \<Longrightarrow> lin p s = (case kernel_map p of Some a \<Rightarrow> Ok a | None \<Rightarrow> Fault PageFault)"
  by (simp add: lin_def kernel_map_def kKVirtualAddr_def kDirectMappingSize_def)

section \<open>Cloning a page directory\<close>

definition pd_at :: "u32 \<Rightarrow> u32 \<Rightarrow> 'a pgs_scheme \<Rightarrow> bool" where
  "pd_at ptr a s \<longleftrightarrow> (\<forall>i<1024. lin (ptr + 4 * of_nat i) s = Ok (a + 4 * of_nat i))"

definition read_only :: "Pde \<Rightarrow> Pde" where
  "read_only d = d\<lparr>pde_access := pde_access d AND NOT 0x2\<rparr>"

lemma lin_pde_at [simp]: "lin p (s\<lparr>pde_at := h\<rparr>) = lin p s"
  by (simp add: lin_def paging_on_def)

lemma pd_at_pde_at [simp]: "pd_at p a (s\<lparr>pde_at := h\<rparr>) = pd_at p a s"
  by (simp add: pd_at_def)

lemma Pde_copy [simp]:
  "\<lparr>pde_access = pde_access d, pde_ignored = pde_ignored d, pde_pt_addr = pde_pt_addr d\<rparr> = (d :: Pde)"
  by simp

lemma clone_protect:
  assumes "pd_at father f s"
  shows "\<exists>h. for_up 768 0
       (\<lambda>i s. let p = father + 4 * of_nat i in
          kbind (rd_pde p s) (\<lambda>d. wr_pde p (d\<lparr>pde_access := pde_access d AND NOT 0x2\<rparr>) s)) s = Ok (s\<lparr>pde_at := h\<rparr>) \<and>
     (\<forall>i<1024. h (f + 4 * of_nat i) =
        (if i < 768 then read_only (pde_at s (f + 4 * of_nat i)) else pde_at s (f + 4 * of_nat i)))"
    (is "\<exists>h. for_up 768 0 ?f s = _ \<and> _")
proof -
  let ?P = "\<lambda>k s'. \<exists>h. s' = s\<lparr>pde_at := h\<rparr> \<and> (\<forall>i<1024. h (f + 4 * of_nat i) =
        (if i < k then read_only (pde_at s (f + 4 * of_nat i)) else pde_at s (f + 4 * of_nat i)))"
  have "\<exists>s'. for_up 768 0 ?f s = Ok s' \<and> ?P (0 + 768) s'"
  proof (rule for_up_rule [where P = ?P])
    show "?P 0 s" by (intro exI [of _ "pde_at s"]) simp
  next
    fix k s1 assume k: "0 \<le> k" "k < 0 + (768 :: nat)" and "?P k s1"
    then obtain h where h: "s1 = s\<lparr>pde_at := h\<rparr>" "\<forall>i<1024. h (f + 4 * of_nat i) =
        (if i < k then read_only (pde_at s (f + 4 * of_nat i)) else pde_at s (f + 4 * of_nat i))" by blast
    have "lin (father + 4 * of_nat k) s = Ok (f + 4 * of_nat k)"
      using assms k by (simp add: pd_at_def)
    then have "?f k s1 = Ok (s\<lparr>pde_at := h(f + 4 * of_nat k := read_only (h (f + 4 * of_nat k)))\<rparr>)"
      using h(1) by (simp add: rd_pde_def wr_pde_def read_only_def Let_def)
    moreover have "\<forall>i<1024. (h(f + 4 * of_nat k := read_only (h (f + 4 * of_nat k)))) (f + 4 * of_nat i) =
        (if i < Suc k then read_only (pde_at s (f + 4 * of_nat i)) else pde_at s (f + 4 * of_nat i))"
      using h(2) k by (auto simp: less_Suc_eq arr_index_inj)
    ultimately show "\<exists>s'. ?f k s1 = Ok s' \<and> ?P (Suc k) s'" by blast
  qed
  then show ?thesis by auto
qed

lemma clone_copy:
  assumes "pd_at father f s" "pd_at cur c s"
    and apart: "\<And>i j. i < 1024 \<Longrightarrow> j < 1024 \<Longrightarrow> c + 4 * of_nat i \<noteq> f + 4 * of_nat j"
  shows "\<exists>h. for_up 1024 0
       (\<lambda>i s.
          kbind (rd_pde (father + 4 * of_nat i) s) (\<lambda>d.
          wr_pde (cur + 4 * of_nat i)
            \<lparr>pde_access = pde_access d, pde_ignored = pde_ignored d, pde_pt_addr = pde_pt_addr d\<rparr> s)) s = Ok (s\<lparr>pde_at := h\<rparr>) \<and>
     (\<forall>i<1024. h (c + 4 * of_nat i) = pde_at s (f + 4 * of_nat i) \<and>
               h (f + 4 * of_nat i) = pde_at s (f + 4 * of_nat i))"
    (is "\<exists>h. for_up 1024 0 ?f s = _ \<and> _")
proof -
  let ?P = "\<lambda>k s'. \<exists>h. s' = s\<lparr>pde_at := h\<rparr> \<and>
     (\<forall>i<k. h (c + 4 * of_nat i) = pde_at s (f + 4 * of_nat i)) \<and>
     (\<forall>i<1024. h (f + 4 * of_nat i) = pde_at s (f + 4 * of_nat i))"
  have "\<exists>s'. for_up 1024 0 ?f s = Ok s' \<and> ?P (0 + 1024) s'"
  proof (rule for_up_rule [where P = ?P])
    show "?P 0 s" by (intro exI [of _ "pde_at s"]) simp
  next
    fix k s1 assume k: "0 \<le> k" "k < 0 + (1024 :: nat)" and "?P k s1"
    then obtain h where h: "s1 = s\<lparr>pde_at := h\<rparr>" "\<forall>i<k. h (c + 4 * of_nat i) = pde_at s (f + 4 * of_nat i)"
        "\<forall>i<1024. h (f + 4 * of_nat i) = pde_at s (f + 4 * of_nat i)" by blast
    let ?h = "h(c + 4 * of_nat k := h (f + 4 * of_nat k))"
    have "lin (father + 4 * of_nat k) s = Ok (f + 4 * of_nat k)" "lin (cur + 4 * of_nat k) s = Ok (c + 4 * of_nat k)"
      using assms(1,2) k by (simp_all add: pd_at_def)
    then have "?f k s1 = Ok (s\<lparr>pde_at := ?h\<rparr>)"
      using h(1) by (simp add: rd_pde_def wr_pde_def)
    moreover have "\<forall>i<Suc k. ?h (c + 4 * of_nat i) = pde_at s (f + 4 * of_nat i)"
      using h(2,3) k by (auto simp: less_Suc_eq arr_index_inj)
    moreover have "\<forall>i<1024. ?h (f + 4 * of_nat i) = pde_at s (f + 4 * of_nat i)"
      using h(3) k apart [of k] by (metis fun_upd_other add_0)
    ultimately show "\<exists>s'. ?f k s1 = Ok s' \<and> ?P (Suc k) s'" by blast
  qed
  then show ?thesis by auto
qed

lemma UPdClone_ok:
  assumes "pd_at father f s" "pd_at cur c s"
    and apart: "\<And>i j. i < 1024 \<Longrightarrow> j < 1024 \<Longrightarrow> c + 4 * of_nat i \<noteq> f + 4 * of_nat j"
  shows "\<exists>h. UPdClone cur father s = Ok (s\<lparr>pde_at := h\<rparr>) \<and>
     (\<forall>i<1024. h (c + 4 * of_nat i) = h (f + 4 * of_nat i) \<and>
        h (f + 4 * of_nat i) =
          (if i < 768 then read_only (pde_at s (f + 4 * of_nat i)) else pde_at s (f + 4 * of_nat i)))"
proof -
  from clone_protect [OF assms(1)] obtain h1 where h1: "for_up 768 0
       (\<lambda>i s. let p = father + 4 * of_nat i in
          kbind (rd_pde p s) (\<lambda>d. wr_pde p (d\<lparr>pde_access := pde_access d AND NOT 0x2\<rparr>) s)) s = Ok (s\<lparr>pde_at := h1\<rparr>)"
     "\<forall>i<1024. h1 (f + 4 * of_nat i) =
        (if i < 768 then read_only (pde_at s (f + 4 * of_nat i)) else pde_at s (f + 4 * of_nat i))" by blast
  from clone_copy [of father f "s\<lparr>pde_at := h1\<rparr>" cur c] assms obtain h2 where h2: "for_up 1024 0
       (\<lambda>i s.
          kbind (rd_pde (father + 4 * of_nat i) s) (\<lambda>d.
          wr_pde (cur + 4 * of_nat i)
            \<lparr>pde_access = pde_access d, pde_ignored = pde_ignored d, pde_pt_addr = pde_pt_addr d\<rparr> s)) (s\<lparr>pde_at := h1\<rparr>)
        = Ok (s\<lparr>pde_at := h2\<rparr>)"
     "\<forall>i<1024. h2 (c + 4 * of_nat i) = h1 (f + 4 * of_nat i) \<and> h2 (f + 4 * of_nat i) = h1 (f + 4 * of_nat i)"
    by auto
  have "UPdClone cur father s = Ok (s\<lparr>pde_at := h2\<rparr>)"
    unfolding UPdClone_def kUPdeNum_def kPdeNum_def h1(1) kbind_Ok h2(1) ..
  then show ?thesis using h1(2) h2(2) by auto
qed

end
