(* ===== verification/Interrupts.thy ===== *)
theory Interrupts
  imports PageTables
begin

text \<open>
  \<^verbatim>\<open>kernel/interrupt\<close>: the interrupt descriptor table (\<^verbatim>\<open>idt.c\<close>), the two interrupt
  controllers (\<^verbatim>\<open>pic.c\<close>) and the registry of handlers (\<^verbatim>\<open>interrupt.c\<close>).

  A handler is a function pointer in the source; here it is the name of the function
  (\<open>handler\<close>), and the theory \<open>Kernel\<close> maps names to the modelled functions.  The entry points in
  \<^verbatim>\<open>intr_vec.S\<close> are code addresses that only the linker knows; they are the field \<open>intr_vec\<close>.
  The controllers are devices: what a read of their mask registers returns is a parameter, and
  the properties that need it state it as the hypothesis \<open>imr_dev\<close>.
\<close>

datatype handler = H_Exc | H_Pf | H_Timer | H_Keyboard | H_Ide | H_Syscall

record IntrReg =
  ir_ds :: u16
  ir_es :: u16
  ir_fs :: u16
  ir_gs :: u16
  p_edi :: u32
  p_esi :: u32
  p_ebp :: u32
  p_esp :: u32
  p_ebx :: u32
  p_edx :: u32
  p_ecx :: u32
  p_eax :: u32
  intr_vec_no :: u32
  err_code :: u32
  ir_eip :: u32
  ir_cs :: u32
  ir_eflags :: u32
  ir_esp :: u32
  ir_ss :: u16

record IntrGateDescriptor =
  offset_0_15 :: u16
  seg_sel :: u16
  gate_type :: u16
  offset_16_31 :: u16

record ints = pgs +
  intr_vec :: "u32 list"
  idt :: "IntrGateDescriptor list"
  tss_ss0 :: u32
  tss_esp0 :: u32
  IntrVecMap :: "u32 list"
  intr_handler :: "handler option list"

section \<open>idt.c\<close>

definition kIdtEntryNum :: nat where "kIdtEntryNum = 256"

definition kIdtExcNum :: nat where "kIdtExcNum = 32"

definition kIdtBaseAddr :: u32 where "kIdtBaseAddr = 0xc001f000"

definition kIdtExcType :: u16 where "kIdtExcType = 0x0e00"

definition kIdtIntrType :: u16 where "kIdtIntrType = 0x0e00"

definition kIdtTrapType :: u16 where "kIdtTrapType = 0x6f00"

definition kIdtSyscallNum :: nat where "kIdtSyscallNum = 0x80"

definition kTssSel :: u16 where "kTssSel = 0x28"

definition IdtLimit :: u32 where "IdtLimit = push_bit 3 (of_nat kIdtEntryNum) - 1"

definition SetIdtEntry :: "nat \<Rightarrow> u16 \<Rightarrow> u16 \<Rightarrow> 'a ints_scheme \<Rightarrow> 'a ints_scheme kres" where
  "SetIdtEntry n sel type s =
     (if n < length (idt s) \<and> n < length (intr_vec s) then
        Ok (s\<lparr>idt := (idt s)[n :=
               \<lparr>offset_0_15 = ucast (intr_vec s ! n), seg_sel = sel, gate_type = type,
                offset_16_31 = ucast (drop_bit 16 (intr_vec s ! n))\<rparr>]\<rparr>)
      else Fault OutOfBounds)"

definition EnableIdt :: "nat \<Rightarrow> 'a ints_scheme \<Rightarrow> 'a ints_scheme kres" where
  "EnableIdt n s =
     (if n < length (idt s) then
        Ok (s\<lparr>idt := (idt s)[n := (idt s ! n)\<lparr>gate_type := gate_type (idt s ! n) OR 0x8000\<rparr>]\<rparr>)
      else Fault OutOfBounds)"

definition DisableIdt :: "nat \<Rightarrow> 'a ints_scheme \<Rightarrow> 'a ints_scheme kres" where
  "DisableIdt n s =
     (if n < length (idt s) then
        Ok (s\<lparr>idt := (idt s)[n := (idt s ! n)\<lparr>gate_type := gate_type (idt s ! n) AND 0x7fff\<rparr>]\<rparr>)
      else Fault OutOfBounds)"

definition IdtInit :: "'a ints_scheme \<Rightarrow> 'a ints_scheme kres" where
  "IdtInit s =
     (let s = s\<lparr>mach := (mach s)\<lparr>idtr_reg := (ucast IdtLimit, kIdtBaseAddr)\<rparr>, tss_ss0 := kKCodeSeg\<rparr> in
      kbind (for_up kIdtExcNum 0 (\<lambda>i s. SetIdtEntry i (ucast kKCodeSeg) kIdtExcType s) s) (\<lambda>s.
      kbind (for_up (kIdtEntryNum - kIdtExcNum) kIdtExcNum
               (\<lambda>i s. SetIdtEntry i (ucast kKCodeSeg) kIdtIntrType s) s) (\<lambda>s.
      kbind (SetIdtEntry kIdtSyscallNum (ucast kUCodeSeg) kIdtTrapType s) (\<lambda>s.
      Ok (s\<lparr>mach := (mach s)\<lparr>tr_reg := kTssSel\<rparr>\<rparr>)))))"

section \<open>pic.c\<close>

definition kMPicCmd :: u16 where "kMPicCmd = 0x20"

definition kMPicData :: u16 where "kMPicData = 0x21"

definition kSPicCmd :: u16 where "kSPicCmd = 0xa0"

definition kSPicData :: u16 where "kSPicData = 0xa1"

definition kIrqSlave :: nat where "kIrqSlave = 2"

definition kIcw1 :: u8 where "kIcw1 = 0x11"

definition kMIcw2 :: u32 where "kMIcw2 = 0x20"

definition kSIcw2 :: u32 where "kSIcw2 = kMIcw2 + 8"

definition kMIcw3 :: u8 where "kMIcw3 = push_bit kIrqSlave 1"

definition kSIcw3 :: u8 where "kSIcw3 = of_nat kIrqSlave"

definition kIcw4 :: u8 where "kIcw4 = 0x1"

definition kPicEoi :: u8 where "kPicEoi = 0x20"

definition PicInit :: "'a kbase_scheme \<Rightarrow> 'a kbase_scheme" where
  "PicInit s =
     (let s = koutb kMPicCmd kIcw1 s;
          s = koutb kMPicData (ucast kMIcw2) s;
          s = koutb kMPicData kMIcw3 s;
          s = koutb kMPicData kIcw4 s;
          s = koutb kSPicCmd kIcw1 s;
          s = koutb kSPicData (ucast kSIcw2) s;
          s = koutb kSPicData kSIcw3 s;
          s = koutb kSPicData kIcw4 s;
          s = koutb kMPicCmd 0x20 s;
          s = koutb kSPicCmd 0x20 s;
          s = koutb kMPicCmd 0x48 s;
          s = koutb kMPicCmd 0x0a s;
          s = koutb kSPicCmd 0x48 s;
          s = koutb kSPicCmd 0x0a s;
          s = koutb kMPicData 0xfb s
      in koutb kSPicData 0xff s)"

definition SendEoi :: "u32 \<Rightarrow> 'a kbase_scheme \<Rightarrow> 'a kbase_scheme" where
  "SendEoi vec s =
     (let s = (if kSIcw2 \<le>s vec then koutb kSPicCmd kPicEoi s else s) in
      koutb kMPicCmd kPicEoi s)"

definition EnableIrq :: "u32 \<Rightarrow> 'a kbase_scheme \<Rightarrow> 'a kbase_scheme kres" where
  "EnableIrq vec s =
     (if vec <s kSIcw2 then
        let (imr, s) = kinb kMPicData s in
        kbind (shl1 (unat (vec - kMIcw2))) (\<lambda>b. Ok (koutb kMPicData (imr AND ucast (NOT b)) s))
      else
        let (imr, s) = kinb kSPicData s in
        kbind (shl1 (unat (vec - kSIcw2))) (\<lambda>b. Ok (koutb kSPicData (imr AND ucast (NOT b)) s)))"

definition DisableIrq :: "u32 \<Rightarrow> 'a kbase_scheme \<Rightarrow> 'a kbase_scheme kres" where
  "DisableIrq vec s =
     (if vec <s kSIcw2 then
        let (imr, s) = kinb kMPicData s in
        kbind (shl1 (unat (vec - kMIcw2))) (\<lambda>b. Ok (koutb kMPicData (imr OR ucast b) s))
      else
        let (imr, s) = kinb kSPicData s in
        kbind (shl1 (unat (vec - kSIcw2))) (\<lambda>b. Ok (koutb kSPicData (imr OR ucast b) s)))"

definition EnableAllIrqs :: "'a kbase_scheme \<Rightarrow> 'a kbase_scheme" where
  "EnableAllIrqs s = (let s = koutb kMPicData 0x0 s in koutb kSPicData 0x0 s)"

section \<open>interrupt.c\<close>

definition kPfVec :: u32 where "kPfVec = 14"

definition kTimerVec :: u32 where "kTimerVec = 0x20"

definition kKeyboardVec :: u32 where "kKeyboardVec = 33"

definition kIdeVec :: u32 where "kIdeVec = 46"

definition kSyscallVec :: u32 where "kSyscallVec = 0x80"

definition set_handler :: "u32 \<Rightarrow> handler option \<Rightarrow> 'a ints_scheme \<Rightarrow> 'a ints_scheme kres" where
  "set_handler vec h s =
     (if unat vec < length (intr_handler s)
      then Ok (s\<lparr>intr_handler := (intr_handler s)[unat vec := h]\<rparr>) else Fault OutOfBounds)"

definition RegIntrHandler :: "u32 \<Rightarrow> handler \<Rightarrow> 'a ints_scheme \<Rightarrow> (bool \<times> 'a ints_scheme) kres" where
  "RegIntrHandler vec h s =
     kbind (IsBitmapSet (IntrVecMap s) vec) (\<lambda>b.
     if b then Ok (False, s)
     else
       kbind (SetBitmap (IntrVecMap s) vec) (\<lambda>bm.
       kbind (set_handler vec (Some h) (s\<lparr>IntrVecMap := bm\<rparr>)) (\<lambda>s.
       kbind (EnableIdt (unat vec) s) (\<lambda>s.
       Ok (True, s)))))"

definition RemoveIntrHandler :: "u32 \<Rightarrow> 'a ints_scheme \<Rightarrow> 'a ints_scheme kres" where
  "RemoveIntrHandler vec s =
     kbind (DisableIdt (unat vec) s) (\<lambda>s.
     kbind (set_handler vec None s) (\<lambda>s.
     kbind (ClearBitmap (IntrVecMap s) vec) (\<lambda>bm.
     Ok (s\<lparr>IntrVecMap := bm\<rparr>))))"

definition IntrInit :: "'a ints_scheme \<Rightarrow> 'a ints_scheme kres" where
  "IntrInit s =
     kbind (IdtInit s) (\<lambda>s.
     let s = PicInit s in
     kbind (Bitmap (IntrVecMap s) 8 0) (\<lambda>bm.
     kbind (for_up kIdtExcNum 0
              (\<lambda>i s. kbind (RegIntrHandler (of_nat i) H_Exc s) (\<lambda>(r, s). Ok s)) (s\<lparr>IntrVecMap := bm\<rparr>)) (\<lambda>s.
     kbind (RemoveIntrHandler kPfVec s) (\<lambda>s.
     kbind (RegIntrHandler kPfVec H_Pf s) (\<lambda>(r, s).
     Ok s)))))"

text \<open>
  The default handler prints the vector number through a buffer at \<^verbatim>\<open>0x100000\<close>, in the image of the kernel.  The bytes of the image are no part of the
  state, so the digits go directly to the output.
\<close>

definition ExcHandler :: "IntrReg \<Rightarrow> 'a ints_scheme \<Rightarrow> 'a ints_scheme kres" where
  "ExcHandler r s =
     kbind (kprintf ''handling interrupt '' [] s) (\<lambda>s.
     kbind (itoa CHR ''d'' (intr_vec_no r)) (\<lambda>buf.
     kbind (kprintf buf [] s) (\<lambda>s.
     kbind (kprintf [CHR 0x0A] [] s) (\<lambda>s.
     Ok (SendEoi (intr_vec_no r) s)))))"

section \<open>The descriptor table\<close>

definition gate_offset :: "IntrGateDescriptor \<Rightarrow> u32" where
  "gate_offset g = push_bit 16 (ucast (offset_16_31 g)) OR ucast (offset_0_15 g)"

definition gate_present :: "IntrGateDescriptor \<Rightarrow> bool" where
  "gate_present g \<longleftrightarrow> bit (gate_type g) 15"

definition gate_dpl :: "IntrGateDescriptor \<Rightarrow> nat" where
  "gate_dpl g = unat (drop_bit 13 (gate_type g) AND 3)"

definition tables256 :: "'a ints_scheme \<Rightarrow> bool" where
  "tables256 s \<longleftrightarrow> length (idt s) = 256 \<and> length (intr_vec s) = 256 \<and>
     length (intr_handler s) = 256 \<and> length (IntrVecMap s) = 8"

lemma offset_fields: "push_bit 16 (ucast (ucast (drop_bit 16 a) :: u16)) OR ucast (ucast a :: u16) = (a :: u32)"
proof (rule bit_word_eqI)
  fix n assume "n < LENGTH(32)"
  then have n: "n < 32" by simp
  show "bit (push_bit 16 (ucast (ucast (drop_bit 16 a) :: u16)) OR ucast (ucast a :: u16) :: u32) n = bit a n"
  proof (cases "n < 16")
    case True
    then show ?thesis by (simp add: bit_simps)
  next
    case False
    then have "n - 16 < 16" "16 + (n - 16) = n" using n by auto
    with False n show ?thesis by (auto simp: bit_simps)
  qed
qed

definition mkgate :: "u32 \<Rightarrow> u16 \<Rightarrow> u16 \<Rightarrow> IntrGateDescriptor" where
  "mkgate a sel type = \<lparr>offset_0_15 = ucast a, seg_sel = sel, gate_type = type, offset_16_31 = ucast (drop_bit 16 a)\<rparr>"

lemma gate_offset_mkgate [simp]: "gate_offset (mkgate a sel type) = a"
  by (simp add: gate_offset_def mkgate_def offset_fields)

lemma SetIdtEntry_run:
  assumes "length (idt s) = 256" "length (intr_vec s) = 256" "i + n \<le> 256"
  shows "\<exists>g. for_up n i (\<lambda>i s. SetIdtEntry i sel type s) s = Ok (s\<lparr>idt := g\<rparr>) \<and> length g = 256 \<and>
    (\<forall>j<256. g ! j = (if i \<le> j \<and> j < i + n then mkgate (intr_vec s ! j) sel type else idt s ! j))"
proof -
  let ?f = "\<lambda>i s. SetIdtEntry i sel type s"
  let ?P = "\<lambda>k s'. \<exists>g. s' = s\<lparr>idt := g\<rparr> \<and> length g = 256 \<and>
    (\<forall>j<256. g ! j = (if i \<le> j \<and> j < k then mkgate (intr_vec s ! j) sel type else idt s ! j))"
  have "\<exists>s'. for_up n i ?f s = Ok s' \<and> ?P (i + n) s'"
  proof (rule for_up_rule [where P = ?P])
    show "?P i s" using assms by (intro exI [of _ "idt s"]) auto
  next
    fix k s1 assume k: "i \<le> k" "k < i + n" and "?P k s1"
    then obtain g where g: "s1 = s\<lparr>idt := g\<rparr>" "length g = 256"
        "\<forall>j<256. g ! j = (if i \<le> j \<and> j < k then mkgate (intr_vec s ! j) sel type else idt s ! j)" by blast
    have "?f k s1 = Ok (s\<lparr>idt := g[k := mkgate (intr_vec s ! k) sel type]\<rparr>)"
      using g(1,2) assms k by (simp add: SetIdtEntry_def mkgate_def)
    moreover have "\<forall>j<256. g[k := mkgate (intr_vec s ! k) sel type] ! j =
        (if i \<le> j \<and> j < Suc k then mkgate (intr_vec s ! j) sel type else idt s ! j)"
      using g(2,3) k by (auto simp: nth_list_update less_Suc_eq)
    ultimately show "\<exists>s'. ?f k s1 = Ok s' \<and> ?P (Suc k) s'"
      using g(2) by (intro exI [of _ "s\<lparr>idt := g[k := mkgate (intr_vec s ! k) sel type]\<rparr>"] conjI
          exI [of _ "g[k := mkgate (intr_vec s ! k) sel type]"]) auto
  qed
  then show ?thesis by blast
qed

lemma IdtInit_ok:
  assumes "length (idt s) = 256" "length (intr_vec s) = 256"
  shows "\<exists>m g. IdtInit s = Ok (s\<lparr>mach := m, tss_ss0 := kKCodeSeg, idt := g\<rparr>) \<and>
    idtr_reg m = (0x7ff, kIdtBaseAddr) \<and> tr_reg m = kTssSel \<and> trace m = trace (mach s) \<and> dev m = dev (mach s) \<and>
    creg m = creg (mach s) \<and> length g = 256 \<and>
    (\<forall>j<256. g ! j = (if j = 0x80 then mkgate (intr_vec s ! j) 0x1b 0x6f00 else mkgate (intr_vec s ! j) 0x8 0x0e00))"
proof -
  let ?s = "s\<lparr>mach := (mach s)\<lparr>idtr_reg := (ucast IdtLimit, kIdtBaseAddr)\<rparr>, tss_ss0 := kKCodeSeg\<rparr>"
  obtain g1 where g1: "for_up 32 0 (\<lambda>i s. SetIdtEntry i (ucast kKCodeSeg) kIdtExcType s) ?s = Ok (?s\<lparr>idt := g1\<rparr>)"
      "length g1 = 256" "\<forall>j<256. g1 ! j = (if 0 \<le> j \<and> j < 0 + 32
         then mkgate (intr_vec s ! j) (ucast kKCodeSeg) kIdtExcType else idt s ! j)"
    using SetIdtEntry_run [of ?s 0 32 "ucast kKCodeSeg" kIdtExcType] assms by auto
  obtain g2 where g2: "for_up 224 32 (\<lambda>i s. SetIdtEntry i (ucast kKCodeSeg) kIdtIntrType s) (?s\<lparr>idt := g1\<rparr>) = Ok (?s\<lparr>idt := g2\<rparr>)"
      "length g2 = 256" "\<forall>j<256. g2 ! j = (if 32 \<le> j \<and> j < 32 + 224
         then mkgate (intr_vec s ! j) (ucast kKCodeSeg) kIdtIntrType else g1 ! j)"
    using SetIdtEntry_run [of "?s\<lparr>idt := g1\<rparr>" 32 224 "ucast kKCodeSeg" kIdtIntrType] assms g1(2) by auto
  let ?g = "g2[0x80 := mkgate (intr_vec s ! 0x80) (ucast kUCodeSeg) kIdtTrapType]"
  let ?m = "(mach s)\<lparr>idtr_reg := (ucast IdtLimit, kIdtBaseAddr), tr_reg := kTssSel\<rparr>"
  have "IdtInit s = Ok (s\<lparr>mach := ?m, tss_ss0 := kKCodeSeg, idt := ?g\<rparr>)"
    using g1(1) g2(1,2) assms
    by (simp add: IdtInit_def Let_def kIdtExcNum_def kIdtEntryNum_def kIdtSyscallNum_def SetIdtEntry_def mkgate_def)
  moreover have "\<forall>j<256. ?g ! j = (if j = 0x80 then mkgate (intr_vec s ! j) 0x1b 0x6f00 else mkgate (intr_vec s ! j) 0x8 0x0e00)"
    using g1(3) g2(2,3)
    by (auto simp: nth_list_update kKCodeSeg_def kUCodeSeg_def kIdtExcType_def kIdtIntrType_def kIdtTrapType_def)
  moreover have "idtr_reg ?m = (0x7ff, kIdtBaseAddr)"
    by (simp add: IdtLimit_def kIdtEntryNum_def)
  ultimately show ?thesis using g2(2) by (intro exI [of _ ?m] exI [of _ ?g]) simp
qed

end
