(* ===== verification/IntrProps.thy ===== *)
theory IntrProps
  imports Interrupts
begin

text \<open>
  Properties of the interrupt subsystem: what registering and removing a handler does, which
  handlers are installed after \<^verbatim>\<open>IntrInit\<close>, and which interrupt lines the controllers let through.
\<close>

section \<open>The registry\<close>

text \<open>A gate is present exactly for the vectors that have a handler.\<close>

definition gates_match :: "'a ints_scheme \<Rightarrow> bool" where
  "gates_match s \<longleftrightarrow> tables256 s \<and> (\<forall>v<256. gate_present (idt s ! v) \<longleftrightarrow> intr_handler s ! v \<noteq> None)"

definition vec_used :: "'a ints_scheme \<Rightarrow> u32 \<Rightarrow> bool" where
  "vec_used s v \<longleftrightarrow> bm_get (IntrVecMap s) v"

lemma vec_valid: "tables256 s \<Longrightarrow> unat v < 256 \<Longrightarrow> bm_valid (IntrVecMap s) v"
  by (simp add: tables256_def bm_valid_def less_mult_imp_div_less)

lemma gate_type_or: "bit ((t :: u16) OR 0x8000) 15"
  by (simp add: bit_simps)

lemma gate_type_and: "\<not> bit ((t :: u16) AND 0x7fff) 15"
  by (simp add: bit_simps)

lemma EnableIdt_ok:
  "v < length (idt s) \<Longrightarrow> \<exists>g. EnableIdt v s = Ok (s\<lparr>idt := (idt s)[v := g]\<rparr>) \<and> gate_present g \<and>
     gate_offset g = gate_offset (idt s ! v) \<and> seg_sel g = seg_sel (idt s ! v)"
  by (auto simp: EnableIdt_def gate_present_def gate_offset_def gate_type_or)

lemma DisableIdt_ok:
  "v < length (idt s) \<Longrightarrow> \<exists>g. DisableIdt v s = Ok (s\<lparr>idt := (idt s)[v := g]\<rparr>) \<and> \<not> gate_present g \<and>
     gate_offset g = gate_offset (idt s ! v) \<and> seg_sel g = seg_sel (idt s ! v)"
  by (auto simp: DisableIdt_def gate_present_def gate_offset_def gate_type_and)

lemma RegIntrHandler_used: "tables256 s \<Longrightarrow> unat v < 256 \<Longrightarrow> vec_used s v \<Longrightarrow> RegIntrHandler v h s = Ok (False, s)"
  using bmi.test_Ok [OF vec_valid [of s v]] by (simp add: RegIntrHandler_def vec_used_def)

lemma RegIntrHandler_free:
  assumes t: "tables256 s" and v: "unat v < 256" and free: "\<not> vec_used s v"
  shows "\<exists>g bm. RegIntrHandler v h s = Ok (True, s\<lparr>idt := (idt s)[unat v := g], IntrVecMap := bm,
            intr_handler := (intr_handler s)[unat v := Some h]\<rparr>) \<and>
    gate_present g \<and> gate_offset g = gate_offset (idt s ! unat v) \<and> length bm = 8 \<and>
    (\<forall>u. bm_get bm u \<longleftrightarrow> bm_slot u = bm_slot v \<or> vec_used s u)"
proof -
  obtain bm where bm: "SetBitmap (IntrVecMap s) v = Ok bm" "\<forall>u. bm_get bm u \<longleftrightarrow> bm_slot u = bm_slot v \<or> vec_used s u"
    using bmi.set_Ok [OF vec_valid [OF t v]] by (auto simp: vec_used_def)
  let ?s = "s\<lparr>IntrVecMap := bm, intr_handler := (intr_handler s)[unat v := Some h]\<rparr>"
  obtain g where g: "EnableIdt (unat v) ?s = Ok (?s\<lparr>idt := (idt ?s)[unat v := g]\<rparr>)" "gate_present g"
      "gate_offset g = gate_offset (idt s ! unat v)"
    using EnableIdt_ok [of "unat v" ?s] t v by (auto simp: tables256_def)
  have "length bm = 8" using bm_length_set [OF bm(1)] t by (simp add: tables256_def)
  moreover have "RegIntrHandler v h s = Ok (True, s\<lparr>idt := (idt s)[unat v := g], IntrVecMap := bm,
      intr_handler := (intr_handler s)[unat v := Some h]\<rparr>)"
    using bm(1) g(1) t v free bmi.test_Ok [OF vec_valid [OF t v]]
    by (simp add: RegIntrHandler_def vec_used_def set_handler_def tables256_def)
  ultimately show ?thesis using bm(2) g(2,3) by blast
qed

lemma RemoveIntrHandler_ok:
  assumes t: "tables256 s" and v: "unat v < 256"
  shows "\<exists>g bm. RemoveIntrHandler v s = Ok (s\<lparr>idt := (idt s)[unat v := g], IntrVecMap := bm,
            intr_handler := (intr_handler s)[unat v := None]\<rparr>) \<and>
    \<not> gate_present g \<and> gate_offset g = gate_offset (idt s ! unat v) \<and> length bm = 8 \<and>
    (\<forall>u. bm_get bm u \<longleftrightarrow> bm_slot u \<noteq> bm_slot v \<and> vec_used s u)"
proof -
  obtain bm where bm: "ClearBitmap (IntrVecMap s) v = Ok bm" "\<forall>u. bm_get bm u \<longleftrightarrow> bm_slot u \<noteq> bm_slot v \<and> vec_used s u"
    using bmi.clear_Ok [OF vec_valid [OF t v]] by (auto simp: vec_used_def)
  obtain g where g: "DisableIdt (unat v) s = Ok (s\<lparr>idt := (idt s)[unat v := g]\<rparr>)" "\<not> gate_present g"
      "gate_offset g = gate_offset (idt s ! unat v)"
    using DisableIdt_ok [of "unat v" s] t v by (auto simp: tables256_def)
  have "length bm = 8" using bm_length_clear [OF bm(1)] t by (simp add: tables256_def)
  moreover have "RemoveIntrHandler v s = Ok (s\<lparr>idt := (idt s)[unat v := g], IntrVecMap := bm,
      intr_handler := (intr_handler s)[unat v := None]\<rparr>)"
    using bm(1) g(1) t v by (simp add: RemoveIntrHandler_def set_handler_def tables256_def)
  ultimately show ?thesis using bm(2) g(2,3) by blast
qed

lemma gates_match_reg:
  assumes "gates_match s" "unat v < 256"
  shows "\<exists>r s'. RegIntrHandler v h s = Ok (r, s') \<and> gates_match s' \<and> (r \<longleftrightarrow> \<not> vec_used s v) \<and>
    intr_handler s' = (if r then (intr_handler s)[unat v := Some h] else intr_handler s)"
proof (cases "vec_used s v")
  case True
  then show ?thesis
    using RegIntrHandler_used [of s v h] assms by (auto simp: gates_match_def)
next
  case False
  have t: "tables256 s" using assms by (simp add: gates_match_def)
  from RegIntrHandler_free [OF t assms(2) False, of h] obtain g bm where
    r: "RegIntrHandler v h s = Ok (True, s\<lparr>idt := (idt s)[unat v := g], IntrVecMap := bm,
            intr_handler := (intr_handler s)[unat v := Some h]\<rparr>)" "gate_present g" "length bm = 8" by blast
  have "gates_match (s\<lparr>idt := (idt s)[unat v := g], IntrVecMap := bm,
            intr_handler := (intr_handler s)[unat v := Some h]\<rparr>)"
    using assms r(2,3) by (auto simp: gates_match_def tables256_def nth_list_update)
  then show ?thesis using r(1) False by auto
qed

lemma gates_match_remove:
  assumes "gates_match s" "unat v < 256"
  shows "\<exists>s'. RemoveIntrHandler v s = Ok s' \<and> gates_match s' \<and>
    intr_handler s' = (intr_handler s)[unat v := None] \<and> \<not> vec_used s' v"
proof -
  have t: "tables256 s" using assms by (simp add: gates_match_def)
  from RemoveIntrHandler_ok [OF t assms(2)] obtain g bm where
    r: "RemoveIntrHandler v s = Ok (s\<lparr>idt := (idt s)[unat v := g], IntrVecMap := bm,
            intr_handler := (intr_handler s)[unat v := None]\<rparr>)" "\<not> gate_present g" "length bm = 8"
      "\<forall>u. bm_get bm u \<longleftrightarrow> bm_slot u \<noteq> bm_slot v \<and> vec_used s u" by blast
  have "gates_match (s\<lparr>idt := (idt s)[unat v := g], IntrVecMap := bm,
            intr_handler := (intr_handler s)[unat v := None]\<rparr>)"
    using assms r(2,3) by (auto simp: gates_match_def tables256_def nth_list_update)
  then show ?thesis using r(1,4) by (auto simp: vec_used_def)
qed

section \<open>Initialisation\<close>

lemma bm_get_zero: "unat v div 32 < n \<Longrightarrow> \<not> bm_get (replicate n 0) v"
  by (simp add: bm_get_def)

definition exc_inv :: "u32 list \<Rightarrow> nat \<Rightarrow> 'a ints_scheme \<Rightarrow> bool" where
  "exc_inv offs i s \<longleftrightarrow> gates_match s \<and>
     (\<forall>v<256. intr_handler s ! v = (if v < i \<and> v < 4 then Some H_Exc else None)) \<and>
     (\<forall>v. unat v < 256 \<longrightarrow> (vec_used s v \<longleftrightarrow> unat v < 32 \<and> unat v mod 4 < i)) \<and>
     (\<forall>v<256. gate_offset (idt s ! v) = offs ! v)"

lemma exc_step:
  assumes inv: "exc_inv offs i s" and i: "i < 32"
  shows "\<exists>s'. kbind (RegIntrHandler (of_nat i) H_Exc s) (\<lambda>(r, s). Ok s) = Ok s' \<and> exc_inv offs (Suc i) s'"
proof -
  have u: "unat (of_nat i :: u32) = i" using i by (simp add: unat_of_nat_u32)
  have m: "gates_match s" and t: "tables256 s" using inv by (auto simp: exc_inv_def gates_match_def)
  have used: "vec_used s (of_nat i) \<longleftrightarrow> i mod 4 < i"
    using inv u i by (auto simp: exc_inv_def)
  show ?thesis
  proof (cases "4 \<le> i")
    case True
    have "i mod 4 < 4" by simp
    then have "i mod 4 < i" using True by linarith
    then have "RegIntrHandler (of_nat i) H_Exc s = Ok (False, s)"
      using RegIntrHandler_used [OF t] used u i by simp
    moreover have "unat v mod 4 < i \<longleftrightarrow> unat v mod 4 < Suc i" for v :: u32
    proof -
      have "unat v mod 4 < 4" by simp
      then show ?thesis using True by linarith
    qed
    then have "exc_inv offs (Suc i) s" using inv True by (auto simp: exc_inv_def)
    ultimately show ?thesis by simp
  next
    case False
    then have free: "\<not> vec_used s (of_nat i)" using used by simp
    from RegIntrHandler_free [OF t _ free, of H_Exc] obtain g bm where
      r: "RegIntrHandler (of_nat i) H_Exc s = Ok (True, s\<lparr>idt := (idt s)[i := g], IntrVecMap := bm,
              intr_handler := (intr_handler s)[i := Some H_Exc]\<rparr>)" "gate_present g"
        "gate_offset g = gate_offset (idt s ! i)" "length bm = 8"
        "\<forall>u. bm_get bm u \<longleftrightarrow> bm_slot u = bm_slot (of_nat i) \<or> vec_used s u"
      using u i by auto
    let ?s = "s\<lparr>idt := (idt s)[i := g], IntrVecMap := bm, intr_handler := (intr_handler s)[i := Some H_Exc]\<rparr>"
    have len: "length (intr_handler s) = 256" "length (idt s) = 256" using t by (auto simp: tables256_def)
    have "gates_match ?s"
      using m r(2,4) i by (auto simp: gates_match_def tables256_def nth_list_update)
    moreover have "\<forall>v<256. intr_handler ?s ! v = (if v < Suc i \<and> v < 4 then Some H_Exc else None)"
      using inv len False by (auto simp: exc_inv_def nth_list_update less_Suc_eq)
    moreover have "vec_used ?s v \<longleftrightarrow> unat v < 32 \<and> unat v mod 4 < Suc i" if "unat v < 256" for v
    proof -
      have "bm_slot v = bm_slot (of_nat i) \<longleftrightarrow> unat v < 32 \<and> unat v mod 4 = i"
        using u False i by (auto simp: bm_slot_def div_eq_0_iff)
      then show ?thesis using r(5) inv that by (auto simp: vec_used_def exc_inv_def less_Suc_eq)
    qed
    moreover have "\<forall>v<256. gate_offset (idt ?s ! v) = offs ! v"
      using inv r(3) len i by (auto simp: exc_inv_def nth_list_update)
    ultimately have "exc_inv offs (Suc i) ?s" by (simp add: exc_inv_def)
    then show ?thesis using r(1) by simp
  qed
qed

lemma PicInit_fields:
  "\<exists>m. PicInit s = s\<lparr>mach := m\<rparr>"
proof -
  have "PicInit s = s\<lparr>mach := mach (PicInit s)\<rparr>"
    by (simp add: PicInit_def koutb_def Let_def)
  then show ?thesis by blast
qed

lemma IntrInit_ok:
  assumes t: "tables256 s" and none: "\<forall>v<256. intr_handler s ! v = None"
  shows "\<exists>s'. IntrInit s = Ok s' \<and> gates_match s' \<and>
    (\<forall>v<256. intr_handler s' ! v = (if v < 4 then Some H_Exc else if v = 14 then Some H_Pf else None) \<and>
             gate_offset (idt s' ! v) = intr_vec s ! v) \<and>
    (\<forall>v. 32 \<le> unat v \<and> unat v < 256 \<longrightarrow> \<not> vec_used s' v)"
proof -
  obtain m g where i: "IdtInit s = Ok (s\<lparr>mach := m, tss_ss0 := kKCodeSeg, idt := g\<rparr>)" "length g = 256"
     "\<forall>j<256. g ! j = (if j = 0x80 then mkgate (intr_vec s ! j) 0x1b 0x6f00 else mkgate (intr_vec s ! j) 0x8 0x0e00)"
    using IdtInit_ok [of s] t by (auto simp: tables256_def)
  let ?s1 = "s\<lparr>mach := m, tss_ss0 := kKCodeSeg, idt := g\<rparr>"
  obtain m' where m': "PicInit ?s1 = ?s1\<lparr>mach := m'\<rparr>" using PicInit_fields by blast
  have b: "Bitmap (IntrVecMap (PicInit ?s1)) 8 0 = Ok (replicate 8 0)"
    using Bitmap_zero [of 8 "IntrVecMap s"] t m' by (simp add: tables256_def)
  let ?s2 = "(PicInit ?s1)\<lparr>IntrVecMap := replicate 8 0\<rparr>"
  have "tables256 ?s2" using t i(2) m' by (simp add: tables256_def)
  moreover have "\<not> gate_present (g ! v)" "gate_offset (g ! v) = intr_vec s ! v" if "v < 256" for v
    using i(3) that by (auto simp: gate_present_def mkgate_def bit_simps gate_offset_def offset_fields)
  moreover have "\<not> vec_used ?s2 v" if "unat v < 256" for v
    unfolding vec_used_def using that m' by (simp add: bm_get_zero less_mult_imp_div_less)
  ultimately have "exc_inv (intr_vec s) 0 ?s2"
    using none m' by (auto simp: exc_inv_def gates_match_def)
  then have "\<exists>s3. for_up 32 0 (\<lambda>i s. kbind (RegIntrHandler (of_nat i) H_Exc s) (\<lambda>(r, s). Ok s)) ?s2 = Ok s3 \<and>
      exc_inv (intr_vec s) (0 + 32) s3"
    using exc_step by (intro for_up_rule) auto
  then obtain s3 where s3: "for_up 32 0 (\<lambda>i s. kbind (RegIntrHandler (of_nat i) H_Exc s) (\<lambda>(r, s). Ok s)) ?s2 = Ok s3"
      "exc_inv (intr_vec s) 32 s3" by auto
  have t3: "tables256 s3" and gm3: "gates_match s3" using s3(2) by (auto simp: exc_inv_def gates_match_def)
  from RemoveIntrHandler_ok [OF t3, of 14] obtain g4 bm4 where
    r4: "RemoveIntrHandler 14 s3 = Ok (s3\<lparr>idt := (idt s3)[14 := g4], IntrVecMap := bm4,
            intr_handler := (intr_handler s3)[14 := None]\<rparr>)" "\<not> gate_present g4"
      "gate_offset g4 = gate_offset (idt s3 ! 14)" "length bm4 = 8"
      "\<forall>u. bm_get bm4 u \<longleftrightarrow> bm_slot u \<noteq> bm_slot 14 \<and> vec_used s3 u" by auto
  let ?s4 = "s3\<lparr>idt := (idt s3)[14 := g4], IntrVecMap := bm4, intr_handler := (intr_handler s3)[14 := None]\<rparr>"
  have t4: "tables256 ?s4" and f4: "\<not> vec_used ?s4 14" using t3 r4(4,5) by (auto simp: tables256_def vec_used_def)
  from RegIntrHandler_free [OF t4 _ f4, of H_Pf] obtain g5 bm5 where
    r5: "RegIntrHandler 14 H_Pf ?s4 = Ok (True, ?s4\<lparr>idt := (idt ?s4)[14 := g5], IntrVecMap := bm5,
              intr_handler := (intr_handler ?s4)[14 := Some H_Pf]\<rparr>)" "gate_present g5"
        "gate_offset g5 = gate_offset (idt ?s4 ! 14)" "length bm5 = 8" "\<forall>u. bm_get bm5 u \<longleftrightarrow> bm_slot u = bm_slot 14 \<or> vec_used ?s4 u"
    by auto
  let ?s5 = "?s4\<lparr>idt := (idt ?s4)[14 := g5], IntrVecMap := bm5, intr_handler := (intr_handler ?s4)[14 := Some H_Pf]\<rparr>"
  have "IntrInit s = Ok ?s5"
    using i(1) b s3(1) r4(1) r5(1) by (simp add: IntrInit_def Let_def kIdtExcNum_def kPfVec_def)
  moreover have "gates_match ?s5"
    using gm3 r5(2,4) by (auto simp: gates_match_def tables256_def nth_list_update)
  moreover have "intr_handler ?s5 ! v = (if v < 4 then Some H_Exc else if v = 14 then Some H_Pf else None)" if "v < 256" for v
    using s3(2) t3 that by (auto simp: exc_inv_def tables256_def nth_list_update)
  moreover have "gate_offset (idt ?s5 ! v) = intr_vec s ! v" if "v < 256" for v
    using s3(2) t3 that r4(3) r5(3) by (auto simp: exc_inv_def tables256_def nth_list_update)
  moreover have "\<not> vec_used ?s5 v" if "32 \<le> unat v" "unat v < 256" for v
  proof -
    have "bm_slot v \<noteq> bm_slot 14" using that by (auto simp: bm_slot_def)
    moreover have "\<not> vec_used s3 v" using s3(2) that by (auto simp: exc_inv_def)
    ultimately show ?thesis using r4(5) r5(5) by (simp add: vec_used_def)
  qed
  ultimately show ?thesis by (intro exI [of _ ?s5]) simp
qed

section \<open>The interrupt controllers\<close>

text \<open>
  The mask register of a controller is read and written through its data port (Intel 8259A,
  after initialisation): a read returns the byte that was written last.
\<close>

fun last_out :: "u16 \<Rightarrow> io list \<Rightarrow> u8" where
  "last_out p (OutB q d # tr) = (if q = p then d else last_out p tr)"
| "last_out p (_ # tr) = last_out p tr"
| "last_out p [] = 0"

definition imr_dev :: "(io list \<Rightarrow> u16 \<Rightarrow> u8) \<Rightarrow> bool" where
  "imr_dev d \<longleftrightarrow> (\<forall>tr. d tr kMPicData = last_out kMPicData tr \<and> d tr kSPicData = last_out kSPicData tr)"

definition irq_masked :: "'a kbase_scheme \<Rightarrow> nat \<Rightarrow> bool" where
  "irq_masked s irq \<longleftrightarrow>
     bit (last_out (if irq < 8 then kMPicData else kSPicData) (trace (mach s))) (irq mod 8)"

lemma sless_small: "(v :: u32) < 0x80000000 \<Longrightarrow> k < 0x80000000 \<Longrightarrow> v <s k \<longleftrightarrow> v < k"
proof -
  assume *: "v < 0x80000000" "k < 0x80000000"
  then have "uint v < 2 ^ 31" "uint k < 2 ^ 31"
    by (simp_all add: word_less_def)
  moreover have "sint x = uint x" if "uint x < 2 ^ 31" for x :: u32
  proof -
    have "signed_take_bit 31 (uint x) = uint x"
      using that uint_nonnegative [of x] by (intro signed_take_bit_int_eq_self) linarith+
    then show ?thesis by (simp add: sint_uint)
  qed
  ultimately have "sint v = uint v" "sint k = uint k" by blast+
  then show ?thesis by (simp add: word_sless_alt word_less_def)
qed

lemma imr_clear: "n < 8 \<Longrightarrow> bit ((d :: u8) AND ucast (NOT (2 ^ n :: u32))) m \<longleftrightarrow> bit d m \<and> m \<noteq> n"
  by (auto simp: bit_simps dest: bit_imp_le_length)

lemma imr_set: "n < 8 \<Longrightarrow> bit ((d :: u8) OR ucast (2 ^ n :: u32)) m \<longleftrightarrow> bit d m \<or> m = n"
  by (auto simp: bit_simps)

lemma mod8_eq: "irq < 16 \<Longrightarrow> k < 16 \<Longrightarrow> (irq < 8 \<longleftrightarrow> k < 8) \<Longrightarrow> irq mod 8 = k mod (8 :: nat) \<longleftrightarrow> irq = k"
  by (cases "irq < 8") (auto simp: le_mod_geq not_less)

lemma pic_ports [simp]: "kMPicData \<noteq> kSPicData" "kSPicData \<noteq> kMPicData"
  by (simp_all add: kMPicData_def kSPicData_def)

lemma irq_line:
  assumes "0x20 \<le> v" "v < 0x30"
  shows "v <s kSIcw2 \<longleftrightarrow> unat v - 32 < 8"
    "v <s kSIcw2 \<Longrightarrow> unat (v - kMIcw2) = (unat v - 32) mod 8"
    "\<not> v <s kSIcw2 \<Longrightarrow> unat (v - kSIcw2) = (unat v - 32) mod 8"
    "unat v - 32 < 16"
proof -
  have b: "v < 0x80000000" using assms by (simp add: u32_less_iff_unat)
  have v: "32 \<le> unat v" "unat v < 48" using assms by (auto simp: u32_less_iff_unat u32_le_iff_unat)
  show i: "v <s kSIcw2 \<longleftrightarrow> unat v - 32 < 8"
    using sless_small [OF b, of "0x28"] v by (auto simp: kSIcw2_def kMIcw2_def u32_less_iff_unat)
  show "v <s kSIcw2 \<Longrightarrow> unat (v - kMIcw2) = (unat v - 32) mod 8"
    using i assms(1) by (simp add: kMIcw2_def unat_sub_u32)
  show "\<not> v <s kSIcw2 \<Longrightarrow> unat (v - kSIcw2) = (unat v - 32) mod 8"
    using i v by (simp add: kSIcw2_def kMIcw2_def unat_sub_u32 u32_le_iff_unat le_mod_geq)
  show "unat v - 32 < 16" using v by simp
qed

lemma EnableIrq_ok:
  assumes d: "imr_dev (dev (mach s))" and v: "0x20 \<le> v" "v < 0x30"
  shows "\<exists>m. EnableIrq v s = Ok (s\<lparr>mach := m\<rparr>) \<and> dev m = dev (mach s) \<and>
    (\<forall>irq<16. irq_masked (s\<lparr>mach := m\<rparr>) irq \<longleftrightarrow> irq \<noteq> unat v - 32 \<and> irq_masked s irq)"
proof -
  let ?k = "unat v - 32"
  let ?p = "if ?k < 8 then kMPicData else kSPicData"
  let ?imr = "last_out ?p (trace (mach s))"
  let ?m = "(mach s)\<lparr>trace := OutB ?p (?imr AND ucast (NOT (2 ^ (?k mod 8) :: u32))) # InB ?p ?imr # trace (mach s)\<rparr>"
  have "EnableIrq v s = Ok (s\<lparr>mach := ?m\<rparr>)"
    using d irq_line [OF v]
    by (simp add: EnableIrq_def kinb_def koutb_def inb_def outb_def Let_def imr_dev_def)
  moreover have "irq_masked (s\<lparr>mach := ?m\<rparr>) irq \<longleftrightarrow> irq \<noteq> ?k \<and> irq_masked s irq" if "irq < 16" for irq
  proof (cases "irq < 8 \<longleftrightarrow> ?k < 8")
    case True
    then show ?thesis
      using mod8_eq [OF that irq_line(4) [OF v]] by (auto simp: irq_masked_def imr_clear)
  next
    case False
    then show ?thesis by (auto simp: irq_masked_def)
  qed
  ultimately show ?thesis by (intro exI [of _ ?m]) simp
qed

lemma DisableIrq_ok:
  assumes d: "imr_dev (dev (mach s))" and v: "0x20 \<le> v" "v < 0x30"
  shows "\<exists>m. DisableIrq v s = Ok (s\<lparr>mach := m\<rparr>) \<and> dev m = dev (mach s) \<and>
    (\<forall>irq<16. irq_masked (s\<lparr>mach := m\<rparr>) irq \<longleftrightarrow> irq = unat v - 32 \<or> irq_masked s irq)"
proof -
  let ?k = "unat v - 32"
  let ?p = "if ?k < 8 then kMPicData else kSPicData"
  let ?imr = "last_out ?p (trace (mach s))"
  let ?m = "(mach s)\<lparr>trace := OutB ?p (?imr OR ucast (2 ^ (?k mod 8) :: u32)) # InB ?p ?imr # trace (mach s)\<rparr>"
  have "DisableIrq v s = Ok (s\<lparr>mach := ?m\<rparr>)"
    using d irq_line [OF v]
    by (simp add: DisableIrq_def kinb_def koutb_def inb_def outb_def Let_def imr_dev_def)
  moreover have "irq_masked (s\<lparr>mach := ?m\<rparr>) irq \<longleftrightarrow> irq = ?k \<or> irq_masked s irq" if "irq < 16" for irq
  proof (cases "irq < 8 \<longleftrightarrow> ?k < 8")
    case True
    then show ?thesis
      using mod8_eq [OF that irq_line(4) [OF v]] by (auto simp: irq_masked_def imr_set)
  next
    case False
    then show ?thesis by (auto simp: irq_masked_def)
  qed
  ultimately show ?thesis by (intro exI [of _ ?m]) simp
qed

lemma PicInit_masks: "irq < 16 \<Longrightarrow> irq_masked (PicInit s) irq \<longleftrightarrow> irq \<noteq> 2"
proof -
  assume "irq < 16"
  then have "irq \<in> set [0..<16]" by simp
  then show ?thesis
    by (simp add: upt_conv_Cons del: set_upt)
      (auto simp: irq_masked_def PicInit_def koutb_def outb_def Let_def kMPicData_def kSPicData_def
        kMPicCmd_def kSPicCmd_def)
qed

section \<open>What initialisation leaves alone\<close>

text \<open>Registering changes the registry and the descriptor table only.\<close>

definition iview :: "'a ints_scheme \<Rightarrow> dma \<times> con \<times> machine \<times> u32 list \<times> (u32 \<Rightarrow> Pde) \<times> (u32 \<Rightarrow> Pte) \<times> 'a" where
  "iview s = (dma.truncate s, console s, mach s, intr_vec s, pde_at s, pte_at s, ints.more s)"

lemma iview_upd [simp]:
  "iview (s\<lparr>idt := a\<rparr>) = iview s" "iview (s\<lparr>IntrVecMap := b\<rparr>) = iview s" "iview (s\<lparr>intr_handler := c\<rparr>) = iview s"
  by (simp_all add: iview_def dma.truncate_def)

lemma RegIntrHandler_iview: "RegIntrHandler v h s = Ok (r, s') \<Longrightarrow> iview s' = iview s"
  by (auto simp: RegIntrHandler_def set_handler_def EnableIdt_def kbind_eq_Ok split: if_splits)

lemma RemoveIntrHandler_iview: "RemoveIntrHandler v s = Ok s' \<Longrightarrow> iview s' = iview s"
  by (auto simp: RemoveIntrHandler_def set_handler_def DisableIdt_def kbind_eq_Ok split: if_splits)

lemma PicInit_sel: "PicInit s = s\<lparr>mach := mach (PicInit s)\<rparr>" "creg (mach (PicInit s)) = creg (mach s)" "dev (mach (PicInit s)) = dev (mach s)"
  by (simp_all add: PicInit_def koutb_def outb_def Let_def)

lemma IntrInit_frame:
  assumes "IntrInit s = Ok s'" "tables256 s"
  shows "dma.truncate s' = dma.truncate s \<and> console s' = console s \<and> intr_vec s' = intr_vec s \<and> ints.more s' = ints.more s \<and>
    creg (mach s') = creg (mach s) \<and> dev (mach s') = dev (mach s) \<and> (\<forall>irq<16. irq_masked s' irq \<longleftrightarrow> irq \<noteq> 2) \<and>
    pde_at s' = pde_at s \<and> pte_at s' = pte_at s"
proof -
  obtain m g where i: "IdtInit s = Ok (s\<lparr>mach := m, tss_ss0 := kKCodeSeg, idt := g\<rparr>)" "dev m = dev (mach s)" "creg m = creg (mach s)"
    using IdtInit_ok [of s] assms(2) by (auto simp: tables256_def)
  let ?s1 = "s\<lparr>mach := m, tss_ss0 := kKCodeSeg, idt := g\<rparr>"
  have step: "iview s2 = iview s1" if "kbind (RegIntrHandler (of_nat j) H_Exc s1) (\<lambda>(r, s). Ok s) = Ok s2" for j and s1 s2 :: "'a ints_scheme"
    using that by (auto simp: kbind_eq_Ok dest: RegIntrHandler_iview)
  obtain bm s2 s3 where r: "for_up kIdtExcNum 0 (\<lambda>i s. kbind (RegIntrHandler (of_nat i) H_Exc s) (\<lambda>(r, s). Ok s))
        ((PicInit ?s1)\<lparr>IntrVecMap := bm\<rparr>) = Ok s2" "RemoveIntrHandler kPfVec s2 = Ok s3" "\<exists>b. RegIntrHandler kPfVec H_Pf s3 = Ok (b, s')"
    using assms(1) i(1) by (auto simp: IntrInit_def Let_def kbind_eq_Ok)
  have "iview s' = iview (PicInit ?s1)"
    using for_up_keeps [OF r(1), of iview] step RemoveIntrHandler_iview [OF r(2)] r(3) RegIntrHandler_iview by fastforce
  then have e: "dma.truncate s' = dma.truncate (PicInit ?s1)" "console s' = console (PicInit ?s1)" "mach s' = mach (PicInit ?s1)"
      "intr_vec s' = intr_vec (PicInit ?s1)" "ints.more s' = ints.more (PicInit ?s1)" "pde_at s' = pde_at (PicInit ?s1)"
      "pte_at s' = pte_at (PicInit ?s1)"
    by (simp_all add: iview_def)
  have p: "dma.truncate (PicInit ?s1) = dma.truncate s" "console (PicInit ?s1) = console s" "intr_vec (PicInit ?s1) = intr_vec s"
      "ints.more (PicInit ?s1) = ints.more s" "pde_at (PicInit ?s1) = pde_at s" "pte_at (PicInit ?s1) = pte_at s"
    by (subst PicInit_sel(1), simp add: dma.truncate_def)+
  show ?thesis
    using e p i(2,3) PicInit_sel(2,3) [of ?s1] PicInit_masks [of _ ?s1] by (simp add: irq_masked_def)
qed

text \<open>Registering and removing a handler changes no segment selector of the descriptor table.\<close>

definition gate_sels :: "'a ints_scheme \<Rightarrow> u16 list" where
  "gate_sels s = map seg_sel (idt s)"

lemma gate_sels_nth: "v < length (idt s) \<Longrightarrow> gate_sels s ! v = seg_sel (idt s ! v)"
  by (simp add: gate_sels_def)

lemma gate_sels_more [simp]: "gate_sels (s\<lparr>mach := m\<rparr>) = gate_sels s" "gate_sels (s\<lparr>console := c\<rparr>) = gate_sels s"
  by (simp_all add: gate_sels_def)

lemma list_update_same_nth: "f y = f (xs ! i) \<Longrightarrow> map f (xs[i := y]) = map f xs"
  by (simp add: map_update) (metis list_update_id map_update)

lemma gate_sels_registry:
  "RegIntrHandler v h s = Ok (b, s') \<Longrightarrow> gate_sels s' = gate_sels s"
  "RemoveIntrHandler v s = Ok s' \<Longrightarrow> gate_sels s' = gate_sels s"
  by (auto simp: gate_sels_def RegIntrHandler_def RemoveIntrHandler_def set_handler_def EnableIdt_def DisableIdt_def kbind_eq_Ok
      intro!: list_update_same_nth split: if_splits)

lemma IntrInit_sels:
  assumes "IntrInit s = Ok s'" "tables256 s"
  shows "\<forall>v<256. gate_sels s' ! v = (if v = 128 then 0x1b else 0x8)"
proof -
  obtain m g where i: "IdtInit s = Ok (s\<lparr>mach := m, tss_ss0 := kKCodeSeg, idt := g\<rparr>)" "length g = 256"
     "\<forall>j<256. g ! j = (if j = 0x80 then mkgate (intr_vec s ! j) 0x1b 0x6f00 else mkgate (intr_vec s ! j) 0x8 0x0e00)"
    using IdtInit_ok [of s] assms(2) by (auto simp: tables256_def)
  let ?s1 = "s\<lparr>mach := m, tss_ss0 := kKCodeSeg, idt := g\<rparr>"
  obtain bm s2 s3 b where r: "for_up kIdtExcNum 0 (\<lambda>i s. kbind (RegIntrHandler (of_nat i) H_Exc s) (\<lambda>(r, s). Ok s))
        ((PicInit ?s1)\<lparr>IntrVecMap := bm\<rparr>) = Ok s2" "RemoveIntrHandler kPfVec s2 = Ok s3" "RegIntrHandler kPfVec H_Pf s3 = Ok (b, s')"
    using assms(1) i(1) by (auto simp: IntrInit_def Let_def kbind_eq_Ok)
  have "gate_sels s2 = gate_sels ((PicInit ?s1)\<lparr>IntrVecMap := bm\<rparr>)"
    by (rule for_up_keeps [OF r(1)]) (auto simp: kbind_eq_Ok dest: gate_sels_registry)
  moreover have "idt (PicInit ?s1) = g" by (subst PicInit_sel(1)) simp
  ultimately have "gate_sels s' = map seg_sel g"
    using gate_sels_registry(2) [OF r(2)] gate_sels_registry(1) [OF r(3)] by (simp add: gate_sels_def)
  then show ?thesis using i(2,3) by (simp add: mkgate_def)
qed

end
