(* ===== verification/Maps.thy ===== *)
theory Maps
  imports Queues
begin

text \<open>
  \<^verbatim>\<open>kernel/lib/map.h\<close>: maps from bytes to pointers as circular lists of \<^verbatim>\<open>MapEntry\<close>.

  The loops of \<^verbatim>\<open>MapGet\<close> and \<^verbatim>\<open>MapRemove\<close> never advance their cursor.  They are modelled as
  written, so a lookup whose key is not that of the first entry does not return: its value in
  the model is \<open>None\<close>.
\<close>

section \<open>Operations\<close>

text \<open>A \<^verbatim>\<open>MapEntry\<close> has its key at offset 0, its value at 4 and its list node at 8.\<close>

definition me_of_node :: "u32 \<Rightarrow> u32" where
  "me_of_node n = n - 8"

definition node_of_me :: "u32 \<Rightarrow> u32" where
  "node_of_me e = e + 8"

definition map_new :: "'a kheap_scheme \<Rightarrow> (u32 \<times> 'a kheap_scheme) kres" where
  "map_new s = List s"

definition MapAdd :: "u32 \<Rightarrow> u32 \<Rightarrow> 'a kheap_scheme \<Rightarrow> 'a kheap_scheme kres" where
  "MapAdd m entry s = ListAdd m (node_of_me entry) s"

definition MapGet :: "u32 \<Rightarrow> u8 \<Rightarrow> 'a kheap_scheme \<Rightarrow> (u32 \<times> 'a kheap_scheme) kres" where
  "MapGet m key s =
     kbind (kwhile
       (\<lambda>(ret, node, s). if ret \<noteq> None then Ok False
                         else kbind (get_next node s) (\<lambda>n. Ok (n \<noteq> m)))
       (\<lambda>(ret, node, s).
          kbind (get_next node s) (\<lambda>n.
          kbind (rd me_key (me_of_node n) s) (\<lambda>k.
          if k = key then
            kbind (ListRemove node s) (\<lambda>(del, s).
            kbind (rd me_value (me_of_node del) s) (\<lambda>v.
            Ok (Some v, node, s)))
          else Ok (None, node, s))))
       (None, m, s)) (\<lambda>(ret, node, s).
     Ok (case ret of Some v \<Rightarrow> v | None \<Rightarrow> NULL, s))"

definition MapRemove :: "u32 \<Rightarrow> u8 \<Rightarrow> 'a kheap_scheme \<Rightarrow> (u32 \<times> 'a kheap_scheme) kres" where
  "MapRemove m key s =
     kbind (kwhile
       (\<lambda>(ret, node, s). if ret \<noteq> None then Ok False
                         else kbind (get_next node s) (\<lambda>n. Ok (n \<noteq> m)))
       (\<lambda>(ret, node, s).
          kbind (get_next node s) (\<lambda>n.
          kbind (rd me_key (me_of_node n) s) (\<lambda>k.
          if k = key then
            kbind (ListRemove node s) (\<lambda>(del, s).
            Ok (Some (me_of_node del), node, s))
          else Ok (None, node, s))))
       (None, m, s)) (\<lambda>(ret, node, s).
     Ok (case ret of Some e \<Rightarrow> e | None \<Rightarrow> NULL, s))"

definition IsMapEmpty :: "u32 \<Rightarrow> 'a kheap_scheme \<Rightarrow> bool kres" where
  "IsMapEmpty m s = IsListEmpty m s"

section \<open>Lookups\<close>

lemma me_of_node_inverse [simp]: "me_of_node (node_of_me e) = e" "node_of_me (me_of_node n) = n"
  by (simp_all add: me_of_node_def node_of_me_def)

lemma MapGet_first:
  assumes "m \<noteq> 0" "nxt s m = n" "n \<noteq> m" "n \<noteq> 0" "me_of_node n \<noteq> 0" "me_key s (me_of_node n) = key"
  shows "MapGet m key s = Ok (me_value s (me_of_node n), s\<lparr>nxt := (nxt s)(m := nxt s n, n := 0)\<rparr>)"
  using assms by (simp add: MapGet_def kwhile.simps ListRemove_Ok)

lemma MapRemove_first:
  assumes "m \<noteq> 0" "nxt s m = n" "n \<noteq> m" "n \<noteq> 0" "me_of_node n \<noteq> 0" "me_key s (me_of_node n) = key"
  shows "MapRemove m key s = Ok (me_of_node n, s\<lparr>nxt := (nxt s)(m := nxt s n, n := 0)\<rparr>)"
  using assms by (simp add: MapRemove_def kwhile.simps ListRemove_Ok)

lemma MapGet_stuck:
  assumes "m \<noteq> 0" "nxt s m = n" "n \<noteq> m" "me_of_node n \<noteq> 0" "me_key s (me_of_node n) \<noteq> key"
  shows "MapGet m key s = None"
  unfolding MapGet_def
  using assms by (subst kwhile_diverges [where P = "\<lambda>st. st = (None, m, s)"]) auto

lemma MapRemove_stuck:
  assumes "m \<noteq> 0" "nxt s m = n" "n \<noteq> m" "me_of_node n \<noteq> 0" "me_key s (me_of_node n) \<noteq> key"
  shows "MapRemove m key s = None"
  unfolding MapRemove_def
  using assms by (subst kwhile_diverges [where P = "\<lambda>st. st = (None, m, s)"]) auto

lemma MapGet_Nil: "clist (nxt s) m [] \<Longrightarrow> MapGet m key s = Ok (NULL, s)"
  by (simp add: clist_Nil MapGet_def kwhile_stop)

lemma MapRemove_Nil: "clist (nxt s) m [] \<Longrightarrow> MapRemove m key s = Ok (NULL, s)"
  by (simp add: clist_Nil MapRemove_def kwhile_stop)

definition mapents :: "'a kheap_scheme \<Rightarrow> u32 \<Rightarrow> u32 list \<Rightarrow> bool" where
  "mapents s m es \<longleftrightarrow> clist (nxt s) m (map node_of_me es) \<and> 0 \<notin> set es"

text \<open>The complete behaviour of \<^verbatim>\<open>MapGet\<close> and \<^verbatim>\<open>MapRemove\<close> on a well-formed map.\<close>

lemma MapGet_cases:
  assumes "mapents s m es"
  shows "case es of
      [] \<Rightarrow> MapGet m key s = Ok (NULL, s)
    | e # es' \<Rightarrow> if me_key s e = key
        then \<exists>s'. MapGet m key s = Ok (me_value s e, s') \<and> mapents s' m es' else MapGet m key s = None"
proof (cases es)
  case Nil
  then show ?thesis using assms MapGet_Nil by (simp add: mapents_def)
next
  case (Cons e es')
  then have c: "clist (nxt s) m ([] @ node_of_me e # map node_of_me es')" and e: "e \<noteq> 0" "0 \<notin> set es'"
    using assms by (auto simp: mapents_def)
  then have n: "m \<noteq> 0" "nxt s m = node_of_me e" "node_of_me e \<noteq> m" "node_of_me e \<noteq> 0"
    by (auto simp: clist_def)
  show ?thesis
  proof (cases "me_key s e = key")
    case True
    then show ?thesis
      using MapGet_first [OF n, of key] clist_delete [OF c, of 0] e Cons by (simp add: mapents_def)
  next
    case False
    then show ?thesis
      using MapGet_stuck [OF n(1-3), of key] e Cons by simp
  qed
qed

lemma MapRemove_cases:
  assumes "mapents s m es"
  shows "case es of
      [] \<Rightarrow> MapRemove m key s = Ok (NULL, s)
    | e # es' \<Rightarrow> if me_key s e = key
        then \<exists>s'. MapRemove m key s = Ok (e, s') \<and> mapents s' m es' else MapRemove m key s = None"
proof (cases es)
  case Nil
  then show ?thesis using assms MapRemove_Nil by (simp add: mapents_def)
next
  case (Cons e es')
  then have c: "clist (nxt s) m ([] @ node_of_me e # map node_of_me es')" and e: "e \<noteq> 0" "0 \<notin> set es'"
    using assms by (auto simp: mapents_def)
  then have n: "m \<noteq> 0" "nxt s m = node_of_me e" "node_of_me e \<noteq> m" "node_of_me e \<noteq> 0"
    by (auto simp: clist_def)
  show ?thesis
  proof (cases "me_key s e = key")
    case True
    then show ?thesis
      using MapRemove_first [OF n, of key] clist_delete [OF c, of 0] e Cons by (simp add: mapents_def)
  next
    case False
    then show ?thesis
      using MapRemove_stuck [OF n(1-3), of key] e Cons by simp
  qed
qed

lemma MapAdd_ok:
  assumes "mapents s m es" "e \<noteq> 0" "node_of_me e \<noteq> 0" "node_of_me e \<noteq> m" "e \<notin> set es"
  shows "\<exists>h. MapAdd m e s = Ok (s\<lparr>nxt := h\<rparr>) \<and> mapents (s\<lparr>nxt := h\<rparr>) m (e # es)"
proof -
  have "node_of_me e \<notin> set (map node_of_me es)"
    using assms(5) by (auto simp: node_of_me_def)
  then show ?thesis
    using assms clist_insert [of "nxt s" m "[]" "map node_of_me es" "node_of_me e"]
    by (auto simp: MapAdd_def ListAdd_Ok mapents_def clist_def)
qed

end
