(* ===== verification/Threads.thy ===== *)
theory Threads
  imports IntrProps Maps
begin

text \<open>
  \<^verbatim>\<open>kernel/thread/thread.c\<close>, \<^verbatim>\<open>thread.h\<close> and \<^verbatim>\<open>switch_reg.S\<close>: threads and the scheduler.  The
  record \<open>ths\<close> also holds the static variables of the process manager, which is in the theory
  \<open>Process\<close>.

  The fields of a \<^verbatim>\<open>Pcb\<close> are words of the heap \<open>nxt\<close>, the store of the words that list nodes occupy.
  The process manager builds its pool from structures that overlap, and only a common store shows
  what they do to each other.

  A \<^verbatim>\<open>Thread\<close> (24 bytes) has its list nodes \<^verbatim>\<open>node\<close> and \<^verbatim>\<open>sibling\<close> at offsets 16 and 20; a \<^verbatim>\<open>Pcb\<close>
  (48 bytes) has its words \<^verbatim>\<open>pid\<close>, \<^verbatim>\<open>page_dir\<close>, \<^verbatim>\<open>state\<close>, \<^verbatim>\<open>code\<close>, \<^verbatim>\<open>data\<close> and \<^verbatim>\<open>father\<close> at 0, 4, 8, 12, 20 and 28, and \<^verbatim>\<open>left\<close>, \<^verbatim>\<open>right\<close>, \<^verbatim>\<open>node\<close> and \<^verbatim>\<open>thread_list\<close> at 32, 36, 40 and 44.  Of the register
  switch, the stack pointer and the interrupt flag are modelled; the callee-saved registers that
  it pushes and pops are not.
\<close>

datatype ProcState = WAIT | RUN | DIE

record ths = ints +
  th_tid :: "u32 \<Rightarrow> u32"
  th_stack_addr :: "u32 \<Rightarrow> u32"
  th_pcb :: "u32 \<Rightarrow> u32"
  th_esp :: "u32 \<Rightarrow> u32"
  free_thread_list :: u32
  wait_thread_queue :: u32
  block_thread_list :: u32
  k_pcb :: u32
  free_proc_list :: u32

section \<open>Layout\<close>

definition kThreadPoolInitNum :: nat where "kThreadPoolInitNum = 128"

definition kMainStackAddr :: u32 where "kMainStackAddr = 0xbc00"

definition kKStackSize :: u32 where "kKStackSize = 0x1000"

definition sizeof_Thread :: u32 where "sizeof_Thread = 24"

definition th_node :: "u32 \<Rightarrow> u32" where "th_node t = t + 16"

definition th_of_node :: "u32 \<Rightarrow> u32" where "th_of_node n = n - 16"

definition th_sibling :: "u32 \<Rightarrow> u32" where "th_sibling t = t + 20"

definition th_of_sibling :: "u32 \<Rightarrow> u32" where "th_of_sibling n = n - 20"

definition pcb_left :: "u32 \<Rightarrow> u32" where "pcb_left p = p + 32"

definition pcb_right :: "u32 \<Rightarrow> u32" where "pcb_right p = p + 36"

definition pcb_of_right :: "u32 \<Rightarrow> u32" where "pcb_of_right n = n - 36"

definition pcb_node :: "u32 \<Rightarrow> u32" where "pcb_node p = p + 40"

definition pcb_of_node :: "u32 \<Rightarrow> u32" where "pcb_of_node n = n - 40"

definition pcb_thread_list :: "u32 \<Rightarrow> u32" where "pcb_thread_list p = p + 44"

definition off_pid :: u32 where "off_pid = 0"

definition off_page_dir :: u32 where "off_page_dir = 4"

definition off_state :: u32 where "off_state = 8"

primrec state_word :: "ProcState \<Rightarrow> u32" where
  "state_word WAIT = 0"
| "state_word RUN = 1"
| "state_word DIE = 2"

definition rd_pcb :: "u32 \<Rightarrow> u32 \<Rightarrow> 'a lheap_scheme \<Rightarrow> u32 kres" where
  "rd_pcb off p s = (if p = NULL then Fault NullDeref else Ok (nxt s (p + off)))"

definition wr_pcb :: "u32 \<Rightarrow> u32 \<Rightarrow> u32 \<Rightarrow> 'a lheap_scheme \<Rightarrow> 'a lheap_scheme kres" where
  "wr_pcb off p v s =
     (if p = NULL then Fault NullDeref else Ok (s\<lparr>nxt := (nxt s)(p + off := v)\<rparr>))"

lemma rd_pcb_Ok [simp]: "p \<noteq> 0 \<Longrightarrow> rd_pcb off p s = Ok (nxt s (p + off))"
  by (simp add: rd_pcb_def)

lemma wr_pcb_Ok [simp]: "p \<noteq> 0 \<Longrightarrow> wr_pcb off p v s = Ok (s\<lparr>nxt := (nxt s)(p + off := v)\<rparr>)"
  by (simp add: wr_pcb_def)

text \<open>A word of memory through a pointer.\<close>

definition rdw :: "u32 \<Rightarrow> 'a kbase_scheme \<Rightarrow> u32 kres" where
  "rdw p s = kbind (lin p s) (\<lambda>a. Ok (wmem (mach s) a))"

definition wrw :: "u32 \<Rightarrow> u32 \<Rightarrow> 'a kbase_scheme \<Rightarrow> 'a kbase_scheme kres" where
  "wrw p v s =
     kbind (lin p s) (\<lambda>a. Ok (s\<lparr>mach := (mach s)\<lparr>wmem := (wmem (mach s))(a := v)\<rparr>\<rparr>))"

definition GetKPcb :: "'a ths_scheme \<Rightarrow> u32" where
  "GetKPcb s = k_pcb s"

definition GetCurThread :: "'a ths_scheme \<Rightarrow> u32 kres" where
  "GetCurThread s = rdw (tss_esp0 s) s"

section \<open>Operations\<close>

text \<open>One turn of the loop that fills the pool of threads.\<close>

definition ThreadPoolStep :: "nat \<Rightarrow> u32 \<times> 'a ths_scheme \<Rightarrow> (u32 \<times> 'a ths_scheme) kres" where
  "ThreadPoolStep i = (\<lambda>(current, s).
     kbind (wr th_tid th_tid_update (th_of_node current) (of_nat kThreadPoolInitNum - of_nat i) s) (\<lambda>s.
     kbind (ListAdd (free_thread_list s) current s) (\<lambda>s.
     Ok (current + sizeof_Thread, s))))"

definition ThreadInit :: "'a ths_scheme \<Rightarrow> 'a ths_scheme kres" where
  "ThreadInit s =
     kbind (ReqBytes (of_nat kThreadPoolInitNum * sizeof_Thread) s) (\<lambda>(thread, s).
     if thread = NULL then Ok (s\<lparr>free_thread_list := NULL\<rparr>)
     else
       kbind (List s) (\<lambda>(l, s).
       let s = s\<lparr>free_thread_list := l\<rparr> in
       kbind (for_up kThreadPoolInitNum 0 ThreadPoolStep (th_node thread, s)) (\<lambda>(current, s).
       kbind (queue s) (\<lambda>(q, s).
       let s = s\<lparr>wait_thread_queue := q\<rparr> in
       kbind (List s) (\<lambda>(b, s).
       let s = s\<lparr>block_thread_list := b\<rparr> in
       kbind (ReqBytes sizeof_Thread s) (\<lambda>(k_main, s).
       kbind (wr th_pcb th_pcb_update k_main (GetKPcb s) s) (\<lambda>s.
       kbind (wr th_stack_addr th_stack_addr_update k_main kMainStackAddr s) (\<lambda>s.
       kbind (wr th_esp th_esp_update k_main (kMainStackAddr - 4) s) (\<lambda>s.
       kbind (rd th_esp k_main s) (\<lambda>t.
       kbind (wrw t k_main s) (\<lambda>s.
       kbind (wr th_tid th_tid_update k_main 0 s) (\<lambda>s.
       kbind (set_next (th_node k_main) NULL s) (\<lambda>s.
       kbind (rd th_esp k_main s) (\<lambda>esp.
       Ok (s\<lparr>tss_esp0 := esp\<rparr>)))))))))))))))"

definition CreateThread :: "u32 \<Rightarrow> 'a ths_scheme \<Rightarrow> (u32 \<times> 'a ths_scheme) kres" where
  "CreateThread pcb s =
     kbind (IsListEmpty (free_thread_list s) s) (\<lambda>e.
     if \<not> e then
       kbind (ListRemove (free_thread_list s) s) (\<lambda>(node, s).
       let new_thread = th_of_node node in
       kbind (ReqBytes kKStackSize s) (\<lambda>(stack, s).
       kbind (wr th_stack_addr th_stack_addr_update new_thread (kKStackSize + stack - 1) s) (\<lambda>s.
       kbind (wr th_pcb th_pcb_update new_thread pcb s) (\<lambda>s.
       kbind (rd th_stack_addr new_thread s) (\<lambda>sa.
       kbind (wr th_esp th_esp_update new_thread (sa - 4) s) (\<lambda>s.
       kbind (wrw (sa - 4) new_thread s) (\<lambda>s.
       if pcb = NULL then Fault NullDeref
       else
         kbind (ListAdd (pcb_thread_list pcb) (th_node new_thread) s) (\<lambda>s.
         Ok (new_thread, s)))))))))
     else Ok (NULL, s))"

definition DestructThread :: "u32 \<Rightarrow> 'a ths_scheme \<Rightarrow> 'a ths_scheme kres" where
  "DestructThread thread s =
     kbind (wr th_pcb th_pcb_update thread NULL s) (\<lambda>s.
     kbind (rd th_stack_addr thread s) (\<lambda>sa.
     kbind (RelBytes (sa - kKStackSize + 1) s) (\<lambda>s.
     kbind (rd th_pcb thread s) (\<lambda>pcb.
     if pcb = NULL then Fault NullDeref
     else
       kbind (kwhile (\<lambda>prev. kbind (get_next prev s) (\<lambda>n. Ok (n \<noteq> th_sibling thread)))
                     (\<lambda>prev. get_next prev s) (pcb_thread_list pcb)) (\<lambda>prev.
       kbind (ListRemove prev s) (\<lambda>(_, s).
       ListAdd (free_thread_list s) (th_node thread) s))))))"

text \<open>
  \<^verbatim>\<open>SwitchReg\<close>: four registers are pushed and the stack pointer is saved in the old thread; then
  the stack pointer of the new thread is loaded, four registers and the return address are
  popped, and interrupts are enabled.
\<close>

definition SwitchReg :: "u32 \<Rightarrow> u32 \<Rightarrow> 'a ths_scheme \<Rightarrow> 'a ths_scheme kres" where
  "SwitchReg cur new s =
     kbind (wr th_esp th_esp_update cur (esp_reg (mach s) - 16) s) (\<lambda>s.
     kbind (rd th_esp new s) (\<lambda>esp.
     Ok (s\<lparr>mach := intr_enable ((mach s)\<lparr>esp_reg := esp + 20\<rparr>)\<rparr>)))"

text \<open>
  Whether the processor, with what \<^verbatim>\<open>cr3\<close> holds, finds the address \<open>p\<close> where the kernel's mapping \<open>lin\<close> has it.  \<^verbatim>\<open>ThreadSwitch\<close> loads
  \<^verbatim>\<open>cr3\<close> with the address of another directory, and its next accesses go through that directory.  An access that it does not map, or maps
  elsewhere, ends in a fault: the scheduler cannot go on after either.
\<close>

definition cr3_maps :: "u32 \<Rightarrow> 'a pgs_scheme \<Rightarrow> bool" where
  "cr3_maps p s \<longleftrightarrow> \<not> paging_on s \<or>
     (case translate s p of None \<Rightarrow> False | Some a \<Rightarrow> lin p s = Ok a)"

definition wr_pcb_cr3 :: "u32 \<Rightarrow> u32 \<Rightarrow> u32 \<Rightarrow> 'a pgs_scheme \<Rightarrow> 'a pgs_scheme kres" where
  "wr_pcb_cr3 off p v s = (if cr3_maps (p + off) s then wr_pcb off p v s else Fault PageFault)"

text \<open>
  The stack pointer is that of the place where \<^verbatim>\<open>ThreadSwitch\<close> calls \<^verbatim>\<open>SwitchReg\<close>, with the two arguments pushed: the
  compiler chooses the frame of the function, and its prologue and epilogue balance.  The call pushes the
  return address, four bytes, and the return in the new thread pops that thread's.
\<close>

definition call_SwitchReg :: "u32 \<Rightarrow> u32 \<Rightarrow> 'a ths_scheme \<Rightarrow> 'a ths_scheme kres" where
  "call_SwitchReg cur new s = SwitchReg cur new (s\<lparr>mach := (mach s)\<lparr>esp_reg := esp_reg (mach s) - 4\<rparr>\<rparr>)"

definition ThreadSwitch :: "'a ths_scheme \<Rightarrow> 'a ths_scheme kres" where
  "ThreadSwitch s =
     kbind (Dequeue (wait_thread_queue s) s) (\<lambda>(new_node, s).
     if new_node = NULL then Ok s
     else
       let new_thread = th_of_node new_node in
       kbind (GetCurThread s) (\<lambda>cur_thread.
       kbind (Enqueue (wait_thread_queue s) (th_node cur_thread) s) (\<lambda>s.
       kbind (rd th_pcb cur_thread s) (\<lambda>cur_pcb.
       kbind (rd_pcb off_pid cur_pcb s) (\<lambda>cur_pid.
       kbind (rd th_pcb new_thread s) (\<lambda>new_pcb.
       kbind (rd_pcb off_pid new_pcb s) (\<lambda>new_pid.
       kbind (if cur_pid \<noteq> new_pid then
                kbind (rd_pcb off_page_dir new_pcb s) (\<lambda>pd.
                let s = SwitchPd (DirectMappingPhysAddr pd) s in
                kbind (wr_pcb_cr3 off_state new_pcb (state_word RUN) s) (\<lambda>s.
                wr_pcb_cr3 off_state cur_pcb (state_word WAIT) s))
              else Ok s) (\<lambda>s.
       kbind (rd th_stack_addr new_thread s) (\<lambda>sa.
       kbind (call_SwitchReg cur_thread new_thread (s\<lparr>tss_esp0 := sa - 4\<rparr>)) (\<lambda>s.
       Ok (s\<lparr>mach := intr_enable (mach s)\<rparr>)))))))))))"

definition KThreadRun :: "u32 \<Rightarrow> u32 \<Rightarrow> 'a ths_scheme \<Rightarrow> 'a ths_scheme kres" where
  "KThreadRun thread start_func s =
     kbind (rd th_pcb thread s) (\<lambda>pcb.
     kbind (rd_pcb off_pid pcb s) (\<lambda>pid.
     if pid = 0 then
       kbind (rd th_esp thread s) (\<lambda>esp.
       kbind (wr th_esp th_esp_update thread (esp - 4) s) (\<lambda>s.
       kbind (wrw (esp - 4) start_func s) (\<lambda>s.
       kbind (wr th_esp th_esp_update thread (esp - 4 - 16) s) (\<lambda>s.
       let t = esp - 4 - 16 in
       kbind (wrw t 0 s) (\<lambda>s.
       kbind (wrw (t + 4) 0 s) (\<lambda>s.
       kbind (wrw (t + 8) 0 s) (\<lambda>s.
       kbind (wrw (t + 12) 0 s) (\<lambda>s.
       Enqueue (wait_thread_queue s) (th_node thread) s))))))))
     else Ok s))"

definition ThreadSleep :: "'a ths_scheme \<Rightarrow> 'a ths_scheme kres" where
  "ThreadSleep s =
     kbind (GetCurThread s) (\<lambda>cur_thread.
     kbind (ListAdd (block_thread_list s) (th_node cur_thread) s) (\<lambda>s.
     ThreadSwitch s))"

definition ThreadWake :: "u32 \<Rightarrow> 'a ths_scheme \<Rightarrow> 'a ths_scheme kres" where
  "ThreadWake thread s =
     kbind (walk (block_thread_list s) (\<lambda>n. Ok (n \<noteq> th_node thread)) s (block_thread_list s)) (\<lambda>tmp.
     kbind (get_next tmp s) (\<lambda>n.
     if n = th_node thread then
       kbind (ListRemove tmp s) (\<lambda>(_, s).
       Enqueue (wait_thread_queue s) (th_node thread) s)
     else Ok s))"

definition ThreadWakeAll :: "u32 list \<Rightarrow> nat \<Rightarrow> 'a ths_scheme \<Rightarrow> 'a ths_scheme kres" where
  "ThreadWakeAll thread_list num s =
     for_up num 0
       (\<lambda>i s. if i < length thread_list then ThreadWake (thread_list ! i) s else Fault OutOfBounds) s"

end
