(* ===== verification/AllocFrame.thy ===== *)
theory AllocFrame
  imports Allocator
begin

text \<open>
  Whatever the state, a request or a release that returns has changed only the allocator's own
  fields.  These facts need no invariant, so they hold for the corrupted states as well.
\<close>

lemma get_next_eq_Ok: "get_next p s = Ok v \<longleftrightarrow> p \<noteq> 0 \<and> v = nxt s p"
  by (auto simp: get_next_def)

lemma set_next_eq_Ok: "set_next p v s = Ok s' \<longleftrightarrow> p \<noteq> 0 \<and> s' = s\<lparr>nxt := (nxt s)(p := v)\<rparr>"
  by (auto simp: set_next_def)

lemma ListAdd_more: "ListAdd p n s = Ok s' \<Longrightarrow> dma.more s' = dma.more s"
  by (auto simp: ListAdd_def kbind_eq_Ok get_next_eq_Ok set_next_eq_Ok)

lemma ListRemove_more: "ListRemove p s = Ok (n, s') \<Longrightarrow> dma.more s' = dma.more s"
  by (auto simp: ListRemove_def kbind_eq_Ok get_next_eq_Ok set_next_eq_Ok)

lemma RelMemBlock_more: "RelMemBlock b s = Ok s' \<Longrightarrow> dma.more s' = dma.more s"
  by (auto simp: RelMemBlock_def kbind_eq_Ok set_next_eq_Ok split: if_splits dest!: ListAdd_more)

lemma RelScan_more:
  assumes "RelScan addr head s = Ok (x, r, s')"
  shows "dma.more s' = dma.more s"
proof -
  let ?P = "\<lambda>(x, r, s'). dma.more s' = dma.more s"
  have "?P (x, r, s')"
    using assms unfolding RelScan_def
    by (rule kwhile_keeps [where P = ?P])
      (auto simp: kbind_eq_Ok split: if_splits prod.splits dest!: ListRemove_more)
  then show ?thesis by simp
qed

lemma RelSearch_more:
  assumes "RelSearch addr s = Ok (t, r, s')"
  shows "dma.more s' = dma.more s"
proof -
  let ?P = "\<lambda>(x, t, r, s'). dma.more s' = dma.more s"
  from assms obtain x where "RelSearchLoop addr (Exhausted, 0, NULL, s) = Ok (x, t, r, s')"
    by (auto simp: RelSearch_def kbind_eq_Ok)
  then have "?P (x, t, r, s')"
    unfolding RelSearchLoop_def
    by (rule kwhile_keeps [where P = ?P])
      (auto simp: kbind_eq_Ok split: if_splits prod.splits dest!: RelScan_more)
  then show ?thesis by simp
qed

lemma MergeBlock_more:
  assumes "MergeBlock t s = Ok s'"
  shows "dma.more s' = dma.more s"
proof -
  have "dma.more s' = dma.more s" if "MergeBlock t s = Some r" "r = Inr s'" for r
  proof (rule MergeBlock.raw_induct [where P = "\<lambda>t s r. \<forall>s'. r = Inr s' \<longrightarrow> dma.more s' = dma.more s",
        OF _ that(1), rule_format, OF _ that(2)])
    fix mb :: "nat \<Rightarrow> 'a dma_scheme \<Rightarrow> 'a dma_scheme kres" and t s r s'
    assume IH: "\<And>t s r s'. mb t s = Some r \<Longrightarrow> r = Inr s' \<Longrightarrow> dma.more s' = dma.more s"
    have IH': "mb t s = Ok s' \<Longrightarrow> dma.more s' = dma.more s" for t s s'
      using IH by blast
    assume "(if t = kMemBlockTypeNum - 1 then Ok s
      else
        kbind (GetMemBlockSize t) (\<lambda>sz.
        kbind (free_head t s) (\<lambda>head.
        kbind (MergeScan t sz head s) (\<lambda>(tmp, found).
        if \<not> found then Ok s
        else
          kbind (get_next tmp s) (\<lambda>n1.
          kbind (get_next n1 s) (\<lambda>n2.
          kbind (get_mb_addr (mb_of_node n1) s) (\<lambda>a1.
          kbind (ListRemove tmp s) (\<lambda>(_, s).
          kbind (get_next tmp s) (\<lambda>p.
          kbind (ListRemove p s) (\<lambda>(_, s).
          kbind (RelMemBlock (mb_of_node n2) s) (\<lambda>s.
          kbind (free_head (t + 1) s) (\<lambda>head'.
          kbind (walk head' (\<lambda>m. kbind (get_mb_addr (mb_of_node m) s) (\<lambda>b. Ok (b < a1))) s head') (\<lambda>tmp.
          kbind (ListAdd tmp n1 s) (\<lambda>s.
          mb (t + 1) s)))))))))))))) = Some r" "r = Inr s'"
    then show "dma.more s' = dma.more s"
      by (auto simp: kbind_eq_Ok split: if_splits prod.splits
          dest!: ListRemove_more ListAdd_more RelMemBlock_more IH')
  qed
  then show ?thesis using assms by blast
qed

lemma RelBytes_more: "RelBytes addr s = Ok s' \<Longrightarrow> dma.more s' = dma.more s"
  by (auto simp: RelBytes_def kbind_eq_Ok split: if_splits prod.splits
      dest!: RelSearch_more ListAdd_more MergeBlock_more)

lemma ReqMemBlock_more: "ReqMemBlock s = Ok (b, s') \<Longrightarrow> dma.more s' = dma.more s"
  by (auto simp: ReqMemBlock_def kbind_eq_Ok split: if_splits dest!: ListRemove_more)

lemma set_mb_addr_more: "set_mb_addr b a s = Ok s' \<Longrightarrow> dma.more s' = dma.more s"
  by (auto simp: set_mb_addr_def split: if_splits)

lemma DivBlock_more:
  assumes "DivBlock t s = Ok (b, s')"
  shows "dma.more s' = dma.more s"
proof -
  let ?P = "\<lambda>t (s :: 'a dma_scheme) r. \<forall>b s'. r = Inr (b, s') \<longrightarrow> dma.more s' = dma.more s"
  have "?P t s r" if "DivBlock t s = Some r" for r
    by (rule DivBlock.raw_induct [where P = ?P, OF _ that])
      (auto simp: kbind_eq_Ok split: if_splits dest!: ListRemove_more ReqMemBlock_more set_mb_addr_more ListAdd_more)
  then show ?thesis using assms by blast
qed

lemma ReqBytes_more:
  assumes "ReqBytes w s = Ok (a, s')"
  shows "dma.more s' = dma.more s"
proof -
  let ?P = "\<lambda>w (s :: 'a dma_scheme) r. \<forall>a s'. r = Inr (a, s') \<longrightarrow> dma.more s' = dma.more s"
  have "?P w s r" if "ReqBytes w s = Some r" for r
    by (rule ReqBytes.raw_induct [where P = ?P, OF _ that])
      (auto simp: kbind_eq_Ok split: if_splits dest!: ListRemove_more DivBlock_more ListAdd_more)
  then show ?thesis using assms by blast
qed

end
