(* ===== verification/Sched.thy ===== *)
theory Sched
  imports Threads AllocFrame
begin

text \<open>
  The scheduler is round robin.

  \<open>sched s xs\<close> says that \<open>hd xs\<close> is the running thread and that the queue of waiting threads holds
  the rest of \<open>xs\<close> in order, and that every thread has a process and a stack whose top holds the
  thread's own address, by which \<^verbatim>\<open>GetCurThread\<close> finds it.  \<open>pcbs_ok\<close> says that the words of the
  process control blocks that the scheduler uses are not list nodes of the scheduler.  The threads are those of one process, as in the
  running kernel, whose threads all belong to the kernel's process; \<open>waiting\<close> is the same without that condition.
  A call of \<^verbatim>\<open>ThreadSwitch\<close> refines \<open>rotate1\<close> on \<open>xs\<close>.
\<close>

definition thread_ok :: "'a ths_scheme \<Rightarrow> u32 \<Rightarrow> bool" where
  "thread_ok s t \<longleftrightarrow> t \<noteq> 0 \<and> th_node t \<noteq> 0 \<and> th_pcb s t \<noteq> 0 \<and> rdw (th_stack_addr s t - 4) s = Ok t"

definition sched_nodes :: "'a ths_scheme \<Rightarrow> u32 list \<Rightarrow> u32 set" where
  "sched_nodes s xs = insert (q_head s (wait_thread_queue s)) (th_node ` set xs)"

definition pcbs_ok :: "'a ths_scheme \<Rightarrow> u32 list \<Rightarrow> bool" where
  "pcbs_ok s xs \<longleftrightarrow> (\<forall>t\<in>set xs. th_pcb s t \<notin> sched_nodes s xs \<and> th_pcb s t + 4 \<notin> sched_nodes s xs)"

definition waiting :: "'a ths_scheme \<Rightarrow> u32 list \<Rightarrow> bool" where
  "waiting s xs \<longleftrightarrow> xs \<noteq> [] \<and> (\<forall>t\<in>set xs. thread_ok s t) \<and>
     queues s {wait_thread_queue s} (\<lambda>_. map th_node (tl xs)) \<and>
     unlinked s {wait_thread_queue s} (\<lambda>_. map th_node (tl xs)) (th_node (hd xs)) \<and>
     tss_esp0 s = th_stack_addr s (hd xs) - 4 \<and> pcbs_ok s xs"

definition one_pcb :: "'a ths_scheme \<Rightarrow> u32 list \<Rightarrow> bool" where
  "one_pcb s xs \<longleftrightarrow> (\<forall>t\<in>set xs. th_pcb s t = th_pcb s (hd xs))"

definition sched :: "'a ths_scheme \<Rightarrow> u32 list \<Rightarrow> bool" where
  "sched s xs \<longleftrightarrow> waiting s xs \<and> one_pcb s xs"

lemmas sched_defs = sched_def waiting_def

lemma one_pcb_single [simp]: "one_pcb s [t]"
  by (simp add: one_pcb_def)

lemma one_pcb_cong: "th_pcb s' = th_pcb s \<Longrightarrow> one_pcb s' xs = one_pcb s xs"
  by (simp add: one_pcb_def)

lemma th_of_node_th_node [simp]: "th_of_node (th_node t) = t" "th_node (th_of_node n) = n"
  by (simp_all add: th_of_node_def th_node_def)

lemma th_node_eq [simp]: "th_node t = th_node u \<longleftrightarrow> t = u"
  by (simp add: th_node_def)

lemma waiting_cur: "waiting s xs \<Longrightarrow> GetCurThread s = Ok (hd xs)"
  by (cases xs) (auto simp: waiting_def thread_ok_def GetCurThread_def)

lemma sched_cur: "sched s xs \<Longrightarrow> GetCurThread s = Ok (hd xs)"
  by (simp add: sched_def waiting_cur)

text \<open>The parts of the state that \<open>sched\<close> depends on.\<close>

lemma rdw_cong:
  "paging_on s' = paging_on s \<Longrightarrow> wmem (mach s') = wmem (mach s) \<Longrightarrow> rdw p s' = rdw p s"
  by (simp add: rdw_def lin_def)

lemma queues_cong:
  "nxt s' = nxt s \<Longrightarrow> q_head s' = q_head s \<Longrightarrow> q_tail s' = q_tail s \<Longrightarrow> queues s' Q M = queues s Q M"
  by (simp add: queues_def)

lemma unlinked_cong: "q_head s' = q_head s \<Longrightarrow> unlinked s' Q M n = unlinked s Q M n"
  by (simp add: unlinked_def)

lemma queues_M_cong: "(\<And>q. q \<in> Q \<Longrightarrow> M q = M' q) \<Longrightarrow> queues s Q M = queues s Q M'"
  using lists_ok_cong [of Q "q_head s" "q_head s" M M'] by (simp add: queues_def)

lemma paging_on_simps [simp]:
  "paging_on (SwitchPd pd s) = paging_on s"
  "paging_on (s\<lparr>mach := intr_enable m\<rparr>) = paging_on (s\<lparr>mach := m\<rparr>)"
  by (simp_all add: paging_on_def SwitchPd_def intr_enable_def Let_def)

lemma ThreadSwitch_idle:
  assumes "sched s [cur]"
  shows "ThreadSwitch s = Ok s"
proof -
  have "queues s {wait_thread_queue s} (\<lambda>_. [])" using assms by (simp add: sched_defs)
  then have "Dequeue (wait_thread_queue s) s = Ok (0, s)"
    using Dequeue_nil [of s "{wait_thread_queue s}" "\<lambda>_. []" "wait_thread_queue s"] by simp
  then show ?thesis by (simp add: ThreadSwitch_def)
qed

text \<open>The queue after a switch: the first waiting thread is taken, the running one is appended.\<close>

lemma switch_queue:
  assumes qs: "queues s {q} (\<lambda>_. n # ns)" and c: "unlinked s {q} (\<lambda>_. n # ns) c"
  shows "\<exists>h1 t1 h2. Dequeue q s = Ok (n, s\<lparr>nxt := h1, q_tail := t1\<rparr>) \<and>
    Enqueue q c (s\<lparr>nxt := h1, q_tail := t1\<rparr>) = Ok (s\<lparr>nxt := h2, q_tail := t1(q := c)\<rparr>) \<and>
    queues (s\<lparr>nxt := h2, q_tail := t1(q := c)\<rparr>) {q} (\<lambda>_. ns @ [c]) \<and>
    unlinked (s\<lparr>nxt := h2, q_tail := t1(q := c)\<rparr>) {q} (\<lambda>_. ns @ [c]) n \<and>
    (\<forall>x. x \<noteq> c \<and> x \<notin> nodes (q_head s) (\<lambda>_. n # ns) q \<longrightarrow> h2 x = nxt s x)"
proof -
  obtain h1 t1 where d: "Dequeue q s = Ok (n, s\<lparr>nxt := h1, q_tail := t1\<rparr>)"
      "queues (s\<lparr>nxt := h1, q_tail := t1\<rparr>) {q} ((\<lambda>_. n # ns)(q := ns))"
      "unlinked (s\<lparr>nxt := h1, q_tail := t1\<rparr>) {q} ((\<lambda>_. n # ns)(q := ns)) n"
      "\<forall>x. (\<forall>q\<in>{q}. x \<notin> nodes (q_head s) (\<lambda>_. n # ns) q) \<longrightarrow> h1 x = nxt s x"
    using Dequeue_cons [OF qs, of q n ns] by blast
  let ?s1 = "s\<lparr>nxt := h1, q_tail := t1\<rparr>"
  have q1: "queues ?s1 {q} (\<lambda>_. ns)" "unlinked ?s1 {q} (\<lambda>_. ns) n" "unlinked ?s1 {q} (\<lambda>_. ns) c" "c \<noteq> n"
    using d(2,3) c queues_M_cong [of "{q}" "(\<lambda>_. n # ns)(q := ns)" "\<lambda>_. ns" ?s1]
    by (auto simp: unlinked_def nodes_def)
  obtain h2 where e: "Enqueue q c ?s1 = Ok (?s1\<lparr>nxt := h2, q_tail := (q_tail ?s1)(q := c)\<rparr>)"
      "queues (?s1\<lparr>nxt := h2, q_tail := (q_tail ?s1)(q := c)\<rparr>) {q} ((\<lambda>_. ns)(q := ns @ [c]))"
      "\<forall>x. x \<noteq> c \<and> (\<forall>q\<in>{q}. x \<notin> nodes (q_head ?s1) (\<lambda>_. ns) q) \<longrightarrow> h2 x = nxt ?s1 x"
    using Enqueue_ok [OF q1(1) _ q1(3)] by blast
  let ?s2 = "s\<lparr>nxt := h2, q_tail := t1(q := c)\<rparr>"
  have "queues ?s2 {q} (\<lambda>_. ns @ [c])"
    using e(2) queues_M_cong [of "{q}" "(\<lambda>_. ns)(q := ns @ [c])" "\<lambda>_. ns @ [c]" ?s2] by simp
  moreover have "unlinked ?s2 {q} (\<lambda>_. ns @ [c]) n"
    using q1(2,4) by (auto simp: unlinked_def nodes_def)
  moreover have "\<forall>x. x \<noteq> c \<and> x \<notin> nodes (q_head s) (\<lambda>_. n # ns) q \<longrightarrow> h2 x = nxt s x"
    using d(4) e(3) by (auto simp: nodes_def)
  ultimately show ?thesis using d(1) e(1) by (intro exI [of _ h1] exI [of _ t1] exI [of _ h2]) simp
qed

definition same_proc :: "'a ths_scheme \<Rightarrow> u32 \<Rightarrow> u32 \<Rightarrow> bool" where
  "same_proc s t u \<longleftrightarrow> nxt s (th_pcb s t + off_pid) = nxt s (th_pcb s u + off_pid)"

definition switch_post :: "'a ths_scheme \<Rightarrow> u32 \<Rightarrow> u32 \<Rightarrow> 'a ths_scheme \<Rightarrow> bool" where
  "switch_post s cur new s' \<longleftrightarrow> creg (mach s') = creg (mach s) \<and> wmem (mach s') = wmem (mach s) \<and> trace (mach s') = trace (mach s) \<and>
     th_esp s' = (th_esp s)(cur := esp_reg (mach s) - 20) \<and> esp_reg (mach s') = th_esp s new + 20 \<and>
     bit (eflags (mach s')) 9 \<and> th_stack_addr s' = th_stack_addr s \<and> th_pcb s' = th_pcb s \<and>
     wait_thread_queue s' = wait_thread_queue s \<and> q_head s' = q_head s \<and>
     block_thread_list s' = block_thread_list s \<and> free_thread_list s' = free_thread_list s"

lemma double_phys: "DirectMappingPhysAddr (DirectMappingPhysAddr pd) = pd - 0x80000000"
  by (simp add: DirectMappingPhysAddr_def kKVirtualAddr_def)

lemma bit9_enable: "bit (eflags (intr_enable m)) 9"
  by (simp add: intr_enable_def bit_simps)

lemma sched_nodes_eq: "nodes (q_head s) (\<lambda>_. map th_node (tl xs)) (wait_thread_queue s) \<subseteq> sched_nodes s xs"
  by (cases xs) (auto simp: nodes_def sched_nodes_def)

text \<open>The queue is changed before the processes of the two threads are compared.\<close>

lemma ThreadSwitch_queue:
  assumes w: "waiting s (cur # new # rest)"
  shows "\<exists>h t. let s2 = s\<lparr>nxt := h, q_tail := t\<rparr> in
    ThreadSwitch s = kbind (if same_proc s cur new then Ok s2
        else let s = SwitchPd (DirectMappingPhysAddr (nxt s (th_pcb s new + off_page_dir))) s2 in
          kbind (wr_pcb_cr3 off_state (th_pcb s new) (state_word RUN) s) (wr_pcb_cr3 off_state (th_pcb s cur) (state_word WAIT)))
      (\<lambda>s. kbind (call_SwitchReg cur new (s\<lparr>tss_esp0 := th_stack_addr s new - 4\<rparr>)) (\<lambda>s. Ok (s\<lparr>mach := intr_enable (mach s)\<rparr>))) \<and>
    queues s2 {wait_thread_queue s} (\<lambda>_. map th_node rest @ [th_node cur]) \<and>
    unlinked s2 {wait_thread_queue s} (\<lambda>_. map th_node rest @ [th_node cur]) (th_node new) \<and>
    (\<forall>x. x \<noteq> th_node cur \<and> x \<notin> nodes (q_head s) (\<lambda>_. map th_node (new # rest)) (wait_thread_queue s) \<longrightarrow> h x = nxt s x)"
proof -
  let ?q = "wait_thread_queue s" and ?pc = "th_pcb s cur" and ?pn = "th_pcb s new"
  have qs: "queues s {?q} (\<lambda>_. th_node new # map th_node rest)"
    and un: "unlinked s {?q} (\<lambda>_. th_node new # map th_node rest) (th_node cur)"
    and tok: "\<forall>t\<in>set (cur # new # rest). thread_ok s t" and pcb: "pcbs_ok s (cur # new # rest)"
    using w by (auto simp: waiting_def)
  obtain h1 t1 h2 where q: "Dequeue ?q s = Ok (th_node new, s\<lparr>nxt := h1, q_tail := t1\<rparr>)"
      "Enqueue ?q (th_node cur) (s\<lparr>nxt := h1, q_tail := t1\<rparr>) = Ok (s\<lparr>nxt := h2, q_tail := t1(?q := th_node cur)\<rparr>)"
      "queues (s\<lparr>nxt := h2, q_tail := t1(?q := th_node cur)\<rparr>) {?q} (\<lambda>_. map th_node rest @ [th_node cur])"
      "unlinked (s\<lparr>nxt := h2, q_tail := t1(?q := th_node cur)\<rparr>) {?q} (\<lambda>_. map th_node rest @ [th_node cur]) (th_node new)"
      "\<forall>x. x \<noteq> th_node cur \<and> x \<notin> nodes (q_head s) (\<lambda>_. th_node new # map th_node rest) ?q \<longrightarrow> h2 x = nxt s x"
    using switch_queue [OF qs un] by blast
  have nz: "cur \<noteq> 0" "new \<noteq> 0" "th_node new \<noteq> 0" "?pc \<noteq> 0" "?pn \<noteq> 0"
    using tok by (auto simp: thread_ok_def)
  have cur: "GetCurThread (s\<lparr>nxt := h1, q_tail := t1\<rparr>) = Ok cur"
    using waiting_cur [OF w] by (simp add: GetCurThread_def rdw_def lin_def paging_on_def)
  have pw: "h2 ?pc = nxt s ?pc" "h2 ?pn = nxt s ?pn" "h2 (?pn + 4) = nxt s (?pn + 4)"
    using q(5) pcb by (auto simp: pcbs_ok_def sched_nodes_def nodes_def)
  let ?s2 = "s\<lparr>nxt := h2, q_tail := t1(?q := th_node cur)\<rparr>"
  have "ThreadSwitch s = kbind (if same_proc s cur new then Ok ?s2
        else let s = SwitchPd (DirectMappingPhysAddr (nxt s (?pn + off_page_dir))) ?s2 in
          kbind (wr_pcb_cr3 off_state (th_pcb s new) (state_word RUN) s) (wr_pcb_cr3 off_state (th_pcb s cur) (state_word WAIT)))
      (\<lambda>s. kbind (call_SwitchReg cur new (s\<lparr>tss_esp0 := th_stack_addr s new - 4\<rparr>)) (\<lambda>s. Ok (s\<lparr>mach := intr_enable (mach s)\<rparr>)))"
    using q(1,2) cur nz pw by (simp add: ThreadSwitch_def Let_def same_proc_def off_pid_def off_page_dir_def SwitchPd_def)
  then show ?thesis using q(3-5) by (intro exI [of _ h2] exI [of _ "t1(?q := th_node cur)"]) (simp add: Let_def)
qed

lemma ThreadSwitch_step:
  assumes sc: "sched s (cur # new # rest)"
  shows "\<exists>s'. ThreadSwitch s = Ok s' \<and> sched s' (new # rest @ [cur]) \<and> switch_post s cur new s' \<and>
    (\<forall>x. x \<noteq> th_node cur \<and> x \<notin> nodes (q_head s) (\<lambda>_. map th_node (new # rest)) (wait_thread_queue s) \<longrightarrow> nxt s' x = nxt s x)"
proof -
  let ?q = "wait_thread_queue s" and ?xs = "cur # new # rest"
  have w: "waiting s ?xs" and p: "one_pcb s ?xs" using sc by (auto simp: sched_def)
  have "same_proc s cur new" using p by (simp add: same_proc_def one_pcb_def)
  then obtain h t where t: "ThreadSwitch s = (let s2 = s\<lparr>nxt := h, q_tail := t\<rparr> in
        kbind (call_SwitchReg cur new (s2\<lparr>tss_esp0 := th_stack_addr s new - 4\<rparr>)) (\<lambda>s. Ok (s\<lparr>mach := intr_enable (mach s)\<rparr>)))"
      "queues (s\<lparr>nxt := h, q_tail := t\<rparr>) {?q} (\<lambda>_. map th_node rest @ [th_node cur])"
      "unlinked (s\<lparr>nxt := h, q_tail := t\<rparr>) {?q} (\<lambda>_. map th_node rest @ [th_node cur]) (th_node new)"
      "\<forall>x. x \<noteq> th_node cur \<and> x \<notin> nodes (q_head s) (\<lambda>_. map th_node (new # rest)) ?q \<longrightarrow> h x = nxt s x"
    using ThreadSwitch_queue [OF w] by (auto simp: Let_def)
  have nz: "cur \<noteq> 0" "new \<noteq> 0" "cur \<noteq> new" using w by (auto simp: waiting_def thread_ok_def unlinked_def nodes_def)
  define s4 where "s4 = s\<lparr>nxt := h, q_tail := t, tss_esp0 := th_stack_addr s new - 4, th_esp := (th_esp s)(cur := esp_reg (mach s) - 20),
     mach := intr_enable (intr_enable ((mach s)\<lparr>esp_reg := th_esp s new + 20\<rparr>))\<rparr>"
  have run: "ThreadSwitch s = Ok s4"
    using t(1) nz by (simp add: Let_def call_SwitchReg_def SwitchReg_def s4_def)
  have "thread_ok s4 u = thread_ok s u" for u
    using rdw_cong [of s4 s] by (simp add: thread_ok_def s4_def intr_enable_def paging_on_def)
  moreover have "queues s4 {?q} (\<lambda>_. map th_node rest @ [th_node cur])"
      "unlinked s4 {?q} (\<lambda>_. map th_node rest @ [th_node cur]) (th_node new)"
    using t(2,3) by (auto simp: s4_def queues_def unlinked_def)
  moreover have "pcbs_ok s4 (new # rest @ [cur])" "one_pcb s4 (new # rest @ [cur])"
    using w p by (auto simp: waiting_def pcbs_ok_def one_pcb_def sched_nodes_def s4_def)
  ultimately have "sched s4 (new # rest @ [cur])"
    using w by (auto simp: sched_def waiting_def s4_def)
  moreover have "switch_post s cur new s4"
    using bit9_enable by (simp add: switch_post_def s4_def) (simp add: intr_enable_def)
  ultimately show ?thesis using run t(4) by (intro exI [of _ s4]) (simp add: s4_def)
qed

text \<open>
  Between processes: \<^verbatim>\<open>cr3\<close> gets the address of the directory translated twice, and the switch ends with a page
  fault when the processor finds nothing there for the process control block that is written next.
\<close>

lemma ThreadSwitch_other_process:
  assumes w: "waiting s (cur # new # rest)" and p: "\<not> same_proc s cur new" "paging_on s"
    and u: "translate (s\<lparr>mach := (mach s)\<lparr>creg := (creg (mach s))(3 := nxt s (th_pcb s new + off_page_dir) - 0x80000000)\<rparr>\<rparr>)
      (th_pcb s new + off_state) = None"
  shows "ThreadSwitch s = Fault PageFault"
proof -
  obtain h t where t: "ThreadSwitch s = (let s2 = SwitchPd (DirectMappingPhysAddr (nxt s (th_pcb s new + off_page_dir))) (s\<lparr>nxt := h, q_tail := t\<rparr>) in
        kbind (kbind (wr_pcb_cr3 off_state (th_pcb s new) (state_word RUN) s2) (wr_pcb_cr3 off_state (th_pcb s cur) (state_word WAIT)))
          (\<lambda>s. kbind (call_SwitchReg cur new (s\<lparr>tss_esp0 := th_stack_addr s new - 4\<rparr>)) (\<lambda>s. Ok (s\<lparr>mach := intr_enable (mach s)\<rparr>))))"
    using ThreadSwitch_queue [OF w] p(1) by (auto simp: Let_def SwitchPd_def)
  let ?s = "SwitchPd (DirectMappingPhysAddr (nxt s (th_pcb s new + off_page_dir))) (s\<lparr>nxt := h, q_tail := t\<rparr>)"
  have "translate ?s v = translate (s\<lparr>mach := (mach s)\<lparr>creg := (creg (mach s))(3 := nxt s (th_pcb s new + off_page_dir) - 0x80000000)\<rparr>\<rparr>) v" for v
    by (simp add: translate_def SwitchPd_def double_phys Let_def)
  moreover have "paging_on ?s" using p(2) by (simp add: paging_on_def SwitchPd_def Let_def)
  ultimately have "\<not> cr3_maps (th_pcb s new + off_state) ?s" using u by (simp add: cr3_maps_def)
  then show ?thesis using t by (simp add: wr_pcb_cr3_def Let_def)
qed

section \<open>Rounds\<close>

primrec switch_times :: "nat \<Rightarrow> 'a ths_scheme \<Rightarrow> 'a ths_scheme kres" where
  "switch_times 0 s = Ok s"
| "switch_times (Suc k) s = kbind (ThreadSwitch s) (switch_times k)"

lemma ThreadSwitch_rotate:
  assumes "sched s xs"
  shows "\<exists>s'. ThreadSwitch s = Ok s' \<and> sched s' (rotate1 xs)"
proof -
  consider cur where "xs = [cur]" | cur new rest where "xs = cur # new # rest"
    using assms by (cases xs rule: remdups_adj.cases) (auto simp: sched_defs)
  then show ?thesis
  proof cases
    case 1
    then show ?thesis using ThreadSwitch_idle [of s cur] assms by auto
  next
    case 2
    then show ?thesis using ThreadSwitch_step [of s cur new rest] assms by auto
  qed
qed

lemma switch_times_rotate: "sched s xs \<Longrightarrow> \<exists>s'. switch_times k s = Ok s' \<and> sched s' (rotate k xs)"
proof (induction k arbitrary: s xs)
  case 0
  then show ?case by simp
next
  case (Suc k)
  obtain s1 where s1: "ThreadSwitch s = Ok s1" "sched s1 (rotate1 xs)"
    using ThreadSwitch_rotate [OF Suc.prems] by blast
  from Suc.IH [OF s1(2)] s1(1) show ?case
    by (auto simp: rotate1_rotate_swap)
qed

section \<open>Waking\<close>

lemma clist_cong: "clist h head xs \<Longrightarrow> (\<And>x. x \<in> set (head # xs) \<Longrightarrow> h' x = h x) \<Longrightarrow> clist h' head xs"
  using path_cong [of head xs h' h head] by (auto simp: clist_def)

text \<open>The nodes of the block list are not in the queue.\<close>

definition blocked :: "'a ths_scheme \<Rightarrow> u32 list \<Rightarrow> u32 list \<Rightarrow> bool" where
  "blocked s ws bs \<longleftrightarrow>
     queues s {wait_thread_queue s} (\<lambda>_. map th_node ws) \<and>
     clist (nxt s) (block_thread_list s) (map th_node bs) \<and>
     set (block_thread_list s # map th_node bs) \<inter> nodes (q_head s) (\<lambda>_. map th_node ws) (wait_thread_queue s) = {}"

lemma ThreadWake_ok:
  assumes b: "blocked s ws bs" and t: "t \<in> set bs"
  shows "\<exists>s'. ThreadWake t s = Ok s' \<and> blocked s' (ws @ [t]) (remove1 t bs)"
proof -
  let ?q = "wait_thread_queue s" and ?b = "block_thread_list s" and ?M = "\<lambda>_ :: u32. map th_node ws"
  obtain xs ys where bs: "bs = xs @ t # ys" "t \<notin> set xs"
    using split_list_first [OF t] by blast
  have qs: "queues s {?q} ?M" and c: "clist (nxt s) ?b (map th_node xs @ th_node t # map th_node ys)"
    and apart: "set (?b # map th_node bs) \<inter> nodes (q_head s) ?M ?q = {}"
    using b bs by (auto simp: blocked_def)
  let ?p = "last (?b # map th_node xs)"
  let ?h = "(nxt s)(?p := nxt s (th_node t), th_node t := 0)"
  have tw: "takeWhile (\<lambda>n. n \<noteq> th_node t) (map th_node bs) = map th_node xs"
    using bs by (subst bs(1)) (auto simp: takeWhile_tail takeWhile_append2)
  have wk: "walk ?b (\<lambda>n. Ok (n \<noteq> th_node t)) s ?b = Ok ?p"
    using walk_clist [of s ?b "map th_node bs" "\<lambda>n. Ok (n \<noteq> th_node t)" "\<lambda>n. n \<noteq> th_node t"] c bs tw by simp
  have p: "?p \<noteq> 0" "nxt s ?p = th_node t" "th_node t \<noteq> 0"
    using clist_last_nonzero [OF c] clist_split [OF c] c by (auto simp: clist_def)
  have rem: "ListRemove ?p s = Ok (th_node t, s\<lparr>nxt := ?h\<rparr>)"
    using p by (simp add: ListRemove_Ok)
  have "?p \<in> set (?b # map th_node bs)" "th_node t \<in> set (?b # map th_node bs)"
    using bs last_in_set [of "?b # map th_node xs"] by auto
  then have out: "?p \<notin> nodes (q_head s) ?M ?q" "th_node t \<notin> nodes (q_head s) ?M ?q"
    using apart by auto
  then have qs1: "queues (s\<lparr>nxt := ?h\<rparr>) {?q} ?M" "unlinked (s\<lparr>nxt := ?h\<rparr>) {?q} ?M (th_node t)"
    using qs p(3) by (auto simp: queues_def unlinked_def intro!: lists_ok_upd_outside)
  obtain h2 where e: "Enqueue ?q (th_node t) (s\<lparr>nxt := ?h\<rparr>) =
        Ok (s\<lparr>nxt := h2, q_tail := (q_tail s)(?q := th_node t)\<rparr>)"
      "queues (s\<lparr>nxt := h2, q_tail := (q_tail s)(?q := th_node t)\<rparr>) {?q} (?M(?q := map th_node ws @ [th_node t]))"
      "\<forall>x. x \<noteq> th_node t \<and> x \<notin> nodes (q_head s) ?M ?q \<longrightarrow> h2 x = ?h x"
    using Enqueue_ok [OF qs1(1) _ qs1(2)] by auto
  let ?s = "s\<lparr>nxt := h2, q_tail := (q_tail s)(?q := th_node t)\<rparr>"
  have run: "ThreadWake t s = Ok ?s"
    using wk p rem e(1) by (simp add: ThreadWake_def del: last.simps)
  have "clist ?h ?b (map th_node (xs @ ys))"
    using clist_delete [OF c] by simp
  then have "clist h2 ?b (map th_node (xs @ ys))"
  proof (rule clist_cong)
    fix x assume x: "x \<in> set (?b # map th_node (xs @ ys))"
    then have "x \<notin> nodes (q_head s) ?M ?q" using apart bs(1) by auto
    moreover have "x \<noteq> th_node t" using x c by (auto simp: clist_def)
    ultimately show "h2 x = ?h x" using e(3) by blast
  qed
  moreover have "queues ?s {?q} (\<lambda>_. map th_node (ws @ [t]))"
    using e(2) queues_M_cong [of "{?q}" "?M(?q := map th_node ws @ [th_node t])" "\<lambda>_. map th_node (ws @ [t])" ?s] by simp
  moreover have "set (?b # map th_node (xs @ ys)) \<inter> nodes (q_head s) (\<lambda>_. map th_node (ws @ [t])) ?q = {}"
    using apart bs c by (auto simp: nodes_def clist_def)
  moreover have "remove1 t bs = xs @ ys" using bs by (simp add: remove1_append)
  ultimately have "blocked ?s (ws @ [t]) (remove1 t bs)"
    by (simp add: blocked_def)
  with run show ?thesis by blast
qed

section \<open>Sleeping\<close>

text \<open>
  A thread that calls \<^verbatim>\<open>ThreadSleep\<close> is linked into the block list and, by \<^verbatim>\<open>ThreadSwitch\<close>, into
  the queue of waiting threads as well, with the same node.
\<close>

lemma ThreadSleep_ready:
  assumes sc: "sched s (cur # new # rest)" and b: "block_thread_list s \<noteq> 0"
    "block_thread_list s \<noteq> th_node cur"
    "block_thread_list s \<notin> nodes (q_head s) (\<lambda>_. map th_node (new # rest)) (wait_thread_queue s)"
  shows "\<exists>s'. ThreadSleep s = Ok s' \<and> sched s' (new # rest @ [cur]) \<and>
    block_thread_list s' = block_thread_list s \<and>
    nxt s' (block_thread_list s) = th_node cur \<and>
    nxt s' (th_node cur) = q_head s' (wait_thread_queue s')"
proof -
  let ?b = "block_thread_list s" and ?q = "wait_thread_queue s" and ?M = "\<lambda>_ :: u32. map th_node (new # rest)"
  let ?h = "(nxt s)(?b := th_node cur, th_node cur := nxt s ?b)"
  let ?s1 = "s\<lparr>nxt := ?h\<rparr>"
  have qs: "queues s {?q} ?M" and un: "unlinked s {?q} ?M (th_node cur)" and c: "th_node cur \<noteq> 0"
    using sc by (auto simp: sched_defs thread_ok_def)
  have "queues ?s1 {?q} ?M"
    using qs un b(3) by (auto simp: queues_def unlinked_def intro!: lists_ok_upd_outside)
  moreover have "thread_ok ?s1 t = thread_ok s t" for t
    by (simp add: thread_ok_def rdw_def lin_def paging_on_def)
  ultimately have sc1: "sched ?s1 (cur # new # rest)"
    using sc one_pcb_cong [of ?s1 s] by (auto simp: sched_defs unlinked_def pcbs_ok_def sched_nodes_def)
  obtain s' where s': "ThreadSwitch ?s1 = Ok s'" "sched s' (new # rest @ [cur])" "switch_post ?s1 cur new s'"
      "\<forall>x. x \<noteq> th_node cur \<and> x \<notin> nodes (q_head ?s1) ?M ?q \<longrightarrow> nxt s' x = nxt ?s1 x"
    using ThreadSwitch_step [OF sc1] by auto
  have "ThreadSleep s = Ok s'"
    using sched_cur [OF sc] b(1) c s'(1) by (simp add: ThreadSleep_def ListAdd_Ok)
  moreover have "nxt s' ?b = th_node cur"
    using s'(4) b(2,3) by simp
  moreover have "nxt s' (th_node cur) = q_head s' (wait_thread_queue s')"
  proof -
    have "clist (nxt s') (q_head s' (wait_thread_queue s')) (map th_node (rest @ [cur]) @ [])"
      using s'(2) queues_clist [of s' "{wait_thread_queue s'}"] by (auto simp: sched_defs)
    from clist_split [OF this] show ?thesis by simp
  qed
  moreover have "block_thread_list s' = ?b" using s'(3) by (simp add: switch_post_def)
  ultimately show ?thesis using s'(2) by blast
qed

section \<open>Destroying a thread\<close>

text \<open>
  \<^verbatim>\<open>DestructThread\<close> clears the pointer to the process before it follows it, so it never completes.
\<close>

lemma ths_more_eq: "dma.more s = dma.more s' \<Longrightarrow> th_pcb s = th_pcb s'"
  by (cases s; cases s') simp

lemma DestructThread_faults:
  assumes "t \<noteq> 0" "RelBytes (th_stack_addr s t - kKStackSize + 1) (s\<lparr>th_pcb := (th_pcb s)(t := 0)\<rparr>) = Ok s1"
  shows "DestructThread t s = Fault NullDeref"
  using assms ths_more_eq [OF RelBytes_more [OF assms(2)]] by (simp add: DestructThread_def)

lemma DestructThread_no_result: "DestructThread t s \<noteq> Ok s'"
proof (cases "t = 0")
  case True
  then show ?thesis by (simp add: DestructThread_def)
next
  case False
  show ?thesis
  proof
    assume *: "DestructThread t s = Ok s'"
    then obtain s1 where "RelBytes (th_stack_addr s t - kKStackSize + 1) (s\<lparr>th_pcb := (th_pcb s)(t := 0)\<rparr>) = Ok s1"
      using False by (auto simp: DestructThread_def kbind_eq_Ok)
    from DestructThread_faults [OF False this] * show False by simp
  qed
qed

section \<open>What the set-up of processes and threads leaves alone\<close>

definition kview :: "'a ths_scheme \<Rightarrow> con \<times> u32 list \<times> IntrGateDescriptor list \<times> u32 list \<times> handler option list \<times>
    (nat \<Rightarrow> u32) \<times> (io list \<Rightarrow> u16 \<Rightarrow> u8) \<times> io list \<times> (u32 \<Rightarrow> Pde) \<times> (u32 \<Rightarrow> Pte) \<times> 'a" where
  "kview s = (console s, intr_vec s, idt s, IntrVecMap s, intr_handler s, creg (mach s), dev (mach s), trace (mach s),
     pde_at s, pte_at s, ths.more s)"

lemma kview_upd [simp]:
  "kview (s\<lparr>nxt := a\<rparr>) = kview s" "kview (s\<lparr>k_pcb := b\<rparr>) = kview s" "kview (s\<lparr>free_proc_list := b\<rparr>) = kview s"
  "kview (s\<lparr>free_thread_list := b\<rparr>) = kview s" "kview (s\<lparr>th_tid := c\<rparr>) = kview s"
  by (simp_all add: kview_def)

lemma kview_more: "kheap.more s' = kheap.more s \<Longrightarrow> kview s' = kview s"
  by (cases s; cases s') (simp add: kview_def)

end
