(* ===== verification/AllocProps.thy ===== *)
theory AllocProps
  imports AllocSpec Queues
begin

text \<open>
  The properties of the byte allocator, with the states at which they are exercised.  Two example
  states are built with the lemmas of the initialisation: the whole arena is divided into blocks
  and every list holds at most one of them.
\<close>

section \<open>Example states\<close>

text \<open>\<open>shape i s L bs\<close>: the first \<open>i\<close> bytes of the arena are divided into the blocks \<open>bs\<close> (list, address).\<close>

definition shape :: "nat \<Rightarrow> dma \<Rightarrow> (lid \<Rightarrow> u32 list) \<Rightarrow> (lid \<times> u32) list \<Rightarrow> bool" where
  "shape i s L bs \<longleftrightarrow>
     dma_wf s L \<and> tiles (span s) (blocks L) (arena_prefix i) \<and> srt {} s L \<and>
     131019 \<le> length (L Pool) + length bs \<and> K_END s = 0x200000 \<and>
     (\<forall>k\<in>lids - {Pool}. map (baddr s) (L k) = (case map_of bs k of Some a \<Rightarrow> [a] | None \<Rightarrow> []))"

definition boot_state :: dma where
  "boot_state = \<lparr>nxt = (\<lambda>_. 0), mb_addr = (\<lambda>_. 0), mem_block_pool = 0,
     free_mem_list = replicate 26 0, allocated_mem_list = replicate 26 0, K_END = 0x200000\<rparr>"

lemma boot_state_ok:
  "length (free_mem_list boot_state) = kMemBlockTypeNum"
  "length (allocated_mem_list boot_state) = kMemBlockTypeNum"
  "K_END boot_state = 0x200000" "K_END boot_state \<noteq> 0" "unat (K_END boot_state) \<le> 2 ^ 25"
  by (simp_all add: boot_state_def kMemBlockTypeNum_def)

lemma shape_start: "\<exists>s L. shape 0 s L []"
proof -
  obtain h0 where h0: "clist h0 (pnode 0) (pool_nodes 131072)"
    using MemBlockPoolInit_ok by blast
  obtain s1 where s1: "heads_inv boot_state kMemBlockTypeNum s1"
    using InitLists_ok [OF heads_inv_start [OF boot_state_ok(1,2) h0]] by blast
  define L where "L = only_pool (drop 52 (pool_nodes 131072))"
  have wf: "dma_wf s1 L" using heads_inv_end [OF s1] by (simp add: L_def)
  have ke: "K_END s1 = 0x200000" using s1 boot_state_ok(3) by (simp add: heads_inv_def)
  have pl: "length (L Pool) = 131019"
    by (simp add: L_def only_pool_def pool_nodes_def)
  have e: "L k = []" if "k \<noteq> Pool" for k
    using that by (simp add: L_def only_pool_def)
  have "tiles (span s1) (blocks L) (arena_prefix 0)"
    using e by (auto simp: tiles_def blocks_def arena_prefix_def)
  moreover have "srt {} s1 L" using e by (simp add: srt_def)
  ultimately have "shape 0 s1 L []" using wf ke pl e by (simp add: shape_def)
  then show ?thesis by blast
qed

lemma shape_empty:
  assumes "shape i s L bs" "map_of bs k = None" "k \<in> lids" "k \<noteq> Pool"
  shows "L k = []"
proof -
  have "map (baddr s) (L k) = []" using assms by (auto simp: shape_def)
  then show ?thesis by simp
qed

lemma shape_grow:
  assumes sh: "shape i s L bs" and k: "k = FreeL j \<or> k = AllocL j" "j < kMemBlockTypeNum"
    and new: "map_of bs k = None" and n: "length bs < 100" "i < 0x4000000"
  shows "\<exists>s' L'. shape (i + 2 ^ j) s' L' ((k, of_nat (0xc0000000 + i)) # bs)"
proof -
  let ?a = "of_nat (0xc0000000 + i) :: u32"
  have wf: "dma_wf s L" and til: "tiles (span s) (blocks L) (arena_prefix i)" and srt: "srt {} s L"
    using sh by (auto simp: shape_def)
  have kl: "k \<in> lids" "k \<noteq> Pool" using k by auto
  then have Lk: "L k = []" using shape_empty [OF sh new] by blast
  have "L Pool \<noteq> []" using sh n by (auto simp: shape_def)
  then obtain p ps where p: "L Pool = p # ps" by (cases "L Pool") auto
  let ?L = "L(Pool := ps, k := p # L k)"
  obtain s2 h2 where h: "dma_wf (s2\<lparr>nxt := h2\<rparr>) ?L" "dma_frame s L (s2\<lparr>nxt := h2\<rparr>) ?L" "baddr s2 = (baddr s)(p := ?a)"
    using add_block_heap [OF wf p kl, of ?a] by blast
  let ?s = "s2\<lparr>nxt := h2\<rparr>"
  have ba: "baddr ?s = (baddr s)(p := ?a)" using h(3) by simp
  have a: "unat ?a = 0xc0000000 + i" using n(2) by (simp add: unat_of_nat_u32 del: of_nat_add)
  have t': "tiles (span ?s) (blocks ?L) (arena_prefix (i + 2 ^ j))"
    using add_block_tiles [OF wf p k(2) k(1) til a ba] .
  have s': "srt {} ?s ?L" using add_block_lists(1) [OF wf p Lk srt ba] .
  have same: "map (baddr ?s) (L k') = map (baddr s) (L k')" if "k' \<in> lids" "k' \<noteq> Pool" for k'
    using dma_wf_unique_list [OF wf, of Pool k' p] p that by (auto simp: h(3))
  have "map (baddr ?s) (?L k') = (case map_of ((k, ?a) # bs) k' of Some a \<Rightarrow> [a] | None \<Rightarrow> [])"
    if "k' \<in> lids - {Pool}" for k'
  proof (cases "k' = k")
    case True
    then show ?thesis using Lk that ba by simp
  next
    case False
    then have "?L k' = L k'" using that by simp
    moreover have "map (baddr s) (L k') = (case map_of bs k' of Some a \<Rightarrow> [a] | None \<Rightarrow> [])"
      using sh that by (simp add: shape_def)
    ultimately show ?thesis using same [of k'] that False by (simp only: map_of.simps) auto
  qed
  moreover have "K_END ?s = 0x200000" using h(2) sh by (simp add: dma_frame_def shape_def)
  moreover have "131019 \<le> length (?L Pool) + length ((k, ?a) # bs)"
    using sh p kl by (simp add: shape_def)
  ultimately have "shape (i + 2 ^ j) ?s ?L ((k, ?a) # bs)"
    unfolding shape_def using h(1) t' s' by blast
  then show ?thesis by blast
qed

lemma shape_inv: "shape 0x3f00000 s L bs \<Longrightarrow> dma_inv s L"
  by (simp add: shape_def dma_inv_def tiled_def arena_prefix_def arena_def)

text \<open>A list that holds the block at \<open>a\<close> has exactly one node.\<close>

lemma shape_single:
  assumes "shape i s L bs" "map_of bs k = Some a" "k \<in> lids" "k \<noteq> Pool"
  shows "\<exists>n. L k = [n] \<and> baddr s n = a"
proof -
  have "map (baddr s) (L k) = [a]" using assms by (auto simp: shape_def)
  then show ?thesis by (cases "L k") auto
qed

text \<open>One block of each order from 25 to 20; those of order 21 and 20 are in use.\<close>

lemma example_a: "\<exists>s L. shape 0x3f00000 s L
   [(AllocL 20, 0xc3e00000), (AllocL 21, 0xc3c00000), (FreeL 22, 0xc3800000),
    (FreeL 23, 0xc3000000), (FreeL 24, 0xc2000000), (FreeL 25, 0xc0000000)]"
proof -
  obtain s0 L0 where s0: "shape 0 s0 L0 []" using shape_start by blast
  from shape_grow [OF s0, of "FreeL 25" 25] obtain s1 L1 where
    s1: "shape 0x2000000 s1 L1 [(FreeL 25, 0xc0000000)]" by (auto simp: kMemBlockTypeNum_def)
  from shape_grow [OF s1, of "FreeL 24" 24] obtain s2 L2 where
    s2: "shape 0x3000000 s2 L2 [(FreeL 24, 0xc2000000), (FreeL 25, 0xc0000000)]" by (auto simp: kMemBlockTypeNum_def)
  from shape_grow [OF s2, of "FreeL 23" 23] obtain s3 L3 where
    s3: "shape 0x3800000 s3 L3 [(FreeL 23, 0xc3000000), (FreeL 24, 0xc2000000), (FreeL 25, 0xc0000000)]"
    by (auto simp: kMemBlockTypeNum_def)
  from shape_grow [OF s3, of "FreeL 22" 22] obtain s4 L4 where
    s4: "shape 0x3c00000 s4 L4 [(FreeL 22, 0xc3800000), (FreeL 23, 0xc3000000), (FreeL 24, 0xc2000000),
      (FreeL 25, 0xc0000000)]" by (auto simp: kMemBlockTypeNum_def)
  from shape_grow [OF s4, of "AllocL 21" 21] obtain s5 L5 where
    s5: "shape 0x3e00000 s5 L5 [(AllocL 21, 0xc3c00000), (FreeL 22, 0xc3800000), (FreeL 23, 0xc3000000),
      (FreeL 24, 0xc2000000), (FreeL 25, 0xc0000000)]" by (auto simp: kMemBlockTypeNum_def)
  from shape_grow [OF s5, of "AllocL 20" 20] show ?thesis
    by (auto simp: kMemBlockTypeNum_def)
qed


section \<open>Properties\<close>

text \<open>
  C1: \<^verbatim>\<open>DirectMappingInit\<close> returns for every end of the kernel image up to 32 MB and establishes the
  invariant of the allocator: the 53 lists are well formed and disjoint, the free and allocated
  blocks tile the 63 MB arena without overlap or gap, and all lists are sorted.  The only block in
  use is the one that holds the kernel image, the descriptor pool has at least 130000 free nodes, and
  no list node lies in the memory that is handed out.
\<close>

theorem boot_establishes_invariant:
  assumes "length (free_mem_list s) = kMemBlockTypeNum" "length (allocated_mem_list s) = kMemBlockTypeNum"
    and "K_END s \<noteq> 0" "unat (K_END s) \<le> 2 ^ 25"
  shows "\<exists>s' L. DirectMappingInit s = Ok s' \<and> dma_inv s' L \<and>
    live s' L = {(kKVirtualAddr, block_order (K_END s))} \<and> 130000 \<le> length (L Pool) \<and>
    (\<forall>n\<in>footprint s' L. unat n \<notin> arena) \<and> K_END s' = K_END s \<and> dma.more s' = dma.more s"
  using DirectMappingInit_ok [OF assms] by blast

lemma block_order_2MB: "block_order 0x200000 = 21"
  using block_order_Suc [of "0x200000" 20] by simp

theorem boot_establishes_invariant_witness:
  "\<exists>s' L. DirectMappingInit boot_state = Ok s' \<and> dma_inv s' L \<and> live s' L = {(0xc0000000, 21)}"
  using boot_establishes_invariant [OF boot_state_ok(1,2,4,5)]
  by (auto simp: boot_state_ok(3) block_order_2MB kKVirtualAddr_def)

text \<open>
  C2: a request for 1 byte to 32 MB in a state that satisfies the invariant, with enough
  descriptors left for the splits, always returns.  If some free block is large enough it returns a
  block of the right order inside the arena that overlaps no block in use, and the invariant holds
  with exactly that block added to those in use; otherwise it returns 0 and changes nothing.
\<close>

theorem request_total:
  assumes "dma_inv s L" "sz \<noteq> 0" "unat sz \<le> 2 ^ 25" "25 \<le> length (L Pool)"
  shows "if can_serve (block_order sz) L
         then \<exists>a s' L'. ReqBytes sz s = Ok (a, s') \<and> req_post (block_order sz) a s L s' L'
         else ReqBytes sz s = Ok (0, s)"
  by (rule ReqBytes_total [OF assms])

theorem request_total_witness:
  "\<exists>(s :: dma) L a s' L'. dma_inv s L \<and> ReqBytes 8 s = Ok (a, s') \<and> req_post 3 a s L s' L'"
proof -
  obtain s L where sh: "shape 0x3f00000 s L
     [(AllocL 20, 0xc3e00000), (AllocL 21, 0xc3c00000), (FreeL 22, 0xc3800000),
      (FreeL 23, 0xc3000000), (FreeL 24, 0xc2000000), (FreeL 25, 0xc0000000)]"
    using example_a by blast
  have inv: "dma_inv s L" by (rule shape_inv [OF sh])
  have "25 \<le> length (L Pool)" using sh by (simp add: shape_def)
  moreover have "\<exists>n. L (FreeL 22) = [n] \<and> baddr s n = 0xc3800000"
    by (rule shape_single [OF sh]) (simp_all add: kMemBlockTypeNum_def)
  then have "can_serve (block_order 8) L"
    by (auto simp: can_serve_def kMemBlockTypeNum_def intro!: exI [of _ 22])
  ultimately obtain a s' L' where "ReqBytes 8 s = Ok (a, s')" "req_post (block_order 8) a s L s' L'"
    using request_total [OF inv, of 8] by auto
  moreover have "block_order 8 = 3" using block_order_Suc [of 8 2] by simp
  ultimately show ?thesis using inv by metis
qed



text \<open>
  C11: releasing the block of a node \<open>n\<close> returns and keeps the invariant, with exactly that block
  removed from those in use, when every smaller block in use lies below it and no free neighbour
  can be merged with it.
\<close>

theorem release_correct:
  assumes "dma_inv s L" "kend_ok s" "t < kMemBlockTypeNum" "n \<in> set (L (AllocL t))"
    and "\<forall>v<t. \<forall>m\<in>set (L (AllocL v)). baddr s m < baddr s n"
    and "\<not> mergeable t s (freed_list s L t n)"
  shows "\<exists>s' L'. RelBytes (baddr s n) s = Ok s' \<and> dma_inv s' L' \<and> dma_frame s L s' L' \<and>
    live s' L' = live s L - {(baddr s n, t)}"
  by (rule RelBytes_ok [OF assms])

lemma kend_ok_shape: "shape i s L bs \<Longrightarrow> kend_ok s"
  by (simp add: shape_def kend_ok_def)

theorem release_correct_witness:
  "\<exists>(s :: dma) L s' L'. dma_inv s L \<and> (0xc3e00000, 20) \<in> live s L \<and> RelBytes 0xc3e00000 s = Ok s' \<and> dma_inv s' L' \<and>
     live s' L' = live s L - {(0xc3e00000, 20)}"
proof -
  obtain s L where sh: "shape 0x3f00000 s L
     [(AllocL 20, 0xc3e00000), (AllocL 21, 0xc3c00000), (FreeL 22, 0xc3800000),
      (FreeL 23, 0xc3000000), (FreeL 24, 0xc2000000), (FreeL 25, 0xc0000000)]"
    using example_a by blast
  have inv: "dma_inv s L" by (rule shape_inv [OF sh])
  obtain n where n: "L (AllocL 20) = [n]" "baddr s n = 0xc3e00000"
    using shape_single [OF sh, of "AllocL 20"] by (auto simp: kMemBlockTypeNum_def)
  have "L (AllocL v) = []" if "v < 20" for v
    using shape_empty [OF sh, of "AllocL v"] that by (auto simp: kMemBlockTypeNum_def)
  moreover have "L (FreeL 20) = []"
    using shape_empty [OF sh, of "FreeL 20"] by (auto simp: kMemBlockTypeNum_def)
  ultimately have "\<exists>s' L'. RelBytes (baddr s n) s = Ok s' \<and> dma_inv s' L' \<and> dma_frame s L s' L' \<and>
      live s' L' = live s L - {(baddr s n, 20)}"
    using n by (intro release_correct [OF inv kend_ok_shape [OF sh]])
      (auto simp: kMemBlockTypeNum_def freed_list_def)
  moreover have "(0xc3e00000, 20) \<in> live s L"
    using n by (auto simp: live_def kMemBlockTypeNum_def)
  ultimately show ?thesis using inv n(2) by metis
qed

text \<open>
  C40: the size type of a request is the least order whose block holds it; for a request of 0 bytes
  the computation shifts by 32.
\<close>

theorem size_class:
  "GetMemBlockSizeType sz = (if sz = 0 then Fault ShiftTooLarge else Ok (LEAST t. unat sz \<le> 2 ^ t))"
  using GetMemBlockSizeType_0 GetMemBlockSizeType_class [of sz] by (simp add: block_order_def)

text \<open>
  when the pool of descriptors is empty, splitting a block writes through the NULL pointer that
  \<^verbatim>\<open>ReqMemBlock\<close> returns.
\<close>

theorem split_without_descriptor:
  assumes "dma_wf s L" "Suc k < kMemBlockTypeNum" "L (FreeL (Suc k)) \<noteq> []" "L Pool = []"
  shows "DivBlock (Suc k) s = Fault NullDeref"
  by (rule DivBlock_pool_exhausted [OF assms])

lemma drain_pool:
  assumes "dma_wf s L"
  shows "dma_wf (s\<lparr>nxt := (nxt s)(lhead s Pool := lhead s Pool)\<rparr>) (L(Pool := []))"
proof -
  let ?p = "lhead s Pool"
  have ok: "lists_ok (nxt s) lids (lhead s) L" using assms by (simp add: dma_wf_def)
  have "clist ((nxt s)(?p := ?p)) (lhead s k) ((L(Pool := [])) k)" if "k \<in> lids" for k
    using lists_okD [OF ok that] lists_ok_disjoint [OF ok that, of Pool]
    by (cases "k = Pool") (auto simp: clist_Nil clist_def nodes_def)
  moreover have sub: "nodes (lhead s) (L(Pool := [])) k \<subseteq> nodes (lhead s) L k" for k
    by (auto simp: nodes_def)
  then have "nodes (lhead s) (L(Pool := [])) k \<inter> nodes (lhead s) (L(Pool := [])) k' = {}"
    if "k \<in> lids" "k' \<in> lids" "k \<noteq> k'" for k k'
    using lists_ok_disjoint [OF ok that] by blast
  ultimately have "lists_ok ((nxt s)(?p := ?p)) lids (lhead s) (L(Pool := []))"
    unfolding lists_ok_def by blast
  moreover have "footprint s (L(Pool := [])) \<subseteq> footprint s L"
    unfolding footprint_def using sub by blast
  moreover have "footprint (s\<lparr>nxt := h\<rparr>) M = footprint s M" for h M
    by (simp add: footprint_def lhead_nxt)
  ultimately show ?thesis using assms by (auto simp: dma_wf_def lhead_nxt simp del: lhead.simps)
qed

theorem split_without_descriptor_witness:
  "\<exists>(s :: dma) L. dma_wf s L \<and> L (FreeL 22) \<noteq> [] \<and> DivBlock 22 s = Fault NullDeref"
proof -
  obtain s L where sh: "shape 0x3f00000 s L
     [(AllocL 20, 0xc3e00000), (AllocL 21, 0xc3c00000), (FreeL 22, 0xc3800000),
      (FreeL 23, 0xc3000000), (FreeL 24, 0xc2000000), (FreeL 25, 0xc0000000)]"
    using example_a by blast
  have "dma_wf s L" using sh by (simp add: shape_def)
  note wf = drain_pool [OF this]
  have "L (FreeL 22) \<noteq> []"
    using shape_single [OF sh, of "FreeL 22"] by (auto simp: kMemBlockTypeNum_def)
  then have "DivBlock (Suc 21) (s\<lparr>nxt := (nxt s)(lhead s Pool := lhead s Pool)\<rparr>) = Fault NullDeref"
    by (intro split_without_descriptor [OF wf]) (simp_all add: kMemBlockTypeNum_def)
  then have "DivBlock 22 (s\<lparr>nxt := (nxt s)(lhead s Pool := lhead s Pool)\<rparr>) = Fault NullDeref" by simp
  moreover have "(L(Pool := [])) (FreeL 22) \<noteq> []" using \<open>L (FreeL 22) \<noteq> []\<close> by simp
  ultimately show ?thesis using wf by blast
qed





end
