(* ===== verification/Boot.thy ===== *)
theory Boot
  imports Sched AllocProps
begin

text \<open>
  Concrete kernel states at which the properties are exercised.

  \<open>boot0\<close> is the machine when the boot code enters the kernel: zeroed static data, a 2 MB kernel
  image, 128 MB of memory in one region, paging off, and interrupt controllers whose mask
  registers can be read back.  \<open>three_threads\<close> is a state of the scheduler with three threads of one
  process, the first of them running.
\<close>

definition zero_gate :: IntrGateDescriptor where
  "zero_gate = \<lparr>offset_0_15 = 0, seg_sel = 0, gate_type = 0, offset_16_31 = 0\<rparr>"

definition mach0 :: machine where
  "mach0 = \<lparr>creg = (\<lambda>_. 0), eflags = 0, esp_reg = 0xbc00, seg_reg = (\<lambda>_. 0), gdtr_reg = (0, 0),
     idtr_reg = (0, 0), tr_reg = 0, wmem = (\<lambda>_. 0), trace = [], dev = (\<lambda>tr p. last_out p tr), devl = (\<lambda>_ _. 0)\<rparr>"

definition con0 :: con where
  "con0 = \<lparr>xpos = 0, ypos = 0, video = VIDEO, vmem = (\<lambda>_. 0)\<rparr>"

definition boot0 :: ths where
  "boot0 = \<lparr>nxt = (\<lambda>_. 0), mb_addr = (\<lambda>_. 0), mem_block_pool = 0, free_mem_list = replicate 26 0,
     allocated_mem_list = replicate 26 0, K_END = 0x200000, q_head = (\<lambda>_. 0), q_tail = (\<lambda>_. 0),
     dl_prev = (\<lambda>_. 0), dl_next = (\<lambda>_. 0), me_key = (\<lambda>_. 0), me_value = (\<lambda>_. 0),
     console = con0, mach = mach0,
     gdt_at = (\<lambda>_. \<lparr>limit_0_15 = 0, base_addr_0_15 = 0, base_addr_16_23 = 0, seg_access = 0, limit_16_19 = 0,
        seg_flags = 0, base_addr_24_31 = 0\<rparr>),
     avl_mem = [(0x100000, 0x7f00000), (0, 0xffffffff)], page_state = replicate 0x8000 0,
     pde_at = (\<lambda>_. mkpde 0 0), pte_at = (\<lambda>_. mkpte 0 0),
     intr_vec = map (\<lambda>i. 0xc0100000 + 16 * of_nat i) [0..<256], idt = replicate 256 zero_gate, tss_ss0 = 0, tss_esp0 = 0,
     IntrVecMap = replicate 8 0, intr_handler = replicate 256 None,
     th_tid = (\<lambda>_. 0), th_stack_addr = (\<lambda>_. 0), th_pcb = (\<lambda>_. 0), th_esp = (\<lambda>_. 0),
     free_thread_list = 0, wait_thread_queue = 0,
     block_thread_list = 0, k_pcb = 0, free_proc_list = 0\<rparr>"

lemma boot0_dma:
  "length (free_mem_list boot0) = kMemBlockTypeNum" "length (allocated_mem_list boot0) = kMemBlockTypeNum"
  "K_END boot0 = 0x200000" "K_END boot0 \<noteq> 0" "unat (K_END boot0) \<le> 2 ^ 25"
  by (simp_all add: boot0_def kMemBlockTypeNum_def)

lemma boot0_pages: "pages_ok boot0" "\<forall>i<0x100000. \<not> page_used boot0 i"
proof -
  show "pages_ok boot0" by (simp add: pages_ok_def boot0_def)
  have "\<not> page_used boot0 i" if "i < 0x100000" for i
  proof -
    have "unat i div 32 < 0x8000" using that by (simp add: u32_less_iff_unat)
    then show ?thesis by (simp add: page_used_def bm_get_def boot0_def)
  qed
  then show "\<forall>i<0x100000. \<not> page_used boot0 i" by blast
qed

lemma boot0_avl:
  "avl_mem boot0 = [(0x100000, 0x7f00000)] @ [(0, UINT32_MAX)]" "\<forall>r\<in>set [(0x100000, 0x7f00000)]. region_ok 0x8000 r"
  by (simp_all add: boot0_def UINT32_MAX_def region_ok_def)

lemma boot0_con: "con_ok (console boot0)" "con_ok con0"
  by (simp_all add: boot0_def con0_def con_ok_def COLUMNS_def LINES_def)

lemma boot0_ints: "tables256 boot0" "\<forall>v<256. intr_handler boot0 ! v = None"
  by (simp_all add: boot0_def tables256_def)

lemma boot0_imr: "imr_dev (dev (mach boot0))"
  by (simp add: boot0_def mach0_def imr_dev_def)

text \<open>The registers of an interrupted thread.\<close>

definition ireg0 :: IntrReg where
  "ireg0 = \<lparr>ir_ds = 0, ir_es = 0, ir_fs = 0, ir_gs = 0, p_edi = 0, p_esi = 0, p_ebp = 0, p_esp = 0, p_ebx = 0,
     p_edx = 0, p_ecx = 0, p_eax = 0, intr_vec_no = 0, err_code = 0, ir_eip = 0, ir_cs = 0, ir_eflags = 0,
     ir_esp = 0, ir_ss = 0\<rparr>"

section \<open>A state of the scheduler\<close>

definition three_threads :: ths where
  "three_threads = boot0
     \<lparr>nxt := (\<lambda>_. 0)(0x600 := 0x2010, 0x2010 := 0x3010, 0x3010 := 0x600, 0x700 := 0x700,
        0x9100 := 1, 0x9004 := 0xc0001000, 0x9104 := 0xc0100000),
      q_head := (\<lambda>_. 0)(0x500 := 0x600), q_tail := (\<lambda>_. 0)(0x500 := 0x3010),
      wait_thread_queue := 0x500, block_thread_list := 0x700,
      th_pcb := (\<lambda>_. 0x9000),
      th_stack_addr := (\<lambda>t. t + 0x104), th_esp := (\<lambda>t. t + 0x80),
      mach := mach0\<lparr>wmem := (\<lambda>a. a - 0x100)\<rparr>, tss_esp0 := 0x1100\<rparr>"

lemma three_threads_sched: "sched three_threads [0x1000, 0x2000, 0x3000]"
  by (simp add: sched_defs three_threads_def boot0_def mach0_def thread_ok_def th_node_def rdw_def lin_def
      paging_on_def queues_def lists_ok_def clist_def unlinked_def nodes_def pcbs_ok_def sched_nodes_def one_pcb_def)

end
