(* ===== verification/SchedProps.thy ===== *)
theory SchedProps
  imports Boot
begin

text \<open>
  The properties of the scheduler, exercised at the state \<open>three_threads\<close>.
\<close>

text \<open>
  C4: the scheduler is round robin.  From a state in which \<open>hd xs\<close> runs and the rest of \<open>xs\<close> waits
  in order, any number \<open>k\<close> of calls of \<^verbatim>\<open>ThreadSwitch\<close> returns, and then the thread at position
  \<open>k mod length xs\<close> runs and the others wait in cyclic order.
\<close>

theorem round_robin:
  assumes "sched s xs"
  shows "\<exists>s'. switch_times k s = Ok s' \<and> sched s' (rotate k xs) \<and>
    GetCurThread s' = Ok (xs ! (k mod length xs))"
proof -
  obtain s' where "switch_times k s = Ok s'" "sched s' (rotate k xs)"
    using switch_times_rotate [OF assms] by blast
  moreover have "xs \<noteq> []" using assms by (simp add: sched_defs)
  ultimately show ?thesis using sched_cur by (fastforce simp: hd_rotate_conv_nth)
qed

theorem round_robin_witness:
  "\<exists>s'. switch_times 5 three_threads = Ok s' \<and> GetCurThread s' = Ok 0x3000"
proof -
  have "[0x1000, 0x2000, 0x3000 :: u32] ! (5 mod length [0x1000, 0x2000, 0x3000 :: u32]) = 0x3000" by simp
  then show ?thesis using round_robin [OF three_threads_sched, of 5] by metis
qed

text \<open>
  no thread starves: each of \<open>n\<close> threads runs again after fewer than \<open>n\<close> switches.
\<close>

theorem no_starvation:
  assumes "sched s xs" "t \<in> set xs"
  shows "\<exists>k s'. k < length xs \<and> switch_times k s = Ok s' \<and> GetCurThread s' = Ok t"
proof -
  obtain k where k: "k < length xs" "xs ! k = t" using assms(2) by (auto simp: in_set_conv_nth)
  obtain s' where s': "switch_times k s = Ok s'" "sched s' (rotate k xs)"
    using switch_times_rotate [OF assms(1)] by blast
  have "hd (rotate k xs) = t" using k by (subst hd_rotate_conv_nth) auto
  then show ?thesis using k(1) s' sched_cur [OF s'(2)] by auto
qed

theorem no_starvation_witness:
  "\<exists>k s'. k < 3 \<and> switch_times k three_threads = Ok s' \<and> GetCurThread s' = Ok 0x2000"
proof -
  have "length [0x1000, 0x2000, 0x3000 :: u32] = 3" "0x2000 \<in> set [0x1000, 0x2000, 0x3000 :: u32]" by simp_all
  then show ?thesis using no_starvation [OF three_threads_sched, of "0x2000"] by metis
qed

text \<open>
  C23: what one switch does.  Between two threads of a process the address space and the words of the process control blocks stay as they are, the stack
  pointer of the new thread is loaded, that of the old one is saved so that a later switch restores it exactly, no other thread's is touched,
  and interrupts end up enabled.  Between threads of different processes \<^verbatim>\<open>cr3\<close> is loaded with the address of
  the new page directory translated twice, the directory's virtual address minus \<open>2 * 0xc0000000\<close> modulo \<open>2 ^ 32\<close>; where the processor's walk
  finds no entry there, the switch ends in a page fault at the next access, to the process control block.
\<close>

theorem switch_effect:
  assumes "waiting s (cur # new # rest)"
  shows "(one_pcb s (cur # new # rest) \<longrightarrow> (\<exists>s'. ThreadSwitch s = Ok s' \<and> sched s' (new # rest @ [cur]) \<and> creg (mach s') = creg (mach s) \<and>
       (\<forall>off\<in>{off_pid, off_page_dir}. nxt s' (th_pcb s cur + off) = nxt s (th_pcb s cur + off)) \<and>
       esp_reg (mach s') = th_esp s new + 20 \<and> th_esp s' cur + 20 = esp_reg (mach s) \<and> (\<forall>t. t \<noteq> cur \<longrightarrow> th_esp s' t = th_esp s t) \<and>
       bit (eflags (mach s')) 9)) \<and>
    (\<not> same_proc s cur new \<and> paging_on s \<and>
       translate (s\<lparr>mach := (mach s)\<lparr>creg := (creg (mach s))(3 := nxt s (th_pcb s new + off_page_dir) - 2 * 0xc0000000)\<rparr>\<rparr>)
         (th_pcb s new + off_state) = None \<longrightarrow> ThreadSwitch s = Fault PageFault)"
proof (intro conjI impI)
  let ?xs = "cur # new # rest"
  assume "one_pcb s ?xs"
  then obtain s' where s': "ThreadSwitch s = Ok s'" "sched s' (new # rest @ [cur])" "switch_post s cur new s'"
      "\<forall>x. x \<noteq> th_node cur \<and> x \<notin> nodes (q_head s) (\<lambda>_. map th_node (new # rest)) (wait_thread_queue s) \<longrightarrow> nxt s' x = nxt s x"
    using ThreadSwitch_step [of s cur new rest] assms by (auto simp: sched_def)
  have "th_pcb s cur + off \<notin> sched_nodes s ?xs" if "off \<in> {off_pid, off_page_dir}" for off
    using assms that by (auto simp: waiting_def pcbs_ok_def off_pid_def off_page_dir_def)
  then have "nxt s' (th_pcb s cur + off) = nxt s (th_pcb s cur + off)" if "off \<in> {off_pid, off_page_dir}" for off
    using s'(4) sched_nodes_eq [of s ?xs] that by (auto simp: sched_nodes_def nodes_def)
  then show "\<exists>s'. ThreadSwitch s = Ok s' \<and> sched s' (new # rest @ [cur]) \<and> creg (mach s') = creg (mach s) \<and>
       (\<forall>off\<in>{off_pid, off_page_dir}. nxt s' (th_pcb s cur + off) = nxt s (th_pcb s cur + off)) \<and>
       esp_reg (mach s') = th_esp s new + 20 \<and> th_esp s' cur + 20 = esp_reg (mach s) \<and> (\<forall>t. t \<noteq> cur \<longrightarrow> th_esp s' t = th_esp s t) \<and>
       bit (eflags (mach s')) 9"
    using s'(1-3) by (intro exI [of _ s']) (simp add: switch_post_def)
next
  assume "\<not> same_proc s cur new \<and> paging_on s \<and>
       translate (s\<lparr>mach := (mach s)\<lparr>creg := (creg (mach s))(3 := nxt s (th_pcb s new + off_page_dir) - 2 * 0xc0000000)\<rparr>\<rparr>)
         (th_pcb s new + off_state) = None"
  moreover have "(2 * 0xc0000000 :: u32) = 0x80000000" by simp
  ultimately show "ThreadSwitch s = Fault PageFault" using ThreadSwitch_other_process [OF assms] by metis
qed

text \<open>The three threads with paging on, the second one of another process.\<close>

definition two_procs :: ths where
  "two_procs = three_threads\<lparr>th_pcb := (\<lambda>_. 0x9000)(0x2000 := 0x9100), mach := (mach three_threads)\<lparr>creg := (\<lambda>_. 0)(0 := 0x80000001, 3 := 0x1000)\<rparr>\<rparr>"

lemma two_procs_waiting: "waiting two_procs [0x1000, 0x2000, 0x3000]"
  by (simp add: waiting_def two_procs_def three_threads_def boot0_def mach0_def thread_ok_def th_node_def rdw_def lin_def
      paging_on_def queues_def lists_ok_def clist_def unlinked_def nodes_def pcbs_ok_def sched_nodes_def)

theorem switch_effect_witness:
  "(\<exists>s'. ThreadSwitch three_threads = Ok s' \<and> esp_reg (mach s') = 0x2094 \<and> th_esp s' 0x1000 = 0xbbec) \<and>
   ThreadSwitch two_procs = Fault PageFault"
proof
  have w: "waiting three_threads [0x1000, 0x2000, 0x3000]" "one_pcb three_threads [0x1000, 0x2000, 0x3000]"
    using three_threads_sched by (auto simp: sched_def)
  have e: "th_esp three_threads 0x2000 = 0x2080" "esp_reg (mach three_threads) = 0xbc00" by (simp_all add: three_threads_def mach0_def)
  obtain s' where s': "ThreadSwitch three_threads = Ok s'" "esp_reg (mach s') = 0x2080 + 20" "th_esp s' 0x1000 + 20 = 0xbc00"
    using switch_effect [OF w(1)] w(2) unfolding e by blast
  have "th_esp s' 0x1000 = 0xbc00 - 20" using s'(3) by (metis add_diff_cancel_right')
  then show "\<exists>s'. ThreadSwitch three_threads = Ok s' \<and> esp_reg (mach s') = 0x2094 \<and> th_esp s' 0x1000 = 0xbbec" using s'(1,2) by auto
  have "\<not> same_proc two_procs 0x1000 0x2000" "paging_on two_procs"
    by (simp_all add: same_proc_def two_procs_def three_threads_def off_pid_def paging_on_def bit_simps)
  moreover have "translate (two_procs\<lparr>mach := (mach two_procs)\<lparr>creg := (creg (mach two_procs))(3 :=
      nxt two_procs (th_pcb two_procs 0x2000 + off_page_dir) - 2 * 0xc0000000)\<rparr>\<rparr>) (th_pcb two_procs 0x2000 + off_state) = None"
    by (simp add: translate_def two_procs_def three_threads_def boot0_def mkpde_def Let_def)
  ultimately show "ThreadSwitch two_procs = Fault PageFault" using switch_effect [OF two_procs_waiting] by blast
qed

text \<open>
  C32: waking a blocked thread unlinks it from the block list and appends it to the queue of waiting
  threads; the other blocked threads stay.
\<close>

theorem wake_moves_thread:
  assumes "blocked s ws bs" "t \<in> set bs"
  shows "\<exists>s'. ThreadWake t s = Ok s' \<and> blocked s' (ws @ [t]) (remove1 t bs)"
  by (rule ThreadWake_ok [OF assms])

definition two_blocked :: ths where
  "two_blocked = three_threads\<lparr>nxt := (nxt three_threads)(0x700 := 0x4010, 0x4010 := 0x5010, 0x5010 := 0x700)\<rparr>"

lemma two_blocked_ok: "blocked two_blocked [0x2000, 0x3000] [0x4000, 0x5000]"
  by (simp add: blocked_def two_blocked_def three_threads_def boot0_def th_node_def queues_def lists_ok_def
      clist_def nodes_def)

theorem wake_moves_thread_witness:
  "\<exists>s'. ThreadWake 0x5000 two_blocked = Ok s' \<and> blocked s' [0x2000, 0x3000, 0x5000] [0x4000]"
  using wake_moves_thread [OF two_blocked_ok, of "0x5000"] by auto

text \<open>
  C31: a thread that goes to sleep stays runnable: after \<^verbatim>\<open>ThreadSleep\<close> it is the last of the waiting
  threads.  Its node is linked into both lists, so the block list, which starts with that node,
  runs into the head of the queue.
\<close>

theorem sleep_leaves_thread_ready:
  assumes "sched s (cur # new # rest)" "block_thread_list s \<noteq> 0" "block_thread_list s \<noteq> th_node cur"
    and "block_thread_list s \<notin> nodes (q_head s) (\<lambda>_. map th_node (new # rest)) (wait_thread_queue s)"
  shows "\<exists>s'. ThreadSleep s = Ok s' \<and> sched s' (new # rest @ [cur]) \<and>
    nxt s' (block_thread_list s') = th_node cur \<and>
    nxt s' (th_node cur) = q_head s' (wait_thread_queue s')"
  using ThreadSleep_ready [OF assms] by auto

theorem sleep_leaves_thread_ready_witness:
  "\<exists>s'. ThreadSleep three_threads = Ok s' \<and> sched s' [0x2000, 0x3000, 0x1000]"
  using sleep_leaves_thread_ready [OF three_threads_sched]
  by (auto simp: three_threads_def th_node_def nodes_def)

text \<open>
  destroying a thread never completes: the thread's pointer to its process is cleared before it
  is followed.
\<close>

theorem destruct_thread_never_returns: "DestructThread t s \<noteq> Ok s'"
  by (rule DestructThread_no_result)

end
