(* ===== verification/MemProps.thy ===== *)
theory MemProps
  imports Boot
begin

text \<open>
  The properties of paging and of the allocator of physical pages, exercised at the boot state.
\<close>

text \<open>
  C5: \<^verbatim>\<open>PagingInit\<close> returns for every map of available memory that ends below the last two pages of
  the address space.  Afterwards paging is on, and the two-level walk that the processor makes
  through the tables maps exactly the first 4 MB to themselves and the 64 MB from \<open>0xc0000000\<close> on to
  physical memory from 0 on; every other address is absent.  So a pointer is resolved as \<open>lin\<close> says.
\<close>

theorem paging_maps_kernel:
  assumes "pages_ok s" "\<forall>i<0x100000. \<not> page_used s i" "B < 0xfffff" "con_ok (console s)"
    and "avl_mem s = rs @ [(x0, UINT32_MAX)]" "\<forall>r\<in>set rs. region_ok B r"
  shows "\<exists>s'. PagingInit s = Ok s' \<and> paging_on s' \<and> creg (mach s') 3 = 0x1000 \<and>
    (\<forall>v. translate s' v = (if v < 0x400000 then Some v
           else if 0xc0000000 \<le> v \<and> v < 0xc4000000 then Some (v - 0xc0000000) else None)) \<and>
    (\<forall>v. lin v s' = (case translate s' v of Some a \<Rightarrow> Ok a | None \<Rightarrow> Fault PageFault))"
proof -
  obtain s' where s': "PagingInit s = Ok s'" "\<forall>v. translate s' v = kernel_map v" "paging_on s'" "creg (mach s') 3 = 0x1000"
    using PagingInit_ok [OF assms] by blast
  then show ?thesis using lin_kernel_map [OF s'(3)] by (intro exI [of _ s']) (simp add: kernel_map_def)
qed

theorem paging_maps_kernel_witness:
  "\<exists>s'. PagingInit boot0 = Ok s' \<and> translate s' 0xc00b8000 = Some 0xb8000 \<and> translate s' 0x400000 = None"
  using paging_maps_kernel [OF boot0_pages _ boot0_con(1) boot0_avl] by auto

text \<open>
  initialising the page allocator returns and leaves every page of the direct mapping area, and
  every page from the end \<open>B\<close> of the available memory on, marked free.
\<close>

theorem page_allocator_init:
  assumes "pages_ok s" "\<forall>i<0x100000. \<not> page_used s i" "B < 0xfffff" "con_ok (console s)"
    and "avl_mem s = rs @ [(x0, UINT32_MAX)]" "\<forall>r\<in>set rs. region_ok B r"
  shows "\<exists>s'. PageAllocatorInit s = Ok s' \<and> pages_ok s' \<and>
    (\<forall>i. unat i < 0x4000 \<or> B \<le> unat i \<and> unat i < 0x100000 \<longrightarrow> \<not> page_used s' i)"
  using PageAllocatorInit_ok [OF assms] by blast

theorem page_allocator_init_witness:
  "\<exists>s'. PageAllocatorInit boot0 = Ok s' \<and> \<not> page_used s' 0x9000"
  using page_allocator_init [OF boot0_pages _ boot0_con(1) boot0_avl] by auto

text \<open>
  C13: any number of page requests returns, and the addresses handed out are pairwise different and
  were not in use before.
\<close>

theorem pages_never_shared:
  assumes "pages_ok s"
  shows "\<exists>as s'. req_pages ReqPage n s = Ok (as, s') \<and> pages_ok s' \<and> length as = n \<and>
    distinct (filter (\<lambda>a. a \<noteq> 0) as) \<and>
    (\<forall>a\<in>set as. a \<noteq> 0 \<longrightarrow> a \<notin> used_pages s \<and> a \<in> used_pages s')"
  using pga.req_pages_fresh [OF assms] by blast

theorem pages_never_shared_witness:
  "\<exists>as s'. req_pages ReqPage 3 boot0 = Ok (as, s') \<and> distinct (filter (\<lambda>a. a \<noteq> 0) as)"
  using pages_never_shared [OF boot0_pages(1), of 3] by blast

text \<open>
  C30: a page request returns the first free page of the dynamic mapping area and marks it, or returns
  0 and changes nothing when all are in use.  Because eight pages share one bit, the page number
  is always below 4 modulo 32: seven of eight pages are never handed out.
\<close>

theorem page_request_first_free:
  assumes "pages_ok s"
  shows "(\<exists>i s'. ReqPage s = Ok (GetPagePhysAddr i, s') \<and> first_free s i \<and> page_used s' i \<and> unat i mod 32 < 4) \<or>
         (\<forall>i. dyn_page i \<longrightarrow> page_used s i) \<and> ReqPage s = Ok (0, s)"
  using ReqPage_ok [OF assms]
proof (elim disjE exE conjE)
  fix i bm
  assume *: "first_free s i" "set_page i s = Ok (s\<lparr>page_state := bm\<rparr>)"
    "ReqPage s = Ok (GetPagePhysAddr i, s\<lparr>page_state := bm\<rparr>)"
  have "i < 0x100000" using *(1) by (simp add: first_free_def dyn_page_def)
  then have "page_used (s\<lparr>page_state := bm\<rparr>) i" using set_page_ok [OF assms] *(2) by fastforce
  then show ?thesis using * first_free_mod32 [OF *(1)] by blast
qed blast

theorem page_request_first_free_witness:
  "\<exists>i s'. ReqPage boot0 = Ok (GetPagePhysAddr i, s') \<and> page_used s' i \<and> unat i mod 32 < 4"
proof -
  have "\<not> (\<forall>i. dyn_page i \<longrightarrow> page_used boot0 i)"
    using boot0_pages(2) by (auto intro!: exI [of _ "0x4000"] simp: dyn_page_def)
  then show ?thesis using page_request_first_free [OF boot0_pages(1)] by blast
qed

text \<open>
  releasing a page faults once paging is on: \<^verbatim>\<open>ClearPage\<close> writes through the page's physical
  address, which is not mapped for any page between the direct mapping area and the kernel.
\<close>

lemma ClearPage_faults:
  assumes "paging_on s" "0x4000 \<le> n" "n < 0xc0000"
  shows "ClearPage n s = Fault PageFault"
proof -
  let ?p = "GetPagePhysAddr n"
  have u: "unat ?p = unat n * 4096"
    using assms(3) by (simp add: GetPagePhysAddr_def PageSize_def unat_word_ariths u32_less_iff_unat)
  have n: "0x4000 \<le> unat n" "unat n < 0xc0000" using assms(2,3) by (simp_all add: u32_le_iff_unat u32_less_iff_unat)
  have lin: "lin ?p s = Fault PageFault"
    using assms(1) u n by (simp add: lin_def kKVirtualAddr_def kDirectMappingSize_def u32_le_iff_unat u32_less_iff_unat)
  have "?p < ?p + PageSize"
    using u n by (simp add: u32_less_iff_unat unat_add_u32 PageSize_def)
  then show ?thesis
    using lin by (simp add: ClearPage_def Let_def kwhile.simps)
qed

theorem clear_page_faults:
  assumes "paging_on s" "0x4000 \<le> n" "n < 0xc0000"
  shows "ClearPage n s = Fault PageFault"
  by (rule ClearPage_faults [OF assms])

theorem clear_page_faults_witness:
  "ClearPage 0x5000 (boot0\<lparr>mach := mach0\<lparr>creg := (\<lambda>_. 0x80000000)\<rparr>\<rparr>) = Fault PageFault"
  by (rule clear_page_faults) (simp_all add: paging_on_def bit_simps)

text \<open>
  cloning a page directory copies all 1024 entries, after the write permission has been taken
  from the 768 entries of the user part, in the father's directory as well.
\<close>

theorem clone_shares_read_only:
  assumes "pd_at father f s" "pd_at cur c s"
    and "\<And>i j. i < 1024 \<Longrightarrow> j < 1024 \<Longrightarrow> c + 4 * of_nat i \<noteq> f + 4 * of_nat j"
  shows "\<exists>h. UPdClone cur father s = Ok (s\<lparr>pde_at := h\<rparr>) \<and>
     (\<forall>i<1024. h (c + 4 * of_nat i) = h (f + 4 * of_nat i) \<and>
        h (f + 4 * of_nat i) =
          (if i < 768 then read_only (pde_at s (f + 4 * of_nat i)) else pde_at s (f + 4 * of_nat i)))"
  by (rule UPdClone_ok [OF assms])

theorem clone_shares_read_only_witness:
  "\<exists>h. UPdClone 0x3000 0x1000 boot0 = Ok (boot0\<lparr>pde_at := h\<rparr>) \<and> h 0x3000 = h 0x1000"
proof -
  have pd: "pd_at p p boot0" for p
    by (simp add: pd_at_def lin_def paging_on_def boot0_def mach0_def)
  have ne: "0x3000 + 4 * of_nat i \<noteq> (0x1000 + 4 * of_nat j :: u32)" if "i < 1024" "j < 1024" for i j
    using that unat_index [of "0x3000" i] unat_index [of "0x1000" j] by (simp add: u32_eq_iff_unat)
  from clone_shares_read_only [OF pd pd ne] obtain h where
    h: "UPdClone 0x3000 0x1000 boot0 = Ok (boot0\<lparr>pde_at := h\<rparr>)"
      "\<forall>i<1024. h (0x3000 + 4 * of_nat i) = h (0x1000 + 4 * of_nat i)" by blast
  from h(2) have "h 0x3000 = h 0x1000" by (auto dest: spec [of _ 0])
  with h(1) show ?thesis by blast
qed

end
