(* ===== verification/DoublyLists.thy ===== *)
theory DoublyLists
  imports Queues
begin

text \<open>
  The doubly linked circular lists of \<^verbatim>\<open>kernel/lib/list.h\<close>.

  \<open>dll s head xs\<close> says that following \<^verbatim>\<open>next\<close> from \<open>head\<close> visits \<open>xs\<close> and following \<^verbatim>\<open>prev\<close> visits
  \<open>xs\<close> backwards.  It is stated with the predicate for singly linked lists, once for each
  direction, so the lemmas on insertion and deletion are those of the singly linked lists used
  twice.
\<close>

section \<open>Operations\<close>

definition DoublyList :: "'a kheap_scheme \<Rightarrow> (u32 \<times> 'a kheap_scheme) kres" where
  "DoublyList s =
     kbind (ReqBytes 8 s) (\<lambda>(head, s).
     if head = NULL then Ok (NULL, s)
     else
       kbind (wr dl_prev dl_prev_update head head s) (\<lambda>s.
       kbind (wr dl_next dl_next_update head head s) (\<lambda>s. Ok (head, s))))"

definition DoublyListAdd :: "u32 \<Rightarrow> u32 \<Rightarrow> 'a kheap_scheme \<Rightarrow> 'a kheap_scheme kres" where
  "DoublyListAdd prev new_node s =
     kbind (rd dl_next prev s) (\<lambda>next.
     kbind (wr dl_next dl_next_update prev new_node s) (\<lambda>s.
     kbind (wr dl_prev dl_prev_update new_node prev s) (\<lambda>s.
     kbind (wr dl_next dl_next_update new_node next s) (\<lambda>s.
     wr dl_prev dl_prev_update next new_node s))))"

definition DoublyListRemove :: "u32 \<Rightarrow> 'a kheap_scheme \<Rightarrow> (u32 \<times> 'a kheap_scheme) kres" where
  "DoublyListRemove node s =
     kbind (rd dl_prev node s) (\<lambda>prev.
     kbind (rd dl_next node s) (\<lambda>next.
     kbind (wr dl_next dl_next_update prev next s) (\<lambda>s.
     kbind (rd dl_next node s) (\<lambda>next'.
     kbind (rd dl_prev node s) (\<lambda>prev'.
     kbind (wr dl_prev dl_prev_update next' prev' s) (\<lambda>s.
     kbind (wr dl_prev dl_prev_update node NULL s) (\<lambda>s.
     kbind (wr dl_next dl_next_update node NULL s) (\<lambda>s.
     Ok (node, s)))))))))"

definition IsDoublyListEmpty :: "u32 \<Rightarrow> 'a kheap_scheme \<Rightarrow> bool kres" where
  "IsDoublyListEmpty head s = kbind (rd dl_next head s) (\<lambda>next. Ok (next = head))"

definition DestructDoublyList :: "u32 \<Rightarrow> 'a kheap_scheme \<Rightarrow> 'a kheap_scheme kres" where
  "DestructDoublyList head s = RelBytes head s"

section \<open>Well-formed doubly linked lists\<close>

definition dll :: "'a kheap_scheme \<Rightarrow> u32 \<Rightarrow> u32 list \<Rightarrow> bool" where
  "dll s head xs \<longleftrightarrow> clist (dl_next s) head xs \<and> clist (dl_prev s) head (rev xs)"

lemma last_rev_Cons: "last (x # rev ys) = hd (ys @ [x])"
  by (cases ys) auto

lemma dll_links:
  assumes "dll s head (xs @ ys)"
  shows "dl_next s (last (head # xs)) = hd (ys @ [head])" "dl_prev s (hd (ys @ [head])) = last (head # xs)"
    "last (head # xs) \<noteq> 0" "hd (ys @ [head]) \<noteq> 0"
proof -
  have c: "clist (dl_next s) head (xs @ ys)" "clist (dl_prev s) head (rev ys @ rev xs)"
    using assms by (auto simp: dll_def)
  show "dl_next s (last (head # xs)) = hd (ys @ [head])" "last (head # xs) \<noteq> 0"
    using clist_split [OF c(1)] clist_last_nonzero [OF c(1)] by (auto split: list.splits)
  have "(case rev xs of [] \<Rightarrow> head | y # _ \<Rightarrow> y) = last (head # xs)"
    by (cases xs rule: rev_cases) auto
  then show "dl_prev s (hd (ys @ [head])) = last (head # xs)" "hd (ys @ [head]) \<noteq> 0"
    using clist_split [OF c(2)] clist_last_nonzero [OF c(2)] unfolding last_rev_Cons by simp_all
qed

lemma DoublyListAdd_ok:
  assumes d: "dll s head (xs @ ys)" and new: "new \<noteq> 0" "new \<notin> set (head # xs @ ys)"
  shows "\<exists>s'. DoublyListAdd (last (head # xs)) new s = Ok s' \<and> dll s' head (xs @ new # ys)"
proof -
  let ?p = "last (head # xs)" and ?n = "hd (ys @ [head])"
  let ?f = "(dl_next s)(?p := new, new := ?n)" and ?b = "(dl_prev s)(new := ?p, ?n := new)"
  note l = dll_links [OF d]
  have ne: "?p \<noteq> new" "?n \<noteq> new"
    using new(2) last_in_set [of "head # xs"] hd_in_set [of "ys @ [head]"] by fastforce+
  have "DoublyListAdd ?p new s = Ok (s\<lparr>dl_next := ?f, dl_prev := ?b\<rparr>)"
    using l new(1) by (simp add: DoublyListAdd_def del: last.simps)
  moreover have "clist ?f head (xs @ new # ys)"
    using clist_insert [of "dl_next s" head xs ys new] d new l(1) by (simp add: dll_def)
  moreover have "clist ?b head (rev (xs @ new # ys))"
    using clist_insert [of "dl_prev s" head "rev ys" "rev xs" new] d new l(2) ne(2)
    by (simp add: dll_def last_rev_Cons fun_upd_twist del: last.simps)
  ultimately show ?thesis by (simp add: dll_def)
qed

lemma DoublyListRemove_ok:
  assumes d: "dll s head (xs @ y # ys)"
  shows "\<exists>s'. DoublyListRemove y s = Ok (y, s') \<and> dll s' head (xs @ ys)"
proof -
  let ?p = "last (head # xs)" and ?n = "hd (ys @ [head])"
  let ?f = "(dl_next s)(?p := ?n, y := 0)" and ?b = "(dl_prev s)(?n := ?p, y := 0)"
  note l1 = dll_links [of s head xs "y # ys", OF d]
  have l2: "dl_next s y = ?n" "dl_prev s ?n = y" "?n \<noteq> 0"
    using dll_links [of s head "xs @ [y]" ys] d by auto
  have dist: "distinct (head # xs @ y # ys)"
    using d by (simp add: dll_def clist_def)
  then have ne: "?p \<noteq> y" "?n \<noteq> y"
    using last_in_set [of "head # xs"] hd_in_set [of "ys @ [head]"] by fastforce+
  have "DoublyListRemove y s = Ok (y, s\<lparr>dl_next := ?f, dl_prev := ?b\<rparr>)"
    using l1 l2 ne by (simp add: DoublyListRemove_def del: last.simps)
  moreover have "clist ?f head (xs @ ys)"
    using clist_delete [of "dl_next s" head xs y ys 0] d l2 by (simp add: dll_def)
  moreover have "clist ?b head (rev (xs @ ys))"
    using clist_delete [of "dl_prev s" head "rev ys" y "rev xs" 0] d l1
    by (simp add: dll_def last_rev_Cons del: last.simps)
  ultimately show ?thesis by (simp add: dll_def)
qed

lemma IsDoublyListEmpty_ok: "dll s head xs \<Longrightarrow> IsDoublyListEmpty head s = Ok (xs = [])"
  using clist_empty_iff [of "dl_next s" head xs]
  by (auto simp: IsDoublyListEmpty_def dll_def clist_def)

end
