(* ===== verification/LibProps.thy ===== *)
theory LibProps
  imports Boot DoublyLists
begin

text \<open>
  The properties of the data structures of \<^verbatim>\<open>kernel/lib\<close>: queues, doubly linked lists, maps and
  bitmaps.
\<close>

section \<open>Queues\<close>

text \<open>
  C16: queues refine lists.  For a family of well-formed queues without common nodes, \<^verbatim>\<open>Enqueue\<close>
  appends the node, \<^verbatim>\<open>Dequeue\<close> takes the first node or returns NULL from an empty queue, and
  \<^verbatim>\<open>QueueGetHead\<close> returns the first node; the other queues are not changed.
\<close>

theorem queue_refines_list:
  assumes "queues s Q M" "q \<in> Q"
  shows "(unlinked s Q M n \<longrightarrow> (\<exists>s'. Enqueue q n s = Ok s' \<and> queues s' Q (M(q := M q @ [n])))) \<and>
    (\<exists>s'. Dequeue q s = Ok (if M q = [] then NULL else hd (M q), s') \<and> queues s' Q (M(q := tl (M q)))) \<and>
    QueueGetHead q s = Ok (if M q = [] then NULL else hd (M q))"
proof (intro conjI impI)
  show "\<exists>s'. Enqueue q n s = Ok s' \<and> queues s' Q (M(q := M q @ [n]))" if "unlinked s Q M n"
    using kq.enq_ok [OF assms that] by blast
  show "\<exists>s'. Dequeue q s = Ok (if M q = [] then NULL else hd (M q), s') \<and> queues s' Q (M(q := tl (M q)))"
  proof (cases "M q")
    case Nil
    then have "M(q := tl (M q)) = M" by auto
    then show ?thesis using Nil kq.deq_nil [OF assms Nil] assms(1) by simp
  next
    case (Cons x xs)
    then show ?thesis using kq.deq_cons [OF assms Cons] by auto
  qed
  show "QueueGetHead q s = Ok (if M q = [] then NULL else hd (M q))"
    using kq.front_ok [OF assms] .
qed

lemma three_threads_queue: "queues three_threads {0x500} (\<lambda>_. [0x2010, 0x3010])"
  by (simp add: three_threads_def boot0_def queues_def lists_ok_def clist_def nodes_def)

theorem queue_refines_list_witness:
  "\<exists>s'. Dequeue 0x500 three_threads = Ok (0x2010, s') \<and> queues s' {0x500} ((\<lambda>_. [0x2010, 0x3010])(0x500 := [0x3010]))"
  using queue_refines_list [OF three_threads_queue, of "0x500"] by auto

text \<open>
  first in, first out: enqueuing any distinct unlinked nodes to an empty queue and dequeuing as
  often returns, and gives the nodes in the same order and the empty queue again.
\<close>

theorem queue_fifo:
  assumes "queues s Q M" "q \<in> Q" "M q = []" "distinct ns" "\<forall>n\<in>set ns. unlinked s Q M n"
  shows "\<exists>s' s''. enq_all Enqueue q ns s = Ok s' \<and> deq_times Dequeue q (length ns) s' = Ok (ns, s'') \<and> queues s'' Q M"
  by (rule kq.first_in_first_out [OF assms])

definition empty_queue :: ths where
  "empty_queue = boot0\<lparr>nxt := (\<lambda>_. 0)(0x600 := 0x600), q_head := (\<lambda>_. 0)(0x500 := 0x600), q_tail := (\<lambda>_. 0)(0x500 := 0x600)\<rparr>"

lemma empty_queue_ok: "queues empty_queue {0x500} (\<lambda>_. [])"
  by (simp add: empty_queue_def boot0_def queues_def lists_ok_def clist_def nodes_def)

theorem queue_fifo_witness:
  "\<exists>s' s''. enq_all Enqueue 0x500 [0x10, 0x20, 0x30] empty_queue = Ok s' \<and>
     deq_times Dequeue 0x500 3 s' = Ok ([0x10, 0x20, 0x30], s'')"
proof -
  have "\<forall>n\<in>set [0x10, 0x20, 0x30]. unlinked empty_queue {0x500} (\<lambda>_. []) n"
    by (simp add: unlinked_def nodes_def empty_queue_def)
  moreover have "distinct [0x10, 0x20, 0x30 :: u32]" "length [0x10, 0x20, 0x30 :: u32] = 3" by simp_all
  ultimately show ?thesis
    using queue_fifo [OF empty_queue_ok, of "0x500" "[0x10, 0x20, 0x30]"] by (metis singletonI)
qed

text \<open>
  a queue that \<^verbatim>\<open>queue()\<close> creates is empty and well formed, and its two blocks are new; the only
  other outcome is the NULL dereference when the memory for the structure is not granted.
\<close>

theorem queue_creation:
  assumes "alloc_ok (Suc (Suc n)) s"
  shows "queue s = Fault NullDeref \<or>
    (\<exists>q s' h. queue s = Ok (q, s') \<and> alloc_ok n s' \<and> queues s' {q} (\<lambda>_. []) \<and> h = q_head s' q \<and>
       held s' = insert (q, 3) (insert (h, 2) (held s)) \<and>
       granted (held s) 4 h \<and> granted (insert (h, 2) (held s)) 8 q)"
  by (rule queue_ok [OF assms])

theorem queue_creation_witness:
  "\<exists>s. DirectMappingInit boot0 = Ok s \<and> (queue s = Fault NullDeref \<or> (\<exists>q s'. queue s = Ok (q, s') \<and> queues s' {q} (\<lambda>_. [])))"
proof -
  obtain s where s: "DirectMappingInit boot0 = Ok s" "alloc_ok 5200 s"
    using DirectMappingInit_alloc [OF boot0_dma(1,2,4,5)] by blast
  have "alloc_ok (Suc (Suc 5198)) s" using s(2) by simp
  then show ?thesis using queue_creation [of 5198 s] s(1) by blast
qed

section \<open>Doubly linked lists\<close>

text \<open>
  adding a node to a doubly linked list inserts it after the given node, keeping both
  directions consistent, and removing it again restores the list.
\<close>

theorem doubly_add_remove:
  assumes "dll s head (xs @ ys)" "new \<noteq> 0" "new \<notin> set (head # xs @ ys)"
  shows "\<exists>s' s''. DoublyListAdd (last (head # xs)) new s = Ok s' \<and> dll s' head (xs @ new # ys) \<and>
    DoublyListRemove new s' = Ok (new, s'') \<and> dll s'' head (xs @ ys) \<and>
    IsDoublyListEmpty head s'' = Ok (xs @ ys = [])"
proof -
  obtain s' where s': "DoublyListAdd (last (head # xs)) new s = Ok s'" "dll s' head (xs @ new # ys)"
    using DoublyListAdd_ok [OF assms] by blast
  from DoublyListRemove_ok [OF s'(2)] obtain s'' where "DoublyListRemove new s' = Ok (new, s'')" "dll s'' head (xs @ ys)"
    by blast
  then show ?thesis using s' IsDoublyListEmpty_ok by blast
qed

theorem doubly_add_remove_witness:
  "\<exists>s' s''. DoublyListAdd 0x20 0x30 (boot0\<lparr>dl_next := (\<lambda>_. 0)(0x10 := 0x20, 0x20 := 0x10),
       dl_prev := (\<lambda>_. 0)(0x10 := 0x20, 0x20 := 0x10)\<rparr>) = Ok s' \<and> dll s' 0x10 [0x20, 0x30] \<and>
     DoublyListRemove 0x30 s' = Ok (0x30, s'') \<and> dll s'' 0x10 [0x20]"
  using doubly_add_remove [of "boot0\<lparr>dl_next := (\<lambda>_. 0)(0x10 := 0x20, 0x20 := 0x10),
      dl_prev := (\<lambda>_. 0)(0x10 := 0x20, 0x20 := 0x10)\<rparr>" "0x10" "[0x20]" "[]" "0x30"]
  by (auto simp: dll_def clist_def)

section \<open>Maps\<close>

text \<open>
  C39: the complete behaviour of \<^verbatim>\<open>MapGet\<close> on a well-formed map: NULL from an empty map; the value of
  the first entry, which is removed, when it has the key; otherwise the loop never ends.
\<close>

theorem map_get_behaviour:
  assumes "mapents s m es"
  shows "case es of
      [] \<Rightarrow> MapGet m key s = Ok (NULL, s)
    | e # es' \<Rightarrow> if me_key s e = key
        then \<exists>s'. MapGet m key s = Ok (me_value s e, s') \<and> mapents s' m es' else MapGet m key s = None"
  by (rule MapGet_cases [OF assms])

definition one_entry :: ths where
  "one_entry = boot0\<lparr>nxt := (\<lambda>_. 0)(0x100 := 0x208, 0x208 := 0x100), me_key := (\<lambda>_. 0)(0x200 := 7), me_value := (\<lambda>_. 0)(0x200 := 0x42)\<rparr>"

lemma one_entry_ok: "mapents one_entry 0x100 [0x200]"
  by (simp add: one_entry_def mapents_def clist_def node_of_me_def)

theorem map_get_behaviour_witness:
  "(\<exists>s'. MapGet 0x100 7 one_entry = Ok (0x42, s')) \<and> MapGet 0x100 8 one_entry = None"
  using map_get_behaviour [OF one_entry_ok, of 7] map_get_behaviour [OF one_entry_ok, of 8]
  by (auto simp: one_entry_def)

text \<open>
  an entry that was just added is found under its key, and looking it up takes it out again.
\<close>

theorem map_add_get:
  assumes "mapents s m es" "e \<noteq> 0" "node_of_me e \<noteq> 0" "node_of_me e \<noteq> m" "e \<notin> set es"
  shows "\<exists>s' s''. MapAdd m e s = Ok s' \<and> mapents s' m (e # es) \<and>
    MapGet m (me_key s e) s' = Ok (me_value s e, s'') \<and> mapents s'' m es"
proof -
  obtain h where h: "MapAdd m e s = Ok (s\<lparr>nxt := h\<rparr>)" "mapents (s\<lparr>nxt := h\<rparr>) m (e # es)"
    using MapAdd_ok [OF assms] by blast
  from MapGet_cases [OF h(2), of "me_key s e"] h show ?thesis by auto
qed

theorem map_add_get_witness:
  "\<exists>s' s''. MapAdd 0x100 0x300 one_entry = Ok s' \<and> MapGet 0x100 0 s' = Ok (0, s'') \<and> mapents s'' 0x100 [0x200]"
  using map_add_get [OF one_entry_ok, of "0x300"] by (auto simp: node_of_me_def one_entry_def)

section \<open>Bitmaps\<close>

text \<open>
  after setting bit \<open>i\<close> of a bitmap, a test of bit \<open>j\<close> answers true exactly if \<open>j\<close> was set or shares
  the bit: the routines reduce the index modulo 4 instead of 32, so the indices with the same
  quotient by 32 and the same remainder modulo 4 are one bit.
\<close>

theorem bitmap_set_test:
  assumes "bm_valid bm i" "bm_valid bm j"
  shows "kbind (SetBitmap bm i) (\<lambda>bm'. IsBitmapSet bm' j) =
    Ok (unat j div 32 = unat i div 32 \<and> unat j mod 4 = unat i mod 4 \<or> bm_get bm j)"
  using bmi.set_then_test [OF assms] by (simp add: bm_slot_def)

theorem bitmap_set_test_witness:
  "kbind (SetBitmap [0] 1) (\<lambda>bm'. IsBitmapSet bm' 5) = Ok True"
  using bitmap_set_test [of "[0]" 1 5] by (simp add: bm_valid_def)

text \<open>
  setting a clear bit and clearing it again gives a bitmap that answers every test as before.
\<close>

theorem bitmap_set_clear:
  assumes "bm_valid bm i" "\<not> bm_get bm i"
  shows "\<exists>bm' bm''. SetBitmap bm i = Ok bm' \<and> ClearBitmap bm' i = Ok bm'' \<and> (\<forall>j. bm_get bm'' j = bm_get bm j)"
  by (rule bmi.set_clear_restores [OF assms])

theorem bitmap_set_clear_witness:
  "\<exists>bm' bm''. SetBitmap [2] 0 = Ok bm' \<and> ClearBitmap bm' 0 = Ok bm'' \<and> (\<forall>j. bm_get bm'' j = bm_get [2] j)"
  by (rule bitmap_set_clear) (simp_all add: bm_valid_def bm_get_def bit_simps)

end
