(* ===== verification/TrapProps.thy ===== *)
theory TrapProps
  imports Boot
begin

text \<open>
  The properties of the descriptor tables, of the registry of interrupt handlers and of the
  interrupt controllers.

  The registry and the masks are driven by sequences of operations.  \<open>reg_ops\<close> and \<open>irq_ops\<close> are the
  iterated transitions; an invariant of one operation carries over to every sequence.
\<close>

section \<open>The registry of handlers\<close>

datatype reg_op = Reg u32 handler | Remove u32

primrec reg_op_vec :: "reg_op \<Rightarrow> u32" where
  "reg_op_vec (Reg v h) = v"
| "reg_op_vec (Remove v) = v"

primrec reg_do :: "reg_op \<Rightarrow> 'a ints_scheme \<Rightarrow> 'a ints_scheme kres" where
  "reg_do (Reg v h) s = kbind (RegIntrHandler v h s) (\<lambda>(r, s). Ok s)"
| "reg_do (Remove v) s = RemoveIntrHandler v s"

inductive reg_ops :: "'a ints_scheme \<Rightarrow> reg_op list \<Rightarrow> 'a ints_scheme \<Rightarrow> bool" where
  reg_nil: "reg_ops s [] s"
| reg_cons: "reg_do x s = Ok s' \<Longrightarrow> reg_ops s' xs s'' \<Longrightarrow> reg_ops s (x # xs) s''"

inductive_cases reg_nilE [elim!]: "reg_ops s [] s'"
inductive_cases reg_consE [elim!]: "reg_ops s (x # xs) s''"

lemma reg_do_ok:
  assumes "gates_match s" "unat (reg_op_vec x) < 256"
  shows "\<exists>s'. reg_do x s = Ok s' \<and> gates_match s'"
proof (cases x)
  case (Reg v h)
  then show ?thesis using gates_match_reg [of s v h] assms by auto
next
  case (Remove v)
  then show ?thesis using gates_match_remove [of s v] assms by auto
qed

lemma reg_ops_exist:
  "gates_match s \<Longrightarrow> \<forall>x\<in>set xs. unat (reg_op_vec x) < 256 \<Longrightarrow> \<exists>s'. reg_ops s xs s'"
proof (induction xs arbitrary: s)
  case Nil
  then show ?case by (auto intro: reg_nil)
next
  case (Cons x xs)
  obtain s1 where s1: "reg_do x s = Ok s1" "gates_match s1"
    using reg_do_ok [of s x] Cons.prems by auto
  with Cons.IH [of s1] Cons.prems show ?case by (auto intro: reg_cons)
qed

lemma reg_ops_invariant:
  "reg_ops s xs s' \<Longrightarrow> gates_match s \<Longrightarrow> \<forall>x\<in>set xs. unat (reg_op_vec x) < 256 \<Longrightarrow> gates_match s'"
proof (induction rule: reg_ops.induct)
  case (reg_cons x s s' xs s'')
  obtain s1 where "reg_do x s = Ok s1" "gates_match s1"
    using reg_do_ok [of s x] reg_cons.prems by auto
  then show ?case using reg_cons by auto
qed simp

text \<open>
  C12: after \<^verbatim>\<open>IntrInit\<close>, any sequence of registrations and removals for the 256 vectors can be
  executed, and in every state it reaches a gate of the descriptor table is present exactly if
  the vector has a handler.  So no interrupt is delivered to a vector without one.
\<close>

theorem registry_consistent:
  assumes "tables256 s" "\<forall>v<256. intr_handler s ! v = None" "\<forall>x\<in>set xs. unat (reg_op_vec x) < 256"
  shows "\<exists>s0. IntrInit s = Ok s0 \<and> (\<exists>s'. reg_ops s0 xs s') \<and> (\<forall>s'. reg_ops s0 xs s' \<longrightarrow> gates_match s')"
proof -
  obtain s0 where s0: "IntrInit s = Ok s0" "gates_match s0"
    using IntrInit_ok [OF assms(1,2)] by blast
  then show ?thesis using reg_ops_exist [OF s0(2) assms(3)] reg_ops_invariant [OF _ s0(2) assms(3)] by blast
qed

theorem registry_consistent_witness:
  "\<exists>s0 s'. IntrInit boot0 = Ok s0 \<and> reg_ops s0 [Reg 33 H_Keyboard, Remove 33, Reg 46 H_Ide] s' \<and> gates_match s'"
proof -
  have "\<forall>x\<in>set [Reg 33 H_Keyboard, Remove 33, Reg 46 H_Ide]. unat (reg_op_vec x) < 256" by simp
  from registry_consistent [OF boot0_ints this] show ?thesis by metis
qed

text \<open>The gate that a vector has: its entry code, the segment and the type of \<^verbatim>\<open>IdtInit\<close>, and the present bit exactly if there is a handler.\<close>

definition gate_for :: "u32 \<Rightarrow> nat \<Rightarrow> handler option \<Rightarrow> IntrGateDescriptor" where
  "gate_for a v h = mkgate a (if v = 0x80 then 0x1b else 0x8)
     ((if v = 0x80 then 0x6f00 else 0x0e00) OR (if h = None then 0 else 0x8000))"

definition gates_for :: "u32 list \<Rightarrow> 'a ints_scheme \<Rightarrow> bool" where
  "gates_for offs s \<longleftrightarrow> tables256 s \<and> (\<forall>v<256. idt s ! v = gate_for (offs ! v) v (intr_handler s ! v)) \<and>
     idtr_reg (mach s) = (0x7ff, kIdtBaseAddr)"

lemma gate_for_present:
  "(gate_for a v h)\<lparr>gate_type := gate_type (gate_for a v h) OR 0x8000\<rparr> = gate_for a v (Some k)"
  "(gate_for a v h)\<lparr>gate_type := gate_type (gate_for a v h) AND 0x7fff\<rparr> = gate_for a v None"
  by (auto simp: gate_for_def mkgate_def)

lemma gates_for_registry:
  "RegIntrHandler v h s = Ok (b, s') \<Longrightarrow> gates_for offs s \<Longrightarrow> gates_for offs s'"
  "RemoveIntrHandler v s = Ok s' \<Longrightarrow> gates_for offs s \<Longrightarrow> gates_for offs s'"
  by (auto simp: gates_for_def tables256_def RegIntrHandler_def RemoveIntrHandler_def set_handler_def EnableIdt_def DisableIdt_def
      kbind_eq_Ok nth_list_update gate_for_present dest!: bm_length_set bm_length_clear split: if_splits)

lemma gates_for_do: "reg_do x s = Ok s' \<Longrightarrow> gates_for offs s \<Longrightarrow> gates_for offs s'"
  by (cases x) (auto simp: kbind_eq_Ok dest: gates_for_registry)

lemma gates_for_ops: "reg_ops s xs s' \<Longrightarrow> gates_for offs s \<Longrightarrow> gates_for offs s'"
  by (induction rule: reg_ops.induct) (auto dest: gates_for_do)

lemma IntrInit_gates_for:
  assumes "IntrInit s = Ok s'" "tables256 s" "\<forall>v<256. intr_handler s ! v = None"
  shows "gates_for (intr_vec s) s'"
proof -
  obtain m g where i: "IdtInit s = Ok (s\<lparr>mach := m, tss_ss0 := kKCodeSeg, idt := g\<rparr>)" "idtr_reg m = (0x7ff, kIdtBaseAddr)" "length g = 256"
     "\<forall>j<256. g ! j = (if j = 0x80 then mkgate (intr_vec s ! j) 0x1b 0x6f00 else mkgate (intr_vec s ! j) 0x8 0x0e00)"
    using IdtInit_ok [of s] assms(2) by (auto simp: tables256_def)
  let ?s1 = "s\<lparr>mach := m, tss_ss0 := kKCodeSeg, idt := g\<rparr>"
  obtain bm s2 s3 b where r: "Bitmap (IntrVecMap (PicInit ?s1)) 8 0 = Ok bm"
      "for_up kIdtExcNum 0 (\<lambda>i s. kbind (RegIntrHandler (of_nat i) H_Exc s) (\<lambda>(r, s). Ok s)) ((PicInit ?s1)\<lparr>IntrVecMap := bm\<rparr>) = Ok s2"
      "RemoveIntrHandler kPfVec s2 = Ok s3" "RegIntrHandler kPfVec H_Pf s3 = Ok (b, s')"
    using assms(1) i(1) by (auto simp: IntrInit_def Let_def kbind_eq_Ok)
  have p: "PicInit ?s1 = ?s1\<lparr>mach := mach (PicInit ?s1)\<rparr>" "idtr_reg (mach (PicInit ?s1)) = idtr_reg m"
    by (simp_all add: PicInit_def koutb_def outb_def Let_def)
  have "IntrVecMap (PicInit ?s1) = IntrVecMap s" by (subst p(1)) simp
  then have "length bm = 8" using r(1) Bitmap_zero [of 8 "IntrVecMap s"] assms(2) by (auto simp: tables256_def)
  then have "gates_for (intr_vec s) ((PicInit ?s1)\<lparr>IntrVecMap := bm\<rparr>)"
    using i p(2) assms(2,3) by (subst p(1)) (auto simp: gates_for_def tables256_def gate_for_def)
  then have "gates_for (intr_vec s) s2"
    by (rule for_up_keeps_pred [OF r(2)]) (auto simp: kbind_eq_Ok dest: gates_for_registry)
  then show ?thesis using gates_for_registry(2) [OF r(3)] gates_for_registry(1) [OF r(4)] by blast
qed

text \<open>
  C17: the descriptor table is well formed in every state of the registry: after \<^verbatim>\<open>IntrInit\<close> and any sequence of registrations
  and removals, the processor's table register covers exactly the 256 gates, and the gate of each vector is made of the address of
  its entry code, the kernel's code segment and the type of an interrupt gate for ring 0 (the user's code segment and a trap gate
  for ring 3 for vector \<^verbatim>\<open>0x80\<close>), with the present bit set exactly if the vector has a handler.
\<close>

theorem gates_well_formed:
  assumes "tables256 s" "\<forall>v<256. intr_handler s ! v = None" "IntrInit s = Ok s0" "reg_ops s0 xs s'"
  shows "length (idt s') = 256 \<and> idtr_reg (mach s') = (256 * 8 - 1, kIdtBaseAddr) \<and>
    (\<forall>v<256. gate_offset (idt s' ! v) = intr_vec s ! v \<and> seg_sel (idt s' ! v) = (if v = 0x80 then ucast kUCodeSeg else ucast kKCodeSeg) \<and>
       gate_type (idt s' ! v) = (if v = 0x80 then 0x6f00 else 0x0e00) OR (if intr_handler s' ! v = None then 0 else 0x8000))"
proof -
  have "gates_for (intr_vec s) s'" using gates_for_ops [OF assms(4) IntrInit_gates_for [OF assms(3,1,2)]] .
  then show ?thesis by (auto simp: gates_for_def tables256_def gate_for_def kUCodeSeg_def kKCodeSeg_def) (simp_all add: mkgate_def)
qed

theorem gates_well_formed_witness:
  "\<exists>s0 s'. IntrInit boot0 = Ok s0 \<and> reg_ops s0 [Remove 3] s' \<and> gate_type (idt s' ! 2) = 0x8e00 \<and> gate_type (idt s' ! 3) = 0x0e00 \<and>
     seg_sel (idt s' ! 128) = 0x1b"
proof -
  obtain s0 where s0: "IntrInit boot0 = Ok s0" "gates_match s0" "intr_handler s0 ! 2 = Some H_Exc"
    using IntrInit_ok [OF boot0_ints] by fastforce
  then obtain s' where s': "reg_do (Remove 3) s0 = Ok s'" using reg_do_ok [of s0 "Remove 3"] by fastforce
  then have "intr_handler s' ! 2 = Some H_Exc" "intr_handler s' ! 3 = None"
    using s0(3) by (auto simp: RemoveIntrHandler_def set_handler_def DisableIdt_def kbind_eq_Ok split: if_splits)
  moreover have r: "reg_ops s0 [Remove 3] s'" by (rule reg_cons [OF s' reg_nil])
  ultimately have "gate_type (idt s' ! 2) = 0x8e00" "gate_type (idt s' ! 3) = 0x0e00" "seg_sel (idt s' ! 128) = 0x1b"
    using gates_well_formed [OF boot0_ints s0(1) r] by (simp_all add: kUCodeSeg_def)
  with s0(1) r show ?thesis by (intro exI [of _ s0] exI [of _ s'] conjI)
qed

text \<open>
  C29: \<^verbatim>\<open>IntrInit\<close> is meant to register the default handler for the 32 exceptions and the page fault
  handler.  Because the bitmap confuses vectors that agree modulo 4, only vectors 0 to 3 get the
  default handler and only vector 14 the page fault handler; all gates point to their entry code.
\<close>

theorem intr_init_handlers:
  assumes "tables256 s" "\<forall>v<256. intr_handler s ! v = None"
  shows "\<exists>s'. IntrInit s = Ok s' \<and>
    (\<forall>v<256. intr_handler s' ! v = (if v < 4 then Some H_Exc else if v = 14 then Some H_Pf else None) \<and>
             gate_offset (idt s' ! v) = intr_vec s ! v)"
  using IntrInit_ok [OF assms] by blast

theorem intr_init_handlers_witness:
  "\<exists>s'. IntrInit boot0 = Ok s' \<and> intr_handler s' ! 3 = Some H_Exc \<and> intr_handler s' ! 13 = None \<and>
     intr_handler s' ! 14 = Some H_Pf"
  using intr_init_handlers [OF boot0_ints] by auto

text \<open>
  a registration answers false and changes nothing when the vector's bit is taken; otherwise it
  answers true, stores the handler and enables the gate.
\<close>

theorem register_once:
  assumes "gates_match s" "unat v < 256"
  shows "\<exists>r s'. RegIntrHandler v h s = Ok (r, s') \<and> (r \<longleftrightarrow> \<not> vec_used s v) \<and> gates_match s' \<and>
    intr_handler s' = (if r then (intr_handler s)[unat v := Some h] else intr_handler s)"
  using gates_match_reg [OF assms] by blast

theorem register_once_witness:
  "\<exists>r s'. RegIntrHandler 33 H_Keyboard boot0 = Ok (r, s') \<and> r \<and> intr_handler s' ! 33 = Some H_Keyboard"
proof -
  have g: "gates_match boot0"
    by (simp add: gates_match_def tables256_def boot0_def gate_present_def zero_gate_def)
  have "\<not> vec_used boot0 33" by (simp add: vec_used_def bm_get_def boot0_def)
  moreover have "length (intr_handler boot0) = 256" by (simp add: boot0_def)
  ultimately show ?thesis using register_once [OF g, of 33 H_Keyboard] by auto
qed

section \<open>The interrupt controllers\<close>

datatype irq_op = Unmask u32 | Mask u32

primrec irq_do :: "irq_op \<Rightarrow> 'a kbase_scheme \<Rightarrow> 'a kbase_scheme kres" where
  "irq_do (Unmask v) s = EnableIrq v s"
| "irq_do (Mask v) s = DisableIrq v s"

primrec irq_run :: "irq_op list \<Rightarrow> 'a kbase_scheme \<Rightarrow> 'a kbase_scheme kres" where
  "irq_run [] s = Ok s"
| "irq_run (x # xs) s = kbind (irq_do x s) (irq_run xs)"

primrec irq_op_ok :: "irq_op \<Rightarrow> bool" where
  "irq_op_ok (Unmask v) \<longleftrightarrow> 0x20 \<le> v \<and> v < 0x30"
| "irq_op_ok (Mask v) \<longleftrightarrow> 0x20 \<le> v \<and> v < 0x30"

text \<open>The specification: a set of masked lines.\<close>

primrec irq_spec :: "irq_op \<Rightarrow> nat set \<Rightarrow> nat set" where
  "irq_spec (Unmask v) A = A - {unat v - 32}"
| "irq_spec (Mask v) A = insert (unat v - 32) A"

definition masked_set :: "'a kbase_scheme \<Rightarrow> nat set" where
  "masked_set s = {irq. irq < 16 \<and> irq_masked s irq}"

lemma irq_line_16: "0x20 \<le> v \<Longrightarrow> v < 0x30 \<Longrightarrow> unat (v :: u32) - 32 < 16"
  by (auto simp: u32_le_iff_unat u32_less_iff_unat)

lemma irq_do_ok:
  assumes "imr_dev (dev (mach s))" "irq_op_ok x"
  shows "\<exists>s'. irq_do x s = Ok s' \<and> imr_dev (dev (mach s')) \<and> masked_set s' = irq_spec x (masked_set s)"
proof (cases x)
  case (Unmask v)
  then have v: "0x20 \<le> v" "v < 0x30" using assms(2) by auto
  show ?thesis using EnableIrq_ok [OF assms(1) v] assms(1) Unmask by (auto simp: masked_set_def)
next
  case (Mask v)
  then have v: "0x20 \<le> v" "v < 0x30" using assms(2) by auto
  show ?thesis using DisableIrq_ok [OF assms(1) v] assms(1) Mask irq_line_16 [OF v] by (auto simp: masked_set_def)
qed

lemma irq_run_ok:
  "imr_dev (dev (mach s)) \<Longrightarrow> \<forall>x\<in>set xs. irq_op_ok x \<Longrightarrow>
   \<exists>s'. irq_run xs s = Ok s' \<and> masked_set s' = fold irq_spec xs (masked_set s)"
proof (induction xs arbitrary: s)
  case (Cons x xs)
  obtain s1 where s1: "irq_do x s = Ok s1" "imr_dev (dev (mach s1))" "masked_set s1 = irq_spec x (masked_set s)"
    using irq_do_ok [of s x] Cons.prems by auto
  with Cons.IH [of s1] Cons.prems show ?case by auto
qed simp

lemma masked_set_PicInit: "masked_set (PicInit s) = {irq. irq < 16 \<and> irq \<noteq> 2}"
  using PicInit_masks by (auto simp: masked_set_def)

lemma dev_PicInit: "dev (mach (PicInit s)) = dev (mach s)"
  by (simp add: PicInit_def koutb_def outb_def Let_def)

text \<open>
  C22: provided the mask registers of the controllers can be read back, any sequence of \<^verbatim>\<open>EnableIrq\<close> and
  \<^verbatim>\<open>DisableIrq\<close> for the 16 lines after \<^verbatim>\<open>PicInit\<close> returns and keeps exactly the set of masked lines
  that the sequence describes, starting from all lines but the cascade.
\<close>

theorem irq_masks_refine:
  assumes "imr_dev (dev (mach s))" "\<forall>x\<in>set xs. irq_op_ok x"
  shows "\<exists>s'. irq_run xs (PicInit s) = Ok s' \<and> masked_set s' = fold irq_spec xs ({..<16} - {2})"
proof -
  have "{..<16} - {2} = {irq. irq < 16 \<and> irq \<noteq> (2 :: nat)}" by auto
  then show ?thesis
    using irq_run_ok [of "PicInit s" xs] assms by (simp add: dev_PicInit masked_set_PicInit)
qed

theorem irq_masks_refine_witness:
  "\<exists>s'. irq_run [Unmask 0x20, Unmask 0x2e, Mask 0x20] (PicInit boot0) = Ok s' \<and>
     masked_set s' = {..<16} - {2, 14}"
proof -
  have "fold irq_spec [Unmask 0x20, Unmask 0x2e, Mask 0x20] ({..<16} - {2}) = {..<16} - {2, 14}" by auto
  then show ?thesis using irq_masks_refine [OF boot0_imr, of "[Unmask 0x20, Unmask 0x2e, Mask 0x20]"] by auto
qed

section \<open>Descriptor tables\<close>

text \<open>
  \<^verbatim>\<open>IdtInit\<close> fills all 256 gates: each holds the address of its entry code; the system call
  gate can be used from ring 3 and has the user code selector, all others are for ring 0 with
  the kernel code selector, and none is present yet.
\<close>

theorem idt_init_gates:
  assumes "length (idt s) = 256" "length (intr_vec s) = 256"
  shows "\<exists>s'. IdtInit s = Ok s' \<and> idtr_reg (mach s') = (0x7ff, kIdtBaseAddr) \<and>
    (\<forall>j<256. gate_offset (idt s' ! j) = intr_vec s ! j \<and> \<not> gate_present (idt s' ! j) \<and>
       seg_sel (idt s' ! j) = (if j = 0x80 then 0x1b else 0x8) \<and> gate_dpl (idt s' ! j) = (if j = 0x80 then 3 else 0))"
proof -
  obtain m g where i: "IdtInit s = Ok (s\<lparr>mach := m, tss_ss0 := kKCodeSeg, idt := g\<rparr>)" "idtr_reg m = (0x7ff, kIdtBaseAddr)"
     "\<forall>j<256. g ! j = (if j = 0x80 then mkgate (intr_vec s ! j) 0x1b 0x6f00 else mkgate (intr_vec s ! j) 0x8 0x0e00)"
    using IdtInit_ok [OF assms] by blast
  have "gate_offset (g ! j) = intr_vec s ! j" "\<not> gate_present (g ! j)" "seg_sel (g ! j) = (if j = 0x80 then 0x1b else 0x8)"
    "gate_dpl (g ! j) = (if j = 0x80 then 3 else 0)" if "j < 256" for j
    using i(3) that by (simp_all add: gate_present_def gate_dpl_def mkgate_def bit_simps gate_offset_def offset_fields)
  then show ?thesis using i(1,2) by auto
qed

theorem idt_init_gates_witness:
  "\<exists>s'. IdtInit boot0 = Ok s' \<and> gate_dpl (idt s' ! 0x80) = 3 \<and> gate_dpl (idt s' ! 14) = 0"
  using idt_init_gates [of boot0] boot0_ints(1) by (auto simp: tables256_def)

text \<open>
  \<^verbatim>\<open>GdtInit\<close> builds four flat 4 GB segments, code and data for ring 0 and for ring 3, an absent
  null descriptor and a 104 byte task segment.  The limit it loads for the table is the low half of
  the address of the function \<^verbatim>\<open>GdtLimit\<close>, whose value was meant.
\<close>

theorem gdt_init_segments:
  "\<exists>s'. GdtInit adr s = Ok s' \<and>
     (\<forall>i\<in>{1,2,3,4}. seg_base (gdt_at s' (gdt_entry i)) = 0 \<and>
        seg_limit (gdt_at s' (gdt_entry i)) = 0xffffffff \<and> seg_present (gdt_at s' (gdt_entry i)) \<and>
        (seg_is_code (gdt_at s' (gdt_entry i)) \<longleftrightarrow> i = 1 \<or> i = 3) \<and>
        (seg_is_data (gdt_at s' (gdt_entry i)) \<longleftrightarrow> i = 2 \<or> i = 4) \<and>
        seg_dpl (gdt_at s' (gdt_entry i)) = (if i \<le> 2 then 0 else 3)) \<and>
     \<not> seg_present (gdt_at s' (gdt_entry 0)) \<and>
     seg_base (gdt_at s' (gdt_entry 5)) = kTssBaseAddr \<and> seg_limit (gdt_at s' (gdt_entry 5)) = 103 \<and>
     gdtr_reg (mach s') = (ucast adr, kGdtBaseAddr)"
  using GdtInit_ok [of adr s] by blast

theorem gdt_init_segments_witness:
  "\<exists>s'. GdtInit 0xc0101234 boot0 = Ok s' \<and> gdtr_reg (mach s') = (0x1234, 0xc0000000)"
  using gdt_init_segments [of "0xc0101234" boot0] by (auto simp: kGdtBaseAddr_def)

text \<open>
  the scattered fields of a segment descriptor give back the base address, and the limit when it
  is counted in bytes and fits its 20 bits.
\<close>

theorem descriptor_roundtrip:
  assumes "set_gdt_entry p b l a f s = Ok s'"
  shows "seg_base (gdt_at s' p) = b \<and> (\<not> bit f 3 \<and> unat l < 2 ^ 20 \<longrightarrow> seg_limit (gdt_at s' p) = l)"
  using seg_base_roundtrip [OF assms] seg_limit_roundtrip [OF assms] by blast

theorem descriptor_roundtrip_witness:
  "\<exists>s'. set_gdt_entry 0xc0000028 0xc001e000 103 0x89 1 boot0 = Ok s' \<and> seg_base (gdt_at s' 0xc0000028) = 0xc001e000"
proof -
  obtain s' where s': "set_gdt_entry 0xc0000028 0xc001e000 103 0x89 1 boot0 = Ok s'"
    by (simp add: set_gdt_entry_def)
  then show ?thesis using descriptor_roundtrip [OF s'] by blast
qed

end
