(* ===== verification/ConsoleProps.thy ===== *)
theory ConsoleProps
  imports Boot
begin

text \<open>The properties of the console.\<close>

text \<open>
  C37: for every format whose conversions have arguments of their kind, \<^verbatim>\<open>printf\<close> returns, leaves the
  cursor on the screen and writes nothing outside the 3840 bytes of video memory.
\<close>

theorem printf_stays_on_screen:
  assumes "con_ok s" "fmt_ok fmt args"
  shows "\<exists>s'. printf fmt args s = Ok s' \<and> con_ok s' \<and> (\<forall>a. a \<notin> screen \<longrightarrow> vmem s' a = vmem s a)"
  using printf_ok [OF assms] by (auto simp: con_step_def)

theorem printf_stays_on_screen_witness:
  "\<exists>s'. printf ''page %8x of %s'' [PInt 0xbeef, PStr None] con0 = Ok s' \<and> con_ok s'"
proof -
  have "fmt_ok ''page %8x of %s'' [PInt 0xbeef, PStr None]"
    by (simp add: is_digit_def arg_ok_def)
  then show ?thesis using printf_stays_on_screen [OF boot0_con(2)] by blast
qed

text \<open>
  C38: reading the string that \<^verbatim>\<open>itoa\<close> produces gives the number back: the signed value for \<^verbatim>\<open>%d\<close> and the
  unsigned one for the other bases; only the smallest signed integer has no result.
\<close>

theorem itoa_roundtrip:
  "case itoa base d of
     Some (Inr p) \<Rightarrow> scan_num base p = (if base = CHR ''d'' then sint d else int (unat d))
   | Some (Inl e) \<Rightarrow> base = CHR ''d'' \<and> d = 0x80000000 \<and> e = IntOverflow
   | None \<Rightarrow> False"
proof -
  have "itoa base d \<noteq> None" by (simp add: itoa_eq)
  then show ?thesis
    using itoa_scan [of base d] itoa_fault [of base d] by (auto split: option.split sum.split)
qed

text \<open>
  the string that \<^verbatim>\<open>itoa\<close> writes, with its sign and its terminator, fits the 20 bytes that
  \<^verbatim>\<open>printf\<close> provides.
\<close>

theorem itoa_fits_buffer:
  assumes "itoa base d = Ok p"
  shows "length p + 1 \<le> 20"
  using assms itoa_loop_bound [of base d] itoa_loop_bound [of base "- d"]
  by (auto simp: itoa_eq split: if_splits)

theorem itoa_fits_buffer_witness: "length ''255'' + 1 \<le> (20 :: nat) \<and> itoa CHR ''d'' 255 = Ok ''255''"
proof -
  have "itoa CHR ''d'' 255 = Ok ''255''" by code_simp
  then show ?thesis using itoa_fits_buffer by blast
qed

text \<open>
  \<^verbatim>\<open>cls\<close> returns from every state, clears all 3840 bytes of the screen, changes nothing else, and
  puts the cursor on the screen.
\<close>

theorem cls_clears_screen:
  "\<exists>s'. cls s = Ok s' \<and> con_ok s' \<and> (\<forall>i<3840. vmem s' (VIDEO + of_nat i) = 0) \<and>
    (\<forall>a. a \<notin> screen \<longrightarrow> vmem s' a = vmem s a)"
  by (rule cls_ok)

theorem cls_clears_screen_witness:
  "\<exists>s'. cls (con0\<lparr>vmem := (\<lambda>_. 7)\<rparr>) = Ok s' \<and> vmem s' (VIDEO + of_nat 5) = 0 \<and> con_ok s'"
proof -
  obtain s' where "cls (con0\<lparr>vmem := (\<lambda>_. 7)\<rparr>) = Ok s'" "con_ok s'" "\<forall>i<3840. vmem s' (VIDEO + of_nat i) = 0"
    using cls_clears_screen [of "con0\<lparr>vmem := (\<lambda>_. 7)\<rparr>"] by blast
  moreover have "(5 :: nat) < 3840" by simp
  ultimately show ?thesis by blast
qed

end
