(* ===== verification/Process.thy ===== *)
theory Process
  imports Sched "HOL-Library.Signed_Division"
begin

text \<open>
  \<^verbatim>\<open>kernel/process/process.c\<close> and the page fault handler of \<^verbatim>\<open>kernel/memory/paging.c\<close>.

  The fields of a \<^verbatim>\<open>Pcb\<close> are the words at the offsets \<open>off_\<dots>\<close> of the common word store (see the
  theory \<open>Threads\<close>).  \<^verbatim>\<open>ProcManagerInit\<close> advances a \<^verbatim>\<open>ListNode *\<close>, 4 bytes, where it means to
  advance a \<^verbatim>\<open>Pcb\<close>, 48 bytes, so the sixteen structures of its pool overlap; the lemmas below say
  which processes can be created from such a pool.

  The wait of \<^verbatim>\<open>DestructAllSons\<close> for a son to die is a loop without a body: it is modelled as it
  runs when nothing interrupts it, and does not return unless the son is dead already.
\<close>

section \<open>Data\<close>

definition kProcInitNum :: nat where "kProcInitNum = 0x10"

definition sizeof_Pcb :: u32 where "sizeof_Pcb = 48"

definition off_code_addr :: u32 where "off_code_addr = 12"

definition off_code_size :: u32 where "off_code_size = 16"

definition off_data_addr :: u32 where "off_data_addr = 20"

definition off_data_size :: u32 where "off_data_size = 24"

definition off_father :: u32 where "off_father = 28"

definition off_left :: u32 where "off_left = 32"

definition off_right :: u32 where "off_right = 36"

definition off_node :: u32 where "off_node = 40"

definition off_thread_list :: u32 where "off_thread_list = 44"

lemmas pcb_offsets = off_pid_def off_page_dir_def off_state_def off_code_addr_def off_code_size_def
  off_data_addr_def off_data_size_def off_father_def off_left_def off_right_def off_node_def
  off_thread_list_def pcb_left_def pcb_right_def pcb_node_def pcb_thread_list_def

lemma pcb_of_node_add [simp]: "pcb_of_node (p + 40) = p"
  by (simp add: pcb_of_node_def)

section \<open>Operations\<close>

text \<open>One turn of the loop that builds the pool; \<open>cur\<close> is the \<^verbatim>\<open>ListNode *\<close> of the source.\<close>

definition ProcPoolStep :: "nat \<Rightarrow> u32 \<times> 'a ths_scheme \<Rightarrow> (u32 \<times> 'a ths_scheme) kres" where
  "ProcPoolStep i = (\<lambda>(cur, s).
     kbind (ListAdd (free_proc_list s) cur s) (\<lambda>s.
     let tmp = pcb_of_node cur in
     kbind (wr_pcb off_pid tmp (of_nat kProcInitNum - of_nat i) s) (\<lambda>s.
     kbind (wr_pcb off_thread_list tmp NULL s) (\<lambda>s.
     kbind (wr_pcb off_left tmp NULL s) (\<lambda>s.
     kbind (wr_pcb off_right tmp NULL s) (\<lambda>s.
     kbind (wr_pcb off_father tmp NULL s) (\<lambda>s.
     kbind (wr_pcb off_page_dir tmp NULL s) (\<lambda>s.
     Ok (cur + 4, s)))))))))"

definition ProcManagerInit :: "'a ths_scheme \<Rightarrow> 'a ths_scheme kres" where
  "ProcManagerInit s =
     kbind (ReqBytes (of_nat kProcInitNum * sizeof_Pcb) s) (\<lambda>(pcb_list, s).
     kbind (List s) (\<lambda>(l, s).
     let s = s\<lparr>free_proc_list := l\<rparr> in
     kbind (for_up kProcInitNum 0 ProcPoolStep (pcb_node pcb_list, s)) (\<lambda>(cur, s).
     kbind (ReqBytes sizeof_Pcb s) (\<lambda>(k, s).
     let s = s\<lparr>k_pcb := k\<rparr> in
     kbind (wr_pcb off_pid k 0 s) (\<lambda>s.
     kbind (wr_pcb off_node k NULL s) (\<lambda>s.
     kbind (wr_pcb off_page_dir k (get_cr 3 (mach s)) s) (\<lambda>s.
     kbind (wr_pcb off_thread_list k (pcb_thread_list k) s) (\<lambda>s.
     kbind (wr_pcb off_father k NULL s) (\<lambda>s.
     kbind (wr_pcb off_left k NULL s) (\<lambda>s.
     kbind (wr_pcb off_right k NULL s) (\<lambda>s.
     wr_pcb off_state k (state_word RUN) s)))))))))))"

definition AddSon :: "u32 \<Rightarrow> u32 \<Rightarrow> 'a lheap_scheme \<Rightarrow> 'a lheap_scheme kres" where
  "AddSon son father s =
     kbind (kwhile (\<lambda>tmp. kbind (get_next tmp s) (\<lambda>n. Ok (n \<noteq> NULL)))
                   (\<lambda>tmp. get_next tmp s) father) (\<lambda>tmp.
     set_next tmp son s)"

definition CopyField :: "u32 \<Rightarrow> u32 \<Rightarrow> u32 \<Rightarrow> 'a lheap_scheme \<Rightarrow> 'a lheap_scheme kres" where
  "CopyField off new_pcb father s = kbind (rd_pcb off father s) (\<lambda>v. wr_pcb off new_pcb v s)"

definition CreateProc :: "u32 \<Rightarrow> 'a ths_scheme \<Rightarrow> (u32 \<times> 'a ths_scheme) kres" where
  "CreateProc father s =
     kbind (IsListEmpty (free_proc_list s) s) (\<lambda>e.
     if e then Ok (NULL, s)
     else
       kbind (ListRemove (free_proc_list s) s) (\<lambda>(node, s).
       let new_pcb = pcb_of_node node in
       kbind (wr_pcb off_state new_pcb (state_word WAIT) s) (\<lambda>s.
       kbind (wr_pcb off_thread_list new_pcb (pcb_thread_list new_pcb) s) (\<lambda>s.
       kbind (ReqBytes kPdSize s) (\<lambda>(pd, s).
       kbind (wr_pcb off_page_dir new_pcb pd s) (\<lambda>s.
       kbind (rd_pcb off_page_dir new_pcb s) (\<lambda>cur_pd.
       kbind (rd_pcb off_page_dir father s) (\<lambda>father_pd.
       kbind (UPdClone cur_pd father_pd s) (\<lambda>s.
       kbind (wr_pcb off_father new_pcb father s) (\<lambda>s.
       kbind (AddSon (pcb_right new_pcb) (pcb_left father) s) (\<lambda>s.
       kbind (wr_pcb off_node new_pcb NULL s) (\<lambda>s.
       kbind (CopyField off_code_addr new_pcb father s) (\<lambda>s.
       kbind (CopyField off_code_size new_pcb father s) (\<lambda>s.
       kbind (CopyField off_data_addr new_pcb father s) (\<lambda>s.
       kbind (CopyField off_data_size new_pcb father s) (\<lambda>s.
       Ok (new_pcb, s)))))))))))))))))"

definition DestructAllSons :: "u32 \<Rightarrow> 'a ths_scheme \<Rightarrow> 'a ths_scheme kres" where
  "DestructAllSons pcb s =
     kbind (rd_pcb off_left pcb s) (\<lambda>first.
     if first = NULL then Ok s
     else
       kbind (kwhile
         (\<lambda>(tmp, s). Ok (tmp \<noteq> NULL))
         (\<lambda>(tmp, s).
            let son = pcb_of_right tmp in
            kbind (kwhile (\<lambda>s. kbind (rd_pcb off_state son s) (\<lambda>st. Ok (st \<noteq> state_word DIE))) Ok s) (\<lambda>s.
            kbind (rd_pcb off_thread_list son s) (\<lambda>sib.
            kbind (DestructThread (th_of_sibling sib) s) (\<lambda>s.
            kbind (wr_pcb off_thread_list son NULL s) (\<lambda>s.
            kbind (get_next tmp s) (\<lambda>tmp.
            kbind (wr_pcb off_right son NULL s) (\<lambda>s.
            kbind (ListAdd (free_proc_list s) (pcb_node son) s) (\<lambda>s.
            Ok (tmp, s)))))))))
         (first, s)) (\<lambda>(tmp, s).
       wr_pcb off_left pcb NULL s))"

text \<open>The loop of \<^verbatim>\<open>CloseProc\<close> over the threads of the process.\<close>

definition CloseThreads :: "u32 \<Rightarrow> u32 \<Rightarrow> u32 \<times> 'a ths_scheme \<Rightarrow> (u32 \<times> 'a ths_scheme) kres" where
  "CloseThreads pcb cur_thread =
     kwhile
       (\<lambda>(tmp, s). kbind (get_next tmp s) (\<lambda>n. Ok (n \<noteq> pcb_thread_list pcb)))
       (\<lambda>(tmp, s).
          kbind (get_next tmp s) (\<lambda>n.
          if n \<noteq> th_sibling cur_thread
          then kbind (DestructThread (th_of_sibling n) s) (\<lambda>s. Ok (tmp, s))
          else Ok (n, s)))"

definition CloseProc :: "'a ths_scheme \<Rightarrow> 'a ths_scheme kres" where
  "CloseProc s =
     kbind (GetCurThread s) (\<lambda>cur_thread.
     kbind (rd th_pcb cur_thread s) (\<lambda>pcb.
     kbind (DestructAllSons pcb s) (\<lambda>s.
     let s = SwitchPd kKPdAddr s in
     kbind (CloseThreads pcb cur_thread (pcb_thread_list pcb, s)) (\<lambda>(tmp, s).
     kbind (rd_pcb off_page_dir pcb s) (\<lambda>page_dir.
     kbind (for_up kPdeNum 0
       (\<lambda>i s.
          kbind (rd_pde (page_dir + 4 * of_nat i) s) (\<lambda>d.
          let pt_addr = ucast (pde_pt_addr d) in
          if pt_addr \<noteq> kPdeAbsentAddr then
            kbind (RelPages pt_addr s) (\<lambda>s.
            RelBytes (DirectMappingVirtualAddr pt_addr) s)
          else Ok s)) s) (\<lambda>s.
     kbind (RelBytes page_dir s) (\<lambda>s.
     wr_pcb off_state pcb (state_word DIE) s)))))))"

section \<open>The page fault handler\<close>

text \<open>\<^verbatim>\<open>(int) addr / (kPteMaxNum * PageSize)\<close>: a signed division, which truncates towards zero.\<close>

definition PfPdIndex :: "u32 \<Rightarrow> u32" where
  "PfPdIndex addr = word_of_int (sint addr sdiv sint (of_nat kPteMaxNum * PageSize))"

definition PfHandler :: "IntrReg \<Rightarrow> 'a ths_scheme \<Rightarrow> 'a ths_scheme kres" where
  "PfHandler r s =
     (let addr = get_cr 2 (mach s);
          pd = DirectMappingVirtualAddr (get_cr 3 (mach s)) in
      kbind (IsBitSet (err_code r) 0) (\<lambda>present.
      kbind (IsBitSet (err_code r) 1) (\<lambda>write.
      kbind (IsBitSet (err_code r) 2) (\<lambda>user.
      if \<not> present then
        let entry = pd + 4 * PfPdIndex addr in
        kbind (rd_pde entry s) (\<lambda>d.
        kbind (if ucast (pde_pt_addr d) = kPdeAbsentAddr then
                 kbind (ReqBytes kPtMaxSize s) (\<lambda>(a, s).
                 SetPde entry (if write then kUPdeWritePresentAccess else kUPdeReadPresentAccess)
                   (DirectMappingPhysAddr a) s)
               else Ok s) (\<lambda>s.
        kbind (rd_pde entry s) (\<lambda>d.
        let pt = push_bit 12 (ucast (pde_pt_addr d));
            pt_i = GetPageNo addr mod of_nat kPteMaxNum in
        kbind (ReqPage s) (\<lambda>(page, s).
        SetPte (pt + 4 * pt_i) (if write then kUPteWritePresentAccess else kUPteReadPresentAccess) page s))))
      else if user then CloseProc s
      else if write then CloseProc s
      else Ok s))))"

end
