(* ===== verification/ProcProps.thy ===== *)
theory ProcProps
  imports Process Boot
begin

text \<open>
  The process manager: what its pool of overlapping structures holds, which processes can be
  created from it, when a process can be closed, and what the page fault handler does.
\<close>

section \<open>The pool\<close>

lemma ProcPoolStep_run:
  assumes "c \<noteq> 0" "c \<noteq> 40" "free_proc_list s = head" "head \<noteq> 0" "head \<noteq> c"
  shows "ProcPoolStep i (c, s) = Ok (c + 4, s\<lparr>nxt := (nxt s)(head := c, c := nxt s head,
     c - 40 := of_nat kProcInitNum - of_nat i, c + 4 := 0, c - 8 := 0, c - 4 := 0, c - 12 := 0, c - 36 := 0)\<rparr>)"
  using assms by (simp add: ProcPoolStep_def ListAdd_def Let_def pcb_offsets pcb_of_node_def algebra_simps fun_upd_twist)

lemma proc_pool_loop:
  assumes head: "free_proc_list s = head" "nxt s head = head" "off_block b 112 head" "head \<noteq> 0"
    and b: "off_block b 112 0"
  shows "\<exists>h. for_up 16 0 ProcPoolStep (b + 40, s) = Ok (b + 104, s\<lparr>nxt := h\<rparr>) \<and>
    h head = b + 100 \<and> h (b + 100) = b + 96 \<and> h (b + 96) = 0 \<and>
    (\<forall>x. x \<noteq> head \<and> off_block b 112 x \<longrightarrow> h x = nxt s x)"
proof -
  let ?P = "\<lambda>j (c, s'). c = b + 40 + 4 * of_nat j \<and> (\<exists>h. s' = s\<lparr>nxt := h\<rparr> \<and>
     h head = (if j = 0 then head else c - 4) \<and> (2 \<le> j \<longrightarrow> h (c - 4) = c - 8 \<and> h (c - 8) = 0) \<and>
     (\<forall>x. x \<noteq> head \<and> off_block b 112 x \<longrightarrow> h x = nxt s x))"
  have "\<exists>x. for_up 16 0 ProcPoolStep (b + 40, s) = Ok x \<and> ?P (0 + 16) x"
  proof (rule for_up_rule [where P = ?P])
    show "?P 0 (b + 40, s)" using head(2) by (auto intro!: exI [of _ "nxt s"])
  next
    fix j x assume j: "j < 0 + 16" and P: "?P j x"
    obtain c s' where x: "x = (c, s')" by (cases x)
    obtain h where h: "c = b + 40 + 4 * of_nat j" "s' = s\<lparr>nxt := h\<rparr>" "h head = (if j = 0 then head else c - 4)"
        "2 \<le> j \<longrightarrow> h (c - 4) = c - 8 \<and> h (c - 8) = 0" "\<forall>x. x \<noteq> head \<and> off_block b 112 x \<longrightarrow> h x = nxt s x"
      using P x by auto
    have "unat (40 + 4 * of_nat j :: u32) = 40 + 4 * j"
      using unat_of_nat_u32 [of "40 + 4 * j"] j by simp
    have off: "y \<noteq> c + k" if "off_block b 112 y" "k \<in> {0, 4, -4, -8, -12, -36, -40}" for y k
    proof -
      have d: "unat (40 + 4 * of_nat j + k) < 112"
      proof -
        have "j \<in> set [0..<16]" using j by simp
        then show ?thesis using that(2) by (auto simp: upt_rec)
      qed
      show ?thesis using off_blockD [OF that(1) d] h(1) by (simp add: algebra_simps)
    qed
    have nz: "c \<noteq> 0" "c \<noteq> 40" "head \<noteq> c" "head \<noteq> c + 4" "head \<noteq> c - 4" "head \<noteq> c - 8"
        "head \<noteq> c - 12" "head \<noteq> c - 36" "head \<noteq> c - 40"
      using off [OF b, of 0] off [OF b, of "-40"] off [OF head(3), of 0] off [OF head(3), of 4] off [OF head(3), of "-4"]
        off [OF head(3), of "-8"] off [OF head(3), of "-12"] off [OF head(3), of "-36"] off [OF head(3), of "-40"]
      by auto
    let ?h = "h(head := c, c := h head, c - 40 := of_nat kProcInitNum - of_nat j, c + 4 := 0, c - 8 := 0,
       c - 4 := 0, c - 12 := 0, c - 36 := 0)"
    have run: "ProcPoolStep j x = Ok (c + 4, s\<lparr>nxt := ?h\<rparr>)"
      using ProcPoolStep_run [of c s' head j] nz(1-3) head(1,4) h(2) x by simp
    define h' where "h' = ?h"
    have fr: "\<forall>y. y \<noteq> head \<and> off_block b 112 y \<longrightarrow> h' y = nxt s y"
    proof (intro allI impI)
      fix y assume y: "y \<noteq> head \<and> off_block b 112 y"
      then show "h' y = nxt s y" unfolding h'_def
        using off [of y 0] off [of y 4] off [of y "-4"] off [of y "-8"] off [of y "-12"] off [of y "-36"]
          off [of y "-40"] h(5) by simp
    qed
    have h': "h' head = c" "h' c = h head" "h' (c - 4) = 0" using nz by (simp_all add: h'_def)
    have "c + 4 = b + 40 + 4 * of_nat (Suc j)" using h(1) by simp
    then have "?P (Suc j) (c + 4, s\<lparr>nxt := h'\<rparr>)"
      using fr h' h(3) by (simp only: split) (intro conjI exI [of _ h'], simp_all)
    then have "?P (Suc j) (c + 4, s\<lparr>nxt := ?h\<rparr>)" by (simp only: h'_def)
    then show "\<exists>x'. ProcPoolStep j x = Ok x' \<and> ?P (Suc j) x'" using run by blast
  qed
  then show ?thesis by (auto simp: algebra_simps)
qed

lemma block_order_proc: "block_order 768 = 10" "block_order 48 = 6" "block_order kPdSize = 12"
  using block_order_Suc [of 768 9] block_order_Suc [of 48 5] block_order_Suc [of kPdSize 11] by (simp_all add: kPdSize_def)

lemma kPdSize_ok: "kPdSize \<noteq> 0" "unat kPdSize \<le> 2 ^ 25"
  by (simp_all add: kPdSize_def)

lemma alloc_proc_fields [simp]:
  "alloc_ok n (s\<lparr>free_proc_list := l\<rparr>) = alloc_ok n s" "alloc_ok n (s\<lparr>k_pcb := k\<rparr>) = alloc_ok n s"
  "held (s\<lparr>free_proc_list := l\<rparr>) = held s" "held (s\<lparr>k_pcb := k\<rparr>) = held s"
  "room t (s\<lparr>free_proc_list := l\<rparr>) = room t s" "room t (s\<lparr>k_pcb := k\<rparr>) = room t s"
  "alloc_ok n (s\<lparr>pde_at := g\<rparr>) = alloc_ok n s" "held (s\<lparr>pde_at := g\<rparr>) = held s" "room t (s\<lparr>pde_at := g\<rparr>) = room t s"
  by (rule alloc_ok_cong held_cong room_cong; simp add: dma.truncate_def)+

text \<open>
  The state that the initialisation leaves: the list of free structures \<open>l\<close> holds two nodes of the
  block \<open>b\<close> and ends in NULL, and \<open>k\<close> is the structure of the kernel.
\<close>

definition proc_blocks :: "u32 \<Rightarrow> u32 \<Rightarrow> u32 \<Rightarrow> bool" where
  "proc_blocks l b k \<longleftrightarrow> region l 2 \<subseteq> arena \<and> region b 10 \<subseteq> arena \<and> region k 6 \<subseteq> arena \<and>
     region l 2 \<inter> region b 10 = {} \<and> region k 6 \<inter> region b 10 = {} \<and> region l 2 \<inter> region k 6 = {}"

definition proc_ready :: "'a ths_scheme \<Rightarrow> u32 \<Rightarrow> u32 \<Rightarrow> u32 \<Rightarrow> bool" where
  "proc_ready s l b k \<longleftrightarrow> free_proc_list s = l \<and> k_pcb s = k \<and> proc_blocks l b k \<and>
     nxt s l = b + 100 \<and> nxt s (b + 100) = b + 96 \<and> nxt s (b + 96) = 0 \<and>
     nxt s (k + off_pid) = 0 \<and> nxt s (k + off_page_dir) = creg (mach s) 3 \<and> nxt s (k + off_left) = 0 \<and>
     nxt s (k + off_thread_list) = k + off_thread_list \<and> nxt s (k + off_state) = state_word RUN"

lemma ths_more_heap:
  assumes "dma.more s' = dma.more s"
  shows "free_proc_list s' = free_proc_list s" "k_pcb s' = k_pcb s" "mach s' = mach s" "paging_on s' = paging_on s"
    "th_pcb s' = th_pcb s" "tss_esp0 s' = tss_esp0 s" "page_state s' = page_state s" "pde_at s' = pde_at s"
  using assms by (cases s; cases s'; simp add: paging_on_def)+

lemma pool_created:
  assumes ok: "alloc_ok (Suc (Suc n)) s" and rm: "room (Suc (Suc u)) s" "10 \<le> u"
  shows "\<exists>b s1 l s2 s3. ReqBytes 768 s = Ok (b, s1) \<and> List s1 = Ok (l, s2) \<and>
    for_up 16 0 ProcPoolStep (b + 40, s2\<lparr>free_proc_list := l\<rparr>) = Ok (b + 104, s3) \<and> alloc_ok n s3 \<and> room u s3 \<and>
    held s3 = insert (l, 2) (insert (b, 10) (held s)) \<and> mach s3 = mach s \<and> kview s3 = kview s \<and> free_proc_list s3 = l \<and>
    region l 2 \<subseteq> arena \<and> region b 10 \<subseteq> arena \<and> region l 2 \<inter> region b 10 = {} \<and>
    nxt s3 l = b + 100 \<and> nxt s3 (b + 100) = b + 96 \<and> nxt s3 (b + 96) = 0"
proof -
  obtain b s1 where r1: "ReqBytes 768 s = Ok (b, s1)" "alloc_ok (Suc n) s1" "dma.more s1 = dma.more s"
      "b = 0 \<longleftrightarrow> \<not> room 10 s" "keeps_room 10 s s1"
      "if b = 0 then s1 = s else held s1 = insert (b, 10) (held s) \<and> granted (held s) 768 b"
    using ReqBytes_alloc [OF ok, of 768] by (auto simp: block_order_proc)
  have b: "b \<noteq> 0" using r1(4) room_mono [OF rm(1), of 10] rm(2) by simp
  obtain l s2 where r2: "List s1 = Ok (l, s2)" "alloc_ok n s2" "dma.more s2 = dma.more s1"
      "l = 0 \<longleftrightarrow> \<not> room 2 s1" "keeps_room 2 s1 s2"
      "if l = 0 then s2 = s1 else clist (nxt s2) l [] \<and> held s2 = insert (l, 2) (held s1) \<and> granted (held s1) 4 l"
    using List_ok [OF r1(2)] by auto
  have rm1: "room (Suc u) s1" using keeps_roomD [OF r1(5) rm(1)] rm(2) by simp
  then have l: "l \<noteq> 0" using r2(4) room_mono [OF rm1, of 2] rm(2) by simp
  have rm2: "room u s2" using keeps_roomD [OF r2(5) rm1] rm(2) by simp
  have blk: "region b 10 \<subseteq> arena" "region l 2 \<subseteq> arena" "region l 2 \<inter> region b 10 = {}"
    using r1(6) r2(6) b l by (auto simp: granted_def block_order_proc)
  have off: "off_block b 1024 l" "off_block b 1024 0"
    using apart_off_block [OF blk(3,1), of l] off_block_0 [OF blk(1)] by (auto simp: region_def)
  let ?s2 = "s2\<lparr>free_proc_list := l\<rparr>"
  obtain h where h: "for_up 16 0 ProcPoolStep (b + 40, ?s2) = Ok (b + 104, ?s2\<lparr>nxt := h\<rparr>)"
      "h l = b + 100" "h (b + 100) = b + 96" "h (b + 96) = 0" "\<forall>x. x \<noteq> l \<and> off_block b 112 x \<longrightarrow> h x = nxt s2 x"
    using proc_pool_loop [of ?s2 l b] l off_block_mono [OF off(1), of 112] off_block_mono [OF off(2), of 112] r2(6)
    by (auto simp: clist_Nil)
  have "h x = nxt ?s2 x" if x: "unat x \<notin> arena" for x
  proof -
    have "x \<noteq> l" using x blk(2) block_word(2) [OF blk(2), of 0] by auto
    moreover have "off_block b 112 x" unfolding off_block_def
      using x block_word(2) [OF blk(1)] by (auto simp: unat_of_nat_u32)
    ultimately show ?thesis using h(5) by simp
  qed
  note s3 = alloc_heap [of n ?s2 h, OF _ this]
  have "mach s2 = mach s" using ths_more_heap [OF r2(3)] ths_more_heap [OF r1(3)] by simp
  moreover have "kview s2 = kview s" using kview_more [OF dma_more_kheap [OF r2(3)]] kview_more [OF dma_more_kheap [OF r1(3)]] by simp
  ultimately show ?thesis
    using r1 r2 b l rm2 blk h s3
    by (intro exI [of _ b] exI [of _ s1] exI [of _ l] exI [of _ s2] exI [of _ "?s2\<lparr>nxt := h\<rparr>"]) simp
qed

lemma ProcManagerInit_ok:
  assumes ok: "alloc_ok (Suc (Suc (Suc n))) s" and rm: "room (Suc (Suc (Suc u))) s" "10 \<le> u"
  shows "\<exists>s' l b k. ProcManagerInit s = Ok s' \<and> alloc_ok n s' \<and> room u s' \<and> proc_ready s' l b k \<and>
    held s' = insert (k, 6) (insert (l, 2) (insert (b, 10) (held s))) \<and> mach s' = mach s \<and> kview s' = kview s"
proof -
  obtain b s1 l s2 s3 where pc: "ReqBytes 768 s = Ok (b, s1)" "List s1 = Ok (l, s2)"
      "for_up 16 0 ProcPoolStep (b + 40, s2\<lparr>free_proc_list := l\<rparr>) = Ok (b + 104, s3)" "alloc_ok (Suc n) s3" "room (Suc u) s3"
      "held s3 = insert (l, 2) (insert (b, 10) (held s))" "mach s3 = mach s" "free_proc_list s3 = l"
      "region l 2 \<subseteq> arena" "region b 10 \<subseteq> arena" "region l 2 \<inter> region b 10 = {}"
      "nxt s3 l = b + 100" "nxt s3 (b + 100) = b + 96" "nxt s3 (b + 96) = 0" "kview s3 = kview s"
    using pool_created [OF ok rm(1)] rm(2) by auto
  obtain k s4 where r4: "ReqBytes 48 s3 = Ok (k, s4)" "alloc_ok n s4" "dma.more s4 = dma.more s3"
      "k = 0 \<longleftrightarrow> \<not> room 6 s3" "keeps_room 6 s3 s4" "\<forall>p. unat p \<in> arena \<longrightarrow> nxt s4 p = nxt s3 p"
      "if k = 0 then s4 = s3 else held s4 = insert (k, 6) (held s3) \<and> granted (held s3) 48 k"
    using ReqBytes_alloc [OF pc(4), of 48] by (auto simp: block_order_proc)
  have k: "k \<noteq> 0" using r4(4) room_mono [OF pc(5), of 6] rm(2) by simp
  have blk2: "proc_blocks l b k"
    using pc(6,9-11) r4(7) k by (auto simp: proc_blocks_def granted_def block_order_proc)
  then have kb: "region k 6 \<subseteq> arena" by (simp add: proc_blocks_def)
  let ?h = "(nxt s4)(k := 0, k + 40 := 0, k + 4 := creg (mach s) 3, k + 44 := k + 44, k + 28 := 0, k + 32 := 0,
    k + 36 := 0, k + 8 := 1)"
  let ?s5 = "s4\<lparr>k_pcb := k, nxt := ?h\<rparr>"
  have m: "mach s4 = mach s" "free_proc_list s4 = l"
    using ths_more_heap [OF r4(3)] pc(7,8) by simp_all
  have run: "ProcManagerInit s = Ok ?s5"
    using pc(1-3) r4(1) k m
    by (simp add: ProcManagerInit_def kProcInitNum_def sizeof_Pcb_def Let_def pcb_offsets get_cr_def)
  have "?h x = nxt s4 x" if "unat x \<notin> arena" for x
    using that block_word(2) [OF kb, of 0] block_word(2) [OF kb, of 40] block_word(2) [OF kb, of 4] block_word(2) [OF kb, of 44]
      block_word(2) [OF kb, of 28] block_word(2) [OF kb, of 32] block_word(2) [OF kb, of 36] block_word(2) [OF kb, of 8] by auto
  then have s5: "alloc_ok n ?s5" "held ?s5 = held s4" "room t ?s5 = room t s4" for t
    using alloc_heap [of n "s4\<lparr>k_pcb := k\<rparr>" ?h] r4(2) by simp_all
  have o: "off_block k 64 l" "off_block k 64 (b + 100)" "off_block k 64 (b + 96)"
    using blk2 apart_off_block [of l 2 k 6 l] apart_off_block [of b 10 k 6] block_word(1) [OF pc(10)]
    by (auto simp: proc_blocks_def region_def Int_commute)
  have keep: "?h x = nxt s3 x" if "off_block k 64 x" "unat x \<in> arena" for x
    using that r4(6) off_blockD [OF that(1), of 0] off_blockD [OF that(1), of 40] off_blockD [OF that(1), of 4]
      off_blockD [OF that(1), of 44] off_blockD [OF that(1), of 28] off_blockD [OF that(1), of 32]
      off_blockD [OF that(1), of 36] off_blockD [OF that(1), of 8] by simp
  have "proc_ready ?s5 l b k"
    using blk2 m pc(12-14) keep [OF o(1)] keep [OF o(2)] keep [OF o(3)] block_word(2) [OF pc(10)] block_word(2) [OF pc(9), of 0]
    by (simp add: proc_ready_def pcb_offsets)
  moreover have "room u ?s5" using s5(3) keeps_roomD [OF r4(5) pc(5)] rm(2) by simp
  ultimately show ?thesis
    using run r4(7) k pc(6,15) m s5(1,2) kview_more [OF dma_more_kheap [OF r4(3)]] by (intro exI [of _ ?s5] exI [of _ l] exI [of _ b] exI [of _ k]) simp
qed

section \<open>Creating processes\<close>

lemma AddSon_run:
  assumes "f \<noteq> 0" "if t = f then nxt s f = 0 else nxt s f = t \<and> t \<noteq> 0 \<and> nxt s t = 0"
  shows "AddSon son f s = Ok (s\<lparr>nxt := (nxt s)(t := son)\<rparr>)"
  using assms by (cases "t = f") (simp_all add: AddSon_def kwhile.simps)

text \<open>
  What \<^verbatim>\<open>CreateProc\<close> does when the allocator and the copy of the page directory succeed: \<open>p\<close> is the
  structure taken from the pool, \<open>k\<close> the father and \<open>t\<close> the node that the new son is linked to.
\<close>

definition taken :: "u32 \<Rightarrow> u32 \<Rightarrow> (u32 \<Rightarrow> u32) \<Rightarrow> u32 \<Rightarrow> u32" where
  "taken l p h = h(l := h (p + 40), p + 40 := 0, p + 8 := 0, p + 44 := p + 44)"

definition linked :: "u32 \<Rightarrow> u32 \<Rightarrow> u32 \<Rightarrow> u32 \<Rightarrow> (u32 \<Rightarrow> u32) \<Rightarrow> u32 \<Rightarrow> u32" where
  "linked p k t pd h = h(p + 4 := pd, p + 28 := k, t := p + 36, p + 40 := 0, p + 12 := h (k + 12),
     p + 16 := h (k + 16), p + 20 := h (k + 20), p + 24 := h (k + 24))"

lemma CreateProc_run:
  assumes "free_proc_list s = l" "l \<noteq> 0" "nxt s l = p + 40" "p + 40 \<noteq> l" "p + 40 \<noteq> 0" "p \<noteq> 0" "k \<noteq> 0"
    and req: "ReqBytes kPdSize (s\<lparr>nxt := taken l p (nxt s)\<rparr>) = Ok (pd, s2)"
    and clone: "UPdClone pd (nxt s2 (k + 4)) (s2\<lparr>nxt := (nxt s2)(p + 4 := pd)\<rparr>) =
      Ok (s2\<lparr>nxt := (nxt s2)(p + 4 := pd), pde_at := g\<rparr>)"
    and t: "if t = k + 32 then nxt s2 (k + 32) = 0 else nxt s2 (k + 32) = t \<and> t \<noteq> 0 \<and> nxt s2 t = 0"
      "t \<noteq> p + 4" "t \<noteq> p + 28" "t \<noteq> k + 12" "t \<noteq> k + 16" "t \<noteq> k + 20" "t \<noteq> k + 24"
    and off: "\<And>d. d \<in> {4, 12, 16, 20, 24, 32} \<Longrightarrow> off_block p 48 (k + d)" and kz: "k + 32 \<noteq> 0"
  shows "CreateProc k s = Ok (p, s2\<lparr>pde_at := g, nxt := linked p k t pd (nxt s2)\<rparr>)"
proof -
  have o: "k + d \<noteq> p + e" if "d \<in> {4, 12, 16, 20, 24, 32}" "unat e < 48" for d e
    using off_blockD [OF off [OF that(1)] that(2)] .
  have "AddSon (p + 36) (k + 32) (s2\<lparr>pde_at := g, nxt := (nxt s2)(p + 4 := pd, p + 28 := k)\<rparr>) =
      Ok (s2\<lparr>pde_at := g, nxt := (nxt s2)(p + 4 := pd, p + 28 := k, t := p + 36)\<rparr>)"
    using AddSon_run [of "k + 32" t "s2\<lparr>pde_at := g, nxt := (nxt s2)(p + 4 := pd, p + 28 := k)\<rparr>"] t(1-3) kz
      o [of 32 4] o [of 32 28] by (auto split: if_splits)
  then show ?thesis
    using assms(1-7) req clone t(4-7) o [of 4 4] o [of 12 4] o [of 16 4] o [of 20 4] o [of 24 4]
      o [of 12 28] o [of 16 28] o [of 20 28] o [of 24 28] o [of 12 40] o [of 16 40] o [of 20 40] o [of 24 40]
      o [of 16 12] o [of 20 12] o [of 24 12] o [of 20 16] o [of 24 16] o [of 24 20]
    by (simp add: CreateProc_def IsListEmpty_Ok ListRemove_Ok Let_def pcb_offsets CopyField_def taken_def linked_def)
qed

text \<open>The kernel image covers the page directory \<open>f\<close>, which the first 4 MB map.\<close>

definition kernel_pd :: "'a ths_scheme \<Rightarrow> u32 \<Rightarrow> bool" where
  "kernel_pd s f \<longleftrightarrow> paging_on s \<and> (\<exists>w. (kKVirtualAddr, w) \<in> held s \<and> unat f + 4096 \<le> 2 ^ w \<and> w \<le> 22)"

lemma pd_at_low: "unat f + 4096 \<le> 2 ^ 22 \<Longrightarrow> pd_at f f s"
proof -
  assume f: "unat f + 4096 \<le> 2 ^ 22"
  have "f + 4 * of_nat i < 0x400000" if "i < 1024" for i
  proof -
    have "unat (4 * of_nat i :: u32) = 4 * i" using that unat_of_nat_u32 [of "4 * i"] by simp
    then have "unat (f + 4 * of_nat i) = unat f + 4 * i" using f that by (subst unat_add_u32_small) auto
    then show ?thesis using f that by (simp add: u32_less_iff_unat)
  qed
  then show ?thesis by (simp add: pd_at_def lin_def)
qed

lemma lin_arena: "paging_on s \<Longrightarrow> unat p \<in> arena \<Longrightarrow> lin p s = Ok (p - kKVirtualAddr)"
  by (auto simp: lin_def arena_def kKVirtualAddr_def kDirectMappingSize_def u32_less_iff_unat u32_le_iff_unat)

lemma pd_at_block:
  assumes "paging_on s" "region pd 12 \<subseteq> arena"
  shows "pd_at pd (pd - kKVirtualAddr) s"
  unfolding pd_at_def
proof (intro allI impI)
  fix i :: nat assume i: "i < 1024"
  then have "unat (4 * of_nat i :: u32) = 4 * i" using unat_of_nat_u32 [of "4 * i"] by simp
  then have "unat (pd + 4 * of_nat i) \<in> arena" using block_word(2) [OF assms(2), of "4 * of_nat i"] i by simp
  then show "lin (pd + 4 * of_nat i) s = Ok (pd - kKVirtualAddr + 4 * of_nat i)"
    using lin_arena [OF assms(1)] by (simp add: algebra_simps)
qed

lemma clone_directory:
  assumes k: "kernel_pd s f" and g: "granted (held s) kPdSize pd" and on: "paging_on s'"
  shows "\<exists>g. UPdClone pd f s' = Ok (s'\<lparr>pde_at := g\<rparr>)"
proof -
  obtain w where w: "(kKVirtualAddr, w) \<in> held s" "unat f + 4096 \<le> 2 ^ w" "w \<le> 22"
    using k by (auto simp: kernel_pd_def)
  have pd: "region pd 12 \<subseteq> arena" "region pd 12 \<inter> region kKVirtualAddr w = {}"
    using g w(1) by (auto simp: granted_def block_order_proc)
  have "(2 :: nat) ^ w \<le> 2 ^ 22" using w(3) by (rule power_increasing) simp
  then have f: "unat f + 4096 \<le> 2 ^ 22" using w(2) by simp
  have "pd - kKVirtualAddr + 4 * of_nat i \<noteq> f + 4 * of_nat j" if ij: "i < 1024" "j < 1024" for i j
  proof
    assume "pd - kKVirtualAddr + 4 * of_nat i = f + 4 * of_nat j"
    then have e: "pd + 4 * of_nat i = kKVirtualAddr + (f + 4 * of_nat j)" by (simp add: algebra_simps)
    have u: "unat (4 * of_nat i :: u32) = 4 * i" "unat (4 * of_nat j :: u32) = 4 * j"
      using ij unat_of_nat_u32 [of "4 * i"] unat_of_nat_u32 [of "4 * j"] by simp_all
    have fj: "unat (f + 4 * of_nat j) = unat f + 4 * j" using f ij u(2) by (subst unat_add_u32_small) auto
    then have "unat (kKVirtualAddr + (f + 4 * of_nat j)) = unat kKVirtualAddr + (unat f + 4 * j)"
      using f ij by (subst unat_add_u32_small) (auto simp: kKVirtualAddr_def)
    then have "unat (pd + 4 * of_nat i) \<in> region kKVirtualAddr w" using w(2) ij e by (simp add: region_def)
    moreover have "unat (pd + 4 * of_nat i) \<in> region pd 12" using block_word(1) [OF pd(1), of "4 * of_nat i"] u ij by simp
    ultimately show False using pd(2) by blast
  qed
  then show ?thesis
    using UPdClone_ok [OF pd_at_low [OF f] pd_at_block [OF on pd(1)]] by blast
qed

lemma CreateProc_alloc:
  assumes ok: "alloc_ok (Suc n) s" "room (Suc u) s" "12 \<le> u" and pd: "kernel_pd s (nxt s (k + 4))"
    and l: "free_proc_list s = l" "nxt s l = p + 40" "unat l \<in> arena"
    and p: "\<And>d. unat d < 48 \<Longrightarrow> unat (p + d) \<in> arena \<and> l \<noteq> p + d"
    and k: "\<And>d. unat d < 48 \<Longrightarrow> unat (k + d) \<in> arena \<and> l \<noteq> k + d \<and> off_block p 48 (k + d)"
    and t: "if t = k + 32 then nxt s (k + 32) = 0 else nxt s (k + 32) = t \<and> unat t \<in> arena \<and> taken l p (nxt s) t = 0"
      "t \<noteq> p + 4" "t \<noteq> p + 28" "t \<notin> {k + 12, k + 16, k + 20, k + 24}"
  shows "\<exists>pd s'. CreateProc k s = Ok (p, s') \<and> alloc_ok n s' \<and> room u s' \<and> pd \<noteq> 0 \<and>
    (\<forall>x. unat x \<in> arena \<longrightarrow> nxt s' x = linked p k t pd (taken l p (nxt s)) x) \<and>
    held s \<subseteq> held s' \<and> free_proc_list s' = l \<and> k_pcb s' = k_pcb s \<and> mach s' = mach s"
proof -
  let ?h = "taken l p (nxt s)"
  have nz: "l \<noteq> 0" "p + d \<noteq> 0" "k + d \<noteq> 0" if "unat d < 48" for d
    using l(3) p [OF that] k [OF that] by (auto simp: arena_def)
  have kp: "k + d \<noteq> p + e" if "unat d < 48" "unat e < 48" for d e
    using off_blockD [of p 48 "k + d" e] k [OF that(1)] that(2) by simp
  have hk: "?h (k + d) = nxt s (k + d)" if "unat d < 48" for d
    using kp [OF that, of 40] kp [OF that, of 8] kp [OF that, of 44] k [OF that] by (auto simp: taken_def)
  have "?h x = nxt s x" if "unat x \<notin> arena" for x
    using that l(3) p [of 40] p [of 8] p [of 44] by (auto simp: taken_def)
  note s1 = alloc_heap [OF ok(1) this]
  let ?s1 = "s\<lparr>nxt := ?h\<rparr>"
  have rm: "room (Suc u) ?s1" using s1(3) ok(2) by simp
  obtain pd' s2 where r: "ReqBytes kPdSize ?s1 = Ok (pd', s2)" "alloc_ok n s2" "dma.more s2 = dma.more ?s1"
      "pd' = 0 \<longleftrightarrow> \<not> room 12 ?s1" "keeps_room 12 ?s1 s2" "\<forall>x. unat x \<in> arena \<longrightarrow> nxt s2 x = ?h x"
      "if pd' = 0 then s2 = ?s1 else held s2 = insert (pd', 12) (held ?s1) \<and> granted (held ?s1) kPdSize pd'"
    using ReqBytes_alloc [OF s1(1) kPdSize_ok] by (auto simp: block_order_proc)
  have pd': "pd' \<noteq> 0" using r(4) room_mono [OF rm, of 12] ok(3) by simp
  have n2: "nxt s2 (k + d) = nxt s (k + d)" if "unat d < 48" for d using r(6) k [OF that] hk [OF that] by simp
  have m: "free_proc_list s2 = l" "k_pcb s2 = k_pcb s" "mach s2 = mach s" "paging_on s2"
    using ths_more_heap [OF r(3)] l(1) pd by (simp_all add: kernel_pd_def paging_on_def)
  obtain g where g: "UPdClone pd' (nxt s (k + 4)) (s2\<lparr>nxt := (nxt s2)(p + 4 := pd')\<rparr>) =
      Ok (s2\<lparr>nxt := (nxt s2)(p + 4 := pd'), pde_at := g\<rparr>)"
    using clone_directory [OF pd, of pd' "s2\<lparr>nxt := (nxt s2)(p + 4 := pd')\<rparr>"] r(7) pd' s1(2) m(4) by (auto simp: paging_on_def)
  let ?s3 = "s2\<lparr>pde_at := g, nxt := linked p k t pd' (nxt s2)\<rparr>"
  have tl: "if t = k + 32 then nxt s2 (k + 32) = 0 else nxt s2 (k + 32) = t \<and> t \<noteq> 0 \<and> nxt s2 t = 0"
    using t(1) n2 [of 32] r(6) by (auto simp: arena_def split: if_splits)
  have run: "CreateProc k s = Ok (p, ?s3)"
    by (rule CreateProc_run [OF l(1) _ l(2) _ _ _ _ r(1) _ tl t(2,3)])
      (use nz [of 0] nz [of 40] nz [of 32] p [of 40] g n2 [of 4] t(4) k in auto)
  have fr: "linked p k t pd' (nxt s2) x = nxt s2 x" if x: "unat x \<notin> arena" for x
    using x t(1) p [of 4] p [of 28] p [of 40] p [of 12] p [of 16] p [of 20] p [of 24] k [of 32]
    by (auto simp: linked_def split: if_splits)
  have "alloc_ok n ?s3" "room u ?s3" "held ?s3 = held s2"
    using alloc_heap [of n "s2\<lparr>pde_at := g\<rparr>" "linked p k t pd' (nxt s2)"] fr r(2) keeps_roomD [OF r(5) rm] ok(3) by simp_all
  moreover have "\<forall>x. unat x \<in> arena \<longrightarrow> linked p k t pd' (nxt s2) x = linked p k t pd' ?h x"
    using r(6) k [of 12] k [of 16] k [of 20] k [of 24] by (auto simp: linked_def)
  ultimately show ?thesis
    using run pd' m r(7) s1(2) by (intro exI [of _ pd'] exI [of _ ?s3]) auto
qed

lemma proc_block_words:
  assumes "proc_blocks l b k" "unat d < 1024" "unat e < 64"
  shows "unat l \<in> arena" "unat (b + d) \<in> arena" "unat (k + e) \<in> arena" "l \<noteq> b + d" "l \<noteq> k + e" "k + e \<noteq> b + d"
proof -
  have r: "region l 2 \<subseteq> arena" "region b 10 \<subseteq> arena" "region k 6 \<subseteq> arena"
      "region l 2 \<inter> region b 10 = {}" "region k 6 \<inter> region b 10 = {}" "region l 2 \<inter> region k 6 = {}"
    using assms(1) by (auto simp: proc_blocks_def)
  have l: "unat l \<in> region l 2" by (simp add: region_def)
  then show "unat l \<in> arena" using r(1) by blast
  show "unat (b + d) \<in> arena" using block_word(2) [OF r(2)] assms(2) by simp
  show "unat (k + e) \<in> arena" using block_word(2) [OF r(3)] assms(3) by simp
  have ke: "unat (k + e) \<in> region k 6" using block_word(1) [OF r(3)] assms(3) by simp
  show "l \<noteq> b + d" using off_blockD [OF apart_off_block [OF r(4,2) l]] assms(2) by simp
  show "l \<noteq> k + e" using off_blockD [OF apart_off_block [OF r(6,3) l]] assms(3) by simp
  show "k + e \<noteq> b + d" using off_blockD [OF apart_off_block [OF r(5,2) ke]] assms(2) by simp
qed

lemma proc_neq:
  assumes "proc_blocks l b k"
  shows "unat c < 1024 \<Longrightarrow> l \<noteq> b + c \<and> b + c \<noteq> l \<and> l \<noteq> c + b \<and> c + b \<noteq> l"
    and "unat c < 1024 \<Longrightarrow> k \<noteq> c + b \<and> c + b \<noteq> k \<and> k \<noteq> b + c"
    and "unat d < 64 \<Longrightarrow> d + k \<noteq> b \<and> b \<noteq> d + k \<and> k + d \<noteq> b"
    and "unat d < 64 \<Longrightarrow> l \<noteq> k + d \<and> k + d \<noteq> l \<and> l \<noteq> d + k \<and> d + k \<noteq> l"
    and "unat l \<in> arena"
  using proc_block_words [OF assms, of c 0] proc_block_words [OF assms, of 0 d] proc_block_words(1) [OF assms, of 0 0]
  by (auto simp: add.commute)

lemma pool_pcb_words:
  assumes "proc_blocks l b k" "c \<in> {56, 60}" "unat d < 48"
  shows "unat (b + c + d) \<in> arena \<and> l \<noteq> b + c + d"
    and "unat (k + d) \<in> arena \<and> l \<noteq> k + d \<and> off_block (b + c) 48 (k + d)"
proof -
  note bw = proc_block_words [OF assms(1)]
  have c: "unat (c + e) < 1024" if "unat e < 48" for e using that assms(2) unat_add_u32_small [of c e] by auto
  show "unat (b + c + d) \<in> arena \<and> l \<noteq> b + c + d"
    using bw(2) [of "c + d" 0] bw(4) [of "c + d" 0] c [OF assms(3)] by (simp add: add.assoc)
  have "k + d \<noteq> b + c + of_nat e" if "e < 48" for e
    using bw(6) [of "c + of_nat e" d] c [of "of_nat e"] that assms(3) by (simp add: add.assoc unat_of_nat_u32)
  then show "unat (k + d) \<in> arena \<and> l \<noteq> k + d \<and> off_block (b + c) 48 (k + d)"
    using bw(3) [of 0 d] bw(5) [of 0 d] assms(3) by (simp add: off_block_def)
qed

text \<open>The first process comes from the structure at \<open>b + 60\<close>.\<close>

definition one_process :: "'a ths_scheme \<Rightarrow> u32 \<Rightarrow> u32 \<Rightarrow> u32 \<Rightarrow> bool" where
  "one_process s l b k \<longleftrightarrow> free_proc_list s = l \<and> k_pcb s = k \<and> nxt s l = b + 96 \<and> nxt s (b + 96) = 0 \<and>
     nxt s (k + 32) = b + 96 \<and> kernel_pd s (nxt s (k + 4)) \<and> nxt s (b + 64) \<noteq> 0"

lemma first_process:
  assumes rd: "proc_ready s l b k" and ok: "alloc_ok (Suc n) s" "room (Suc u) s" "12 \<le> u" and pd: "kernel_pd s (nxt s (k + 4))"
  shows "\<exists>s'. CreateProc k s = Ok (b + 60, s') \<and> alloc_ok n s' \<and> room u s' \<and> one_process s' l b k"
proof -
  have bl: "proc_blocks l b k" and w: "free_proc_list s = l" "k_pcb s = k" "nxt s l = b + 100" "nxt s (b + 100) = b + 96"
      "nxt s (b + 96) = 0" "nxt s (k + 32) = 0"
    using rd by (auto simp: proc_ready_def pcb_offsets)
  note ne = proc_neq [OF bl]
  have kb: "k + 32 \<noteq> b + c" if "unat c < 1024" for c using proc_block_words(6) [OF bl that, of 32] by simp
  obtain pd1 s1 where s1: "CreateProc k s = Ok (b + 60, s1)" "alloc_ok n s1" "room u s1" "pd1 \<noteq> 0"
      "\<forall>x. unat x \<in> arena \<longrightarrow> nxt s1 x = linked (b + 60) k (k + 32) pd1 (taken l (b + 60) (nxt s)) x"
      "held s \<subseteq> held s1" "free_proc_list s1 = l" "k_pcb s1 = k" "mach s1 = mach s"
    using CreateProc_alloc [of n s u k l "b + 60" "k + 32"] ok pd w ne(5) pool_pcb_words [OF bl, of 60] kb [of 64] kb [of 88]
    by (auto simp: add.assoc)
  have w': "nxt s (100 + b) = b + 96" "nxt s (96 + b) = 0" using w by (simp_all add: add.commute)
  have v: "nxt s1 l = b + 96" "nxt s1 (b + 96) = 0" "nxt s1 (k + 32) = b + 96" "nxt s1 (k + 4) = nxt s (k + 4)" "nxt s1 (b + 64) = pd1"
    using s1(5) proc_block_words [OF bl, of 96 32] proc_block_words [OF bl, of 64 4] w w'
    by (simp_all add: linked_def taken_def ne)
  have "kernel_pd s1 (nxt s1 (k + 4))"
    using pd s1(6,9) v(4) by (auto simp: kernel_pd_def paging_on_def)
  then show ?thesis using s1 v by (auto simp: one_process_def)
qed

text \<open>The second one overlaps it, and takes the last node.\<close>

lemma second_process:
  assumes one: "one_process s l b k" and bl: "proc_blocks l b k" and ok: "alloc_ok (Suc n) s" "room (Suc u) s" "12 \<le> u"
  shows "\<exists>s'. CreateProc k s = Ok (b + 56, s') \<and> free_proc_list s' = l \<and> k_pcb s' = k \<and> nxt s' l = 0 \<and>
    nxt s' (b + 64) = 0 \<and> nxt s' (b + 60) \<noteq> 0"
proof -
  have w: "free_proc_list s = l" "k_pcb s = k" "nxt s l = b + 96" "nxt s (b + 96) = 0" "nxt s (k + 32) = b + 96"
      "kernel_pd s (nxt s (k + 4))"
    using one by (auto simp: one_process_def)
  note ne = proc_neq [OF bl]
  obtain pd s2 where s2: "CreateProc k s = Ok (b + 56, s2)" "pd \<noteq> 0"
      "\<forall>x. unat x \<in> arena \<longrightarrow> nxt s2 x = linked (b + 56) k (b + 96) pd (taken l (b + 56) (nxt s)) x"
      "free_proc_list s2 = l" "k_pcb s2 = k"
    using CreateProc_alloc [of n s u k l "b + 56" "b + 96"] w ok pool_pcb_words [OF bl, of 56]
      proc_block_words [OF bl, of 96 0] by (auto simp: add.assoc ne taken_def)
  have w': "nxt s (96 + b) = 0" using w(4) by (simp add: add.commute)
  have "nxt s2 l = 0" "nxt s2 (b + 64) = 0" "nxt s2 (b + 60) = pd"
    using s2(3) proc_block_words [OF bl, of 64 0] proc_block_words [OF bl, of 60 0] w w'
    by (simp_all add: linked_def taken_def ne)
  then show ?thesis using s2 by auto
qed

lemma pool_exhausted:
  assumes "free_proc_list s = l" "l \<noteq> 0" "nxt s l = 0"
  shows "CreateProc k s = Fault NullDeref"
  using assms by (auto simp: CreateProc_def IsListEmpty_Ok ListRemove_def get_next_def)

section \<open>Properties\<close>

text \<open>
  C24: The pool of sixteen structures yields two processes: after \<^verbatim>\<open>ProcManagerInit\<close> two calls of \<^verbatim>\<open>CreateProc\<close>
  succeed and the third dereferences NULL.  The structures of the two processes are 4 bytes apart, and
  creating the second one clears the page directory of the first and overwrites its \<^verbatim>\<open>pid\<close> with the
  address of the second page directory.
\<close>

theorem two_processes_only:
  assumes "alloc_ok 5 s" "room 17 s" "kernel_pd s (creg (mach s) 3)"
  shows "\<exists>s1 p s2 s3. ProcManagerInit s = Ok s1 \<and> CreateProc (k_pcb s1) s1 = Ok (p, s2) \<and>
    CreateProc (k_pcb s2) s2 = Ok (p - 4, s3) \<and> CreateProc (k_pcb s3) s3 = Fault NullDeref \<and>
    nxt s2 (p + off_page_dir) \<noteq> 0 \<and> nxt s3 (p + off_page_dir) = 0 \<and>
    nxt s3 (p + off_pid) = nxt s3 (p - 4 + off_page_dir) \<and> nxt s3 (p + off_pid) \<noteq> 0"
proof -
  obtain s1 l b k where s1: "ProcManagerInit s = Ok s1" "alloc_ok 2 s1" "room 14 s1" "proc_ready s1 l b k"
      "held s1 = insert (k, 6) (insert (l, 2) (insert (b, 10) (held s)))" "mach s1 = mach s"
    using ProcManagerInit_ok [of 2 s 14] assms by (auto simp: eval_nat_numeral)
  have k: "k_pcb s1 = k" "proc_blocks l b k" "nxt s1 (k + 4) = creg (mach s) 3"
    using s1(4,6) by (auto simp: proc_ready_def pcb_offsets)
  have "kernel_pd s1 (nxt s1 (k + 4))"
    using assms(3) s1(5,6) k(3) by (auto simp: kernel_pd_def paging_on_def)
  then obtain s2 where s2: "CreateProc k s1 = Ok (b + 60, s2)" "alloc_ok 1 s2" "room 13 s2" "one_process s2 l b k"
    using first_process [OF s1(4), of 1 13] s1(2,3) by (auto simp: eval_nat_numeral)
  then obtain s3 where s3: "CreateProc k s2 = Ok (b + 56, s3)" "free_proc_list s3 = l" "k_pcb s3 = k" "nxt s3 l = 0"
      "nxt s3 (b + 64) = 0" "nxt s3 (b + 60) \<noteq> 0"
    using second_process [OF s2(4) k(2), of 0 12] by (auto simp: eval_nat_numeral)
  have "l \<noteq> 0" using proc_neq(5) [OF k(2)] by (auto simp: arena_def)
  then have "CreateProc k s3 = Fault NullDeref" using pool_exhausted [OF s3(2) _ s3(4)] by blast
  moreover have "b + 60 - 4 = b + 56" "b + 60 + off_page_dir = b + 64" "b + 60 + off_pid = b + 60" "b + 56 + off_page_dir = b + 60"
    by (simp_all add: pcb_offsets)
  moreover have "nxt s2 (b + 64) \<noteq> 0" "k_pcb s2 = k" using s2(4) by (simp_all add: one_process_def)
  ultimately show ?thesis
    using s1(1) s2(1) s3 k(1) by (intro exI [of _ s1] exI [of _ "b + 60"] exI [of _ s2] exI [of _ s3]) metis
qed

definition paged0 :: ths where
  "paged0 = boot0\<lparr>mach := mach0\<lparr>creg := (\<lambda>_. 0)(0 := 0x80000000, 3 := 0x1000)\<rparr>\<rparr>"

lemma paged0_alloc:
  "\<exists>s. DirectMappingInit paged0 = Ok s \<and> alloc_ok 5200 s \<and> room 25 s \<and> kernel_pd s (creg (mach s) 3)"
proof -
  have a: "length (free_mem_list paged0) = kMemBlockTypeNum" "length (allocated_mem_list paged0) = kMemBlockTypeNum"
      "K_END paged0 \<noteq> 0" "unat (K_END paged0) \<le> 2 ^ 25" "K_END paged0 = 0x200000"
    using boot0_dma by (simp_all add: paged0_def)
  obtain s where s: "DirectMappingInit paged0 = Ok s" "alloc_ok 5200 s" "held s = {(kKVirtualAddr, 21)}"
      "dma.more s = dma.more paged0" "room 25 s"
    using DirectMappingInit_alloc [OF a(1-4)] a(5) by (auto simp: block_order_2MB)
  have "mach s = mach paged0" using ths_more_heap(3) [OF s(4)] .
  then have "kernel_pd s (creg (mach s) 3)"
    using s(3) by (simp add: kernel_pd_def paging_on_def paged0_def bit_simps)
  then show ?thesis using s by blast
qed

theorem two_processes_only_witness:
  "\<exists>s s1 p s2 s3. DirectMappingInit paged0 = Ok s \<and> ProcManagerInit s = Ok s1 \<and> CreateProc (k_pcb s1) s1 = Ok (p, s2) \<and>
    CreateProc (k_pcb s2) s2 = Ok (p - 4, s3) \<and> CreateProc (k_pcb s3) s3 = Fault NullDeref"
proof -
  obtain s where s: "DirectMappingInit paged0 = Ok s" "alloc_ok 5200 s" "room 25 s" "kernel_pd s (creg (mach s) 3)"
    using paged0_alloc by blast
  have "alloc_ok 5 s" "room 17 s" using alloc_ok_mono [OF s(2)] room_mono [OF s(3)] by simp_all
  then show ?thesis using two_processes_only [of s] s(1,4) by blast
qed

section \<open>Closing a process\<close>

lemma DestructAllSons_returns:
  assumes "DestructAllSons pcb s = Ok s'"
  shows "s' = s \<and> nxt s (pcb + off_left) = 0"
proof (cases "pcb = 0 \<or> nxt s (pcb + off_left) = 0")
  case True
  then show ?thesis using assms by (cases "pcb = 0") (auto simp: DestructAllSons_def rd_pcb_def)
next
  case False
  then show ?thesis using assms
    by (auto simp: DestructAllSons_def kbind_eq_Ok kwhile.simps [where s = "(_, _)"] Let_def DestructThread_no_result)
qed

lemma CloseThreads_returns:
  assumes "CloseThreads pcb cur (pcb_thread_list pcb, s) = Ok x"
  shows "nxt s (pcb + off_thread_list) \<in> {pcb + off_thread_list, th_sibling cur}"
  using assms unfolding CloseThreads_def
  by (subst (asm) kwhile.simps)
    (auto simp: kbind_eq_Ok get_next_def DestructThread_no_result pcb_offsets split: if_splits)

text \<open>
  C36: A process that has a son, or a thread that \<^verbatim>\<open>CreateThread\<close> linked into its list, cannot be closed:
  \<^verbatim>\<open>CloseProc\<close> does not return (it spins for a live son) or faults in \<^verbatim>\<open>DestructThread\<close>.
\<close>

theorem close_proc_never_returns:
  assumes "GetCurThread s = Ok cur"
    and "nxt s (th_pcb s cur + off_left) \<noteq> 0 \<or>
      nxt s (th_pcb s cur + off_thread_list) \<notin> {th_pcb s cur + off_thread_list, th_sibling cur}"
  shows "CloseProc s \<noteq> Ok s'"
proof
  assume "CloseProc s = Ok s'"
  then obtain s1 x where "DestructAllSons (th_pcb s cur) s = Ok s1"
      "CloseThreads (th_pcb s cur) cur (pcb_thread_list (th_pcb s cur), SwitchPd kKPdAddr s1) = Ok x"
    using assms(1) by (auto simp: CloseProc_def kbind_eq_Ok rd_def Let_def split: if_splits)
  then show False
    using assms(2) DestructAllSons_returns CloseThreads_returns by (fastforce simp: SwitchPd_def Let_def)
qed

theorem close_proc_never_returns_witness:
  "\<forall>s'. CloseProc (three_threads\<lparr>nxt := (nxt three_threads)(0x902c := 0x1010)\<rparr>) \<noteq> Ok s'"
  using close_proc_never_returns [of "three_threads\<lparr>nxt := (nxt three_threads)(0x902c := 0x1010)\<rparr>" "0x1000"]
  by (simp add: three_threads_def GetCurThread_def rdw_def lin_def paging_on_def boot0_def mach0_def off_thread_list_def
      th_sibling_def)

section \<open>Page faults\<close>

lemma unat_4MB: "sint (of_nat kPteMaxNum * PageSize) = 0x400000"
  by (simp add: kPteMaxNum_def PageSize_def)

text \<open>
  The index into the page directory is a signed quotient: right for addresses below \<open>2 ^ 31\<close>, and
  negative for all others, so the entry that the handler uses lies before the page directory.
\<close>

theorem pf_directory_index:
  "PfPdIndex addr = (if addr < 0x80000000 then of_nat (pde_index addr) else - of_nat (unat (- addr) div 0x400000))"
proof (cases "addr < 0x80000000")
  case True
  then have "sint addr = int (unat addr)" by (simp add: sint_of_unat u32_less_iff_unat)
  then have "sint addr sdiv 0x400000 = int (pde_index addr)"
    by (simp add: signed_divide_int_def sgn_if pde_index_def zdiv_int)
  then show ?thesis using True by (simp add: PfPdIndex_def unat_4MB)
next
  case False
  then have nz: "addr \<noteq> 0" "2147483648 \<le> unat addr" by (auto simp: u32_less_iff_unat)
  have "sint addr = int (unat addr) - 4294967296" using sint_of_unat [OF refl, of addr] nz(2) by presburger
  then have "sint addr = - int (unat (- addr))" using unat_neg [OF nz(1)] unat_u32_bound [of addr] by linarith
  then have "sint addr sdiv 0x400000 = - int (unat (- addr) div 0x400000)"
    by (simp add: signed_divide_int_def sgn_if zdiv_int)
  then show ?thesis using False by (simp add: PfPdIndex_def unat_4MB)
qed

lemma first_free_unique: "first_free s i \<Longrightarrow> first_free s j \<Longrightarrow> i = j"
  unfolding first_free_def dyn_page_def by (metis linorder_cases)

text \<open>A page table below 4 MB is reached through its physical address; one above is not mapped there.\<close>

lemma SetPte_high: "paging_on s \<Longrightarrow> 0x400000 \<le> p \<Longrightarrow> p < kKVirtualAddr \<Longrightarrow> SetPte p acc a s = Fault PageFault"
  by (auto simp: SetPte_def wr_pte_def lin_def)

lemma lin_direct: "paging_on s \<Longrightarrow> x < kDirectMappingSize \<Longrightarrow> lin (x + kKVirtualAddr) s = Ok x"
proof -
  assume s: "paging_on s" and x: "x < kDirectMappingSize"
  have "unat (x + kKVirtualAddr) = unat x + 0xc0000000"
    using x by (subst unat_add_u32_small) (auto simp: u32_less_iff_unat kKVirtualAddr_def kDirectMappingSize_def)
  then show ?thesis
    using s x by (auto simp: lin_def u32_less_iff_unat u32_le_iff_unat kKVirtualAddr_def kDirectMappingSize_def)
qed

lemma pte_index_word: "GetPageNo v mod of_nat kPteMaxNum = of_nat (pte_index v)"
proof -
  have "unat (of_nat (pte_index v) :: u32) = pte_index v"
    by (rule unat_of_nat_u32) (simp add: pte_index_def less_trans [OF mod_less_divisor])
  then show ?thesis
    by (simp add: u32_eq_iff_unat GetPageNo_def PageSize_def kPteMaxNum_def unat_mod unat_div pte_index_def)
qed

text \<open>The bounds of an entry of the page table at \<open>pt\<close>.\<close>

lemma pt_entry_bound:
  fixes pt :: u32
  assumes "pt = push_bit 12 (ucast (pde_pt_addr d))" "pt < 0x4000000"
  shows "pt + 4 * of_nat (pte_index v) < 0x400000 \<longleftrightarrow> pt < 0x400000" "pt + 4 * of_nat (pte_index v) < kKVirtualAddr"
proof -
  obtain m where m: "unat pt = 4096 * m" using unat_push12 [of "ucast (pde_pt_addr d)"] assms(1) by auto
  have j: "pte_index v < 1024" by (simp add: pte_index_def)
  have "unat (pt + 4 * of_nat (pte_index v)) = unat pt + 4 * pte_index v"
    using assms(2) j by (intro unat_index) (simp add: u32_less_iff_unat)
  then show "pt + 4 * of_nat (pte_index v) < 0x400000 \<longleftrightarrow> pt < 0x400000" "pt + 4 * of_nat (pte_index v) < kKVirtualAddr"
    using assms(2) j m by (auto simp: u32_less_iff_unat kKVirtualAddr_def)
qed

lemma translate_user_page:
  assumes "creg (mach s) 3 AND NOT 0xfff = pd" "pde_at s (pd + 4 * of_nat (pde_index v)) = d" "bit (pde_access d) 0"
    and "pte_at s (push_bit 12 (ucast (pde_pt_addr d)) + 4 * of_nat (pte_index v)) = mkpte acc (GetPagePhysAddr i)"
    and "bit acc 0" "dyn_page i"
  shows "translate s v = Some (GetPagePhysAddr i OR (v AND 0xfff))"
proof -
  have u: "unat (GetPagePhysAddr i) = 4096 * unat i"
    using assms(6) by (simp add: GetPagePhysAddr_def PageSize_def dyn_page_def u32_less_iff_unat unat_word_ariths)
  have "unat (push_bit 12 (ucast (pte_page_addr (mkpte acc (GetPagePhysAddr i)))) :: u32) = unat (GetPagePhysAddr i)"
    using unat_frame20 [of "GetPagePhysAddr i"] u by (simp add: mkpte_def GetPageAddrInPte_def)
  then have "push_bit 12 (ucast (pte_page_addr (mkpte acc (GetPagePhysAddr i)))) = GetPagePhysAddr i"
    by (simp add: u32_eq_iff_unat)
  moreover have "bit (pte_access (mkpte acc (GetPagePhysAddr i))) 0"
    using assms(5) by (simp add: mkpte_def bit_simps)
  ultimately show ?thesis using assms(1-4) by (simp add: translate_def)
qed

text \<open>What the handler reads and takes: the directory entry of the faulting address and the first free page.\<close>

lemma ReqPage_first:
  assumes "pages_ok s" "first_free s i"
  shows "\<exists>bm. ReqPage s = Ok (GetPagePhysAddr i, s\<lparr>page_state := bm\<rparr>) \<and> page_used (s\<lparr>page_state := bm\<rparr>) i"
proof -
  have "\<not> (\<forall>j. dyn_page j \<longrightarrow> page_used s j)" using assms(2) by (auto simp: first_free_def)
  then obtain j bm where j: "first_free s j" and rp: "ReqPage s = Ok (GetPagePhysAddr j, s\<lparr>page_state := bm\<rparr>)"
      "set_page j s = Ok (s\<lparr>page_state := bm\<rparr>)" using ReqPage_ok [OF assms(1)] by blast
  have ij: "j = i" by (rule first_free_unique [OF j assms(2)])
  have "i < 0x100000" using assms(2) by (simp add: first_free_def dyn_page_def)
  from set_page_ok [OF assms(1) this] obtain bm' where b: "set_page i s = Ok (s\<lparr>page_state := bm'\<rparr>)"
    "\<forall>j. page_used (s\<lparr>page_state := bm'\<rparr>) j \<longleftrightarrow> bm_slot j = bm_slot i \<or> page_used s j" by blast
  from b(1) rp(2) ij have "s\<lparr>page_state := bm\<rparr> = s\<lparr>page_state := bm'\<rparr>" by simp
  then show ?thesis using b(2) rp(1) ij by auto
qed

lemma fault_entry:
  assumes "paging_on s" "v < 0x80000000" "c < 0x3fff000"
  shows "rd_pde (DirectMappingVirtualAddr c + 4 * PfPdIndex v) s = Ok (pde_at s (c + 4 * of_nat (pde_index v)))"
proof -
  have ix: "PfPdIndex v = of_nat (pde_index v)" "pde_index v < 512"
    using pf_directory_index [of v] assms(2) by (auto simp: pde_index_def u32_less_iff_unat)
  have "unat (c + 4 * of_nat (pde_index v)) = unat c + 4 * pde_index v"
    using assms(3) ix(2) by (intro unat_index) (simp add: u32_less_iff_unat)
  then have "c + 4 * of_nat (pde_index v) < kDirectMappingSize"
    using assms(3) ix(2) by (simp add: u32_less_iff_unat kDirectMappingSize_def)
  moreover have "DirectMappingVirtualAddr c + 4 * PfPdIndex v = (c + 4 * of_nat (pde_index v)) + kKVirtualAddr"
    using ix(1) by (simp add: DirectMappingVirtualAddr_def algebra_simps)
  ultimately show ?thesis using lin_direct [OF assms(1)] by (simp add: rd_pde_def)
qed

text \<open>
  C20: A fault on an absent page below \<open>2 ^ 31\<close> whose page table exists: when the table lies in the first 4 MB of
  physical memory, the handler takes the first free page and afterwards the processor's walk
  translates the faulting address to that page.  A table above 4 MB, where the allocator of the
  kernel puts them, is accessed by its physical address, and the handler itself faults.
\<close>

theorem page_fault_maps_page:
  fixes pt :: u32
  assumes "paging_on s" "pages_ok s" "first_free s i" "\<not> bit (err_code r) 0" "creg (mach s) 2 < 0x80000000"
    and "creg (mach s) 3 AND NOT 0xfff = creg (mach s) 3" "creg (mach s) 3 < 0x3fff000"
    and "d = pde_at s (creg (mach s) 3 + 4 * of_nat (pde_index (creg (mach s) 2)))" "bit (pde_access d) 0"
    and "pt = push_bit 12 (ucast (pde_pt_addr d))" "pt \<noteq> 0" "pt < 0x4000000"
  shows "if pt < 0x400000
    then \<exists>s'. PfHandler r s = Ok s' \<and> page_used s' i \<and>
      translate s' (creg (mach s) 2) = Some (GetPagePhysAddr i OR (creg (mach s) 2 AND 0xfff))
    else PfHandler r s = Fault PageFault"
proof -
  let ?v = "creg (mach s) 2" and ?c = "creg (mach s) 3"
  let ?p = "pt + 4 * of_nat (pte_index ?v)"
  let ?acc = "if bit (err_code r) 1 then kUPteWritePresentAccess else kUPteReadPresentAccess"
  obtain bm where rp: "ReqPage s = Ok (GetPagePhysAddr i, s\<lparr>page_state := bm\<rparr>)" "page_used (s\<lparr>page_state := bm\<rparr>) i"
    using ReqPage_first [OF assms(2,3)] by blast
  have "PfHandler r s = SetPte ?p ?acc (GetPagePhysAddr i) (s\<lparr>page_state := bm\<rparr>)"
    using assms(4) fault_entry [OF assms(1,5,7)] rp(1) assms(8,10,11)
    by (auto simp: PfHandler_def Let_def IsBitSet_bit get_cr_def kPdeAbsentAddr_def pte_index_word)
  moreover have "pt < 0x400000 \<Longrightarrow> translate (s\<lparr>page_state := bm, pte_at := (pte_at s)(?p := mkpte ?acc (GetPagePhysAddr i))\<rparr>) ?v =
      Some (GetPagePhysAddr i OR (?v AND 0xfff))"
    using assms(3,6,8-10)
    by (intro translate_user_page [where pd = ?c and d = d and acc = ?acc])
      (auto simp: first_free_def kUPteWritePresentAccess_def kUPteReadPresentAccess_def)
  ultimately show ?thesis
    using pt_entry_bound [OF assms(10,12), of ?v] SetPte_low [of ?p ?acc _ "s\<lparr>page_state := bm\<rparr>"] rp(2)
      SetPte_high [of "s\<lparr>page_state := bm\<rparr>" ?p ?acc] assms(1)
    by (auto simp: paging_on_def page_used_def)
qed

definition fault0 :: ths where
  "fault0 = boot0\<lparr>mach := mach0\<lparr>creg := (\<lambda>_. 0)(0 := 0x80000000, 2 := 0x8048123, 3 := 0x1000)\<rparr>,
     pde_at := (\<lambda>_. mkpde 7 0x5000)\<rparr>"

theorem page_fault_maps_page_witness:
  "\<exists>s'. PfHandler (ireg0\<lparr>err_code := 2\<rparr>) fault0 = Ok s' \<and> translate s' 0x8048123 = Some 0x4000123"
proof -
  have m: "creg (mach fault0) 0 = 0x80000000" "creg (mach fault0) 2 = 0x8048123" "creg (mach fault0) 3 = 0x1000"
      "pde_at fault0 = (\<lambda>_. mkpde 7 0x5000)"
    by (simp_all add: fault0_def)
  have "paging_on fault0" by (simp add: paging_on_def m bit_simps)
  moreover have "pages_ok fault0" "\<not> page_used fault0 0x4000"
    using boot0_pages by (auto simp: fault0_def pages_ok_def page_used_def)
  then have "first_free fault0 0x4000" by (auto simp: first_free_def dyn_page_def)
  moreover have "push_bit 12 (ucast (pde_pt_addr (mkpde 7 0x5000))) = (0x5000 :: u32)" by (simp add: mkpde_def GetPtAddrInPde_def)
  ultimately show ?thesis
    using page_fault_maps_page [of fault0 "0x4000" "ireg0\<lparr>err_code := 2\<rparr>" "mkpde 7 0x5000" "0x5000"] \<open>pages_ok fault0\<close> m
    by (simp add: ireg0_def) (auto simp: mkpde_def GetPagePhysAddr_def PageSize_def)
qed

end
