(* ===== verification/Timer.thy ===== *)
theory Timer
  imports Sched
begin

text \<open>
  \<^verbatim>\<open>kernel/driver/timer.c\<close>: the programmable timer, whose interrupts drive the scheduler.
  \<open>sched_ticks\<close> composes the handler with the scheduler: the time slice is fifteen ticks.
\<close>

record tms = ths +
  timer :: u8

definition kChannel0Port :: u16 where "kChannel0Port = 0x40"

definition kModeRegPort :: u16 where "kModeRegPort = 0x43"

definition kModeRegVal :: u8 where "kModeRegVal = 0x36"

definition kReloadVal :: u32 where "kReloadVal = 0x0"

definition kTimerReset :: u8 where "kTimerReset = 0xf"

definition TimerInit :: "'a tms_scheme \<Rightarrow> 'a tms_scheme kres" where
  "TimerInit s =
     (let s = koutb kModeRegPort kModeRegVal s;
          s = koutb kChannel0Port (ucast kReloadVal) s;
          s = koutb kChannel0Port (ucast (drop_bit 8 kReloadVal)) s in
      kbind (RegIntrHandler kTimerVec H_Timer s) (\<lambda>(_, s).
      EnableIrq kTimerVec (s\<lparr>timer := kTimerReset\<rparr>)))"

definition TimerHandler :: "IntrReg \<Rightarrow> 'a tms_scheme \<Rightarrow> 'a tms_scheme kres" where
  "TimerHandler r s =
     (let s = s\<lparr>timer := timer s - 1\<rparr>;
          s = SendEoi (intr_vec_no r) s in
      if timer s = 0 then
        kbind (kprintf (''Process switch happens.'' @ [CHR 0x0A]) [] (s\<lparr>timer := kTimerReset\<rparr>)) (\<lambda>s.
        ThreadSwitch s)
      else Ok s)"

section \<open>What the handler leaves alone\<close>

text \<open>The scheduler does not touch the console or the fields of the drivers.\<close>

lemma rd_eq_Ok: "rd f p s = Ok v \<longleftrightarrow> p \<noteq> 0 \<and> v = f s p"
  by (auto simp: rd_def)

lemma wr_eq_Ok: "wr f u p v s = Ok s' \<longleftrightarrow> p \<noteq> 0 \<and> s' = u (\<lambda>_. (f s)(p := v)) s"
  by (auto simp: wr_def)

lemma rd_pcb_eq_Ok: "rd_pcb off p s = Ok v \<longleftrightarrow> p \<noteq> 0 \<and> v = nxt s (p + off)"
  by (auto simp: rd_pcb_def)

lemma wr_pcb_eq_Ok: "wr_pcb off p v s = Ok s' \<longleftrightarrow> p \<noteq> 0 \<and> s' = s\<lparr>nxt := (nxt s)(p + off := v)\<rparr>"
  by (auto simp: wr_pcb_def)

lemmas eq_Ok = kbind_eq_Ok get_next_eq_Ok set_next_eq_Ok rd_eq_Ok wr_eq_Ok rd_pcb_eq_Ok wr_pcb_eq_Ok

lemma Dequeue_more: "Dequeue q s = Ok (n, s') \<Longrightarrow> kheap.more s' = kheap.more s"
  by (auto simp: Dequeue_def ListRemove_def eq_Ok split: if_splits)

lemma Enqueue_more: "Enqueue q n s = Ok s' \<Longrightarrow> kheap.more s' = kheap.more s"
  by (auto simp: Enqueue_def ListAdd_def eq_Ok split: if_splits)

lemma kheap_more_ths:
  "kheap.more s' = kheap.more s \<Longrightarrow> console s' = console s \<and> ths.more s' = ths.more s \<and> intr_handler s' = intr_handler s"
  by (cases s; cases s') simp

lemma ThreadSwitch_frame:
  assumes "ThreadSwitch s = Ok s'"
  shows "console s' = console s \<and> ths.more s' = ths.more s \<and> intr_handler s' = intr_handler s"
  using assms
  by (auto simp: ThreadSwitch_def call_SwitchReg_def SwitchReg_def wr_pcb_cr3_def SwitchPd_def Let_def eq_Ok split: if_splits
      dest!: Dequeue_more Enqueue_more kheap_more_ths)

lemma kprintf_eq_Ok: "kprintf f as s = Ok s' \<longleftrightarrow> (\<exists>c. printf f as (console s) = Ok c \<and> s' = s\<lparr>console := c\<rparr>)"
  by (auto simp: kprintf_def kbind_eq_Ok)

lemma TimerHandler_handlers: "TimerHandler r s = Ok s' \<Longrightarrow> intr_handler s' = intr_handler s"
  by (auto simp: TimerHandler_def SendEoi_def koutb_def Let_def kbind_eq_Ok kprintf_eq_Ok split: if_splits dest!: ThreadSwitch_frame)

section \<open>Time slices\<close>

text \<open>\<open>sched\<close> depends on the scheduler's own fields, the heap, raw memory and whether paging is on.\<close>

lemma sched_cong:
  assumes "nxt s' = nxt s" "q_head s' = q_head s" "q_tail s' = q_tail s" "wait_thread_queue s' = wait_thread_queue s"
    and "th_pcb s' = th_pcb s" "th_stack_addr s' = th_stack_addr s" "tss_esp0 s' = tss_esp0 s"
    and "wmem (mach s') = wmem (mach s)" "creg (mach s') = creg (mach s)"
  shows "sched s' xs = sched s xs"
proof -
  have "paging_on s' = paging_on s" using assms(9) by (simp add: paging_on_def)
  then have "thread_ok s' t = thread_ok s t" for t
    using assms rdw_cong [of s' s] by (simp add: thread_ok_def)
  then show ?thesis
    using assms queues_cong [of s' s] unlinked_cong [of s' s] one_pcb_cong [of s' s]
    by (simp add: sched_defs pcbs_ok_def sched_nodes_def)
qed

lemma sched_SendEoi [simp]: "sched (SendEoi v s) xs = sched s xs"
  by (rule sched_cong) (simp_all add: SendEoi_def koutb_def outb_def Let_def)

lemma sched_con_timer [simp]: "sched (s\<lparr>console := c\<rparr>) xs = sched s xs" "sched (s\<lparr>timer := x\<rparr>) xs = sched s xs"
  by (rule sched_cong; simp)+

lemma SendEoi_sel [simp]: "timer (SendEoi v s) = timer s" "console (SendEoi v s) = console s"
  by (simp_all add: SendEoi_def koutb_def Let_def)

lemma ths_more_timer: "ths.more s' = ths.more s \<Longrightarrow> timer s' = timer s"
  by (cases s; cases s') simp

text \<open>
  \<open>slice_ok s xs m\<close>: the scheduler runs the threads \<open>xs\<close>, the console is usable and \<open>m\<close> ticks are left of
  the current slice.
\<close>

definition slice_ok :: "'a tms_scheme \<Rightarrow> u32 list \<Rightarrow> nat \<Rightarrow> bool" where
  "slice_ok s xs m \<longleftrightarrow> sched s xs \<and> con_ok (console s) \<and> unat (timer s) = m \<and> 0 < m \<and> m \<le> 15"

lemma TimerHandler_step:
  assumes "slice_ok s xs m"
  shows "\<exists>s'. TimerHandler r s = Ok s' \<and>
    (if m = 1 then slice_ok s' (rotate1 xs) 15 else slice_ok s' xs (m - 1))"
proof -
  let ?s = "SendEoi (intr_vec_no r) (s\<lparr>timer := timer s - 1\<rparr>)"
  have sl: "sched s xs" "con_ok (console s)" "unat (timer s) = m" "0 < m" "m \<le> 15" using assms by (auto simp: slice_ok_def)
  have "timer s \<noteq> 0" using sl(3,4) by auto
  then have u: "unat (timer s - 1) = m - 1" using sl(3) by (simp add: unat_minus_one)
  show ?thesis
  proof (cases "m = 1")
    case True
    then have z: "timer s - 1 = 0" using u by (simp add: unat_eq_0)
    let ?s1 = "?s\<lparr>timer := kTimerReset\<rparr>"
    have f: "fmt_ok (''Process switch happens.'' @ [CHR 0x0A]) []" by simp
    obtain c where c: "kprintf (''Process switch happens.'' @ [CHR 0x0A]) [] ?s1 = Ok (?s1\<lparr>console := c\<rparr>)" "con_ok c"
      using kprintf_ok [OF _ f, of ?s1] sl(2) unfolding con_step_def by auto
    have "sched (?s1\<lparr>console := c\<rparr>) xs" using sl(1) by simp
    then obtain s' where s': "ThreadSwitch (?s1\<lparr>console := c\<rparr>) = Ok s'" "sched s' (rotate1 xs)"
      using ThreadSwitch_rotate by blast
    then have "console s' = c" "timer s' = 15"
      using ThreadSwitch_frame [OF s'(1)] ths_more_timer [of s' "?s1\<lparr>console := c\<rparr>"] by (simp_all add: kTimerReset_def)
    then show ?thesis
      using s' c z True by (auto simp: TimerHandler_def slice_ok_def Let_def)
  next
    case False
    then have "unat (timer s - 1) \<noteq> 0" using u sl(4) by simp
    then have "timer s - 1 \<noteq> 0" by (metis unat_0)
    then show ?thesis
      using sl u False by (auto simp: TimerHandler_def slice_ok_def Let_def)
  qed
qed

text \<open>
  The interface to the scheduler that the timer and the dispatcher have in common: a handler of events of which some
  are ticks, and every tick shortens the slice of 15 ticks or, at its end, rotates the list of threads.  An event may use up
  room for \<open>cost\<close> entries of a buffer, of which \<open>b\<close> are left.
\<close>

primrec run_events :: "('e \<Rightarrow> 's \<Rightarrow> 's kres) \<Rightarrow> 'e list \<Rightarrow> 's \<Rightarrow> 's kres" where
  "run_events ev [] s = Ok s"
| "run_events ev (e # es) s = kbind (ev e s) (run_events ev es)"

locale sliced =
  fixes ev :: "'e \<Rightarrow> 's \<Rightarrow> 's kres" and tick :: "'e \<Rightarrow> bool" and expected :: "'e \<Rightarrow> bool" and cost :: "'e \<Rightarrow> nat"
    and slice :: "'s \<Rightarrow> 't list \<Rightarrow> nat \<Rightarrow> nat \<Rightarrow> bool"
  assumes slice_bounds: "slice s xs m b \<Longrightarrow> 0 < m \<and> m \<le> 15"
    and ev_step: "slice s xs m b \<Longrightarrow> expected e \<Longrightarrow> cost e \<le> b \<Longrightarrow> \<exists>s'. ev e s = Ok s' \<and>
      (if tick e then if m = 1 then slice s' (rotate1 xs) 15 (b - cost e) else slice s' xs (m - 1) (b - cost e) else slice s' xs m (b - cost e))"
begin

text \<open>The position in the schedule after some events with \<open>m\<close> ticks left of the first slice.\<close>

lemma events_run:
  assumes "slice s xs m b" "\<forall>e\<in>set es. expected e" "sum_list (map cost es) \<le> b"
  shows "\<exists>s'. run_events ev es s = Ok s' \<and>
    slice s' (rotate ((length (filter tick es) + 15 - m) div 15) xs) (15 - (length (filter tick es) + 15 - m) mod 15) (b - sum_list (map cost es))"
  using assms
proof (induction es arbitrary: s xs m b)
  case Nil
  have m: "0 < m" "m \<le> 15" using slice_bounds [OF Nil(1)] by auto
  then have "(15 - m) div 15 = 0" "(15 - m) mod 15 = 15 - m" by auto
  then show ?case using Nil m by simp
next
  case (Cons e es)
  have m: "0 < m" "m \<le> 15" using slice_bounds [OF Cons.prems(1)] by auto
  let ?n = "length (filter tick es)" and ?b = "b - cost e"
  have x: "expected e" "\<forall>e\<in>set es. expected e" "cost e \<le> b" "sum_list (map cost es) \<le> ?b" "?b - sum_list (map cost es) = b - sum_list (map cost (e # es))"
    using Cons.prems(2,3) by auto
  obtain s1 where s1: "ev e s = Ok s1"
      "if tick e then if m = 1 then slice s1 (rotate1 xs) 15 ?b else slice s1 xs (m - 1) ?b else slice s1 xs m ?b"
    using ev_step [OF Cons.prems(1) x(1,3)] by blast
  consider "\<not> tick e" | "tick e" "m = 1" | "tick e" "m \<noteq> 1" by blast
  then show ?case
  proof cases
    case 1
    then show ?thesis using Cons.IH [OF _ x(2,4), of s1 xs m] s1 by simp
  next
    case 2
    have "(Suc ?n + 15 - m) div 15 = Suc (?n div 15)" "(Suc ?n + 15 - m) mod 15 = ?n mod 15" using 2 by auto
    then show ?thesis using Cons.IH [OF _ x(2,4), of s1 "rotate1 xs" 15] s1 2 by (simp add: rotate1_rotate_swap)
  next
    case 3
    have "?n + 15 - (m - 1) = Suc ?n + 15 - m" using m 3 by simp
    then show ?thesis using Cons.IH [OF _ x(2,4), of s1 xs "m - 1"] s1 3 by simp
  qed
qed

end

interpretation tmr: sliced TimerHandler "\<lambda>_. True" "\<lambda>_. True" "\<lambda>_. 0" "\<lambda>s xs m _. slice_ok s xs m"
proof
  show "0 < m \<and> m \<le> 15" if "slice_ok s xs m" for s :: "'a tms_scheme" and xs m using that by (simp add: slice_ok_def)
qed (simp only: if_True, rule TimerHandler_step)

primrec ticks :: "nat \<Rightarrow> IntrReg \<Rightarrow> 'a tms_scheme \<Rightarrow> 'a tms_scheme kres" where
  "ticks 0 r s = Ok s"
| "ticks (Suc n) r s = kbind (TimerHandler r s) (ticks n r)"

lemma ticks_events: "ticks n r (s :: 'a tms_scheme) = run_events TimerHandler (replicate n r) s"
proof (induction n arbitrary: s)
  case (Suc n)
  have "ticks n r = (\<lambda>s :: 'a tms_scheme. run_events TimerHandler (replicate n r) s)" by (rule ext) (rule Suc)
  then show ?case by simp
qed simp

lemma ticks_run:
  assumes "slice_ok s xs m"
  shows "\<exists>s'. ticks n r s = Ok s' \<and> slice_ok s' (rotate ((n + 15 - m) div 15) xs) (15 - (n + 15 - m) mod 15)"
  using tmr.events_run [OF assms, of "replicate n r" 0] by (simp add: ticks_events sum_list_replicate)

end
