(* ===== verification/Polling.thy ===== *)
theory Polling
  imports Timer
begin

text \<open>
  Busy waiting on a device register, as the keyboard and the disk driver do it:
  \<^verbatim>\<open>while (busy(d = inb(port)));\<close>.  What a read returns depends on the history of all port accesses, so
  every turn asks the device anew; the loop may run forever.  \<open>poll_eq\<close> says when it returns.
\<close>

partial_function (option) poll :: "u16 \<Rightarrow> (u8 \<Rightarrow> bool) \<Rightarrow> 'a kbase_scheme \<Rightarrow> (u8 \<times> 'a kbase_scheme) kres" where
  "poll port busy s = (let (d, s) = kinb port s in if busy d then poll port busy s else Ok (d, s))"

declare poll.simps [code]

text \<open>The history after \<open>n\<close> reads of a port, and the value of the next read.\<close>

primrec read_hist :: "u16 \<Rightarrow> (io list \<Rightarrow> u16 \<Rightarrow> u8) \<Rightarrow> nat \<Rightarrow> io list \<Rightarrow> io list" where
  "read_hist port dv 0 tr = tr"
| "read_hist port dv (Suc n) tr = read_hist port dv n (InB port (dv tr port) # tr)"

definition nth_read :: "u16 \<Rightarrow> nat \<Rightarrow> 'a kbase_scheme \<Rightarrow> u8" where
  "nth_read port n s = dev (mach s) (read_hist port (dev (mach s)) n (trace (mach s))) port"

definition after_reads :: "u16 \<Rightarrow> nat \<Rightarrow> 'a kbase_scheme \<Rightarrow> 'a kbase_scheme" where
  "after_reads port n s = s\<lparr>mach := (mach s)\<lparr>trace := read_hist port (dev (mach s)) n (trace (mach s))\<rparr>\<rparr>"

lemma kinb_eq: "kinb port s = (nth_read port 0 s, after_reads port 1 s)"
  by (simp add: kinb_def inb_def nth_read_def after_reads_def Let_def)

lemma nth_read_Suc: "nth_read port n (after_reads port 1 s) = nth_read port (Suc n) s"
  by (simp add: nth_read_def after_reads_def)

lemma after_reads_Suc: "after_reads port n (after_reads port 1 s) = after_reads port (Suc n) s"
  by (simp add: after_reads_def)

lemma poll_unfold:
  "poll port busy s =
     (if busy (nth_read port 0 s) then poll port busy (after_reads port 1 s) else Ok (nth_read port 0 s, after_reads port 1 s))"
  by (subst poll.simps) (simp add: kinb_eq)

lemma poll_returns:
  "\<not> busy (nth_read port n s) \<Longrightarrow> (\<And>i. i < n \<Longrightarrow> busy (nth_read port i s)) \<Longrightarrow>
   poll port busy s = Ok (nth_read port n s, after_reads port (Suc n) s)"
proof (induction n arbitrary: s)
  case 0
  then show ?case by (simp add: poll_unfold)
next
  case (Suc n)
  have "busy (nth_read port i (after_reads port 1 s))" if "i < n" for i
    using Suc.prems(2) [of "Suc i"] that by (simp add: nth_read_Suc del: One_nat_def)
  moreover have "\<not> busy (nth_read port n (after_reads port 1 s))"
    using Suc.prems(1) by (simp add: nth_read_Suc del: One_nat_def)
  ultimately have "poll port busy (after_reads port 1 s) = Ok (nth_read port (Suc n) s, after_reads port (Suc (Suc n)) s)"
    using Suc.IH [of "after_reads port 1 s"] by (simp add: nth_read_Suc after_reads_Suc del: One_nat_def)
  then show ?case using Suc.prems(2) [of 0] by (subst poll_unfold) simp
qed

lemma poll_stuck:
  assumes "\<And>n. busy (nth_read port n s)"
  shows "poll port busy s = None"
proof (rule ccontr)
  assume "poll port busy s \<noteq> None"
  then obtain r where r: "poll port busy s = Some r" by blast
  have "\<not> (\<forall>n. busy (nth_read port n s))"
  proof (rule poll.raw_induct [where P = "\<lambda>p b s r. \<not> (\<forall>n. b (nth_read p n s))", OF _ r])
    fix pl :: "u16 \<Rightarrow> (u8 \<Rightarrow> bool) \<Rightarrow> 'a kbase_scheme \<Rightarrow> (u8 \<times> 'a kbase_scheme) kres" and p b s r
    assume IH: "\<And>p b s r. pl p b s = Some r \<Longrightarrow> \<not> (\<forall>n. b (nth_read p n s))"
      and e: "(let (d, s) = kinb p s in if b d then pl p b s else Ok (d, s)) = Some r"
    show "\<not> (\<forall>n. b (nth_read p n s))"
    proof
      assume a: "\<forall>n. b (nth_read p n s)"
      then have "pl p b (after_reads p 1 s) = Some r" using e by (simp add: kinb_eq)
      from IH [OF this] a show False by (simp only: nth_read_Suc) simp
    qed
  qed
  with assms show False by blast
qed

text \<open>The complete behaviour.\<close>

lemma poll_eq:
  "poll port busy s =
     (if \<exists>n. \<not> busy (nth_read port n s)
      then let n = LEAST n. \<not> busy (nth_read port n s) in Ok (nth_read port n s, after_reads port (Suc n) s)
      else None)"
proof (cases "\<exists>n. \<not> busy (nth_read port n s)")
  case True
  define n where "n = (LEAST n. \<not> busy (nth_read port n s))"
  have "\<not> busy (nth_read port n s)" unfolding n_def by (rule LeastI_ex [OF True])
  moreover have "busy (nth_read port i s)" if "i < n" for i
    using not_less_Least [of i "\<lambda>n. \<not> busy (nth_read port n s)"] that unfolding n_def by blast
  ultimately have "poll port busy s = Ok (nth_read port n s, after_reads port (Suc n) s)" by (rule poll_returns)
  then show ?thesis using True by (simp add: n_def [symmetric] Let_def)
next
  case False
  then show ?thesis using poll_stuck [of busy port s] by simp
qed

end
