(* ===== verification/Pic.thy ===== *)
theory Pic
  imports IntrProps
begin

text \<open>
  The interrupt controllers as the processor sees them: which lines they let through, and the lines in service.
  A line is in service from the moment the processor takes its interrupt until the end of interrupt command that
  \<^verbatim>\<open>SendEoi\<close> of \<^verbatim>\<open>kernel/interrupt/pic.c\<close> writes; until then the controllers hold back that line and all of lower priority.  The
  controllers are devices: this is what their manual says of the mode that \<^verbatim>\<open>PicInit\<close> selects (fully nested, end of interrupt by command).
  In each of the two registers the lowest bit has the highest priority; the second controller is on line 2 of the first.
\<close>

unbundle bit_operations_syntax

record pic =
  isr_m :: u8
  isr_s :: u8

definition pic_idle :: pic where
  "pic_idle = \<lparr>isr_m = 0, isr_s = 0\<rparr>"

definition pic_ack :: "nat \<Rightarrow> pic \<Rightarrow> pic" where
  "pic_ack irq c =
     (if irq < 8 then c\<lparr>isr_m := isr_m c OR push_bit irq 1\<rparr>
      else c\<lparr>isr_m := isr_m c OR push_bit kIrqSlave 1, isr_s := isr_s c OR push_bit (irq - 8) 1\<rparr>)"

text \<open>The command ends the service of the line with the highest priority.\<close>

definition end_service :: "u8 \<Rightarrow> u8" where
  "end_service w = w AND (w - 1)"

fun pic_io :: "io \<Rightarrow> pic \<Rightarrow> pic" where
  "pic_io (OutB p d) c =
     (if d \<noteq> kPicEoi then c
      else if p = kMPicCmd then c\<lparr>isr_m := end_service (isr_m c)\<rparr>
      else if p = kSPicCmd then c\<lparr>isr_s := end_service (isr_s c)\<rparr>
      else c)"
| "pic_io _ c = c"

text \<open>The controllers after the accesses by which the trace has grown; the latest access comes first.\<close>

definition pic_after :: "io list \<Rightarrow> io list \<Rightarrow> pic \<Rightarrow> pic" where
  "pic_after tr tr' c = foldr pic_io (take (length tr' - length tr) tr') c"

text \<open>Whether an interrupt request of a line reaches the processor.\<close>

definition line_free :: "nat \<Rightarrow> pic \<Rightarrow> bool" where
  "line_free irq c \<longleftrightarrow>
     (if irq < 8 then isr_m c AND mask (Suc irq) = 0
      else isr_m c AND mask (Suc kIrqSlave) = 0 \<and> isr_s c AND mask (irq - 7) = 0)"

definition raised :: "'a kbase_scheme \<Rightarrow> pic \<Rightarrow> nat \<Rightarrow> bool" where
  "raised s c irq \<longleftrightarrow> irq < 16 \<and> irq \<noteq> kIrqSlave \<and> \<not> irq_masked s irq \<and> (8 \<le> irq \<longrightarrow> \<not> irq_masked s kIrqSlave) \<and> line_free irq c"

section \<open>One interrupt and its end\<close>

lemma pic_after_app [simp]: "pic_after tr (new @ tr) c = foldr pic_io new c"
  by (simp add: pic_after_def)

lemma pic_after_Cons [simp]: "pic_after tr (x # tr) c = pic_io x c"
  using pic_after_app [of tr "[x]"] by simp

lemma line_free_idle [simp]: "line_free irq pic_idle"
  by (simp add: line_free_def pic_idle_def)

lemma end_idle [simp]: "end_service 0 = 0"
  by (simp add: end_service_def)

lemma end_single: "irq < 8 \<Longrightarrow> end_service (push_bit irq 1) = 0"
proof -
  assume "irq < 8"
  then have "irq \<in> set [0..<8]" by simp
  moreover have "list_all (\<lambda>i. end_service (push_bit i 1) = 0) [0..<8]" by code_simp
  ultimately show ?thesis by (simp only: list_all_iff)
qed

text \<open>An unacknowledged line is held back.\<close>

lemma ack_holds: "irq < 8 \<Longrightarrow> \<not> line_free irq (pic_ack irq c)"
proof -
  assume i: "irq < 8"
  then have "bit ((isr_m c OR push_bit irq 1) AND mask (Suc irq)) irq" by (simp add: bit_simps)
  moreover have "\<not> bit (0 :: u8) irq" by simp
  ultimately show ?thesis using i unfolding line_free_def pic_ack_def by auto
qed

lemma ack_end:
  assumes "irq < 8"
  shows "pic_io (OutB kMPicCmd kPicEoi) (pic_ack irq pic_idle) = pic_idle"
  using end_single [OF assms] assms by (simp add: pic_ack_def pic_idle_def)

text \<open>\<^verbatim>\<open>SendEoi\<close> writes the command to the first controller, and before that to the second one for its lines.\<close>

lemma SendEoi_trace:
  "trace (mach (SendEoi v s)) = OutB kMPicCmd kPicEoi # (if kSIcw2 \<le>s v then [OutB kSPicCmd kPicEoi] else []) @ trace (mach s)"
  by (simp add: SendEoi_def koutb_def outb_def Let_def)

lemma SendEoi_first:
  assumes "unat v < 40"
  shows "trace (mach (SendEoi v s)) = OutB kMPicCmd kPicEoi # trace (mach s)"
proof -
  have "v < kSIcw2" "kSIcw2 < 0x80000000" using assms by (simp_all add: kSIcw2_def kMIcw2_def u32_less_iff_unat)
  moreover have "v < 0x80000000" using assms by (simp add: u32_less_iff_unat)
  ultimately have "v <s kSIcw2" by (simp add: sless_small)
  then have "\<not> kSIcw2 \<le>s v" by (simp add: word_sle_eq word_sless_alt)
  then show ?thesis by (simp add: SendEoi_trace)
qed

lemma SendEoi_idle: "unat v < 40 \<Longrightarrow> pic_after (trace (mach s)) (trace (mach (SendEoi v s))) pic_idle = pic_idle"
  by (simp add: SendEoi_first) (simp add: pic_idle_def)

end
