(* ===== verification/Keyboard.thy ===== *)
theory Keyboard
  imports Polling Pic
begin

text \<open>
  \<^verbatim>\<open>kernel/driver/keyboard.c\<close>: the PS/2 keyboard.  The state has the map of scan codes, the counter of
  bytes since the last key press, and the input buffer with its fill level \<open>cur\<close>.
  \<^verbatim>\<open>kStatusReg\<close> and \<^verbatim>\<open>kCmdReg\<close> of this file get the prefix \<open>Ps2\<close>, because the disk driver uses the same names.

  The \<^verbatim>\<open>switch\<close> of the interrupt handler is the definition \<open>KeyInput\<close>; its second case falls through to
  the third when the byte is \<^verbatim>\<open>0xf0\<close>.
\<close>

record kbs = tms +
  keymap :: u32
  key_counter :: u8
  input_buf :: "u8 list"
  cur :: u32

definition kPs2DataPort :: u16 where "kPs2DataPort = 0x60"

definition kPs2StatusReg :: u16 where "kPs2StatusReg = 0x64"

definition kPs2CmdReg :: u16 where "kPs2CmdReg = 0x64"

definition kKeyboardBufSize :: nat where "kKeyboardBufSize = 0x400"

definition kCtrlConfig :: u8 where "kCtrlConfig = 4"

definition kDisablePort1 :: u8 where "kDisablePort1 = 0xad"

definition kEnablePort1 :: u8 where "kEnablePort1 = 0xae"

definition kDisablePort2 :: u8 where "kDisablePort2 = 0xa7"

definition kCtrlSelfTest :: u8 where "kCtrlSelfTest = 0xaa"

definition kTestPort1 :: u8 where "kTestPort1 = 0xab"

definition kWCtrlConfig :: u8 where "kWCtrlConfig = 0x60"

definition kResetDevice :: u8 where "kResetDevice = 0xff"

definition Read :: "u16 \<Rightarrow> 'a kbase_scheme \<Rightarrow> (u8 \<times> 'a kbase_scheme) kres" where
  "Read port s =
     kbind (poll kPs2StatusReg (\<lambda>d. d AND 0x1 = 0) s) (\<lambda>(_, s). Ok (kinb port s))"

definition Write :: "u16 \<Rightarrow> u8 \<Rightarrow> 'a kbase_scheme \<Rightarrow> 'a kbase_scheme kres" where
  "Write port data s =
     kbind (poll kPs2StatusReg (\<lambda>d. d AND 0x2 \<noteq> 0) s) (\<lambda>(_, s). Ok (koutb port data s))"

definition KeymapInit :: "'a kbs_scheme \<Rightarrow> 'a kbs_scheme kres" where
  "KeymapInit s = kbind (map_new s) (\<lambda>(m, s). Ok (s\<lparr>keymap := m\<rparr>))"

definition free_keyboard_buffer :: "'a kbs_scheme \<Rightarrow> 'a kbs_scheme" where
  "free_keyboard_buffer s = s\<lparr>cur := 0, key_counter := 0\<rparr>"

definition KeyInput :: "u8 \<Rightarrow> 'a kbs_scheme \<Rightarrow> 'a kbs_scheme kres" where
  "KeyInput input s =
     (let c = key_counter s mod 3 in
      if c = 0 then
        kbind (MapGet (keymap s) input s) (\<lambda>(v, s).
        if unat (cur s) < length (input_buf s) then
          Ok (s\<lparr>input_buf := (input_buf s)[unat (cur s) := ucast v], cur := cur s + 1,
                key_counter := key_counter s + 1\<rparr>)
        else Fault OutOfBounds)
      else if c = 1 \<and> input \<noteq> 0xf0 then
        Ok (s\<lparr>cur := cur s - 1, key_counter := key_counter s + 1\<rparr>)
      else Ok (s\<lparr>key_counter := 0\<rparr>))"

definition KeyboardHandler :: "IntrReg \<Rightarrow> 'a kbs_scheme \<Rightarrow> 'a kbs_scheme kres" where
  "KeyboardHandler r s =
     kbind (Read kPs2DataPort s) (\<lambda>(input, s).
     kbind (KeyInput input s) (\<lambda>s.
     Ok (SendEoi (intr_vec_no r) s)))"

definition KeyboardInit :: "'a kbs_scheme \<Rightarrow> (bool \<times> 'a kbs_scheme) kres" where
  "KeyboardInit s =
     kbind (Write kPs2CmdReg kDisablePort1 s) (\<lambda>s.
     kbind (Write kPs2CmdReg kDisablePort2 s) (\<lambda>s.
     let s = snd (kinb kPs2DataPort s) in
     kbind (Write kPs2CmdReg kWCtrlConfig s) (\<lambda>s.
     kbind (Write kPs2DataPort kCtrlConfig s) (\<lambda>s.
     kbind (Write kPs2CmdReg kCtrlSelfTest s) (\<lambda>s.
     kbind (Read kPs2DataPort s) (\<lambda>(d, s).
     if d \<noteq> 0x55 then Ok (False, s)
     else
     kbind (Write kPs2CmdReg kTestPort1 s) (\<lambda>s.
     kbind (Read kPs2DataPort s) (\<lambda>(d, s).
     if d \<noteq> 0 then Ok (False, s)
     else
     kbind (Write kPs2CmdReg kEnablePort1 s) (\<lambda>s.
     kbind (Write kPs2DataPort kResetDevice s) (\<lambda>s.
     kbind (Read kPs2DataPort s) (\<lambda>(_, s).
     let (d, s) = kinb kPs2DataPort s in
     if d \<noteq> 0xaa then Ok (False, s)
     else
     kbind (KeymapInit (s\<lparr>key_counter := 0, cur := 0\<rparr>)) (\<lambda>s.
     kbind (Write kPs2CmdReg kWCtrlConfig s) (\<lambda>s.
     kbind (Write kPs2DataPort (kCtrlConfig OR 0x1) s) (\<lambda>s.
     kbind (RegIntrHandler kKeyboardVec H_Keyboard s) (\<lambda>(_, s).
     kbind (EnableIrq kKeyboardVec s) (\<lambda>s.
     Ok (True, s)))))))))))))))))"

section \<open>Typing\<close>

text \<open>A key press and release as scan code set 2 sends it: the code, then \<^verbatim>\<open>0xf0\<close> and the code again.\<close>

primrec key_bytes :: "u8 list \<Rightarrow> 'a kbs_scheme \<Rightarrow> 'a kbs_scheme kres" where
  "key_bytes [] s = Ok s"
| "key_bytes (b # bs) s = kbind (KeyInput b s) (key_bytes bs)"

definition press_release :: "u8 \<Rightarrow> u8 list" where
  "press_release k = [k, 0xf0, k]"

lemma key_bytes_append: "key_bytes (xs @ ys) s = kbind (key_bytes xs s) (key_bytes ys)"
proof (induction xs arbitrary: s)
  case (Cons x xs)
  then have "key_bytes (xs @ ys) = (\<lambda>s :: 'a kbs_scheme. kbind (key_bytes xs s) (key_bytes ys))" by (simp add: fun_eq_iff)
  then show ?case by (simp add: kbind_assoc)
qed simp

text \<open>
  The state of the keyboard: the map is empty, as \<^verbatim>\<open>KeymapInit\<close> leaves it, \<open>c\<close> bytes are recorded and \<open>n\<close> is the
  counter.  After a recorded byte the buffer is not empty, so the decrement never wraps around.
\<close>

definition kbd_inv :: "nat \<Rightarrow> nat \<Rightarrow> 'a kbs_scheme \<Rightarrow> bool" where
  "kbd_inv c n s \<longleftrightarrow> clist (nxt s) (keymap s) [] \<and> length (input_buf s) = kKeyboardBufSize \<and>
     unat (cur s) = c \<and> unat (key_counter s) = n \<and> c \<le> kKeyboardBufSize \<and> n < 3 \<and> (n = 1 \<longrightarrow> 0 < c)"

lemma KeyInput_step:
  assumes "kbd_inv c n s"
  shows "if n = 0 \<and> c = kKeyboardBufSize then KeyInput b s = Fault OutOfBounds
    else \<exists>s'. KeyInput b s = Ok s' \<and>
      (if n = 0 then kbd_inv (Suc c) 1 s' \<and> input_buf s' = (input_buf s)[c := 0]
       else if n = 1 \<and> b \<noteq> 0xf0 then kbd_inv (c - 1) 2 s' \<and> input_buf s' = input_buf s
       else kbd_inv c 0 s' \<and> input_buf s' = input_buf s)"
proof -
  have i: "clist (nxt s) (keymap s) []" "length (input_buf s) = kKeyboardBufSize" "unat (cur s) = c" "unat (key_counter s) = n"
      "c \<le> kKeyboardBufSize" "n < 3" "n = 1 \<longrightarrow> 0 < c"
    using assms by (auto simp: kbd_inv_def)
  have m: "unat (key_counter s mod 3) = n" using i(4,6) by (simp add: unat_mod)
  have k: "key_counter s mod 3 = 0 \<longleftrightarrow> n = 0" "key_counter s mod 3 = 1 \<longleftrightarrow> n = 1"
    using m word_unat_eq_iff [of "key_counter s mod 3" 0] word_unat_eq_iff [of "key_counter s mod 3" 1] by auto
  have kn: "unat (key_counter s + 1) = Suc n" using i(4,6) by (simp add: unat_word_ariths)
  consider "n = 0" | "n = 1" "b \<noteq> 0xf0" | "n \<noteq> 0" "\<not> (n = 1 \<and> b \<noteq> 0xf0)" by blast
  then show ?thesis
  proof cases
    case 1
    have "unat (cur s + 1) = Suc c" if "c < kKeyboardBufSize"
      using that i(3) by (simp add: unat_word_ariths kKeyboardBufSize_def)
    then show ?thesis
      using 1 i k kn MapGet_Nil [OF i(1)] by (auto simp: KeyInput_def kbd_inv_def Let_def)
  next
    case 2
    then have "unat (cur s - 1) = c - 1" using i(3,7) by (intro unat_minus_one [THEN trans]) auto
    then show ?thesis using 2 i k kn by (auto simp: KeyInput_def kbd_inv_def Let_def)
  next
    case 3
    then show ?thesis using i k by (auto simp: KeyInput_def kbd_inv_def Let_def)
  qed
qed

text \<open>
  Typing keys: the first one is recorded twice, at its press and at its release, and leaves the counter
  at 1.  The press of every further key is taken for an invalid byte, which deletes the last
  record, and its release is recorded instead.
\<close>

lemma press_release_first:
  assumes "kbd_inv c 0 s" "Suc c < kKeyboardBufSize" "k \<noteq> 0xf0"
  shows "\<exists>s'. key_bytes (press_release k) s = Ok s' \<and> kbd_inv (Suc (Suc c)) 1 s'"
proof -
  obtain s1 where s1: "KeyInput k s = Ok s1" "kbd_inv (Suc c) 1 s1" using KeyInput_step [OF assms(1), of k] assms(2) by auto
  obtain s2 where s2: "KeyInput 0xf0 s1 = Ok s2" "kbd_inv (Suc c) 0 s2" using KeyInput_step [OF s1(2), of "0xf0"] by auto
  obtain s3 where "KeyInput k s2 = Ok s3" "kbd_inv (Suc (Suc c)) 1 s3" using KeyInput_step [OF s2(2), of k] assms(2) by auto
  then show ?thesis using s1 s2 by (simp add: press_release_def)
qed

lemma press_release_next:
  assumes "kbd_inv (Suc c) 1 s" "k \<noteq> 0xf0"
  shows "\<exists>s'. key_bytes (press_release k) s = Ok s' \<and> kbd_inv (Suc c) 1 s'"
proof -
  have c: "c < kKeyboardBufSize" using assms(1) by (auto simp: kbd_inv_def)
  obtain s1 where s1: "KeyInput k s = Ok s1" "kbd_inv c 2 s1" using KeyInput_step [OF assms(1), of k] assms(2) by auto
  obtain s2 where s2: "KeyInput 0xf0 s1 = Ok s2" "kbd_inv c 0 s2" using KeyInput_step [OF s1(2), of "0xf0"] by auto
  obtain s3 where "KeyInput k s2 = Ok s3" "kbd_inv (Suc c) 1 s3" using KeyInput_step [OF s2(2), of k] c by auto
  then show ?thesis using s1 s2 by (simp add: press_release_def)
qed

lemma typing_next:
  "kbd_inv (Suc c) 1 s \<Longrightarrow> \<forall>k\<in>set ks. k \<noteq> 0xf0 \<Longrightarrow>
   \<exists>s'. key_bytes (concat (map press_release ks)) s = Ok s' \<and> kbd_inv (Suc c) 1 s'"
proof (induction ks arbitrary: s)
  case Nil
  then show ?case by simp
next
  case (Cons k ks)
  obtain s1 where s1: "key_bytes (press_release k) s = Ok s1" "kbd_inv (Suc c) 1 s1"
    using press_release_next [OF Cons.prems(1)] Cons.prems(2) by auto
  then show ?case using Cons.IH [OF s1(2)] Cons.prems(2) by (simp add: key_bytes_append)
qed

section \<open>One interrupt\<close>

text \<open>
  What a byte does to the buffer that holds \<open>c\<close> entries with the counter at \<open>n\<close>: the first byte is recorded, as 0 because the key map is empty; the second one
  deletes that entry unless it is \<^verbatim>\<open>0xf0\<close>.
\<close>

definition key_recorded :: "nat \<Rightarrow> nat \<Rightarrow> u8 \<Rightarrow> 'a kbs_scheme \<Rightarrow> 'a kbs_scheme" where
  "key_recorded c n b s = s
     \<lparr>input_buf := (if n = 0 then (input_buf s)[c := 0] else input_buf s),
      cur := of_nat (if n = 0 then Suc c else if n = 1 \<and> b \<noteq> 0xf0 then c - 1 else c),
      key_counter := (if n = 0 then 1 else if n = 1 \<and> b \<noteq> 0xf0 then 2 else 0)\<rparr>"

lemma KeyInput_eq:
  assumes "kbd_inv c n s"
  shows "KeyInput b s = (if n = 0 \<and> c = kKeyboardBufSize then Fault OutOfBounds else Ok (key_recorded c n b s))"
proof -
  have i: "clist (nxt s) (keymap s) []" "length (input_buf s) = kKeyboardBufSize" "cur s = of_nat c" "key_counter s = of_nat n"
      "c \<le> kKeyboardBufSize" "n < 3" "n = 1 \<longrightarrow> 0 < c" "unat (cur s) = c"
    using assms by (auto simp: kbd_inv_def)
  have u: "unat (of_nat c :: u32) = c" using i(5) by (simp add: unat_of_nat_u32 kKeyboardBufSize_def)
  consider "n = 0" | "n = 1" | "n = 2" using i(6) by linarith
  then show ?thesis
  proof cases
    case 1
    then show ?thesis using i(2-5) u MapGet_Nil [OF i(1)] by (auto simp: KeyInput_def key_recorded_def Let_def)
  next
    case 2
    moreover have "of_nat c - 1 = (of_nat (c - 1) :: u32)" using 2 i(7) by (cases c) simp_all
    ultimately show ?thesis using i(3,4) by (simp add: KeyInput_def key_recorded_def Let_def)
  next
    case 3
    then show ?thesis using i(3,4) by (simp add: KeyInput_def key_recorded_def Let_def)
  qed
qed

text \<open>The handler waits for a byte, processes it and acknowledges the interrupt at the first controller.\<close>

lemma KeyboardHandler_eq:
  assumes k: "kbd_inv c n s" and r: "intr_vec_no r = kKeyboardVec"
  shows "KeyboardHandler r s =
     (if \<forall>i. nth_read kPs2StatusReg i s AND 1 = 0 then None
      else if n = 0 \<and> c = kKeyboardBufSize then Fault OutOfBounds
      else
        let s1 = after_reads kPs2StatusReg (Suc (LEAST i. nth_read kPs2StatusReg i s AND 1 \<noteq> 0)) s;
            s2 = key_recorded c n (nth_read kPs2DataPort 0 s1) (after_reads kPs2DataPort 1 s1) in
        Ok (s2\<lparr>mach := (mach s2)\<lparr>trace := OutB kMPicCmd kPicEoi # trace (mach s2)\<rparr>\<rparr>))"
proof -
  have "kbd_inv c n (after_reads p i (after_reads q j s))" for p i q j using k by (simp add: kbd_inv_def after_reads_def)
  note e = KeyInput_eq [OF this]
  have "\<not> kSIcw2 \<le>s kKeyboardVec" by (simp add: kSIcw2_def kMIcw2_def kKeyboardVec_def)
  then have a: "SendEoi (intr_vec_no r) s' = s'\<lparr>mach := (mach s')\<lparr>trace := OutB kMPicCmd kPicEoi # trace (mach s')\<rparr>\<rparr>" for s' :: "'a kbs_scheme"
    using r by (simp add: SendEoi_def koutb_def outb_def Let_def)
  show ?thesis by (auto simp: KeyboardHandler_def Read_def poll_eq kinb_eq e a Let_def)
qed

section \<open>Any sequence of bytes\<close>

text \<open>Every byte records at most one more entry, so the buffer cannot overflow before it has taken that many bytes.\<close>

lemma key_bytes_bounded:
  assumes "kbd_inv c n s" "c + length bs \<le> kKeyboardBufSize"
  shows "\<exists>s' c' n'. key_bytes bs s = Ok s' \<and> kbd_inv c' n' s' \<and> c' \<le> c + length bs"
  using assms
proof (induction bs arbitrary: s c n)
  case Nil
  then show ?case by auto
next
  case (Cons b bs)
  have "\<not> (n = 0 \<and> c = kKeyboardBufSize)" using Cons.prems(2) by auto
  then obtain s1 where k: "KeyInput b s = Ok s1"
      "if n = 0 then kbd_inv (Suc c) 1 s1 else if n = 1 \<and> b \<noteq> 0xf0 then kbd_inv (c - 1) 2 s1 else kbd_inv c 0 s1"
    using KeyInput_step [OF Cons.prems(1), of b] by (auto split: if_splits)
  have "kbd_inv (Suc c) 1 s1 \<or> kbd_inv (c - 1) 2 s1 \<or> kbd_inv c 0 s1" using k(2) by (simp split: if_splits)
  then obtain c1 n1 where s1: "kbd_inv c1 n1 s1" "c1 \<le> Suc c" by (metis diff_le_self le_SucI order_refl)
  have "c1 + length bs \<le> kKeyboardBufSize" using s1(2) Cons.prems(2) by simp
  then show ?case using Cons.IH [OF s1(1)] k(1) s1(2) by fastforce
qed

text \<open>Two bytes, a code and \<^verbatim>\<open>0xf0\<close>, record one entry for good.\<close>

lemma press_prefix_step:
  "kbd_inv c 0 s \<Longrightarrow> c < kKeyboardBufSize \<Longrightarrow> \<exists>s'. key_bytes [k, 0xf0] s = Ok s' \<and> kbd_inv (Suc c) 0 s'"
  using KeyInput_step [of c 0 s k] KeyInput_step [of "Suc c" 1 _ "0xf0"] by fastforce

lemma press_prefix_overflow:
  "kbd_inv c 0 s \<Longrightarrow> key_bytes (concat (replicate (Suc (kKeyboardBufSize - c)) [k, 0xf0])) s = Fault OutOfBounds"
proof (induction "kKeyboardBufSize - c" arbitrary: c s)
  case 0
  then have "c = kKeyboardBufSize" by (simp add: kbd_inv_def)
  then show ?case using KeyInput_step [OF 0(2), of k] 0(1) by simp
next
  case (Suc d)
  then have c: "c < kKeyboardBufSize" "d = kKeyboardBufSize - Suc c" by simp_all
  obtain s' where s': "key_bytes [k, 0xf0] s = Ok s'" "kbd_inv (Suc c) 0 s'" using press_prefix_step [OF Suc(3) c(1)] by blast
  have "concat (replicate (Suc (kKeyboardBufSize - c)) [k, 0xf0]) =
      [k, 0xf0] @ concat (replicate (Suc (kKeyboardBufSize - Suc c)) [k, 0xf0])"
    using Suc_diff_Suc [OF c(1)] by (metis append_Cons append_Nil concat.simps(2) replicate_Suc)
  then show ?case using Suc(1) [OF c(2) s'(2)] s'(1) by (simp only: key_bytes_append kbind_Ok)
qed

end
