(* ===== verification/Ide.thy ===== *)
theory Ide
  imports Keyboard
begin

text \<open>
  \<^verbatim>\<open>kernel/driver/ide.c\<close> and \<^verbatim>\<open>ide.h\<close>: the disk driver, and \<^verbatim>\<open>FileTreeInit\<close> of \<^verbatim>\<open>kernel/file_system/fs.c\<close>, its only
  client.  Requests (\<^verbatim>\<open>IdeBlock\<close>, 28 bytes, with its list node at offset 20) wait in the queue
  \<^verbatim>\<open>block_queue\<close>; the driver's thread issues the command for the request at the head and sleeps, and the
  interrupt handler transfers the sector and removes the request when its last sector is done.

  \<^verbatim>\<open>RunIde\<close> never returns.  The definition \<open>RunIde_turn\<close> is the body of its inner loop, one request up to the
  sleep, where the processor goes to another thread; with an empty queue the loop spins.
  \<^verbatim>\<open>kStatusReg\<close> and \<^verbatim>\<open>kCmdReg\<close> of this file get the prefix \<open>Ide\<close>.  The address of the local
  \<^verbatim>\<open>buffer\<close> of \<^verbatim>\<open>IdeInit\<close> and that of the function \<^verbatim>\<open>RunIde\<close> are parameters.
\<close>

record ides = kbs +
  block_queue :: u32
  ib_dev_no :: "u32 \<Rightarrow> u8"
  ib_sec_addr :: "u32 \<Rightarrow> u32"
  ib_mem_addr :: "u32 \<Rightarrow> u32"
  ib_op :: "u32 \<Rightarrow> bool"
  ib_sec_num :: "u32 \<Rightarrow> u32"
  ib_req_thread :: "u32 \<Rightarrow> u32"
  kSuperBlock :: u32

section \<open>Constants\<close>

definition kIoBase :: u16 where "kIoBase = 0x1f0"

definition kCtrlBase :: u16 where "kCtrlBase = 0x3f6"

definition kDataReg :: u16 where "kDataReg = kIoBase + 0"

definition kSecCountReg :: u16 where "kSecCountReg = kIoBase + 2"

definition kSecNoReg :: u16 where "kSecNoReg = kIoBase + 3"

definition kCylinderLowReg :: u16 where "kCylinderLowReg = kIoBase + 4"

definition kCylinderHighReg :: u16 where "kCylinderHighReg = kIoBase + 5"

definition kDriveHeadSelReg :: u16 where "kDriveHeadSelReg = kIoBase + 6"

definition kIdeStatusReg :: u16 where "kIdeStatusReg = kIoBase + 7"

definition kIdeCmdReg :: u16 where "kIdeCmdReg = kIoBase + 7"

definition kAlternateStatusReg :: u16 where "kAlternateStatusReg = kCtrlBase + 0"

definition kDeviceCtrlReg :: u16 where "kDeviceCtrlReg = kCtrlBase + 0"

definition kIdeBsy :: u8 where "kIdeBsy = 0x80"

definition kIdeErr :: u8 where "kIdeErr = 0x1"

definition kIdeDf :: u8 where "kIdeDf = 0x20"

definition kIdeRdy :: u8 where "kIdeRdy = 0x40"

definition kIdeDrq :: u8 where "kIdeDrq = 0x08"

definition kIdentity :: u8 where "kIdentity = 0xec"

definition kRead :: u8 where "kRead = 0x20"

definition kWrite :: u8 where "kWrite = 0x30"

definition kSecSize :: u32 where "kSecSize = 512"

definition kBlockSize :: u32 where "kBlockSize = 8"

definition sizeof_IdeBlock :: u32 where "sizeof_IdeBlock = 28"

definition ib_node :: "u32 \<Rightarrow> u32" where "ib_node b = b + 20"

definition ib_of_node :: "u32 \<Rightarrow> u32" where "ib_of_node n = n - 20"

section \<open>Operations\<close>

definition DisableIntr :: "'a kbase_scheme \<Rightarrow> 'a kbase_scheme" where
  "DisableIntr s = koutb kDeviceCtrlReg 2 s"

definition EnableIntr :: "'a kbase_scheme \<Rightarrow> 'a kbase_scheme" where
  "EnableIntr s = koutb kDeviceCtrlReg 0 s"

text \<open>The result 0 of the source is \<open>True\<close>, the result -1 is \<open>False\<close>.\<close>

partial_function (option) IdeWait :: "bool \<Rightarrow> 'a kbase_scheme \<Rightarrow> (bool \<times> 'a kbase_scheme) kres" where
  "IdeWait check_err s =
     (let (status, s) = kinb kAlternateStatusReg s in
      if status AND kIdeBsy \<noteq> 0 then
        if check_err \<and> status AND (kIdeDf OR kIdeErr) \<noteq> 0 then Ok (False, s)
        else IdeWait check_err s
      else Ok (True, s))"

declare IdeWait.simps [code]

text \<open>
  The buffer of a transfer is reached through its virtual address.  The mapping is linear on each of its two areas, so that the
  start determines the physical addresses of a buffer that lies within one.
\<close>

definition kinsl :: "u16 \<Rightarrow> u32 \<Rightarrow> u32 \<Rightarrow> 'a kbase_scheme \<Rightarrow> 'a kbase_scheme kres" where
  "kinsl port p n s =
     kbind (lin p s) (\<lambda>a. Ok (s\<lparr>mach := insl (ucast port) a n (mach s)\<rparr>))"

definition koutsl :: "u16 \<Rightarrow> u32 \<Rightarrow> u32 \<Rightarrow> 'a kbase_scheme \<Rightarrow> 'a kbase_scheme kres" where
  "koutsl port p n s =
     kbind (lin p s) (\<lambda>a. Ok (s\<lparr>mach := outsl (ucast port) a n (mach s)\<rparr>))"

text \<open>The register writes that \<^verbatim>\<open>RSec\<close> and \<^verbatim>\<open>WSec\<close> have in common.\<close>

definition SecCmd :: "u8 \<Rightarrow> u32 \<Rightarrow> u8 \<Rightarrow> 'a kbase_scheme \<Rightarrow> 'a kbase_scheme" where
  "SecCmd dev_no sec_addr cmd s =
     (let s = koutb kDeviceCtrlReg 0 s;
          s = koutb kSecCountReg 1 s;
          s = koutb kSecNoReg (ucast sec_addr) s;
          s = koutb kCylinderLowReg (ucast (drop_bit 8 sec_addr)) s;
          s = koutb kCylinderHighReg (ucast (drop_bit 16 sec_addr)) s;
          s = koutb kDriveHeadSelReg (ucast (0xe0 OR push_bit 4 (ucast dev_no AND 1) OR drop_bit 24 sec_addr :: u32)) s
      in koutb kIdeCmdReg cmd s)"

definition RSec :: "u8 \<Rightarrow> u32 \<Rightarrow> 'a ths_scheme \<Rightarrow> 'a ths_scheme kres" where
  "RSec dev_no sec_addr s =
     kbind (IdeWait False s) (\<lambda>(_, s).
     ThreadSleep (SecCmd dev_no sec_addr kRead s))"

definition WSec :: "u8 \<Rightarrow> u32 \<Rightarrow> u32 \<Rightarrow> 'a ths_scheme \<Rightarrow> 'a ths_scheme kres" where
  "WSec dev_no sec_addr src s =
     kbind (IdeWait False s) (\<lambda>(_, s).
     let s = SecCmd dev_no sec_addr kWrite s in
     kbind (poll kAlternateStatusReg (\<lambda>d. d AND kIdeRdy = 0) s) (\<lambda>(_, s).
     kbind (IdeWait True s) (\<lambda>(ok, s).
     kbind (if ok then
              let (d, s) = kinb kAlternateStatusReg s in
              if d AND kIdeDrq \<noteq> 0 then koutsl kDataReg src (kSecSize div 4) s else Ok s
            else Ok s) (\<lambda>s.
     ThreadSleep s))))"

text \<open>
  The handler does not test whether the queue is empty.  The first access through the computed
  pointer is therefore checked against the page tables: for an empty queue it is -20.
\<close>

definition IdeHandler :: "IntrReg \<Rightarrow> 'a ides_scheme \<Rightarrow> 'a ides_scheme kres" where
  "IdeHandler r s =
     (let s = SendEoi (intr_vec_no r) s;
          (d, s) = kinb kIdeStatusReg s in
      if d AND (kIdeErr OR kIdeDf) \<noteq> 0 then Ok s
      else
        kbind (QueueGetHead (block_queue s) s) (\<lambda>n.
        let block = ib_of_node n in
        kbind (lin block s) (\<lambda>_.
        kbind (rd ib_op block s) (\<lambda>op.
        kbind (if \<not> op then
                 kbind (poll kAlternateStatusReg (\<lambda>d. d AND kIdeRdy = 0) s) (\<lambda>(_, s).
                 kbind (rd ib_mem_addr block s) (\<lambda>a.
                 kinsl kDataReg a (kSecSize div 4) s))
               else Ok s) (\<lambda>s.
        kbind (rd ib_sec_num block s) (\<lambda>num.
        kbind (wr ib_sec_num ib_sec_num_update block (num - 1) s) (\<lambda>s.
        if num - 1 = 0 then
          kbind (Dequeue (block_queue s) s) (\<lambda>(node, s).
          kbind (RelBytes node s) (\<lambda>s.
          kbind (RelBytes block s) (\<lambda>s.
          kbind (rd ib_req_thread block s) (\<lambda>t.
          ThreadWake t s))))
        else Ok s)))))))"

definition RunIde_turn :: "'a ides_scheme \<Rightarrow> 'a ides_scheme kres" where
  "RunIde_turn s =
     kbind (QueueGetHead (block_queue s) s) (\<lambda>new_node.
     if new_node = NULL then Ok s
     else
       let new_task = ib_of_node new_node in
       kbind (rd ib_op new_task s) (\<lambda>op.
       kbind (rd ib_dev_no new_task s) (\<lambda>dev_no.
       kbind (rd ib_sec_addr new_task s) (\<lambda>sec_addr.
       if op then kbind (rd ib_mem_addr new_task s) (\<lambda>src. WSec dev_no sec_addr src s)
       else RSec dev_no sec_addr s))))"

definition RunIde :: "'a ides_scheme \<Rightarrow> 'a ides_scheme kres" where
  "RunIde = kwhile (\<lambda>_. Ok True) RunIde_turn"

text \<open>\<^verbatim>\<open>IdeWrite\<close> and \<^verbatim>\<open>IdeRead\<close> differ in the direction only.\<close>

definition IdeRequest :: "bool \<Rightarrow> u8 \<Rightarrow> u32 \<Rightarrow> u32 \<Rightarrow> u32 \<Rightarrow> 'a ides_scheme \<Rightarrow> 'a ides_scheme kres" where
  "IdeRequest op dev_no sec_addr mem block_num s =
     kbind (ReqBytes sizeof_IdeBlock s) (\<lambda>(block, s).
     kbind (wr ib_op ib_op_update block op s) (\<lambda>s.
     kbind (wr ib_mem_addr ib_mem_addr_update block mem s) (\<lambda>s.
     kbind (wr ib_dev_no ib_dev_no_update block dev_no s) (\<lambda>s.
     kbind (wr ib_sec_addr ib_sec_addr_update block sec_addr s) (\<lambda>s.
     kbind (wr ib_sec_num ib_sec_num_update block (block_num * kBlockSize) s) (\<lambda>s.
     kbind (GetCurThread s) (\<lambda>t.
     kbind (wr ib_req_thread ib_req_thread_update block t s) (\<lambda>s.
     kbind (set_next (ib_node block) NULL s) (\<lambda>s.
     Enqueue (block_queue s) (ib_node block) s)))))))))"

definition IdeWrite :: "u8 \<Rightarrow> u32 \<Rightarrow> u32 \<Rightarrow> u32 \<Rightarrow> 'a ides_scheme \<Rightarrow> 'a ides_scheme kres" where
  "IdeWrite dev_no sec_addr src block_num s = IdeRequest True dev_no sec_addr src block_num s"

definition IdeRead :: "u8 \<Rightarrow> u32 \<Rightarrow> u32 \<Rightarrow> u32 \<Rightarrow> 'a ides_scheme \<Rightarrow> 'a ides_scheme kres" where
  "IdeRead dev_no sec_addr dst block_num s = IdeRequest False dev_no sec_addr dst block_num s"

definition IdeInit :: "u32 \<Rightarrow> u32 \<Rightarrow> 'a ides_scheme \<Rightarrow> (bool \<times> 'a ides_scheme) kres" where
  "IdeInit buffer run_ide s =
     kbind (IdeWait False s) (\<lambda>(_, s).
     let s = DisableIntr s;
         s = koutb kDriveHeadSelReg 0xf0 s;
         s = koutb kSecCountReg 0 s;
         s = koutb kSecNoReg 0 s;
         s = koutb kCylinderLowReg 0 s;
         s = koutb kCylinderHighReg 0 s;
         s = koutb kIdeCmdReg kIdentity s;
         (lo, s) = kinb kCylinderLowReg s in
     if lo \<noteq> 0 then Ok (False, s)
     else
     let (hi, s) = kinb kCylinderHighReg s in
     if hi \<noteq> 0 then Ok (False, s)
     else
     let (st, s) = kinb kIdeStatusReg s in
     if st = 0 then Ok (False, s)
     else
     kbind (IdeWait True s) (\<lambda>(ok, s).
     if \<not> ok then Ok (False, s)
     else
     kbind (kinsl kDataReg buffer (512 div 4) s) (\<lambda>s.
     kbind (queue s) (\<lambda>(q, s).
     kbind (EnableIrq kIdeVec (s\<lparr>block_queue := q\<rparr>)) (\<lambda>s.
     kbind (RegIntrHandler kIdeVec H_Ide s) (\<lambda>(_, s).
     let s = EnableIntr s in
     kbind (CreateThread (GetKPcb s) s) (\<lambda>(ide_thread, s).
     kbind (KThreadRun ide_thread run_ide s) (\<lambda>s.
     Ok (True, s)))))))))"

text \<open>The super block is block 0 of the second disk.\<close>

definition FileTreeInit :: "'a ides_scheme \<Rightarrow> 'a ides_scheme kres" where
  "FileTreeInit s =
     kbind (ReqBytes (kSecSize * kBlockSize) s) (\<lambda>(b, s).
     IdeRead 1 0 b 1 (s\<lparr>kSuperBlock := b\<rparr>))"

end
