(* ===== verification/Syscall.thy ===== *)
theory Syscall
  imports Interrupts
begin

text \<open>
  \<^verbatim>\<open>kernel/syscall/syscall.c\<close>: the system call gate.

  The table \<^verbatim>\<open>syscall[]\<close> is declared without a size and never filled.  C completes such a declaration
  to an array of one element, a null pointer (\<open>syscall_table\<close>).  The functions a table could hold are not in the
  sources, so \<open>Syscall\<close> takes the table as an argument: a list of optional functions from the arguments
  and the state.  The cases of the \<^verbatim>\<open>switch\<close> have no \<^verbatim>\<open>break\<close>: from the case of \<^verbatim>\<open>ebx\<close> on all of them run,
  and each stores its result in \<^verbatim>\<open>eax\<close>, the index of the next call.
\<close>

type_synonym 's sysfun = "u32 list \<Rightarrow> 's \<Rightarrow> (u32 \<times> 's) kres"

definition kSyscallMaxNum :: u32 where "kSyscallMaxNum = 128"

definition syscall_table :: "'s sysfun option list" where
  "syscall_table = [None]"

definition sys_entry :: "'s sysfun option list \<Rightarrow> u32 \<Rightarrow> 's sysfun option kres" where
  "sys_entry tab i = (if unat i < length tab then Ok (tab ! unat i) else Fault OutOfBounds)"

definition sys_call :: "'s sysfun option list \<Rightarrow> u32 list \<Rightarrow> IntrReg \<times> 's \<Rightarrow> (IntrReg \<times> 's) kres" where
  "sys_call tab args = (\<lambda>(r, s).
     kbind (sys_entry tab (p_eax r)) (\<lambda>f.
     case f of
       None \<Rightarrow> Fault NullDeref
     | Some g \<Rightarrow> kbind (g args s) (\<lambda>(v, s). Ok (r\<lparr>p_eax := v\<rparr>, s))))"

definition SyscallInit :: "'a ints_scheme \<Rightarrow> 'a ints_scheme kres" where
  "SyscallInit s = kbind (RegIntrHandler kSyscallVec H_Syscall s) (\<lambda>(_, s). Ok s)"

text \<open>The argument lists of the cases \<open>n\<close> to 4, in order.\<close>

definition sys_args :: "IntrReg \<Rightarrow> nat \<Rightarrow> u32 list" where
  "sys_args r n = of_nat n # take n [p_ecx r, p_edx r, p_edi r, p_esi r]"

definition Syscall :: "'s sysfun option list \<Rightarrow> IntrReg \<Rightarrow> 's \<Rightarrow> (IntrReg \<times> 's) kres" where
  "Syscall tab r s =
     (if kSyscallMaxNum \<le> p_eax r then Ok (r\<lparr>p_eax := -1\<rparr>, s)
      else
        kbind (sys_entry tab (p_eax r)) (\<lambda>f.
        if Option.is_none f then Ok (r, s)
        else if p_ebx r \<le> 4 then
          for_up (5 - unat (p_ebx r)) (unat (p_ebx r)) (\<lambda>n (r, s). sys_call tab (sys_args r n) (r, s)) (r, s)
        else Ok (r, s)))"

section \<open>Behaviour\<close>

lemma Syscall_source_table:
  "Syscall syscall_table r s =
     (if 128 \<le> p_eax r then Ok (r\<lparr>p_eax := -1\<rparr>, s) else if p_eax r = 0 then Ok (r, s) else Fault OutOfBounds)"
  by (auto simp: Syscall_def kSyscallMaxNum_def sys_entry_def syscall_table_def unat_eq_0)

text \<open>
  A table with one function, which returns the value \<open>v\<close> and changes the state by \<open>f\<close>: a call with \<open>k\<close>
  arguments also makes the calls with \<open>k + 1\<close> to 4 arguments.
\<close>

lemma sys_args_eax [simp]: "sys_args (r\<lparr>p_eax := v\<rparr>) n = sys_args r n"
  by (simp add: sys_args_def)

lemma sys_calls_zero:
  assumes "p_eax r = 0"
  shows "for_up m k (\<lambda>n (r, s). sys_call [Some (\<lambda>args s. Ok (0, f args s))] (sys_args r n) (r, s)) (r, s) =
    Ok (r, fold (\<lambda>n. f (sys_args r n)) [k..<k + m] s)"
  using assms
proof (induction m arbitrary: k s)
  case (Suc m)
  have "sys_call [Some (\<lambda>args s. Ok (0, f args s))] (sys_args r k) (r, s) = Ok (r\<lparr>p_eax := 0\<rparr>, f (sys_args r k) s)"
    using Suc.prems by (simp add: sys_call_def sys_entry_def)
  moreover have "r\<lparr>p_eax := 0\<rparr> = r" using Suc.prems by (cases r) simp
  moreover have "[k..<k + Suc m] = k # [Suc k..<Suc k + m]" by (simp add: upt_conv_Cons del: upt_Suc)
  ultimately show ?case
    using Suc.IH [of "Suc k"] Suc.prems by (simp del: upt_Suc)
qed simp

lemma Syscall_run:
  assumes "p_eax r = 0" "p_ebx r = of_nat k" "k \<le> 4"
  shows "Syscall [Some (\<lambda>args s. Ok (v, f args s))] r s =
    (if v = 0 \<or> k = 4 then Ok (r\<lparr>p_eax := v\<rparr>, fold (\<lambda>n. f (sys_args r n)) [k..<5] s) else Fault OutOfBounds)"
proof -
  let ?tab = "[Some (\<lambda>args s. Ok (v, f args s))]"
  have k: "unat (p_ebx r) = k" using assms(2,3) by (simp add: unat_of_nat_u32)
  then have le: "p_ebx r \<le> 4" using assms(3) by (simp add: u32_le_iff_unat)
  have S: "Syscall ?tab r s = for_up (5 - k) k (\<lambda>n (r, s). sys_call ?tab (sys_args r n) (r, s)) (r, s)"
    using assms(1) k le by (simp add: Syscall_def kSyscallMaxNum_def sys_entry_def)
  have r0: "r\<lparr>p_eax := 0\<rparr> = r" using assms(1) by (cases r) simp
  obtain m where m: "5 - k = Suc m" "m = 4 - k" using assms(3) by (cases "5 - k") auto
  consider "v = 0" | "v \<noteq> 0" "k = 4" | "v \<noteq> 0" "k < 4" using assms(3) by linarith
  then show ?thesis
  proof cases
    case 1
    then show ?thesis using S sys_calls_zero [OF assms(1), of "5 - k" k f s] assms(3) r0 by simp
  next
    case 2
    then show ?thesis using S assms(1) by (simp add: sys_call_def sys_entry_def eval_nat_numeral upt_conv_Cons)
  next
    case 3
    then have "m \<noteq> 0" using m(2) by simp
    then obtain m' where "m = Suc m'" by (cases m) auto
    moreover have "unat v \<noteq> 0" using 3(1) by (simp add: unat_eq_0)
    ultimately show ?thesis using S m(1) 3 assms(1) by (simp add: sys_call_def sys_entry_def)
  qed
qed

end
