(* ===== verification/DriverProps.thy ===== *)
theory DriverProps
  imports Boot Ide Syscall
begin

text \<open>
  The properties of the timer, the keyboard, the disk driver and the system call gate, each with a
  witness at a concrete state.  \<open>drv0\<close> extends the three threads of \<open>three_threads\<close> by the state of the drivers
  after their initialisation.
\<close>

definition drv0 :: ides where
  "drv0 = ths.extend three_threads
     \<lparr>timer = kTimerReset, keymap = 0x700, key_counter = 0, input_buf = replicate kKeyboardBufSize 0, cur = 0,
      block_queue = 0, ib_dev_no = (\<lambda>_. 0), ib_sec_addr = (\<lambda>_. 0), ib_mem_addr = (\<lambda>_. 0), ib_op = (\<lambda>_. False),
      ib_sec_num = (\<lambda>_. 0), ib_req_thread = (\<lambda>_. 0), kSuperBlock = 0\<rparr>"

lemmas drv0_defs = drv0_def ths.extend_def three_threads_def boot0_def

lemma drv0_slice: "slice_ok drv0 [0x1000, 0x2000, 0x3000] 15"
  by (simp add: slice_ok_def drv0_defs sched_defs mach0_def thread_ok_def th_node_def rdw_def lin_def con0_def con_ok_def
      COLUMNS_def LINES_def kTimerReset_def
      paging_on_def queues_def lists_ok_def clist_def unlinked_def nodes_def pcbs_ok_def sched_nodes_def one_pcb_def)

lemma drv0_kbd: "kbd_inv 0 0 drv0"
  by (simp add: kbd_inv_def drv0_defs clist_Nil)

section \<open>Timer\<close>

text \<open>
  the timer gives every thread fifteen ticks in turn.  When the thread \<open>hd xs\<close> runs with \<open>m\<close> ticks left of its
  slice, any number \<open>n\<close> of timer interrupts is handled, and then \<open>(n + 15 - m) div 15\<close> switches have happened:
  the thread at that position, modulo the number of threads, runs, and the counter holds what is left
  of its slice.
\<close>

theorem timer_slices:
  assumes "slice_ok s xs m"
  shows "\<exists>s'. ticks n r s = Ok s' \<and> sched s' (rotate ((n + 15 - m) div 15) xs) \<and>
    GetCurThread s' = Ok (xs ! ((n + 15 - m) div 15 mod length xs)) \<and> unat (timer s') = 15 - (n + 15 - m) mod 15"
proof -
  obtain s' where s': "ticks n r s = Ok s'" "slice_ok s' (rotate ((n + 15 - m) div 15) xs) (15 - (n + 15 - m) mod 15)"
    using ticks_run [OF assms] by blast
  moreover have "xs \<noteq> []" using assms by (simp add: slice_ok_def sched_defs)
  ultimately show ?thesis using sched_cur [of s'] by (auto simp: slice_ok_def hd_rotate_conv_nth)
qed

theorem timer_slices_witness:
  "\<exists>s'. ticks 40 ireg0 drv0 = Ok s' \<and> GetCurThread s' = Ok 0x3000 \<and> unat (timer s') = 5"
  using timer_slices [OF drv0_slice, of 40 ireg0] by auto

section \<open>Keyboard\<close>

text \<open>
  C33: what the keyboard interrupt does, completely, with \<open>c\<close> entries in the buffer and the counter at \<open>n\<close>.  If the status port never shows a byte, the
  handler waits forever.  If the byte is to be recorded and the buffer is full, the handler writes behind its end.  Otherwise it returns: at the first
  read of the status that shows a byte it reads the data port; the first byte of a group is recorded, as 0, the second one deletes that entry unless it is \<^verbatim>\<open>0xf0\<close>, and
  the counter moves on or starts again; then the interrupt is acknowledged at the first controller, and nothing else has changed.
\<close>

theorem keyboard_interrupt:
  assumes "kbd_inv c n s" "intr_vec_no r = kKeyboardVec"
  shows "KeyboardHandler r s =
     (if \<forall>i. nth_read kPs2StatusReg i s AND 1 = 0 then None
      else if n = 0 \<and> c = kKeyboardBufSize then Fault OutOfBounds
      else
        let s1 = after_reads kPs2StatusReg (Suc (LEAST i. nth_read kPs2StatusReg i s AND 1 \<noteq> 0)) s;
            b = nth_read kPs2DataPort 0 s1;
            s2 = after_reads kPs2DataPort 1 s1 in
        Ok (s\<lparr>input_buf := (if n = 0 then (input_buf s)[c := 0] else input_buf s),
              cur := of_nat (if n = 0 then Suc c else if n = 1 \<and> b \<noteq> 0xf0 then c - 1 else c),
              key_counter := (if n = 0 then 1 else if n = 1 \<and> b \<noteq> 0xf0 then 2 else 0),
              mach := (mach s)\<lparr>trace := OutB kMPicCmd kPicEoi # trace (mach s2)\<rparr>\<rparr>))"
  unfolding KeyboardHandler_eq [OF assms] by (simp add: key_recorded_def after_reads_def Let_def)

text \<open>A keyboard whose controller shows a byte at the second read of the status.\<close>

definition slow_keyboard :: "io list \<Rightarrow> u16 \<Rightarrow> u8" where
  "slow_keyboard tr p = (if p = kPs2StatusReg then of_nat (length tr) AND 1 else 0x1c)"

theorem keyboard_interrupt_witness:
  "(\<exists>s'. KeyboardHandler (ireg0\<lparr>intr_vec_no := 33\<rparr>) (drv0\<lparr>mach := (mach drv0)\<lparr>dev := slow_keyboard\<rparr>\<rparr>) = Ok s' \<and> cur s' = 1 \<and>
     trace (mach s') = [OutB 0x20 0x20, InB 0x60 0x1c, InB 0x64 1, InB 0x64 0]) \<and>
   KeyboardHandler (ireg0\<lparr>intr_vec_no := 33\<rparr>) (drv0\<lparr>mach := (mach drv0)\<lparr>dev := \<lambda>_ _. 0\<rparr>\<rparr>) = None"
proof
  let ?s = "drv0\<lparr>mach := (mach drv0)\<lparr>dev := slow_keyboard\<rparr>\<rparr>" and ?r = "ireg0\<lparr>intr_vec_no := 33\<rparr>"
  have k: "kbd_inv 0 0 (drv0\<lparr>mach := m\<rparr>)" for m using drv0_kbd by (simp add: kbd_inv_def)
  have v: "intr_vec_no ?r = kKeyboardVec" by (simp add: kKeyboardVec_def)
  have t: "trace (mach drv0) = []" by (simp add: drv0_defs mach0_def)
  have n: "nth_read kPs2StatusReg 0 ?s = 0" "nth_read kPs2StatusReg 1 ?s = 1" by (simp_all add: nth_read_def slow_keyboard_def t)
  have l: "(LEAST i. nth_read kPs2StatusReg i ?s AND 1 \<noteq> 0) = 1"
    by (rule Least_equality) (use n in \<open>auto simp: Suc_le_eq intro: gr0I\<close>)
  have "\<not> (\<forall>i. nth_read kPs2StatusReg i ?s AND 1 = 0)" using n(2) by (metis and.idem one_neq_zero)
  then obtain s' where "KeyboardHandler ?r ?s = Ok s'" "cur s' = 1"
      "trace (mach s') = OutB kMPicCmd kPicEoi # trace (mach (after_reads kPs2DataPort 1 (after_reads kPs2StatusReg (Suc 1) ?s)))"
    using keyboard_interrupt [OF k v, of "(mach drv0)\<lparr>dev := slow_keyboard\<rparr>"] unfolding l by (simp add: Let_def kKeyboardBufSize_def)
  then show "\<exists>s'. KeyboardHandler ?r ?s = Ok s' \<and> cur s' = 1 \<and> trace (mach s') = [OutB 0x20 0x20, InB 0x60 0x1c, InB 0x64 1, InB 0x64 0]"
    by (auto simp: after_reads_def t slow_keyboard_def kMPicCmd_def kPicEoi_def kPs2StatusReg_def kPs2DataPort_def)
  show "KeyboardHandler ?r (drv0\<lparr>mach := (mach drv0)\<lparr>dev := \<lambda>_ _. 0\<rparr>\<rparr>) = None"
    using keyboard_interrupt [OF k v, of "(mach drv0)\<lparr>dev := \<lambda>_ _. 0\<rparr>"] by (simp add: nth_read_def)
qed

text \<open>
  typing loses keys.  From the state that \<^verbatim>\<open>KeyboardInit\<close> leaves, typing any number of keys, each sent as its
  code, \<^verbatim>\<open>0xf0\<close> and the code again, is processed without a fault and leaves exactly two entries in the
  buffer: the press of every key but the first deletes the entry of the key before.
\<close>

theorem typing_keeps_two:
  assumes "kbd_inv 0 0 s" "ks \<noteq> []" "\<forall>k\<in>set ks. k \<noteq> 0xf0"
  shows "\<exists>s'. key_bytes (concat (map press_release ks)) s = Ok s' \<and> cur s' = 2 \<and> key_counter s' = 1"
proof -
  obtain k ks' where ks: "ks = k # ks'" using assms(2) by (cases ks) auto
  obtain s1 where s1: "key_bytes (press_release k) s = Ok s1" "kbd_inv (Suc 1) 1 s1"
    using press_release_first [OF assms(1), of k] assms(3) ks by (auto simp: kKeyboardBufSize_def)
  obtain s2 where s2: "key_bytes (concat (map press_release ks')) s1 = Ok s2" "kbd_inv (Suc 1) 1 s2"
    using typing_next [OF s1(2), of ks'] assms(3) ks by auto
  have "cur s2 = 2" "key_counter s2 = 1" using s2(2) by (auto simp: kbd_inv_def word_unat_eq_iff)
  then show ?thesis using s1(1) s2(1) ks by (simp add: key_bytes_append)
qed

theorem typing_keeps_two_witness:
  "\<exists>s'. key_bytes (concat (map press_release [0x1c, 0x32, 0x21])) drv0 = Ok s' \<and> cur s' = 2"
  using typing_keeps_two [OF drv0_kbd, of "[0x1c, 0x32, 0x21]"] by auto

text \<open>
  C34: the bound of the input buffer.  Any bytes that fit into the rest of the buffer are processed and keep the
  invariant of the keyboard, in particular the fill level within the buffer; but nothing stops the
  fill level, and pairs of a code and \<^verbatim>\<open>0xf0\<close> write behind the end of the buffer.
\<close>

theorem keyboard_buffer_bound:
  assumes "kbd_inv c 0 s"
  shows "(\<forall>bs. c + length bs \<le> kKeyboardBufSize \<longrightarrow>
      (\<exists>s' c' n'. key_bytes bs s = Ok s' \<and> kbd_inv c' n' s' \<and> c' \<le> c + length bs)) \<and>
    key_bytes (concat (replicate (Suc (kKeyboardBufSize - c)) [k, 0xf0])) s = Fault OutOfBounds"
  using key_bytes_bounded [OF assms] press_prefix_overflow [OF assms] by blast

theorem keyboard_buffer_bound_witness:
  "(\<exists>s'. key_bytes [0x1c, 0xf0, 0x1c] drv0 = Ok s' \<and> unat (cur s') \<le> 3) \<and>
   key_bytes (concat (replicate 1025 [0x1c, 0xf0])) drv0 = Fault OutOfBounds"
proof
  obtain s' c' n' where "key_bytes [0x1c, 0xf0, 0x1c] drv0 = Ok s'" "kbd_inv c' n' s'" "c' \<le> 0 + length [0x1c, 0xf0, 0x1c :: u8]"
    using keyboard_buffer_bound [OF drv0_kbd, THEN conjunct1, rule_format, of "[0x1c, 0xf0, 0x1c]"]
    by (auto simp: kKeyboardBufSize_def)
  then show "\<exists>s'. key_bytes [0x1c, 0xf0, 0x1c] drv0 = Ok s' \<and> unat (cur s') \<le> 3" by (auto simp: kbd_inv_def)
  have "Suc (kKeyboardBufSize - 0) = 1025" by (simp add: kKeyboardBufSize_def)
  then show "key_bytes (concat (replicate 1025 [0x1c, 0xf0])) drv0 = Fault OutOfBounds"
    using keyboard_buffer_bound [OF drv0_kbd, THEN conjunct2, of "0x1c"] by metis
qed

section \<open>System calls\<close>

text \<open>
  the system call gate with the table of the sources: numbers from 128 on set the result to -1, number 0
  does nothing because the only entry is null, and all others read behind the table.
\<close>

theorem syscall_gate:
  "Syscall syscall_table r s =
     (if 128 \<le> p_eax r then Ok (r\<lparr>p_eax := -1\<rparr>, s) else if p_eax r = 0 then Ok (r, s) else Fault OutOfBounds)"
  by (rule Syscall_source_table)

text \<open>
  C35: the cases of the system call gate fall through.  With a function in the table, a call with \<open>k\<close> arguments also
  makes the calls with \<open>k + 1\<close> to 4 arguments when the function returns 0.  When it returns another
  value, that value indexes the table for the next call, which is outside of it unless \<open>k\<close> is 4.
\<close>

theorem syscall_falls_through:
  assumes "p_eax r = 0" "p_ebx r = of_nat k" "k \<le> 4"
  shows "Syscall [Some (\<lambda>args s. Ok (v, f args s))] r s =
    (if v = 0 \<or> k = 4 then Ok (r\<lparr>p_eax := v\<rparr>, fold (\<lambda>n. f (sys_args r n)) [k..<5] s) else Fault OutOfBounds)"
  by (rule Syscall_run [OF assms])

theorem syscall_falls_through_witness:
  "Syscall [Some (\<lambda>args s. Ok (0, s @ [args]))] (ireg0\<lparr>p_ebx := 3, p_ecx := 7, p_edx := 8, p_edi := 9\<rparr>) [] =
     Ok (ireg0\<lparr>p_ebx := 3, p_ecx := 7, p_edx := 8, p_edi := 9\<rparr>, [[3, 7, 8, 9], [4, 7, 8, 9, 0]])"
  using syscall_falls_through [of "ireg0\<lparr>p_ebx := 3, p_ecx := 7, p_edx := 8, p_edi := 9\<rparr>" 3 0 "\<lambda>args s. s @ [args]" "[]"]
  by (simp add: ireg0_def sys_args_def upt_rec)

end
