(* ===== verification/IdeProps.thy ===== *)
theory IdeProps
  imports DriverProps
begin

text \<open>
  The disk driver: the requests that wait in its queue (\<open>pending\<close>, \<open>requests\<close>), what the interrupt handler does to
  the first of them, and the registers of the drive.
\<close>

section \<open>Waiting requests\<close>




lemma ib_of_node_node [simp]: "ib_of_node (ib_node b) = b" "ib_node (ib_of_node n) = n"
  by (simp_all add: ib_node_def ib_of_node_def)

lemma block_order_ide [simp]: "block_order sizeof_IdeBlock = 5"
  using block_order_Suc [of sizeof_IdeBlock 4] by (simp add: sizeof_IdeBlock_def)






text \<open>The state of a new request before it is queued.\<close>

definition filled :: "u32 \<Rightarrow> bool \<Rightarrow> u8 \<Rightarrow> u32 \<Rightarrow> u32 \<Rightarrow> u32 \<Rightarrow> u32 \<Rightarrow> 'a ides_scheme \<Rightarrow> 'a ides_scheme" where
  "filled b op dev_no sec_addr mem num t s =
     s\<lparr>ib_op := (ib_op s)(b := op), ib_mem_addr := (ib_mem_addr s)(b := mem), ib_dev_no := (ib_dev_no s)(b := dev_no),
       ib_sec_addr := (ib_sec_addr s)(b := sec_addr), ib_sec_num := (ib_sec_num s)(b := num),
       ib_req_thread := (ib_req_thread s)(b := t), nxt := (nxt s)(ib_node b := NULL)\<rparr>"



lemma truncate_filled: "dma.truncate (filled b op d a m n t s) = dma.truncate (s\<lparr>nxt := (nxt s)(ib_node b := NULL)\<rparr>)"
  by (simp add: filled_def dma.truncate_def)






section \<open>The registers of the drive\<close>

text \<open>The sector number and the drive that the registers of the last command select.\<close>

definition drive_lba :: "io list \<Rightarrow> u32" where
  "drive_lba tr = ucast (last_out kSecNoReg tr) OR push_bit 8 (ucast (last_out kCylinderLowReg tr)) OR
     push_bit 16 (ucast (last_out kCylinderHighReg tr)) OR push_bit 24 (take_bit 4 (ucast (last_out kDriveHeadSelReg tr)))"

definition drive_no :: "io list \<Rightarrow> bool" where
  "drive_no tr = bit (last_out kDriveHeadSelReg tr) 4"

lemmas ide_ports = kSecNoReg_def kCylinderLowReg_def kCylinderHighReg_def kDriveHeadSelReg_def kIdeCmdReg_def kSecCountReg_def
  kDeviceCtrlReg_def kIoBase_def kCtrlBase_def

definition head_reg :: "u8 \<Rightarrow> u32 \<Rightarrow> u8" where
  "head_reg dev_no sec_addr = ucast (0xe0 OR push_bit 4 (ucast dev_no AND 1) OR drop_bit 24 sec_addr :: u32)"

lemma bit_head_reg:
  assumes "n < 8"
  shows "bit (head_reg dev_no sec_addr) n \<longleftrightarrow> n \<in> {5, 6, 7} \<or> n = 4 \<and> bit dev_no 0 \<or> bit sec_addr (n + 24)"
proof -
  consider "n = 0" | "n = 1" | "n = 2" | "n = 3" | "n = 4" | "n = 5" | "n = 6" | "n = 7" using assms by linarith
  then show ?thesis by cases (auto simp: head_reg_def bit_simps)
qed

lemma SecCmd_trace:
  "trace (mach (SecCmd dev_no sec_addr cmd s)) =
     OutB kIdeCmdReg cmd # OutB kDriveHeadSelReg (head_reg dev_no sec_addr) #
     OutB kCylinderHighReg (ucast (drop_bit 16 sec_addr)) # OutB kCylinderLowReg (ucast (drop_bit 8 sec_addr)) #
     OutB kSecNoReg (ucast sec_addr) # OutB kSecCountReg 1 # OutB kDeviceCtrlReg 0 # trace (mach s)"
  by (simp add: SecCmd_def koutb_def outb_def Let_def head_reg_def)

lemma lba_bits:
  "ucast (ucast a :: u8) OR push_bit 8 (ucast (ucast (drop_bit 8 a) :: u8)) OR
   push_bit 16 (ucast (ucast (drop_bit 16 a) :: u8)) OR push_bit 24 (take_bit 4 (ucast (head_reg d a))) = take_bit 28 (a :: u32)"
  (is "?l = _")
proof (rule bit_word_eqI)
  fix n assume "n < LENGTH(32)"
  then have n: "n < 32" by simp
  consider "n < 8" | "8 \<le> n" "n < 16" | "16 \<le> n" "n < 24" | "24 \<le> n" "n < 28" | "28 \<le> n" by linarith
  then show "bit ?l n = bit (take_bit 28 a) n"
  proof cases
    case 4
    then have "bit ?l n = bit (head_reg d a) (n - 24)" using n by (auto simp: bit_simps)
    moreover have "n - 24 \<notin> {5, 6, 7}" "n - 24 \<noteq> 4" using 4 by auto
    ultimately show ?thesis using bit_head_reg [of "n - 24" d a] 4 by (simp add: bit_simps)
  qed (use n in \<open>auto simp: bit_simps\<close>)
qed

text \<open>
  the sector number reaches the drive.  After the register writes of \<^verbatim>\<open>RSec\<close> and \<^verbatim>\<open>WSec\<close> the four registers give back the low
  28 bits of the sector number, one sector is requested and the command comes last.  The drive
  selected is the requested one unless bit 28 of the sector number is set, which is written over the
  drive bit.
\<close>

theorem drive_registers:
  "drive_lba (trace (mach (SecCmd dev_no sec_addr cmd s))) = take_bit 28 sec_addr \<and>
   (drive_no (trace (mach (SecCmd dev_no sec_addr cmd s))) \<longleftrightarrow> bit dev_no 0 \<or> bit sec_addr 28) \<and>
   last_out kSecCountReg (trace (mach (SecCmd dev_no sec_addr cmd s))) = 1 \<and>
   hd (trace (mach (SecCmd dev_no sec_addr cmd s))) = OutB kIdeCmdReg cmd"
  by (simp add: SecCmd_trace drive_lba_def drive_no_def lba_bits bit_head_reg ide_ports)

section \<open>Sectors\<close>

text \<open>A transfer stores the words it reads, in order, and nothing else.\<close>

lemma insl_loop_stores:
  "n < 2 ^ 30 \<Longrightarrow> trace (insl_loop n port addr m) =
     map (\<lambda>j. InL port (wmem (insl_loop n port addr m) (addr + 4 * of_nat j))) (rev [0..<n]) @ trace m"
proof (induction n arbitrary: addr m)
  case (Suc n)
  define d m1 where "d = devl m (trace m) port" and "m1 = m\<lparr>trace := InL port d # trace m, wmem := (wmem m)(addr := d)\<rparr>"
  let ?r = "insl_loop n port (addr + 4) m1"
  have r: "insl_loop (Suc n) port addr m = ?r" by (simp add: d_def m1_def Let_def)
  have "addr \<noteq> addr + 4 + 4 * of_nat j" if "j < n" for j
  proof -
    have "unat (4 + 4 * of_nat j :: u32) = 4 + 4 * j"
      using that Suc.prems unat_of_nat_u32 [of "4 + 4 * j"] by simp
    then have "4 + 4 * of_nat j \<noteq> (0 :: u32)" by (metis add_is_0 unat_0 zero_neq_numeral)
    then show ?thesis by (simp add: add.assoc)
  qed
  then have "wmem ?r addr = d" by (subst insl_loop_frame) (simp_all add: m1_def)
  moreover have "rev [0..<Suc n] = map Suc (rev [0..<n]) @ [0]" by (simp add: rev_map [symmetric] map_Suc_upt upt_conv_Cons del: upt_Suc)
  moreover have "trace ?r = map (\<lambda>j. InL port (wmem ?r (addr + 4 + 4 * of_nat j))) (rev [0..<n]) @ InL port d # trace m"
    using Suc.IH [of "addr + 4" m1] Suc.prems by (simp add: m1_def)
  moreover have "addr + 4 * of_nat (Suc j) = addr + 4 + 4 * of_nat j" for j by (simp add: algebra_simps)
  ultimately show ?case unfolding r by (simp only: map_append map_map comp_def) simp
qed simp

lemma insl_loop_sel [simp]: "dev (insl_loop n port addr m) = dev m" "creg (insl_loop n port addr m) = creg m"
  by (induction n arbitrary: addr m) (simp_all add: Let_def)

text \<open>The drive reports no error and is always ready to transfer.\<close>

definition disk_ready :: "'a kbase_scheme \<Rightarrow> bool" where
  "disk_ready s \<longleftrightarrow> (\<forall>tr. dev (mach s) tr kIdeStatusReg AND (kIdeErr OR kIdeDf) = 0 \<and>
     dev (mach s) tr kAlternateStatusReg AND kIdeRdy \<noteq> 0)"

text \<open>A read of several sectors is at the head of the queue: \<open>m\<close> is the physical address of its buffer.\<close>

definition reading :: "'a ides_scheme \<Rightarrow> u32 \<Rightarrow> u32 list \<Rightarrow> u32 \<Rightarrow> nat \<Rightarrow> bool" where
  "reading s b ns m num \<longleftrightarrow> queues s {block_queue s} (\<lambda>_. ib_node b # ns) \<and> b \<noteq> 0 \<and> \<not> ib_op s b \<and>
     lin b s \<noteq> Fault PageFault \<and> lin (ib_mem_addr s b) s = Ok m \<and> unat (ib_sec_num s b) = num \<and> disk_ready s"

lemma SendEoi_mach: "\<exists>tr. SendEoi v s = s\<lparr>mach := (mach s)\<lparr>trace := tr\<rparr>\<rparr>"
  by (auto simp: SendEoi_def koutb_def outb_def Let_def)

lemma lin_cases: "(\<exists>a. lin p s = Ok a) \<or> lin p s = Fault PageFault"
  by (auto simp: lin_def)

lemma lin_mach: "creg m = creg (mach s) \<Longrightarrow> lin p (s\<lparr>mach := m\<rparr>) = lin p s"
  by (simp add: lin_def paging_on_def)

lemma poll_ready:
  assumes "\<not> busy (nth_read port 0 s)"
  shows "poll port busy s = Ok (nth_read port 0 s, after_reads port 1 s)"
  using poll_returns [of busy port 0 s] assms by simp

lemma IdeHandler_sector:
  assumes rd: "reading s b ns m num" and num: "1 < num"
  shows "\<exists>mc. IdeHandler r s = Ok (s\<lparr>mach := mc, ib_sec_num := (ib_sec_num s)(b := ib_sec_num s b - 1)\<rparr>) \<and>
    dev mc = dev (mach s) \<and> creg mc = creg (mach s) \<and>
    (\<forall>x. (\<forall>j<128. x \<noteq> m + 4 * of_nat j) \<longrightarrow> wmem mc x = wmem (mach s) x) \<and>
    take 128 (trace mc) = map (\<lambda>j. InL kDataReg (wmem mc (m + 4 * of_nat j))) (rev [0..<128])"
proof -
  have rs: "queues s {block_queue s} (\<lambda>_. ib_node b # ns)" "b \<noteq> 0" "\<not> ib_op s b" "lin (ib_mem_addr s b) s = Ok m"
      "unat (ib_sec_num s b) = num" "disk_ready s"
    using rd by (auto simp: reading_def)
  obtain a where a: "lin b s = Ok a" using rd lin_cases [of b s] by (auto simp: reading_def)
  obtain tr where tr: "SendEoi (intr_vec_no r) s = s\<lparr>mach := (mach s)\<lparr>trace := tr\<rparr>\<rparr>" using SendEoi_mach by blast
  let ?st = "dev (mach s) tr kIdeStatusReg"
  define tr1 where "tr1 = InB kIdeStatusReg ?st # tr"
  define m2 where "m2 = (mach s)\<lparr>trace := InB kAlternateStatusReg (dev (mach s) tr1 kAlternateStatusReg) # tr1\<rparr>"
  let ?s1 = "s\<lparr>mach := (mach s)\<lparr>trace := tr1\<rparr>\<rparr>"
  have k: "kinb kIdeStatusReg (SendEoi (intr_vec_no r) s) = (?st, ?s1)" by (simp add: tr kinb_def inb_def Let_def tr1_def)
  have st: "?st AND (kIdeErr OR kIdeDf) = 0" using rs(6) by (simp add: disk_ready_def)
  have p: "poll kAlternateStatusReg (\<lambda>d. d AND kIdeRdy = 0) ?s1 = Ok (dev (mach s) tr1 kAlternateStatusReg, s\<lparr>mach := m2\<rparr>)"
    using rs(6) by (subst poll_ready) (simp_all add: nth_read_def after_reads_def m2_def disk_ready_def)
  have q: "QueueGetHead (block_queue s) ?s1 = Ok (ib_node b)"
    using QueueGetHead_ok [of ?s1 "{block_queue s}" "\<lambda>_. ib_node b # ns"] rs(1) queues_cong [of ?s1 s] by simp
  have cr: "creg m2 = creg (mach s)" "dev m2 = dev (mach s)" "wmem m2 = wmem (mach s)" by (simp_all add: m2_def)
  have l: "lin b ?s1 = Ok a" "lin (ib_mem_addr s b) (s\<lparr>mach := m2\<rparr>) = Ok m" using a rs(4) cr(1) by (simp_all add: lin_mach)
  have "unat (ib_sec_num s b - 1) = num - 1" using rs(5) num by (intro unat_minus_one [THEN trans]) auto
  then have n1: "ib_sec_num s b - 1 \<noteq> 0" using num by (metis diff_is_0_eq not_less unat_0)
  let ?m = "insl_loop 128 kDataReg m m2"
  have "IdeHandler r s = Ok (s\<lparr>mach := ?m, ib_sec_num := (ib_sec_num s)(b := ib_sec_num s b - 1)\<rparr>)"
    using k st p q l n1 rs(2,3) by (simp add: IdeHandler_def Let_def kinsl_def insl_def kSecSize_def kDataReg_def kIoBase_def)
  moreover have "\<forall>x. (\<forall>j<128. x \<noteq> m + 4 * of_nat j) \<longrightarrow> wmem ?m x = wmem (mach s) x"
    using insl_loop_frame cr(3) by simp
  moreover have "take 128 (trace ?m) = map (\<lambda>j. InL kDataReg (wmem ?m (m + 4 * of_nat j))) (rev [0..<128])"
    by (subst insl_loop_stores) (simp_all del: upt_rec_numeral)
  ultimately show ?thesis using cr by (intro exI [of _ ?m]) simp
qed

primrec ide_irqs :: "nat \<Rightarrow> IntrReg \<Rightarrow> 'a ides_scheme \<Rightarrow> 'a ides_scheme kres" where
  "ide_irqs 0 r s = Ok s"
| "ide_irqs (Suc k) r s = kbind (IdeHandler r s) (ide_irqs k r)"

lemma reading_step:
  assumes "reading s b ns m num" "1 < num" "dev mc = dev (mach s)" "creg mc = creg (mach s)"
  shows "reading (s\<lparr>mach := mc, ib_sec_num := (ib_sec_num s)(b := ib_sec_num s b - 1)\<rparr>) b ns m (num - 1)"
    (is "reading ?s b ns m (num - 1)")
proof -
  have "unat (ib_sec_num s b) = num" using assms(1) by (simp add: reading_def)
  then have "unat (ib_sec_num s b - 1) = num - 1" using assms(2) by (intro unat_minus_one [THEN trans]) auto
  moreover have "lin p ?s = lin p s" for p using assms(4) by (simp add: lin_def paging_on_def)
  moreover have "queues ?s Q M = queues s Q M" for Q M by (rule queues_cong) simp_all
  ultimately show ?thesis using assms(1,3) by (simp add: reading_def disk_ready_def)
qed

text \<open>
  C25: the sectors of a read overwrite each other.  While a read of \<open>num\<close> sectors is at the head of the queue, every interrupt of a
  working drive is handled, stores the 128 words it reads in the buffer and counts one sector off;
  but the sector number and the buffer address of the request never move.  After \<open>k\<close> of the \<open>num\<close>
  sectors only the first 512 bytes of the buffer have changed, and they hold the last sector.
\<close>

theorem sectors_overwrite:
  assumes "reading s b ns m num" "0 < k" "k < num"
  shows "\<exists>s'. ide_irqs k r s = Ok s' \<and> reading s' b ns m (num - k) \<and>
    ib_sec_addr s' b = ib_sec_addr s b \<and> ib_mem_addr s' b = ib_mem_addr s b \<and>
    (\<forall>x. (\<forall>j<128. x \<noteq> m + 4 * of_nat j) \<longrightarrow> wmem (mach s') x = wmem (mach s) x) \<and>
    take 128 (trace (mach s')) = map (\<lambda>j. InL kDataReg (wmem (mach s') (m + 4 * of_nat j))) (rev [0..<128])"
  using assms
proof (induction k arbitrary: s num)
  case (Suc k)
  obtain mc where mc: "IdeHandler r s = Ok (s\<lparr>mach := mc, ib_sec_num := (ib_sec_num s)(b := ib_sec_num s b - 1)\<rparr>)"
      "dev mc = dev (mach s)" "creg mc = creg (mach s)"
      "\<forall>x. (\<forall>j<128. x \<noteq> m + 4 * of_nat j) \<longrightarrow> wmem mc x = wmem (mach s) x"
      "take 128 (trace mc) = map (\<lambda>j. InL kDataReg (wmem mc (m + 4 * of_nat j))) (rev [0..<128])"
    using IdeHandler_sector [OF Suc.prems(1), of r] Suc.prems(3) by auto
  let ?s = "s\<lparr>mach := mc, ib_sec_num := (ib_sec_num s)(b := ib_sec_num s b - 1)\<rparr>"
  have rd: "reading ?s b ns m (num - 1)" using reading_step [OF Suc.prems(1) _ mc(2,3)] Suc.prems(3) by simp
  show ?case
  proof (cases "k = 0")
    case True
    then show ?thesis using mc rd by (intro exI [of _ ?s]) (simp del: upt_rec_numeral)
  next
    case False
    then have "0 < k" "k < num - 1" using Suc.prems(3) by simp_all
    then obtain s' where s': "ide_irqs k r ?s = Ok s'" "reading s' b ns m (num - 1 - k)"
        "ib_sec_addr s' b = ib_sec_addr ?s b" "ib_mem_addr s' b = ib_mem_addr ?s b"
        "\<forall>x. (\<forall>j<128. x \<noteq> m + 4 * of_nat j) \<longrightarrow> wmem (mach s') x = wmem (mach ?s) x"
        "take 128 (trace (mach s')) = map (\<lambda>j. InL kDataReg (wmem (mach s') (m + 4 * of_nat j))) (rev [0..<128])"
      using Suc.IH [OF rd] by blast
    then show ?thesis using mc(1,4) by (intro exI [of _ s']) (simp del: upt_rec_numeral)
  qed
qed simp

definition disk0 :: ides where
  "disk0 = drv0\<lparr>mach := mach0\<lparr>dev := (\<lambda>_ _. 0x40), devl := (\<lambda>tr _. of_nat (length tr))\<rparr>,
     nxt := (\<lambda>_. 0)(0x900 := 0xa14, 0xa14 := 0x900), q_head := (\<lambda>_. 0)(0x800 := 0x900), q_tail := (\<lambda>_. 0)(0x800 := 0xa14),
     block_queue := 0x800, ib_mem_addr := (\<lambda>_. 0x5000), ib_sec_num := (\<lambda>_. 8)\<rparr>"

lemma disk0_reading: "reading disk0 0xa00 [] 0x5000 8"
  by (simp add: reading_def disk0_def drv0_defs mach0_def lin_def paging_on_def queues_def lists_ok_def clist_def nodes_def
      ib_node_def disk_ready_def kIdeErr_def kIdeDf_def kIdeRdy_def)

theorem sectors_overwrite_witness:
  "\<exists>s'. ide_irqs 7 ireg0 disk0 = Ok s' \<and> ib_mem_addr s' 0xa00 = 0x5000 \<and> wmem (mach s') 0x5200 = 0"
proof -
  obtain s' where s': "ide_irqs 7 ireg0 disk0 = Ok s'" "ib_mem_addr s' 0xa00 = ib_mem_addr disk0 0xa00"
      "\<forall>x. (\<forall>j<128. x \<noteq> 0x5000 + 4 * of_nat j) \<longrightarrow> wmem (mach s') x = wmem (mach disk0) x"
    using sectors_overwrite [OF disk0_reading, of 7 ireg0] by auto
  have "(0x5200 :: u32) \<noteq> 0x5000 + 4 * of_nat j" if "j < 128" for j
  proof
    assume "(0x5200 :: u32) = 0x5000 + 4 * of_nat j"
    then have "unat (0x5200 :: u32) = unat (0x5000 + 4 * of_nat j :: u32)" by simp
    moreover have "unat (0x5000 + 4 * of_nat j :: u32) = 0x5000 + 4 * j"
      using that unat_of_nat_u32 [of "0x5000 + 4 * j"] by simp
    ultimately show False using that by simp
  qed
  then have "wmem (mach s') 0x5200 = wmem (mach disk0) 0x5200" using s'(3) by blast
  then show ?thesis using s'(1,2) by (simp add: disk0_def mach0_def)
qed

text \<open>An interrupt of the drive while no request waits makes the handler follow the pointer -20.\<close>

theorem ide_spurious_interrupt:
  assumes "queues s {block_queue s} (\<lambda>_. [])" "disk_ready s" "paging_on s"
  shows "IdeHandler r s = Fault PageFault"
proof -
  obtain tr where tr: "SendEoi (intr_vec_no r) s = s\<lparr>mach := (mach s)\<lparr>trace := tr\<rparr>\<rparr>" using SendEoi_mach by blast
  let ?st = "dev (mach s) tr kIdeStatusReg"
  let ?s1 = "s\<lparr>mach := (mach s)\<lparr>trace := InB kIdeStatusReg ?st # tr\<rparr>\<rparr>"
  have k: "kinb kIdeStatusReg (SendEoi (intr_vec_no r) s) = (?st, ?s1)" by (simp add: tr kinb_def inb_def Let_def)
  have st: "?st AND (kIdeErr OR kIdeDf) = 0" using assms(2) by (simp add: disk_ready_def)
  have "QueueGetHead (block_queue s) ?s1 = Ok NULL"
    using QueueGetHead_ok [of ?s1 "{block_queue s}" "\<lambda>_. []"] assms(1) queues_cong [of ?s1 s] by simp
  moreover have "lin (-20) ?s1 = Fault PageFault"
    using assms(3) by (simp add: lin_def paging_on_def kKVirtualAddr_def kDirectMappingSize_def)
  ultimately show ?thesis using k st by (simp add: IdeHandler_def Let_def ib_of_node_def)
qed

end
