(* ===== verification/Kernel.thy ===== *)
theory Kernel
  imports Process Ide Syscall
begin

text \<open>
  The parts that tie the kernel together: the dispatch of interrupts (\<^verbatim>\<open>IntrHandlerSel\<close> of
  \<^verbatim>\<open>kernel/interrupt/interrupt.c\<close>), \<^verbatim>\<open>kernel/memory/memory_manager.c\<close>, \<^verbatim>\<open>kernel/driver/driver.c\<close>, the data that
  the boot loader passes (\<^verbatim>\<open>kernel/boot/multiboot.h\<close>) and the kernel's start, \<^verbatim>\<open>kernel/init.c\<close>.

  The structures of the boot loader are values: the information record, and its memory map as a
  function from the address of an entry to the entry.  Parameters of the definitions are the addresses
  of functions and of a local array that the linker and the compiler choose
  (\<open>links\<close>), the table of system calls, and \<open>junk\<close>, the word of memory
  behind the last entry of the list of available memory, of which only the size is set.
\<close>

section \<open>Interrupt dispatch\<close>

text \<open>Calling the function that a handler names.  The system call may change the saved registers.\<close>

definition run_handler ::
    "'a ides_scheme sysfun option list \<Rightarrow> handler \<Rightarrow> IntrReg \<Rightarrow> 'a ides_scheme \<Rightarrow> (IntrReg \<times> 'a ides_scheme) kres" where
  "run_handler tab h r s =
     (let ret = (\<lambda>s. Ok (r, s)) in
      case h of
        H_Exc \<Rightarrow> kbind (ExcHandler r s) ret
      | H_Pf \<Rightarrow> kbind (PfHandler r s) ret
      | H_Timer \<Rightarrow> kbind (TimerHandler r s) ret
      | H_Keyboard \<Rightarrow> kbind (KeyboardHandler r s) ret
      | H_Ide \<Rightarrow> kbind (IdeHandler r s) ret
      | H_Syscall \<Rightarrow> Syscall tab r s)"

definition IntrHandlerSel ::
    "'a ides_scheme sysfun option list \<Rightarrow> IntrReg \<Rightarrow> 'a ides_scheme \<Rightarrow> (IntrReg \<times> 'a ides_scheme) kres" where
  "IntrHandlerSel tab r s =
     (if unat (intr_vec_no r) < length (intr_handler s) then
        case intr_handler s ! unat (intr_vec_no r) of
          None \<Rightarrow> Ok (r, s)
        | Some h \<Rightarrow> run_handler tab h r s
      else Fault OutOfBounds)"

section \<open>Initialisation\<close>

record links =
  addr_of_GdtLimit :: u32
  ide_buffer :: u32
  addr_of_RunIde :: u32

text \<open>\<^verbatim>\<open>printf\<close> of a fixed line.\<close>

definition say :: "string \<Rightarrow> 'a kbase_scheme \<Rightarrow> 'a kbase_scheme kres" where
  "say msg s = kprintf (msg @ [CHR 0x0A]) [] s"

definition MemInit :: "links \<Rightarrow> 'a pgs_scheme \<Rightarrow> 'a pgs_scheme kres" where
  "MemInit lk s =
     kbind (say ''Open paging...'' s) (\<lambda>s.
     kbind (PagingInit s) (\<lambda>s.
     kbind (say ''Reset GDT...'' s) (\<lambda>s.
     kbind (GdtInit (addr_of_GdtLimit lk) s) (\<lambda>s.
     kbind (say ''Initialize direct mapping allocator...'' s) (\<lambda>s.
     DirectMappingInit s)))))"

text \<open>The results of \<^verbatim>\<open>IdeInit\<close> and \<^verbatim>\<open>KeyboardInit\<close> are ignored.\<close>

definition DriverInit :: "links \<Rightarrow> 'a ides_scheme \<Rightarrow> 'a ides_scheme kres" where
  "DriverInit lk s =
     kbind (IdeInit (ide_buffer lk) (addr_of_RunIde lk) s) (\<lambda>(_, s).
     kbind (TimerInit s) (\<lambda>s.
     kbind (KeyboardInit s) (\<lambda>(_, s). Ok s)))"

section \<open>What the boot loader passes\<close>

definition MULTIBOOT_BOOTLOADER_MAGIC :: u32 where "MULTIBOOT_BOOTLOADER_MAGIC = 0x2BADB002"

definition MULTIBOOT_MEMORY_AVAILABLE :: u32 where "MULTIBOOT_MEMORY_AVAILABLE = 1"

definition MIN_LOWER_MEM :: u32 where "MIN_LOWER_MEM = 600"

definition MIN_UPPER_MEM :: u32 where "MIN_UPPER_MEM = 65536"

text \<open>Of the information record the fields that the kernel reads.\<close>

record multiboot_info =
  mb_flags :: u32
  mem_lower :: u32
  mem_upper :: u32
  mmap_length :: u32
  mmap_addr :: u32

record multiboot_memory_map =
  mm_size :: u32
  mm_addr :: u64
  mm_len :: u64
  mm_type :: u32

text \<open>
  The loop over the memory map: the available regions in order, their addresses and lengths cut to
  32 bits.  A malformed map can make it run forever.
\<close>

definition mmap_scan :: "(u32 \<Rightarrow> multiboot_memory_map) \<Rightarrow> u32 \<Rightarrow> u32 \<times> (u32 \<times> u32) list \<Rightarrow> (u32 \<times> (u32 \<times> u32) list) kres" where
  "mmap_scan mmap_at end_addr =
     kwhile
       (\<lambda>(mmap, t). Ok (mmap < end_addr))
       (\<lambda>(mmap, t).
          let e = mmap_at mmap in
          Ok (mmap + mm_size e + 4,
              if mm_type e = MULTIBOOT_MEMORY_AVAILABLE then t @ [(ucast (mm_addr e), ucast (mm_len e))] else t))"

definition SetAvlMem :: "multiboot_info \<Rightarrow> (u32 \<Rightarrow> multiboot_memory_map) \<Rightarrow> u32 \<Rightarrow> 'a pgs_scheme \<Rightarrow> 'a pgs_scheme kres" where
  "SetAvlMem info mmap_at junk s =
     kbind (mmap_scan mmap_at (mmap_addr info + mmap_length info) (mmap_addr info, [])) (\<lambda>(_, t).
     Ok (s\<lparr>avl_mem := t @ [(junk, UINT32_MAX)]\<rparr>))"

section \<open>kernel\_start\<close>

text \<open>The steps between the checks of the boot information and the drivers, lines 68 to 84.\<close>

definition kernel_core :: "links \<Rightarrow> 'a ides_scheme \<Rightarrow> 'a ides_scheme kres" where
  "kernel_core lk s =
     kbind (say ''Initialize memory management...'' s) (\<lambda>s.
     kbind (MemInit lk s) (\<lambda>s.
     kbind (say ''Complete.'' s) (\<lambda>s.
     kbind (say ''Initialize interrupt...'' s) (\<lambda>s.
     kbind (IntrInit s) (\<lambda>s.
     kbind (say ''Complete.'' s) (\<lambda>s.
     kbind (say ''Register syscall...'' s) (\<lambda>s.
     kbind (SyscallInit s) (\<lambda>s.
     kbind (say ''Complete.'' s) (\<lambda>s.
     kbind (say ''Initialize process manager...'' s) (\<lambda>s.
     kbind (ProcManagerInit s) (\<lambda>s.
     kbind (say ''Complete.'' s) (\<lambda>s.
     kbind (say ''Initialize thread...'' s) (\<lambda>s.
     kbind (ThreadInit s) (\<lambda>s.
     say ''Complete.'' s))))))))))))))"

text \<open>
  The result is \<open>Some (-1)\<close> for the two error returns; on success the function ends without a
  \<^verbatim>\<open>return\<close>, and the result is \<open>None\<close>.  The assignment to \<^verbatim>\<open>video\<close> sets the copy of the static variable
  that \<^verbatim>\<open>console.h\<close> gives to \<^verbatim>\<open>init.c\<close>, which nothing reads; \<^verbatim>\<open>cls\<close> sets that of \<^verbatim>\<open>console.c\<close>.
\<close>

definition kernel_start ::
    "links \<Rightarrow> (u32 \<Rightarrow> multiboot_memory_map) \<Rightarrow> u32 \<Rightarrow> u32 \<Rightarrow> multiboot_info \<Rightarrow> 'a ides_scheme \<Rightarrow> (u32 option \<times> 'a ides_scheme) kres" where
  "kernel_start lk mmap_at junk magic info s =
     kbind (cls (console s)) (\<lambda>c. let s = s\<lparr>console := c\<rparr> in
     if magic \<noteq> MULTIBOOT_BOOTLOADER_MAGIC then
       kbind (kprintf (''Invalid magic number: 0x%x'' @ [CHR 0x0A]) [PInt magic] s) (\<lambda>s. Ok (Some (-1), s))
     else
       kbind (IsBitSet (mb_flags info) 0) (\<lambda>mem.
       if mem \<and> (mem_lower info < MIN_LOWER_MEM \<or> mem_upper info < MIN_UPPER_MEM) then Ok (Some (-1), s)
       else
         kbind (IsBitSet (mb_flags info) 6) (\<lambda>has_map.
         kbind (if has_map then SetAvlMem info mmap_at junk s else Ok s) (\<lambda>s.
         kbind (kernel_core lk s) (\<lambda>s.
         kbind (say ''Initialize driver...'' s) (\<lambda>s.
         kbind (DriverInit lk s) (\<lambda>s.
         kbind (say ''Complete.'' s) (\<lambda>s.
         Ok (None, s\<lparr>mach := intr_enable (mach s)\<rparr>)))))))))"

end
