(* ===== verification/ThreadStart.thy ===== *)
theory ThreadStart
  imports Sched
begin

text \<open>
  The initialisation of the threads and the start of a new one.

  \<^verbatim>\<open>ThreadInit\<close> fills the pool with 128 threads and makes the code that runs it the main thread: the
  scheduler's invariant holds with that thread alone.  \<^verbatim>\<open>CreateThread\<close> takes a thread from the pool and
  \<^verbatim>\<open>KThreadRun\<close> appends it to the waiting threads.
\<close>

section \<open>The pool of threads\<close>

definition pool_node :: "u32 \<Rightarrow> nat \<Rightarrow> u32" where
  "pool_node t i = t + 16 + 24 * of_nat i"

lemma pool_node_eq: "i < 128 \<Longrightarrow> pool_node t i = t + of_nat (16 + 24 * i)"
  by (simp add: pool_node_def)

lemma pool_node_inj:
  assumes "i < 128" "j < 128"
  shows "pool_node t i = pool_node t j \<longleftrightarrow> i = j"
proof
  assume "pool_node t i = pool_node t j"
  then have "(of_nat (16 + 24 * i) :: u32) = of_nat (16 + 24 * j)" using assms by (simp only: pool_node_eq add_left_cancel)
  then have "unat (of_nat (16 + 24 * i) :: u32) = unat (of_nat (16 + 24 * j) :: u32)" by simp
  then show "i = j" using assms by (simp add: unat_of_nat_u32 del: of_nat_add of_nat_mult)
qed simp

lemma pool_node_off: "off_block t 4096 x \<Longrightarrow> i < 128 \<Longrightarrow> x \<noteq> pool_node t i"
  unfolding off_block_def by (simp only: pool_node_eq) (simp del: of_nat_add of_nat_mult)

lemma ThreadPoolStep_run:
  assumes "free_thread_list s = l" "l \<noteq> 0" "c \<noteq> 0" "c \<noteq> 16" "c \<noteq> l"
  shows "ThreadPoolStep i (c, s) =
    Ok (c + 24, s\<lparr>th_tid := (th_tid s)(c - 16 := 128 - of_nat i), nxt := (nxt s)(l := c, c := nxt s l)\<rparr>)"
  using assms by (simp add: ThreadPoolStep_def ListAdd_def kThreadPoolInitNum_def sizeof_Thread_def th_of_node_def fun_upd_twist)

lemma thread_pool_loop:
  assumes l: "free_thread_list s = l" "clist (nxt s) l []" "off_block t 4096 l" and t: "off_block t 4096 0"
  shows "\<exists>f h. for_up 128 0 ThreadPoolStep (t + 16, s) = Ok (pool_node t 128, s\<lparr>th_tid := f, nxt := h\<rparr>) \<and>
    clist h l (rev (map (pool_node t) [0..<128])) \<and> (\<forall>x. x \<noteq> l \<and> off_block t 4096 x \<longrightarrow> h x = nxt s x)"
proof -
  let ?P = "\<lambda>j (c, s'). c = pool_node t j \<and> (\<exists>f h. s' = s\<lparr>th_tid := f, nxt := h\<rparr> \<and>
     clist h l (rev (map (pool_node t) [0..<j])) \<and> (\<forall>x. x \<noteq> l \<and> off_block t 4096 x \<longrightarrow> h x = nxt s x))"
  have "\<exists>x. for_up 128 0 ThreadPoolStep (t + 16, s) = Ok x \<and> ?P (0 + 128) x"
  proof (rule for_up_rule [where P = ?P])
    show "?P 0 (t + 16, s)" unfolding split
      by (rule conjI, simp add: pool_node_def, rule exI [of _ "th_tid s"], rule exI [of _ "nxt s"]) (simp add: l(2))
  next
    fix j x assume j: "j < 0 + 128" and "?P j x"
    then obtain f h where x: "x = (pool_node t j, s\<lparr>th_tid := f, nxt := h\<rparr>)"
        and h: "clist h l (rev (map (pool_node t) [0..<j]))" "\<forall>x. x \<noteq> l \<and> off_block t 4096 x \<longrightarrow> h x = nxt s x"
      by (cases x) auto
    let ?c = "pool_node t j"
    have c: "?c \<noteq> 0" "?c \<noteq> l" using pool_node_off [OF t, of j] pool_node_off [OF l(3), of j] j by auto
    have c16: "?c \<noteq> 16" using t j by (auto simp: off_block_def pool_node_def dest!: spec [of _ "24 * j"])
    have "?c \<notin> set (l # rev (map (pool_node t) [0..<j]))" using c(2) j by (auto simp: pool_node_inj)
    then have cl: "clist (h(l := ?c, ?c := h l)) l (?c # rev (map (pool_node t) [0..<j]))"
      using clist_insert [of h l "[]" "rev (map (pool_node t) [0..<j])" ?c] h(1) c(1) by simp
    have "l \<noteq> 0" using l(2) by (simp add: clist_def)
    then have run: "ThreadPoolStep j x = Ok (?c + 24, s\<lparr>th_tid := f(?c - 16 := 128 - of_nat j), nxt := h(l := ?c, ?c := h l)\<rparr>)"
      using ThreadPoolStep_run [of "s\<lparr>th_tid := f, nxt := h\<rparr>" l ?c j] l(1) c c16 x by simp
    let ?f = "f(?c - 16 := 128 - of_nat j)" and ?h = "h(l := ?c, ?c := h l)"
    have "?c + 24 = pool_node t (Suc j)" by (simp add: pool_node_def algebra_simps)
    moreover have "\<forall>x. x \<noteq> l \<and> off_block t 4096 x \<longrightarrow> ?h x = nxt s x" using h(2) pool_node_off [of t _ j] j by auto
    moreover have "?c # rev (map (pool_node t) [0..<j]) = rev (map (pool_node t) [0..<Suc j])" by simp
    ultimately have "?P (Suc j) (?c + 24, s\<lparr>th_tid := ?f, nxt := ?h\<rparr>)"
      unfolding split using cl by (intro conjI exI [of _ ?f] exI [of _ ?h]) (simp_all only:)
    then show "\<exists>x'. ThreadPoolStep j x = Ok x' \<and> ?P (Suc j) x'" using run by blast
  qed
  then show ?thesis by auto
qed

section \<open>ThreadInit\<close>

lemma block_order_thread: "block_order 3072 = 12" "block_order 24 = 5"
  using block_order_Suc [of 3072 11] block_order_Suc [of 24 4] by simp_all

lemma alloc_thread_fields [simp]:
  "alloc_ok n (s\<lparr>free_thread_list := x\<rparr>) = alloc_ok n s" "held (s\<lparr>free_thread_list := x\<rparr>) = held s"
  "room u (s\<lparr>free_thread_list := x\<rparr>) = room u s" "alloc_ok n (s\<lparr>th_tid := f\<rparr>) = alloc_ok n s"
  "held (s\<lparr>th_tid := f\<rparr>) = held s" "room u (s\<lparr>th_tid := f\<rparr>) = room u s"
  "alloc_ok n (s\<lparr>wait_thread_queue := x\<rparr>) = alloc_ok n s" "held (s\<lparr>wait_thread_queue := x\<rparr>) = held s"
  "room u (s\<lparr>wait_thread_queue := x\<rparr>) = room u s" "alloc_ok n (s\<lparr>block_thread_list := x\<rparr>) = alloc_ok n s"
  "held (s\<lparr>block_thread_list := x\<rparr>) = held s" "room u (s\<lparr>block_thread_list := x\<rparr>) = room u s"
  by (rule alloc_ok_cong held_cong room_cong; simp add: dma.truncate_def)+

text \<open>The first half: the list \<open>l\<close> of free threads holds the 128 threads of the block \<open>t\<close>.\<close>

definition free_threads :: "'a ths_scheme \<Rightarrow> u32 \<Rightarrow> bool" where
  "free_threads s t \<longleftrightarrow> clist (nxt s) (free_thread_list s) (rev (map (pool_node t) [0..<128]))"

lemma thread_pool_created:
  assumes ok: "alloc_ok (Suc (Suc n)) s" "room (Suc (Suc u)) s" "12 \<le> u"
  shows "\<exists>t s1 l s2 f h. ReqBytes 3072 s = Ok (t, s1) \<and> t \<noteq> 0 \<and> List s1 = Ok (l, s2) \<and> dma.more s2 = dma.more s \<and>
    for_up 128 0 ThreadPoolStep (t + 16, s2\<lparr>free_thread_list := l\<rparr>) =
      Ok (pool_node t 128, s2\<lparr>free_thread_list := l, th_tid := f, nxt := h\<rparr>) \<and>
    alloc_ok n (s2\<lparr>free_thread_list := l, th_tid := f, nxt := h\<rparr>) \<and> room u (s2\<lparr>free_thread_list := l, th_tid := f, nxt := h\<rparr>) \<and>
    held (s2\<lparr>free_thread_list := l, th_tid := f, nxt := h\<rparr>) = insert (l, 2) (insert (t, 12) (held s)) \<and>
    clist h l (rev (map (pool_node t) [0..<128])) \<and>
    (\<forall>b v e. (b, v) \<in> held s \<and> unat e < 2 ^ v \<longrightarrow> h (b + e) = nxt s (b + e))"
proof -
  obtain t s1 where r1: "ReqBytes 3072 s = Ok (t, s1)" "t \<noteq> 0" "alloc_ok (Suc n) s1" "room (Suc u) s1"
      "held s1 = insert (t, 12) (held s)" "granted (held s) 3072 t" "dma.more s1 = dma.more s"
      "\<forall>p. unat p \<in> arena \<longrightarrow> nxt s1 p = nxt s p"
    using req_room [OF ok(1,2), of 3072] ok(3) by (auto simp: block_order_thread)
  obtain l s2 where r2: "List s1 = Ok (l, s2)" "l \<noteq> 0" "alloc_ok n s2" "room u s2" "clist (nxt s2) l []"
      "held s2 = insert (l, 2) (held s1)" "granted (held s1) 4 l" "dma.more s2 = dma.more s1"
      "\<forall>p. unat p \<in> arena \<and> p \<noteq> l \<longrightarrow> nxt s2 p = nxt s1 p"
    using list_room [OF r1(3,4)] ok(3) by auto
  have ta: "region t 12 \<subseteq> arena" "region l 2 \<subseteq> arena" using held_arena [OF r2(3), of t 12] held_arena [OF r2(3), of l 2] r1(5) r2(6) by auto
  have off: "off_block t 4096 l" "off_block t 4096 0"
    using granted_off_block [OF r2(7), of t 12 0] ta(1) r1(5) off_block_0 [OF ta(1)] by auto
  let ?s2 = "s2\<lparr>free_thread_list := l\<rparr>"
  obtain f h where lp: "for_up 128 0 ThreadPoolStep (t + 16, ?s2) = Ok (pool_node t 128, ?s2\<lparr>th_tid := f, nxt := h\<rparr>)"
      "clist h l (rev (map (pool_node t) [0..<128]))" "\<forall>x. x \<noteq> l \<and> off_block t 4096 x \<longrightarrow> h x = nxt s2 x"
    using thread_pool_loop [of ?s2 l t] r2(5) off by auto
  have fr: "h x = nxt s2 x" if x: "unat x \<notin> arena" for x
  proof -
    have "x \<noteq> l" using x block_word(2) [OF ta(2), of 0] by auto
    moreover have "off_block t 4096 x" unfolding off_block_def using x block_word(2) [OF ta(1)] by (auto simp: unat_of_nat_u32)
    ultimately show ?thesis using lp(3) by simp
  qed
  have "h (b + e) = nxt s (b + e)" if b: "(b, v) \<in> held s" "unat e < 2 ^ v" for b v e
  proof -
    have ba: "region b v \<subseteq> arena" using held_arena [OF ok(1) b(1)] .
    have d: "l \<noteq> b + e" using granted_neq [OF r2(7), of b v 0 e] b ba r1(5) by simp
    have "region t 12 \<inter> region b v = {}" using r1(6) b(1) by (auto simp: granted_def block_order_thread)
    then have "off_block t 4096 (b + e)"
      using apart_off_block [of b v t 12 "b + e"] block_word(1) [OF ba b(2)] ta(1) by (auto simp: Int_commute)
    then show ?thesis using lp(3) d r1(8) r2(9) block_word(2) [OF ba b(2)] by simp
  qed
  then have "ReqBytes 3072 s = Ok (t, s1) \<and> t \<noteq> 0 \<and> List s1 = Ok (l, s2) \<and> dma.more s2 = dma.more s \<and>
    for_up 128 0 ThreadPoolStep (t + 16, ?s2) = Ok (pool_node t 128, ?s2\<lparr>th_tid := f, nxt := h\<rparr>) \<and>
    alloc_ok n (?s2\<lparr>th_tid := f, nxt := h\<rparr>) \<and> room u (?s2\<lparr>th_tid := f, nxt := h\<rparr>) \<and>
    held (?s2\<lparr>th_tid := f, nxt := h\<rparr>) = insert (l, 2) (insert (t, 12) (held s)) \<and>
    clist h l (rev (map (pool_node t) [0..<128])) \<and>
    (\<forall>b v e. (b, v) \<in> held s \<and> unat e < 2 ^ v \<longrightarrow> h (b + e) = nxt s (b + e))"
    using r1 r2 lp alloc_heap [of n "?s2\<lparr>th_tid := f\<rparr>" h] fr by auto
  then show ?thesis by (intro exI)
qed

text \<open>
  The second half: the queue of waiting threads \<open>q\<close> with its head \<open>qh\<close>, the list of blocked threads \<open>b\<close> and
  the structure \<open>k\<close> of the main thread.
\<close>

lemma thread_lists_created:
  assumes ok: "alloc_ok (Suc (Suc (Suc (Suc n)))) s" "room (Suc (Suc (Suc (Suc u)))) s" "12 \<le> u"
  shows "\<exists>q qh s1 b s2 k s3. queue s = Ok (q, s1) \<and> List (s1\<lparr>wait_thread_queue := q\<rparr>) = Ok (b, s2) \<and>
    ReqBytes 24 (s2\<lparr>block_thread_list := b\<rparr>) = Ok (k, s3) \<and> k \<noteq> 0 \<and> q \<noteq> 0 \<and> alloc_ok n s3 \<and> room u s3 \<and>
    held s3 = insert (k, 5) (insert (b, 2) (insert (q, 3) (insert (qh, 2) (held s)))) \<and> granted (held s2) 24 k \<and>
    q_head s3 q = qh \<and> q_tail s3 q = qh \<and> nxt s3 qh = qh \<and> nxt s3 b = b \<and> qh \<noteq> 0 \<and> b \<noteq> 0 \<and>
    kheap.more s3 = kheap.more (s\<lparr>wait_thread_queue := q, block_thread_list := b\<rparr>) \<and>
    held s2 = insert (b, 2) (insert (q, 3) (insert (qh, 2) (held s))) \<and>
    (\<forall>c v e. (c, v) \<in> held s \<and> unat e < 2 ^ v \<longrightarrow> nxt s3 (c + e) = nxt s (c + e))"
proof -
  obtain q qh s1 where r1: "queue s = Ok (q, s1)" "q \<noteq> 0" "alloc_ok (Suc (Suc n)) s1" "room (Suc (Suc u)) s1"
      "queues s1 {q} (\<lambda>_. [])" "q_head s1 q = qh" "held s1 = insert (q, 3) (insert (qh, 2) (held s))" "granted (held s) 4 qh"
      "granted (insert (qh, 2) (held s)) 8 q" "kheap.more s1 = kheap.more s" "\<forall>p. unat p \<in> arena \<and> p \<noteq> qh \<longrightarrow> nxt s1 p = nxt s p"
    using queue_room [OF ok(1,2)] ok(3) by auto
  let ?s1 = "s1\<lparr>wait_thread_queue := q\<rparr>"
  have "alloc_ok (Suc (Suc n)) ?s1" "room (Suc (Suc u)) ?s1" using r1(3,4) by simp_all
  then obtain b s2 where r2: "List ?s1 = Ok (b, s2)" "b \<noteq> 0" "alloc_ok (Suc n) s2" "room (Suc u) s2" "clist (nxt s2) b []"
      "held s2 = insert (b, 2) (held s1)" "granted (held s1) 4 b" "dma.more s2 = dma.more ?s1"
      "\<forall>p. unat p \<in> arena \<and> p \<noteq> b \<longrightarrow> nxt s2 p = nxt s1 p"
    using list_room [of "Suc n" ?s1 "Suc u"] ok(3) by auto
  let ?s2 = "s2\<lparr>block_thread_list := b\<rparr>"
  have "alloc_ok (Suc n) ?s2" "room (Suc u) ?s2" using r2(3,4) by simp_all
  then obtain k s3 where r3: "ReqBytes 24 ?s2 = Ok (k, s3)" "k \<noteq> 0" "alloc_ok n s3" "room u s3"
      "held s3 = insert (k, 5) (held s2)" "granted (held s2) 24 k" "dma.more s3 = dma.more ?s2"
      "\<forall>p. unat p \<in> arena \<longrightarrow> nxt s3 p = nxt s2 p"
    using req_room [of n ?s2 u 24] ok(3) by (auto simp: block_order_thread)
  have qh: "qh \<noteq> 0" "nxt s1 qh = qh" "q_tail s1 q = qh"
    using r1(5,6) by (auto simp: queues_def lists_ok_def clist_Nil)
  have ar: "unat qh \<in> arena" "unat b \<in> arena" using granted_arena [OF r1(8)] granted_arena [OF r2(7)] by auto
  have "b \<noteq> qh" using granted_neq [OF r2(7), of qh 2 0 0] held_arena [OF r1(3), of qh 2] r1(7) by simp
  then have w: "nxt s3 qh = qh" "nxt s3 b = b" using qh(2) ar r2(5,9) r3(8) by (auto simp: clist_Nil)
  have more: "kheap.more s3 = kheap.more (s\<lparr>wait_thread_queue := q, block_thread_list := b\<rparr>)"
  proof -
    have "kheap.more s3 = kheap.more ?s2" "kheap.more s2 = kheap.more ?s1"
      using dma_more_kheap [OF r3(7)] dma_more_kheap [OF r2(8)] by auto
    then show ?thesis using r1(10) by (cases s; cases s1; cases s2; cases s3) simp
  qed
  have hd: "q_head s3 = q_head s1" "q_tail s3 = q_tail s1"
    using kheap_more_eq [OF r3(7)] kheap_more_eq [OF r2(8)] by simp_all
  have keep: "\<forall>c v e. (c, v) \<in> held s \<and> unat e < 2 ^ v \<longrightarrow> nxt s3 (c + e) = nxt s (c + e)"
  proof (intro allI impI)
    fix c v and e :: u32 assume c: "(c, v) \<in> held s \<and> unat e < 2 ^ v"
    have ca: "region c v \<subseteq> arena" using held_arena [OF ok(1)] c by blast
    have "qh \<noteq> c + e" "b \<noteq> c + e"
      using granted_neq [OF r1(8), of c v 0 e] granted_neq [OF r2(7), of c v 0 e] ca c r1(7) by auto
    then show "nxt s3 (c + e) = nxt s (c + e)" using block_word(2) [OF ca] c r1(11) r2(9) r3(8) by auto
  qed
  have "queue s = Ok (q, s1) \<and> List ?s1 = Ok (b, s2) \<and> ReqBytes 24 ?s2 = Ok (k, s3) \<and> k \<noteq> 0 \<and> q \<noteq> 0 \<and> alloc_ok n s3 \<and>
    room u s3 \<and> held s3 = insert (k, 5) (insert (b, 2) (insert (q, 3) (insert (qh, 2) (held s)))) \<and> granted (held s2) 24 k \<and>
    q_head s3 q = qh \<and> q_tail s3 q = qh \<and> nxt s3 qh = qh \<and> nxt s3 b = b \<and> qh \<noteq> 0 \<and> b \<noteq> 0 \<and>
    kheap.more s3 = kheap.more (s\<lparr>wait_thread_queue := q, block_thread_list := b\<rparr>) \<and>
    held s2 = insert (b, 2) (insert (q, 3) (insert (qh, 2) (held s))) \<and>
    (\<forall>c v e. (c, v) \<in> held s \<and> unat e < 2 ^ v \<longrightarrow> nxt s3 (c + e) = nxt s (c + e))"
    using r1(1,2,6,7) r2(1,2,6) r3(1-6) qh w hd more keep by simp
  then show ?thesis by (intro exI)
qed

text \<open>The structure of the main thread is filled in; its stack is the boot stack.\<close>

definition main_thread :: "u32 \<Rightarrow> 'a ths_scheme \<Rightarrow> 'a ths_scheme" where
  "main_thread k s = s\<lparr>th_pcb := (th_pcb s)(k := k_pcb s), th_stack_addr := (th_stack_addr s)(k := 0xbc00),
     th_esp := (th_esp s)(k := 0xbbfc), mach := (mach s)\<lparr>wmem := (wmem (mach s))(0xbbfc := k)\<rparr>,
     th_tid := (th_tid s)(k := 0), nxt := (nxt s)(k + 16 := 0), tss_esp0 := 0xbbfc\<rparr>"

lemma ThreadInit_run:
  assumes "ReqBytes 3072 s = Ok (t, s1)" "t \<noteq> 0" "List s1 = Ok (l, s2)"
    and "for_up 128 0 ThreadPoolStep (t + 16, s2\<lparr>free_thread_list := l\<rparr>) = Ok (pool_node t 128, s3)"
    and "queue s3 = Ok (q, s4)" "List (s4\<lparr>wait_thread_queue := q\<rparr>) = Ok (b, s5)"
    and "ReqBytes 24 (s5\<lparr>block_thread_list := b\<rparr>) = Ok (k, s6)" "k \<noteq> 0" "k + 16 \<noteq> 0"
  shows "ThreadInit s = Ok (main_thread k s6)"
  using assms
  by (simp add: ThreadInit_def kThreadPoolInitNum_def sizeof_Thread_def th_node_def Let_def GetKPcb_def wrw_def lin_def
      kMainStackAddr_def main_thread_def)

lemma kheap_more_sel:
  assumes "kheap.more s' = kheap.more s"
  shows "k_pcb s' = k_pcb s" "mach s' = mach s" "wait_thread_queue s' = wait_thread_queue s" "console s' = console s"
    "block_thread_list s' = block_thread_list s" "free_thread_list s' = free_thread_list s" "ths.more s' = ths.more s"
  using assms by (cases s; cases s'; simp)+

definition threads_ready :: "'a ths_scheme \<Rightarrow> u32 \<Rightarrow> u32 \<Rightarrow> bool" where
  "threads_ready s k t \<longleftrightarrow> sched s [k] \<and> th_pcb s k = k_pcb s \<and> th_stack_addr s k = kMainStackAddr \<and>
     free_threads s t \<and> clist (nxt s) (block_thread_list s) [] \<and>
     {(k, 5), (block_thread_list s, 2), (wait_thread_queue s, 3), (q_head s (wait_thread_queue s), 2), (free_thread_list s, 2), (t, 12),
      (k_pcb s, 6)} \<subseteq> held s"

lemma alloc_main_thread:
  assumes "alloc_ok n s" "(k, 5) \<in> held s"
  shows "alloc_ok n (main_thread k s)" "room u (main_thread k s) = room u s" "held (main_thread k s) = held s"
proof -
  let ?s = "s\<lparr>nxt := (nxt s)(k + 16 := 0)\<rparr>"
  have "unat (k + 16) \<in> arena" using block_word(2) [OF held_arena [OF assms]] by simp
  then have p: "alloc_ok n ?s" "room u ?s = room u s" "held ?s = held s"
    using alloc_ok_poke [OF assms(1)] room_poke [OF assms(1)] by auto
  have e: "dma.truncate (main_thread k s) = dma.truncate ?s" by (simp add: main_thread_def dma.truncate_def)
  show "alloc_ok n (main_thread k s)" "room u (main_thread k s) = room u s" "held (main_thread k s) = held s"
    using p alloc_ok_cong [OF e] room_cong [OF e] held_cong [OF e] by simp_all
qed

lemma main_thread_ready:
  assumes ok: "alloc_ok n s" and h: "{(k, 5), (b, 2), (q, 3), (qh, 2), (l, 2), (t, 12), (k_pcb s, 6)} \<subseteq> held s" "q \<noteq> 0"
    and sel: "free_thread_list s = l" "wait_thread_queue s = q" "block_thread_list s = b" "q_head s q = qh" "q_tail s q = qh"
    and w: "nxt s qh = qh" "nxt s b = b" "clist (nxt s) l (rev (map (pool_node t) [0..<128]))"
  shows "threads_ready (main_thread k s) k t"
proof -
  note ne = held_neq [OF ok]
  have nz: "a \<noteq> 0 \<and> a + d \<noteq> 0" if "(a, v) \<in> held s" "unat d < 2 ^ v" for a v d
    using block_word(3) [OF held_arena [OF ok that(1)], of 0] block_word(3) [OF held_arena [OF ok that(1)] that(2)] by simp
  have z: "k \<noteq> 0" "k + 16 \<noteq> 0" "qh \<noteq> 0" "b \<noteq> 0" "k_pcb s \<noteq> 0"
    using nz [of k 5 16] nz [of qh 2 0] nz [of b 2 0] nz [of "k_pcb s" 6 0] h(1) by auto
  have k16: "k + 16 \<noteq> qh" "k + 16 \<noteq> b" "k + 16 \<noteq> l" "k_pcb s \<noteq> k + 16" "k_pcb s + 4 \<noteq> k + 16" "k_pcb s + 8 \<noteq> k + 16"
    using ne [of k 5 qh 2 16 0] ne [of k 5 b 2 16 0] ne [of k 5 l 2 16 0] ne [of "k_pcb s" 6 k 5 0 16]
      ne [of "k_pcb s" 6 k 5 4 16] ne [of "k_pcb s" 6 k 5 8 16] h(1) by auto
  have pq: "k_pcb s \<noteq> qh" "k_pcb s + 4 \<noteq> qh" "k_pcb s + 8 \<noteq> qh"
    using ne [of "k_pcb s" 6 qh 2 0 0] ne [of "k_pcb s" 6 qh 2 4 0] ne [of "k_pcb s" 6 qh 2 8 0] h(1) by auto
  have kt: "k + 16 \<noteq> pool_node t i" if "i < 128" for i
    using ne [of k 5 t 12 16 "of_nat (16 + 24 * i)"] h(1) that by (auto simp: pool_node_eq unat_of_nat_u32 simp del: of_nat_add of_nat_mult)
  let ?s = "main_thread k s"
  have "k + 16 \<notin> set (rev (map (pool_node t) [0..<128]))"
    by (metis (no_types) atLeastLessThan_iff imageE kt set_map set_rev set_upt)
  then have "clist (nxt ?s) l (rev (map (pool_node t) [0..<128]))"
    using w(3) k16(3) clist_upd by (simp add: main_thread_def del: set_rev set_map)
  moreover have "sched ?s [k]"
    using z k16 pq sel w(1) h(2)
    by (simp add: sched_defs main_thread_def thread_ok_def th_node_def rdw_def lin_def queues_def lists_ok_def clist_Nil
        unlinked_def nodes_def pcbs_ok_def sched_nodes_def)
  moreover have "clist (nxt ?s) b []" using z(4) w(2) k16(2) by (simp add: main_thread_def clist_Nil)
  moreover have "held ?s = held s" using alloc_main_thread(3) [OF ok] h(1) by simp
  moreover have "k_pcb ?s = k_pcb s" "th_pcb ?s k = k_pcb s" "th_stack_addr ?s k = kMainStackAddr" "free_thread_list ?s = l"
      "wait_thread_queue ?s = q" "block_thread_list ?s = b" "q_head ?s q = qh"
    using sel by (simp_all add: main_thread_def kMainStackAddr_def)
  ultimately show ?thesis using h(1) by (simp add: threads_ready_def free_threads_def)
qed

lemma ThreadInit_ok:
  assumes ok: "alloc_ok (6 + n) s" "room (6 + u) s" "12 \<le> u" and kp: "(k_pcb s, 6) \<in> held s"
  shows "\<exists>s' k t. ThreadInit s = Ok s' \<and> alloc_ok n s' \<and> room u s' \<and> threads_ready s' k t \<and> k_pcb s' = k_pcb s \<and>
    kview s' = kview s \<and> held s \<subseteq> held s' \<and> (\<forall>e. unat e < 64 \<longrightarrow> nxt s' (k_pcb s + e) = nxt s (k_pcb s + e))"
proof -
  obtain t s1 l s2 f h where a: "ReqBytes 3072 s = Ok (t, s1)" "t \<noteq> 0" "List s1 = Ok (l, s2)" "dma.more s2 = dma.more s"
      "for_up 128 0 ThreadPoolStep (t + 16, s2\<lparr>free_thread_list := l\<rparr>) =
        Ok (pool_node t 128, s2\<lparr>free_thread_list := l, th_tid := f, nxt := h\<rparr>)"
      "alloc_ok (4 + n) (s2\<lparr>free_thread_list := l, th_tid := f, nxt := h\<rparr>)"
      "room (4 + u) (s2\<lparr>free_thread_list := l, th_tid := f, nxt := h\<rparr>)"
      "held (s2\<lparr>free_thread_list := l, th_tid := f, nxt := h\<rparr>) = insert (l, 2) (insert (t, 12) (held s))"
      "clist h l (rev (map (pool_node t) [0..<128]))" "\<forall>b v e. (b, v) \<in> held s \<and> unat e < 2 ^ v \<longrightarrow> h (b + e) = nxt s (b + e)"
    using thread_pool_created [of "4 + n" s "4 + u"] ok by (auto simp: eval_nat_numeral)
  let ?s3 = "s2\<lparr>free_thread_list := l, th_tid := f, nxt := h\<rparr>"
  have ok3: "alloc_ok (Suc (Suc (Suc (Suc n)))) ?s3" "room (Suc (Suc (Suc (Suc u)))) ?s3"
    using a(6,7) by (simp_all add: eval_nat_numeral)
  obtain q qh s4 b s5 k s6 where c: "queue ?s3 = Ok (q, s4)" "List (s4\<lparr>wait_thread_queue := q\<rparr>) = Ok (b, s5)"
      "ReqBytes 24 (s5\<lparr>block_thread_list := b\<rparr>) = Ok (k, s6)" "k \<noteq> 0" "q \<noteq> 0" "alloc_ok n s6" "room u s6"
      "held s6 = insert (k, 5) (insert (b, 2) (insert (q, 3) (insert (qh, 2) (held ?s3))))" "granted (held s5) 24 k"
      "q_head s6 q = qh" "q_tail s6 q = qh" "nxt s6 qh = qh" "nxt s6 b = b" "qh \<noteq> 0" "b \<noteq> 0"
      "kheap.more s6 = kheap.more (?s3\<lparr>wait_thread_queue := q, block_thread_list := b\<rparr>)"
      "held s5 = insert (b, 2) (insert (q, 3) (insert (qh, 2) (held ?s3)))"
      "\<forall>c v e. (c, v) \<in> held ?s3 \<and> unat e < 2 ^ v \<longrightarrow> nxt s6 (c + e) = nxt ?s3 (c + e)"
    using thread_lists_created [OF ok3 ok(3)] by blast
  have hs: "{(k, 5), (b, 2), (q, 3), (qh, 2), (l, 2), (t, 12), (k_pcb s, 6)} \<subseteq> held s6" "(k, 5) \<in> held s6"
    using c(8) a(8) kp by auto
  have sel: "free_thread_list s6 = l" "wait_thread_queue s6 = q" "block_thread_list s6 = b" "k_pcb s6 = k_pcb s" "mach s6 = mach s"
      "console s6 = console s" "ths.more s6 = ths.more s"
    using kheap_more_sel [OF c(16)] kheap_more_sel [OF dma_more_kheap [OF a(4)]] by simp_all
  have "nxt s6 x = h x" if "x \<in> set (l # rev (map (pool_node t) [0..<128]))" for x
  proof -
    have "nxt s6 l = h l" using c(18) [rule_format, of l 2 0] a(8) by simp
    moreover have "nxt s6 (pool_node t i) = h (pool_node t i)" if "i < 128" for i
      using c(18) [rule_format, of t 12 "of_nat (16 + 24 * i)"] a(8) that
      by (simp add: pool_node_eq unat_of_nat_u32 del: of_nat_add of_nat_mult)
    ultimately show ?thesis using that by auto
  qed
  then have "clist (nxt s6) l (rev (map (pool_node t) [0..<128]))" by (rule clist_cong [OF a(9)])
  then have "threads_ready (main_thread k s6) k t"
    using main_thread_ready [OF c(6), of k b q qh l t] hs(1) c(5,10-13) sel by simp
  moreover have "k + 16 \<noteq> 0" using block_word(3) [OF held_arena [OF c(6) hs(2)]] by simp
  then have "ThreadInit s = Ok (main_thread k s6)"
    using ThreadInit_run [OF a(1-3,5) c(1-4)] by blast
  moreover have "held s \<subseteq> held s6" using c(8) a(8) by auto
  moreover have "nxt (main_thread k s6) (k_pcb s + e) = nxt s (k_pcb s + e)" if "unat e < 64" for e
  proof -
    have "(k_pcb s, 6) \<in> held ?s3" "(k_pcb s, 6) \<in> held s6" using kp a(8) hs(1) by auto
    then show ?thesis
      using c(18) [rule_format, of "k_pcb s" 6 e] a(10) [rule_format, of "k_pcb s" 6 e] kp that
        held_neq [OF c(6) \<open>(k_pcb s, 6) \<in> held s6\<close> hs(2), of e 16] by (simp add: main_thread_def)
  qed
  moreover have "kview s6 = kview s" using kview_more [OF c(16)] kview_more [OF dma_more_kheap [OF a(4)]] by (simp add: kview_def)
  ultimately show ?thesis
    using alloc_main_thread [OF c(6) hs(2)] c(7) sel
    by (intro exI [of _ "main_thread k s6"] exI [of _ k] exI [of _ t]) (auto simp: main_thread_def kview_def)
qed

section \<open>Starting a thread\<close>

text \<open>What \<^verbatim>\<open>CreateThread\<close> and \<^verbatim>\<open>KThreadRun\<close> do when all their steps succeed; \<open>at\<close> is the physical address of the stack.\<close>

definition made_thread :: "u32 \<Rightarrow> u32 \<Rightarrow> u32 \<Rightarrow> 'a ths_scheme \<Rightarrow> 'a ths_scheme" where
  "made_thread nt pcb st s = s\<lparr>th_stack_addr := (th_stack_addr s)(nt := st + 0xfff), th_pcb := (th_pcb s)(nt := pcb),
     th_esp := (th_esp s)(nt := st + 0xffb), mach := (mach s)\<lparr>wmem := (wmem (mach s))(st + 0xffb - kKVirtualAddr := nt)\<rparr>,
     nxt := (nxt s)(pcb + 44 := nt + 16, nt + 16 := nxt s (pcb + 44))\<rparr>"

lemma wrw_arena:
  "paging_on s \<Longrightarrow> unat p \<in> arena \<Longrightarrow>
   wrw p v s = Ok (s\<lparr>mach := (mach s)\<lparr>wmem := (wmem (mach s))(p - kKVirtualAddr := v)\<rparr>\<rparr>)"
  by (auto simp: wrw_def lin_def arena_def kKVirtualAddr_def kDirectMappingSize_def u32_less_iff_unat u32_le_iff_unat)

lemma paging_on_sel [simp]: "paging_on (s\<lparr>th_stack_addr := a\<rparr>) = paging_on s" "paging_on (s\<lparr>th_pcb := b\<rparr>) = paging_on s"
    "paging_on (s\<lparr>th_esp := c\<rparr>) = paging_on s" "paging_on (s\<lparr>nxt := h\<rparr>) = paging_on s"
    "paging_on (s\<lparr>mach := (mach s)\<lparr>wmem := w\<rparr>\<rparr>) = paging_on s"
  by (simp_all add: paging_on_def)

lemma CreateThread_run:
  assumes l: "l \<noteq> 0" "free_thread_list s = l" "nxt s l = nt + 16" "nt + 16 \<noteq> l" "nt \<noteq> 0" "nt + 16 \<noteq> 0"
    and r: "ReqBytes 0x1000 (s\<lparr>nxt := (nxt s)(l := nxt s (nt + 16), nt + 16 := 0)\<rparr>) = Ok (st, s1)"
    and st: "paging_on s1" "unat (st + 0xffb) \<in> arena" and p: "pcb \<noteq> 0" "pcb + 44 \<noteq> 0" "pcb + 44 \<noteq> nt + 16"
  shows "CreateThread pcb s = Ok (nt, made_thread nt pcb st s1)"
  using assms
  by (simp add: CreateThread_def IsListEmpty_Ok ListRemove_Ok Let_def th_of_node_def kKStackSize_def th_node_def ListAdd_def
      pcb_thread_list_def made_thread_def wrw_arena add.commute fun_upd_twist)

definition ready_thread :: "u32 \<Rightarrow> u32 \<Rightarrow> u32 \<Rightarrow> u32 \<Rightarrow> u32 \<Rightarrow> 'a ths_scheme \<Rightarrow> 'a ths_scheme" where
  "ready_thread nt st f q qh s = s\<lparr>th_esp := (th_esp s)(nt := 0xfe7 + st),
     mach := (mach s)\<lparr>wmem := (wmem (mach s))(0xff7 + st - kKVirtualAddr := f, 0xfe7 + st - kKVirtualAddr := 0,
        0xfeb + st - kKVirtualAddr := 0, 0xfef + st - kKVirtualAddr := 0, 0xff3 + st - kKVirtualAddr := 0)\<rparr>,
     nxt := (nxt s)(qh := nt + 16, nt + 16 := nxt s qh), q_tail := (q_tail s)(q := nt + 16)\<rparr>"

lemma KThreadRun_run:
  assumes "nt \<noteq> 0" "th_pcb s nt = pcb" "pcb \<noteq> 0" "nxt s pcb = 0" "th_esp s nt = 0xffb + st" "paging_on s"
    and "\<And>d. unat d < 0x1000 \<Longrightarrow> unat (d + st) \<in> arena"
    and "wait_thread_queue s = q" "q \<noteq> 0" "q_tail s q = qh" "qh \<noteq> 0" "nt + 16 \<noteq> 0" "nt + 16 \<noteq> qh"
  shows "KThreadRun nt f s = Ok (ready_thread nt st f q qh s)"
  using assms(1-6,8-) assms(7) [of "0xff7"] assms(7) [of "0xfe7"] assms(7) [of "0xfeb"] assms(7) [of "0xfef"] assms(7) [of "0xff3"]
  by (simp add: KThreadRun_def off_pid_def wrw_arena Let_def Enqueue_def ListAdd_def th_node_def ready_thread_def paging_on_def)

end
