(* ===== verification/KernelProps.thy ===== *)
theory KernelProps
  imports Kernel ProcProps ThreadStart DriverProps
begin

text \<open>
  The start of the kernel as a whole.  \<open>MemInit_ok\<close>, \<open>intr_state\<close> and the lemmas on processes and threads
  are composed to \<open>kernel_core_ok\<close>: from any state that the boot code can leave, the initialisation up to the
  threads returns, with one thread running.  \<open>core_ok\<close> collects what every later step relies on.
\<close>

section \<open>Printing between the steps\<close>

definition core_ok :: "nat \<Rightarrow> nat \<Rightarrow> 'a pgs_scheme \<Rightarrow> bool" where
  "core_ok n u s \<longleftrightarrow> alloc_ok n s \<and> room u s \<and> paging_on s \<and> (\<forall>v. translate s v = kernel_map v) \<and> con_ok (console s)"

lemma translate_cong:
  "creg (mach s') = creg (mach s) \<Longrightarrow> pde_at s' = pde_at s \<Longrightarrow> pte_at s' = pte_at s \<Longrightarrow> translate s' v = translate s v"
  by (simp add: translate_def Let_def)

lemma core_ok_cong:
  assumes "core_ok n u s" "dma.truncate s' = dma.truncate s" "creg (mach s') = creg (mach s)" "pde_at s' = pde_at s"
    "pte_at s' = pte_at s" "con_ok (console s')"
  shows "core_ok n u s'"
  using assms alloc_ok_cong [OF assms(2)] room_cong [OF assms(2)] translate_cong [OF assms(3-5)]
  by (simp add: core_ok_def paging_on_def)

lemma say_ok:
  assumes "con_ok (console s)" "fmt_ok (msg @ [CHR 0x0A]) []"
  shows "\<exists>c. say msg s = Ok (s\<lparr>console := c\<rparr>) \<and> con_ok c"
  using kprintf_ok [OF assms] by (auto simp: say_def con_step_def)

lemma core_say:
  assumes "core_ok n u s" "fmt_ok (msg @ [CHR 0x0A]) []"
  shows "\<exists>c. say msg s = Ok (s\<lparr>console := c\<rparr>) \<and> core_ok n u (s\<lparr>console := c\<rparr>)"
proof -
  obtain c where c: "say msg s = Ok (s\<lparr>console := c\<rparr>)" "con_ok c" using say_ok [of s msg] assms by (auto simp: core_ok_def)
  moreover have "core_ok n u (s\<lparr>console := c\<rparr>)" by (rule core_ok_cong [OF assms(1)]) (simp_all add: dma.truncate_def c(2))
  ultimately show ?thesis by blast
qed

lemma core_says:
  assumes "core_ok n u s" "fmt_ok (msg @ [CHR 0x0A]) []"
  shows "\<exists>a b. say ''Complete.'' s = Ok (s\<lparr>console := a\<rparr>) \<and> say msg (s\<lparr>console := a\<rparr>) = Ok (s\<lparr>console := b\<rparr>) \<and>
    core_ok n u (s\<lparr>console := b\<rparr>)"
proof -
  obtain a where a: "say ''Complete.'' s = Ok (s\<lparr>console := a\<rparr>)" "core_ok n u (s\<lparr>console := a\<rparr>)"
    using core_say [OF assms(1), of "''Complete.''"] by auto
  then show ?thesis using core_say [OF a(2) assms(2)] by auto
qed

section \<open>Memory\<close>

text \<open>What the boot code and the boot loader leave: zeroed static data and a sound list of available memory.\<close>

definition boot_ok :: "nat \<Rightarrow> 'a ints_scheme \<Rightarrow> bool" where
  "boot_ok B s \<longleftrightarrow> pages_ok s \<and> (\<forall>i<0x100000. \<not> page_used s i) \<and> B < 0xfffff \<and>
     (\<exists>rs x0. avl_mem s = rs @ [(x0, UINT32_MAX)] \<and> (\<forall>r\<in>set rs. region_ok B r)) \<and>
     length (free_mem_list s) = kMemBlockTypeNum \<and> length (allocated_mem_list s) = kMemBlockTypeNum \<and>
     K_END s \<noteq> 0 \<and> unat (K_END s) \<le> 2 ^ 24 \<and> tables256 s \<and> (\<forall>v<256. intr_handler s ! v = None)"

lemma GdtInit_run:
  "\<exists>g m. GdtInit adr s = Ok (s\<lparr>gdt_at := g, mach := m\<rparr>) \<and> creg m = creg (mach s) \<and> dev m = dev (mach s)"
proof -
  obtain s' where s': "GdtInit adr s = Ok s'" using GdtInit_ok by blast
  then have "s' = s\<lparr>gdt_at := gdt_at s', mach := mach s'\<rparr>" "creg (mach s') = creg (mach s)" "dev (mach s') = dev (mach s)"
    by (auto simp: GdtInit_def set_gdt_entry_def load_segments_def Let_def kbind_eq_Ok wr_eq_Ok)
  then show ?thesis using s' by metis
qed

lemma dma_more_pgs:
  "dma.more s' = dma.more s \<Longrightarrow> console s' = console s \<and> mach s' = mach s \<and> pde_at s' = pde_at s \<and> pte_at s' = pte_at s \<and>
     pgs.more s' = pgs.more s"
  by (cases s; cases s') simp

lemma MemInit_ok:
  assumes b: "boot_ok B s" and con: "con_ok (console s)"
  shows "\<exists>s'. MemInit lk s = Ok s' \<and> core_ok 5200 25 s' \<and> held s' = {(kKVirtualAddr, block_order (K_END s))} \<and>
    creg (mach s') 3 = 0x1000 \<and> pgs.more s' = pgs.more s \<and> dev (mach s') = dev (mach s)"
proof -
  obtain rs x0 where bo: "pages_ok s" "\<forall>i<0x100000. \<not> page_used s i" "B < 0xfffff" "avl_mem s = rs @ [(x0, UINT32_MAX)]"
      "\<forall>r\<in>set rs. region_ok B r" "length (free_mem_list s) = kMemBlockTypeNum" "length (allocated_mem_list s) = kMemBlockTypeNum"
      "K_END s \<noteq> 0" "unat (K_END s) \<le> 2 ^ 24"
    using b by (auto simp: boot_ok_def)
  obtain c1 where c1: "say ''Open paging...'' s = Ok (s\<lparr>console := c1\<rparr>)" "con_ok c1" using say_ok [OF con, of "''Open paging...''"] by auto
  let ?s1 = "s\<lparr>console := c1\<rparr>"
  have "pages_ok ?s1" "\<forall>i<0x100000. \<not> page_used ?s1 i" using bo(1,2) by (simp_all add: pages_ok_def page_used_def)
  then obtain s2 where s2: "PagingInit ?s1 = Ok s2" "\<forall>v. translate s2 v = kernel_map v" "paging_on s2" "creg (mach s2) 3 = 0x1000"
      "con_ok (console s2)" "free_mem_list s2 = free_mem_list s" "allocated_mem_list s2 = allocated_mem_list s" "K_END s2 = K_END s"
      "pgs.more s2 = pgs.more s" "dev (mach s2) = dev (mach s)"
    using PagingInit_ok [of ?s1 B rs x0] bo(3-5) c1(2) by auto
  obtain c2 where c2: "say ''Reset GDT...'' s2 = Ok (s2\<lparr>console := c2\<rparr>)" "con_ok c2" using say_ok [OF s2(5), of "''Reset GDT...''"] by auto
  obtain g m where g: "GdtInit (addr_of_GdtLimit lk) (s2\<lparr>console := c2\<rparr>) = Ok (s2\<lparr>console := c2, gdt_at := g, mach := m\<rparr>)"
      "creg m = creg (mach s2)" "dev m = dev (mach s2)"
    using GdtInit_run [of "addr_of_GdtLimit lk" "s2\<lparr>console := c2\<rparr>"] by auto
  obtain c3 where c3: "say ''Initialize direct mapping allocator...'' (s2\<lparr>console := c2, gdt_at := g, mach := m\<rparr>) =
      Ok (s2\<lparr>gdt_at := g, mach := m, console := c3\<rparr>)" "con_ok c3"
    using say_ok [of "s2\<lparr>console := c2, gdt_at := g, mach := m\<rparr>" "''Initialize direct mapping allocator...''"] c2(2) by auto
  let ?s3 = "s2\<lparr>gdt_at := g, mach := m, console := c3\<rparr>"
  obtain s4 where s4: "DirectMappingInit ?s3 = Ok s4" "alloc_ok 5200 s4" "held s4 = {(kKVirtualAddr, block_order (K_END s))}"
      "dma.more s4 = dma.more ?s3" "room 25 s4"
    using DirectMappingInit_alloc [of ?s3] s2(6-8) bo(6-9) by auto
  have "core_ok 5200 25 s4"
    using dma_more_pgs [OF s4(4)] s4(2,5) s2(2,3) g(2) c3(2) translate_cong [of s4 s2] by (simp add: core_ok_def paging_on_def)
  moreover have "MemInit lk s = Ok s4" using c1 s2(1) c2 g(1) c3 s4(1) by (simp add: MemInit_def)
  ultimately show ?thesis using s4(3) dma_more_pgs [OF s4(4)] s2(4,9,10) g(2,3) by simp
qed

section \<open>Interrupts\<close>

definition boot_handlers :: "nat \<Rightarrow> handler option" where
  "boot_handlers v = (if v < 4 then Some H_Exc else if v = 14 then Some H_Pf else if v = 128 then Some H_Syscall else None)"

text \<open>
  \<open>intr_state hs ms s\<close>: the handlers are those of \<open>hs\<close>, gates agree with them and lead to the kernel's code segment except that of the
  system call, and the controllers let through the lines \<open>ms\<close>.  A vector
  from 32 to 63 is free if no other one of them that has a handler agrees with it modulo 4, because such vectors share a bit.
\<close>

definition shares_bit :: "(nat \<Rightarrow> handler option) \<Rightarrow> nat \<Rightarrow> bool" where
  "shares_bit hs v \<longleftrightarrow> (\<exists>w\<in>{32..<64}. hs w \<noteq> None \<and> w mod 4 = v mod 4)"

definition intr_state :: "(nat \<Rightarrow> handler option) \<Rightarrow> nat set \<Rightarrow> 'a ints_scheme \<Rightarrow> bool" where
  "intr_state hs ms s \<longleftrightarrow> gates_match s \<and> (\<forall>v<256. intr_handler s ! v = hs v) \<and> (\<forall>v<256. gate_sels s ! v = (if v = 128 then 0x1b else 0x8)) \<and>
     (\<forall>v. 32 \<le> unat v \<and> unat v < 64 \<and> \<not> shares_bit hs (unat v) \<longrightarrow> \<not> vec_used s v) \<and> (\<forall>irq<16. irq_masked s irq \<longleftrightarrow> irq \<notin> ms)"

abbreviation intr_ready :: "'a ints_scheme \<Rightarrow> bool" where
  "intr_ready \<equiv> intr_state boot_handlers {2}"

lemma intr_state_cong:
  assumes "intr_state hs ms s" "intr_vec s' = intr_vec s" "idt s' = idt s" "IntrVecMap s' = IntrVecMap s" "intr_handler s' = intr_handler s"
    "\<forall>p\<in>{kMPicData, kSPicData}. last_out p (trace (mach s')) = last_out p (trace (mach s))"
  shows "intr_state hs ms s'"
proof -
  have "irq_masked s' irq = irq_masked s irq" for irq using assms(6) by (simp add: irq_masked_def)
  moreover have "gate_sels s' = gate_sels s" using assms(3) by (simp add: gate_sels_def)
  ultimately show ?thesis using assms(1-5) by (simp add: intr_state_def gates_match_def tables256_def vec_used_def)
qed

lemma register_driver:
  assumes i: "intr_state hs ms s" and v: "32 \<le> unat v" "unat v < 64" "\<not> shares_bit hs (unat v)"
  shows "\<exists>g bm. RegIntrHandler v h s = Ok (True, s\<lparr>idt := g, IntrVecMap := bm, intr_handler := (intr_handler s)[unat v := Some h]\<rparr>) \<and>
    intr_state (hs(unat v := Some h)) ms (s\<lparr>idt := g, IntrVecMap := bm, intr_handler := (intr_handler s)[unat v := Some h]\<rparr>)"
proof -
  have t: "tables256 s" and nu: "\<not> vec_used s v" using i v by (auto simp: intr_state_def gates_match_def)
  obtain g bm where
    r: "RegIntrHandler v h s = Ok (True, s\<lparr>idt := (idt s)[unat v := g], IntrVecMap := bm,
          intr_handler := (intr_handler s)[unat v := Some h]\<rparr>)" "gate_present g" "length bm = 8"
       "\<forall>u. bm_get bm u \<longleftrightarrow> bm_slot u = bm_slot v \<or> vec_used s u"
    using RegIntrHandler_free [OF t _ nu, of h] v by auto
  let ?s = "s\<lparr>idt := (idt s)[unat v := g], IntrVecMap := bm, intr_handler := (intr_handler s)[unat v := Some h]\<rparr>"
  have "gates_match ?s" using i r(2,3) v by (auto simp: intr_state_def gates_match_def tables256_def nth_list_update)
  moreover have "\<forall>w<256. intr_handler ?s ! w = (hs(unat v := Some h)) w"
    using i t v by (auto simp: intr_state_def tables256_def nth_list_update)
  moreover have "\<not> vec_used ?s w" if "32 \<le> unat w" "unat w < 64" "\<not> shares_bit (hs(unat v := Some h)) (unat w)" for w
  proof -
    have "unat v \<in> {32..<64}" using v(1,2) by simp
    then have "unat v mod 4 \<noteq> unat w mod 4" "\<not> shares_bit hs (unat w)"
      using that(3) unfolding shares_bit_def by (metis fun_upd_same option.discI, metis fun_upd_apply option.discI)
    then have "bm_slot w \<noteq> bm_slot v" "\<not> vec_used s w" using that i by (auto simp: bm_slot_def intr_state_def)
    then show ?thesis using r(4) by (simp add: vec_used_def)
  qed
  ultimately have "intr_state (hs(unat v := Some h)) ms ?s"
    using i gate_sels_registry(1) [OF r(1)] by (auto simp: intr_state_def irq_masked_def)
  then show ?thesis using r(1) by blast
qed

lemma EnableIrq_trace: "EnableIrq v s = Ok s' \<Longrightarrow> \<exists>tr. s' = s\<lparr>mach := (mach s)\<lparr>trace := tr\<rparr>\<rparr>"
  by (auto simp: EnableIrq_def kinb_def inb_def koutb_def outb_def Let_def kbind_eq_Ok split: if_splits)

lemma enable_line:
  assumes i: "intr_state hs ms s" and d: "imr_dev (dev (mach s))" and v: "0x20 \<le> v" "v < 0x30"
  shows "\<exists>tr. EnableIrq v s = Ok (s\<lparr>mach := (mach s)\<lparr>trace := tr\<rparr>\<rparr>) \<and>
    intr_state hs (insert (unat v - 32) ms) (s\<lparr>mach := (mach s)\<lparr>trace := tr\<rparr>\<rparr>)"
proof -
  obtain m where m: "EnableIrq v s = Ok (s\<lparr>mach := m\<rparr>)"
      "\<forall>irq<16. irq_masked (s\<lparr>mach := m\<rparr>) irq \<longleftrightarrow> irq \<noteq> unat v - 32 \<and> irq_masked s irq"
    using EnableIrq_ok [OF d v] by blast
  from EnableIrq_trace [OF m(1)] obtain tr where "s\<lparr>mach := m\<rparr> = s\<lparr>mach := (mach s)\<lparr>trace := tr\<rparr>\<rparr>" by blast
  then show ?thesis using m i by (auto simp: intr_state_def gates_match_def tables256_def vec_used_def)
qed

lemma SyscallInit_run:
  assumes "gates_match s" "\<forall>v. 32 \<le> unat v \<and> unat v < 256 \<longrightarrow> \<not> vec_used s v"
    and "\<forall>v<256. intr_handler s ! v = (if v < 4 then Some H_Exc else if v = 14 then Some H_Pf else None)"
    and "\<forall>irq<16. irq_masked s irq \<longleftrightarrow> irq \<noteq> 2" "\<forall>v<256. gate_sels s ! v = (if v = 128 then 0x1b else 0x8)"
  shows "\<exists>s'. SyscallInit s = Ok s' \<and> intr_ready s' \<and> iview s' = iview s"
proof -
  have t: "tables256 s" using assms(1) by (simp add: gates_match_def)
  have "\<not> vec_used s 0x80" using assms(2) by simp
  from RegIntrHandler_free [OF t _ this, of H_Syscall] obtain g bm where
    r: "RegIntrHandler 0x80 H_Syscall s = Ok (True, s\<lparr>idt := (idt s)[128 := g], IntrVecMap := bm,
          intr_handler := (intr_handler s)[128 := Some H_Syscall]\<rparr>)" "gate_present g" "length bm = 8"
       "\<forall>u. bm_get bm u \<longleftrightarrow> bm_slot u = bm_slot 0x80 \<or> vec_used s u" by auto
  let ?s = "s\<lparr>idt := (idt s)[128 := g], IntrVecMap := bm, intr_handler := (intr_handler s)[128 := Some H_Syscall]\<rparr>"
  have "gates_match ?s" using assms(1) r(2,3) by (auto simp: gates_match_def tables256_def nth_list_update)
  moreover have "\<forall>v<256. intr_handler ?s ! v = boot_handlers v"
    using assms(3) t by (auto simp: boot_handlers_def tables256_def nth_list_update)
  moreover have "\<not> vec_used ?s v" if "32 \<le> unat v" "unat v < 64" for v
  proof -
    have "bm_slot v \<noteq> bm_slot 0x80" using that by (auto simp: bm_slot_def)
    then show ?thesis using r(4) assms(2) that by (simp add: vec_used_def)
  qed
  ultimately have "intr_ready ?s" using assms(4,5) gate_sels_registry(1) [OF r(1)] by (auto simp: intr_state_def irq_masked_def)
  then show ?thesis using r(1) by (auto simp: SyscallInit_def kSyscallVec_def)
qed

lemma interrupts_ready:
  assumes c: "core_ok n u s" and t: "tables256 s" "\<forall>v<256. intr_handler s ! v = None"
  shows "\<exists>s'. kbind (IntrInit s) (\<lambda>s. kbind (say ''Complete.'' s) (\<lambda>s. kbind (say ''Register syscall...'' s) SyscallInit)) = Ok s' \<and>
    core_ok n u s' \<and> intr_ready s' \<and> held s' = held s \<and> creg (mach s') = creg (mach s) \<and> dev (mach s') = dev (mach s) \<and>
    ints.more s' = ints.more s"
proof -
  obtain s1 where s1: "IntrInit s = Ok s1" "gates_match s1" "\<forall>v. 32 \<le> unat v \<and> unat v < 256 \<longrightarrow> \<not> vec_used s1 v"
      "\<forall>v<256. intr_handler s1 ! v = (if v < 4 then Some H_Exc else if v = 14 then Some H_Pf else None)"
    using IntrInit_ok [OF t] by blast
  note f = IntrInit_frame [OF s1(1) t(1)]
  have c1: "core_ok n u s1" by (rule core_ok_cong [OF c]) (use f c in \<open>simp_all add: core_ok_def\<close>)
  obtain a b where ab: "say ''Complete.'' s1 = Ok (s1\<lparr>console := a\<rparr>)" "say ''Register syscall...'' (s1\<lparr>console := a\<rparr>) = Ok (s1\<lparr>console := b\<rparr>)"
      "core_ok n u (s1\<lparr>console := b\<rparr>)"
    using core_says [OF c1, of "''Register syscall...''"] by auto
  let ?s = "s1\<lparr>console := b\<rparr>"
  obtain s2 where s2: "SyscallInit ?s = Ok s2" "intr_ready s2" "iview s2 = iview ?s"
    using SyscallInit_run [of ?s] s1(2-4) f IntrInit_sels [OF s1(1) t(1)]
    by (auto simp: gates_match_def tables256_def vec_used_def irq_masked_def)
  then have e: "dma.truncate s2 = dma.truncate s1" "console s2 = b" "mach s2 = mach s1" "pde_at s2 = pde_at s1" "pte_at s2 = pte_at s1"
      "ints.more s2 = ints.more s1"
    by (simp_all add: iview_def dma.truncate_def)
  have "core_ok n u s2" by (rule core_ok_cong [OF c1]) (use e ab(3) in \<open>simp_all add: core_ok_def\<close>)
  moreover have "held s2 = held s" using held_cong [of s2 s] e(1) f by simp
  ultimately show ?thesis using s1(1) ab(1,2) s2(1,2) e f by simp
qed

lemma threads_ready_console: "threads_ready (s\<lparr>console := c\<rparr>) k t = threads_ready s k t"
proof -
  have "dma.truncate (s\<lparr>console := c\<rparr>) = dma.truncate s" by (simp add: dma.truncate_def)
  from held_cong [OF this] show ?thesis
    using sched_cong [of "s\<lparr>console := c\<rparr>" s "[k]"] by (simp add: threads_ready_def free_threads_def)
qed

lemma processes_and_threads:
  assumes c: "core_ok 5200 25 s" and i: "intr_ready s"
  shows "\<exists>s' k t. kbind (ProcManagerInit s) (\<lambda>s. kbind (say ''Complete.'' s) (\<lambda>s. kbind (say ''Initialize thread...'' s) ThreadInit)) = Ok s' \<and>
    core_ok 5191 16 s' \<and> intr_ready s' \<and> threads_ready s' k t \<and>
    held s \<subseteq> held s' \<and> creg (mach s') = creg (mach s) \<and> dev (mach s') = dev (mach s) \<and> ths.more s' = ths.more s \<and>
    nxt s' (k_pcb s') = 0 \<and> nxt s' (k_pcb s' + 44) = k_pcb s' + 44"
proof -
  have "alloc_ok (Suc (Suc (Suc 5197))) s" "room (Suc (Suc (Suc 22))) s" using c by (simp_all add: core_ok_def)
  then obtain s1 l b k where s1: "ProcManagerInit s = Ok s1" "alloc_ok 5197 s1" "room 22 s1" "proc_ready s1 l b k"
      "held s1 = insert (k, 6) (insert (l, 2) (insert (b, 10) (held s)))" "kview s1 = kview s"
    using ProcManagerInit_ok [of 5197 s 22] by auto
  have kp: "k_pcb s1 = k" "nxt s1 k = 0" "nxt s1 (k + 44) = k + 44" using s1(4) by (simp_all add: proc_ready_def pcb_offsets)
  have v1: "console s1 = console s" "creg (mach s1) = creg (mach s)" "pde_at s1 = pde_at s" "pte_at s1 = pte_at s"
    using s1(6) by (simp_all add: kview_def)
  have "core_ok 5197 22 s1" using c s1(2,3) v1 translate_cong [OF v1(2-4)] by (simp add: core_ok_def paging_on_def)
  then obtain a b where ab: "say ''Complete.'' s1 = Ok (s1\<lparr>console := a\<rparr>)"
      "say ''Initialize thread...'' (s1\<lparr>console := a\<rparr>) = Ok (s1\<lparr>console := b\<rparr>)" "core_ok 5197 22 (s1\<lparr>console := b\<rparr>)"
    using core_says [of 5197 22 s1 "''Initialize thread...''"] by auto
  let ?s = "s1\<lparr>console := b\<rparr>"
  have e: "dma.truncate ?s = dma.truncate s1" by (simp add: dma.truncate_def)
  have "alloc_ok (6 + 5191) ?s" "room (6 + 16) ?s" "(k_pcb ?s, 6) \<in> held ?s"
    using alloc_ok_cong [OF e] room_cong [OF e] held_cong [OF e] s1(2,3,5) kp(1) by simp_all
  then obtain s2 th t where s2: "ThreadInit ?s = Ok s2" "alloc_ok 5191 s2" "room 16 s2" "threads_ready s2 th t" "k_pcb s2 = k"
      "kview s2 = kview ?s" "held ?s \<subseteq> held s2" "\<forall>e. unat e < 64 \<longrightarrow> nxt s2 (k + e) = nxt s1 (k + e)"
    using ThreadInit_ok [of 5191 ?s 16] kp(1) by auto
  have v: "console s2 = b" "intr_vec s2 = intr_vec s" "idt s2 = idt s" "IntrVecMap s2 = IntrVecMap s" "intr_handler s2 = intr_handler s"
      "creg (mach s2) = creg (mach s)" "dev (mach s2) = dev (mach s)" "trace (mach s2) = trace (mach s)" "pde_at s2 = pde_at s"
      "pte_at s2 = pte_at s" "ths.more s2 = ths.more s"
    using s1(6) s2(6) by (simp_all add: kview_def)
  have "core_ok 5191 16 s2"
    using c ab(3) s2(2,3) v(1,6) translate_cong [OF v(6,9,10)] by (simp add: core_ok_def paging_on_def)
  moreover have "intr_ready s2" by (rule intr_state_cong [OF i v(2-5)]) (simp add: v(8))
  moreover have "held s \<subseteq> held s2" using s2(7) held_cong [OF e] s1(5) by auto
  moreover have "nxt s2 k = 0" "nxt s2 (k + 44) = k + 44" using s2(8) [rule_format, of 0] s2(8) [rule_format, of 44] kp(2,3) by simp_all
  ultimately show ?thesis
    using s1(1) ab(1,2) s2(1,4,5) v(6,7,11) by (intro exI [of _ s2] exI [of _ th] exI [of _ t]) simp
qed

section \<open>From the boot information to the first thread\<close>

text \<open>
  \<open>kernel_up s k t\<close>: the kernel runs the single thread \<open>k\<close>; the threads of the block \<open>t\<close> are free; memory, paging, interrupts
  and the kernel's process are set up.
\<close>

definition kernel_up :: "'a ths_scheme \<Rightarrow> u32 \<Rightarrow> u32 \<Rightarrow> bool" where
  "kernel_up s k t \<longleftrightarrow> core_ok 5191 16 s \<and> intr_ready s \<and> threads_ready s k t \<and> creg (mach s) 3 = 0x1000 \<and>
     nxt s (k_pcb s) = 0 \<and> nxt s (k_pcb s + 44) = k_pcb s + 44"

lemma kernel_up_console: "kernel_up s k t \<Longrightarrow> con_ok c \<Longrightarrow> kernel_up (s\<lparr>console := c\<rparr>) k t"
  using core_ok_cong [of 5191 16 s "s\<lparr>console := c\<rparr>"] intr_state_cong [of _ _ s "s\<lparr>console := c\<rparr>"] threads_ready_console [of c s k t]
  by (simp add: kernel_up_def dma.truncate_def)

lemma kernel_up_say:
  assumes "kernel_up s k t" "fmt_ok (msg @ [CHR 0x0A]) []"
  shows "\<exists>c. say msg s = Ok (s\<lparr>console := c\<rparr>) \<and> kernel_up (s\<lparr>console := c\<rparr>) k t"
proof -
  have "con_ok (console s)" using assms(1) by (simp add: kernel_up_def core_ok_def)
  from say_ok [OF this assms(2)] show ?thesis using kernel_up_console [OF assms(1)] by blast
qed

lemma kernel_core_ok:
  assumes b: "boot_ok B s" and con: "con_ok (console s)"
  shows "\<exists>s' k t. kernel_core lk s = Ok s' \<and> kernel_up s' k t \<and> (kKVirtualAddr, block_order (K_END s)) \<in> held s' \<and>
    dev (mach s') = dev (mach s) \<and> ths.more s' = ths.more s"
proof -
  obtain c1 where c1: "say ''Initialize memory management...'' s = Ok (s\<lparr>console := c1\<rparr>)" "con_ok c1"
    using say_ok [OF con, of "''Initialize memory management...''"] by auto
  let ?s1 = "s\<lparr>console := c1\<rparr>"
  have "boot_ok B ?s1" using b by (auto simp: boot_ok_def pages_ok_def page_used_def tables256_def)
  then obtain s2 where s2: "MemInit lk ?s1 = Ok s2" "core_ok 5200 25 s2" "held s2 = {(kKVirtualAddr, block_order (K_END s))}"
      "creg (mach s2) 3 = 0x1000" "pgs.more s2 = pgs.more s" "dev (mach s2) = dev (mach s)"
    using MemInit_ok [of B ?s1 lk] c1(2) by auto
  obtain c2 c3 where c3: "say ''Complete.'' s2 = Ok (s2\<lparr>console := c2\<rparr>)"
      "say ''Initialize interrupt...'' (s2\<lparr>console := c2\<rparr>) = Ok (s2\<lparr>console := c3\<rparr>)" "core_ok 5200 25 (s2\<lparr>console := c3\<rparr>)"
    using core_says [OF s2(2), of "''Initialize interrupt...''"] by auto
  let ?s3 = "s2\<lparr>console := c3\<rparr>"
  have "tables256 s2 \<and> intr_handler s2 = intr_handler s" using b s2(5) by (cases s; cases s2) (simp add: boot_ok_def tables256_def)
  then have t3: "tables256 ?s3" "\<forall>v<256. intr_handler ?s3 ! v = None" using b by (simp_all add: boot_ok_def tables256_def)
  obtain s5 where s5: "kbind (IntrInit ?s3) (\<lambda>s. kbind (say ''Complete.'' s) (\<lambda>s. kbind (say ''Register syscall...'' s) SyscallInit)) = Ok s5"
      "core_ok 5200 25 s5" "intr_ready s5" "held s5 = held ?s3" "creg (mach s5) = creg (mach s2)" "dev (mach s5) = dev (mach s2)"
      "ints.more s5 = ints.more s2"
    using interrupts_ready [OF c3(3) t3] by auto
  obtain c6 c7 where c7: "say ''Complete.'' s5 = Ok (s5\<lparr>console := c6\<rparr>)"
      "say ''Initialize process manager...'' (s5\<lparr>console := c6\<rparr>) = Ok (s5\<lparr>console := c7\<rparr>)" "core_ok 5200 25 (s5\<lparr>console := c7\<rparr>)"
    using core_says [OF s5(2), of "''Initialize process manager...''"] by auto
  let ?s6 = "s5\<lparr>console := c7\<rparr>"
  have "intr_ready ?s6" by (rule intr_state_cong [OF s5(3)]) simp_all
  then obtain s7 k t where s7: "kbind (ProcManagerInit ?s6) (\<lambda>s. kbind (say ''Complete.'' s) (\<lambda>s.
        kbind (say ''Initialize thread...'' s) ThreadInit)) = Ok s7"
      "core_ok 5191 16 s7" "intr_ready s7" "threads_ready s7 k t" "held ?s6 \<subseteq> held s7" "creg (mach s7) = creg (mach s5)"
      "dev (mach s7) = dev (mach s5)" "ths.more s7 = ths.more s5" "nxt s7 (k_pcb s7) = 0" "nxt s7 (k_pcb s7 + 44) = k_pcb s7 + 44"
    using processes_and_threads [OF c7(3)] by auto
  have "kernel_up s7 k t" using s7(2-4,6,9,10) s5(5) s2(4) by (simp add: kernel_up_def)
  then obtain c10 where c10: "say ''Complete.'' s7 = Ok (s7\<lparr>console := c10\<rparr>)" "kernel_up (s7\<lparr>console := c10\<rparr>) k t"
    using kernel_up_say [of s7 k t "''Complete.''"] by auto
  have hc: "held (x\<lparr>console := c\<rparr>) = held x" for x :: "'a ides_scheme" and c by (rule held_cong) (simp add: dma.truncate_def)
  have "ths.more s5 = ths.more s" using s5(7) s2(5) by (cases s; cases s2; cases s5) simp
  moreover have "kernel_core lk s = Ok (s7\<lparr>console := c10\<rparr>)"
  proof -
    have "kernel_core lk s = kbind (kbind (IntrInit ?s3) (\<lambda>s. kbind (say ''Complete.'' s) (\<lambda>s. kbind (say ''Register syscall...'' s) SyscallInit)))
        (\<lambda>s. kbind (say ''Complete.'' s) (\<lambda>s. kbind (say ''Initialize process manager...'' s) (\<lambda>s.
          kbind (kbind (ProcManagerInit s) (\<lambda>s. kbind (say ''Complete.'' s) (\<lambda>s. kbind (say ''Initialize thread...'' s) ThreadInit)))
            (say ''Complete.''))))"
      using c1(1) s2(1) c3(1,2) by (simp add: kernel_core_def kbind_assoc)
    then show ?thesis using s5(1) c7(1,2) s7(1) c10(1) by simp
  qed
  ultimately show ?thesis
    using c10(2) s7(5,7,8) s5(4,6) s2(3,6) hc by (intro exI [of _ "s7\<lparr>console := c10\<rparr>"] exI [of _ k] exI [of _ t]) auto
qed

end
