(* ===== verification/BootProps.thy ===== *)
theory BootProps
  imports KernelProps IdeProps
begin

text \<open>
  \<^verbatim>\<open>kernel_start\<close> from the boot loader to the running scheduler, on a machine without a drive and with a keyboard controller that fails
  its self test (\<open>devices_fail\<close>): the drivers give up and the kernel runs with the timer.  On a machine whose controller works
  but to which no keyboard is attached (\<open>no_keyboard\<close>), the start does not end.  The memory map of the boot loader is
  given as the list of its entries (\<open>mmap_of\<close>).
\<close>

section \<open>The memory map\<close>

fun mmap_of :: "(u32 \<Rightarrow> multiboot_memory_map) \<Rightarrow> u32 \<Rightarrow> multiboot_memory_map list \<Rightarrow> u32 \<Rightarrow> bool" where
  "mmap_of f a [] e \<longleftrightarrow> a = e"
| "mmap_of f a (x # xs) e \<longleftrightarrow> a < e \<and> f a = x \<and> mmap_of f (a + mm_size x + 4) xs e"

definition available :: "multiboot_memory_map list \<Rightarrow> (u32 \<times> u32) list" where
  "available es = map (\<lambda>x. (ucast (mm_addr x), ucast (mm_len x))) (filter (\<lambda>x. mm_type x = MULTIBOOT_MEMORY_AVAILABLE) es)"

lemma mmap_scan_run: "mmap_of f a es e \<Longrightarrow> mmap_scan f e (a, t) = Ok (e, t @ available es)"
proof (induction es arbitrary: a t)
  case Nil
  then show ?case by (simp add: mmap_scan_def kwhile_stop available_def)
next
  case (Cons x xs)
  let ?t = "if mm_type x = MULTIBOOT_MEMORY_AVAILABLE then t @ [(ucast (mm_addr x), ucast (mm_len x))] else t"
  have "mmap_scan f e (a, t) = mmap_scan f e (a + mm_size x + 4, ?t)"
    unfolding mmap_scan_def using Cons.prems by (intro kwhile_step) (simp_all add: Let_def)
  then show ?case using Cons.IH [of "a + mm_size x + 4" ?t] Cons.prems by (simp add: available_def)
qed

section \<open>Devices\<close>

text \<open>
  What a read returns is a function \<open>d\<close> of the history.  \<open>ps2_accepts\<close>: whatever has happened, the keyboard controller takes a byte after some reads of its status.
  \<open>ps2_gives d tr\<close>: after the history \<open>tr\<close> and some reads of the status it has a byte.  A drive may be busy for a while as well; without a
  drive the status registers read 0.
\<close>

definition ps2_accepts :: "(io list \<Rightarrow> u16 \<Rightarrow> u8) \<Rightarrow> bool" where
  "ps2_accepts d \<longleftrightarrow> (\<forall>tr. \<exists>i. d (read_hist kPs2StatusReg d i tr) kPs2StatusReg AND 2 = 0)"

definition ps2_gives :: "(io list \<Rightarrow> u16 \<Rightarrow> u8) \<Rightarrow> io list \<Rightarrow> bool" where
  "ps2_gives d tr \<longleftrightarrow> (\<exists>i. d (read_hist kPs2StatusReg d i tr) kPs2StatusReg AND 1 \<noteq> 0)"

definition no_drive :: "(io list \<Rightarrow> u16 \<Rightarrow> u8) \<Rightarrow> bool" where
  "no_drive d \<longleftrightarrow> (\<forall>tr. d tr kAlternateStatusReg = 0 \<and> d tr kIdeStatusReg = 0)"

text \<open>No drive, and a keyboard controller that answers the self test with something else than \<^verbatim>\<open>0x55\<close>.\<close>

definition devices_fail :: "(io list \<Rightarrow> u16 \<Rightarrow> u8) \<Rightarrow> bool" where
  "devices_fail d \<longleftrightarrow> imr_dev d \<and> no_drive d \<and> ps2_accepts d \<and>
     (\<forall>tr. last_out kPs2CmdReg tr = kCtrlSelfTest \<longrightarrow> ps2_gives d tr \<and> d tr kPs2DataPort \<noteq> 0x55)"

text \<open>A controller that passes the self test and the test of its port.\<close>

definition ps2_works :: "(io list \<Rightarrow> u16 \<Rightarrow> u8) \<Rightarrow> bool" where
  "ps2_works d \<longleftrightarrow> ps2_accepts d \<and>
     (\<forall>tr. (last_out kPs2CmdReg tr = kCtrlSelfTest \<longrightarrow> ps2_gives d tr \<and> d tr kPs2DataPort = 0x55) \<and>
       (last_out kPs2CmdReg tr = kTestPort1 \<longrightarrow> ps2_gives d tr \<and> d tr kPs2DataPort = 0))"

text \<open>No drive and no keyboard: nobody answers the reset that goes through the enabled port.\<close>

definition no_keyboard :: "(io list \<Rightarrow> u16 \<Rightarrow> u8) \<Rightarrow> bool" where
  "no_keyboard d \<longleftrightarrow> imr_dev d \<and> no_drive d \<and> ps2_works d \<and>
     (\<forall>tr. last_out kPs2CmdReg tr = kEnablePort1 \<longrightarrow> \<not> ps2_gives d (OutB kPs2DataPort kResetDevice # tr))"

text \<open>Port accesses that leave the interrupt controllers alone.\<close>

definition io_only :: "'a kbase_scheme \<Rightarrow> 'a kbase_scheme \<Rightarrow> bool" where
  "io_only s s' \<longleftrightarrow> (\<exists>tr. s' = s\<lparr>mach := (mach s)\<lparr>trace := tr\<rparr>\<rparr> \<and>
     (\<forall>p\<in>{kMPicData, kSPicData}. last_out p tr = last_out p (trace (mach s))))"

lemma io_only_refl: "io_only s s"
  by (auto simp: io_only_def intro!: exI [of _ "trace (mach s)"])

lemma io_only_trans: "io_only s s' \<Longrightarrow> io_only s' s'' \<Longrightarrow> io_only s s''"
  by (auto simp: io_only_def)

lemma io_only_koutb: "io_only s s' \<Longrightarrow> p \<noteq> kMPicData \<Longrightarrow> p \<noteq> kSPicData \<Longrightarrow> io_only s (koutb p d s')"
  by (auto simp: io_only_def koutb_def outb_def)

lemma io_only_kinb: "io_only s s' \<Longrightarrow> io_only s (snd (kinb p s'))"
  by (auto simp: io_only_def kinb_def inb_def Let_def)

lemma io_only_dev: "io_only s s' \<Longrightarrow> dev (mach s') = dev (mach s)"
  by (auto simp: io_only_def)

lemma dev_io [simp]: "dev (mach (koutb p d s)) = dev (mach s)" "dev (mach (snd (kinb p s))) = dev (mach s)"
  by (simp_all add: koutb_def outb_def kinb_def inb_def Let_def)

lemma fst_kinb: "fst (kinb p s) = dev (mach s) (trace (mach s)) p"
  by (simp add: kinb_def inb_def Let_def)

lemma io_only_reads: "io_only s s' \<Longrightarrow> io_only s (after_reads p n s')"
proof -
  have "last_out q (read_hist p d n tr) = last_out q tr" for q d tr by (induction n arbitrary: tr) simp_all
  then show "io_only s s' \<Longrightarrow> io_only s (after_reads p n s')" by (auto simp: io_only_def after_reads_def)
qed

lemma last_out_reads [simp]: "last_out q (read_hist p d n tr) = last_out q tr"
  by (induction n arbitrary: tr) simp_all

lemma poll_some:
  assumes "\<exists>i. \<not> busy (dev (mach s) (read_hist p (dev (mach s)) i (trace (mach s))) p)"
  shows "\<exists>d i. poll p busy s = Ok (d, after_reads p i s)"
  using assms unfolding poll_eq by (auto simp: Let_def nth_read_def)

text \<open>The drive: waiting ends when it is no longer busy.\<close>

lemma IdeWait_some:
  assumes "dev (mach s) (read_hist kAlternateStatusReg (dev (mach s)) n (trace (mach s))) kAlternateStatusReg AND kIdeBsy = 0"
    and "c \<Longrightarrow> \<forall>tr. dev (mach s) tr kAlternateStatusReg AND kIdeBsy \<noteq> 0 \<longrightarrow> dev (mach s) tr kAlternateStatusReg AND (kIdeDf OR kIdeErr) = 0"
  shows "\<exists>i. IdeWait c s = Ok (True, after_reads kAlternateStatusReg i s)"
  using assms
proof (induction n arbitrary: s)
  case 0
  then have "IdeWait c s = Ok (True, after_reads kAlternateStatusReg 1 s)"
    by (subst IdeWait.simps) (simp add: kinb_eq nth_read_def)
  then show ?case by blast
next
  case (Suc n)
  let ?s = "after_reads kAlternateStatusReg 1 s"
  show ?case
  proof (cases "nth_read kAlternateStatusReg 0 s AND kIdeBsy = 0")
    case True
    then have "IdeWait c s = Ok (True, ?s)" by (subst IdeWait.simps) (simp add: kinb_eq)
    then show ?thesis by blast
  next
    case False
    have e: "IdeWait c s = IdeWait c ?s"
      using False Suc.prems(2) by (subst IdeWait.simps) (auto simp: kinb_eq nth_read_def)
    have "\<exists>i. IdeWait c ?s = Ok (True, after_reads kAlternateStatusReg i ?s)"
      by (rule Suc.IH) (use Suc.prems in \<open>simp_all add: after_reads_def\<close>)
    then show ?thesis unfolding e by (metis after_reads_Suc)
  qed
qed

text \<open>One access to the keyboard controller, with what the next ones rely on.\<close>

lemma ps2_write:
  assumes "io_only s s'" "ps2_accepts (dev (mach s))" "p \<in> {kPs2CmdReg, kPs2DataPort}"
  shows "\<exists>s''. Write p d s' = Ok s'' \<and> io_only s s'' \<and>
    (\<exists>tr. trace (mach s'') = OutB p d # tr \<and> (\<forall>q. last_out q tr = last_out q (trace (mach s'))))"
proof -
  obtain x i where r: "poll kPs2StatusReg (\<lambda>d. d AND 0x2 \<noteq> 0) s' = Ok (x, after_reads kPs2StatusReg i s')"
    using poll_some [of "\<lambda>d. d AND 0x2 \<noteq> 0" s' kPs2StatusReg] assms(2) io_only_dev [OF assms(1)] unfolding ps2_accepts_def by auto
  let ?s = "koutb p d (after_reads kPs2StatusReg i s')"
  have "io_only s ?s" using assms by (intro io_only_koutb io_only_reads) (auto simp: kPs2CmdReg_def kPs2DataPort_def kMPicData_def kSPicData_def)
  moreover have "trace (mach ?s) = OutB p d # read_hist kPs2StatusReg (dev (mach s')) i (trace (mach s'))"
    by (simp add: koutb_def outb_def after_reads_def)
  ultimately show ?thesis using r by (intro exI [of _ ?s]) (simp add: Write_def)
qed

lemma ps2_read:
  assumes "io_only s s'" "ps2_gives (dev (mach s)) (trace (mach s'))"
  shows "\<exists>s'' i. let tr = read_hist kPs2StatusReg (dev (mach s)) i (trace (mach s')) in
    Read kPs2DataPort s' = Ok (dev (mach s) tr kPs2DataPort, s'') \<and> io_only s s'' \<and> (\<exists>a. trace (mach s'') = InB kPs2DataPort a # tr)"
proof -
  have d: "dev (mach s') = dev (mach s)" by (rule io_only_dev [OF assms(1)])
  obtain x i where r: "poll kPs2StatusReg (\<lambda>d. d AND 0x1 = 0) s' = Ok (x, after_reads kPs2StatusReg i s')"
    using poll_some [of "\<lambda>d. d AND 0x1 = 0" s' kPs2StatusReg] assms(2) d unfolding ps2_gives_def by auto
  let ?t = "after_reads kPs2StatusReg i s'"
  have "io_only s (snd (kinb kPs2DataPort ?t))" using assms(1) by (intro io_only_kinb io_only_reads)
  moreover have "kinb kPs2DataPort ?t = (dev (mach s) (trace (mach ?t)) kPs2DataPort, snd (kinb kPs2DataPort ?t))"
    using d by (simp add: prod_eq_iff fst_kinb after_reads_def)
  moreover have "trace (mach ?t) = read_hist kPs2StatusReg (dev (mach s)) i (trace (mach s'))" using d by (simp add: after_reads_def)
  moreover have "\<exists>a. trace (mach (snd (kinb kPs2DataPort ?t))) = InB kPs2DataPort a # trace (mach ?t)" by (simp add: kinb_def inb_def Let_def)
  ultimately show ?thesis using r
    by (intro exI [of _ "snd (kinb kPs2DataPort ?t)"] exI [of _ i]) (simp add: Read_def Let_def)
qed

lemma Read_stuck:
  assumes "\<not> ps2_gives (dev (mach s)) (trace (mach s))"
  shows "Read p s = None"
  using assms poll_stuck [of "\<lambda>d. d AND 0x1 = 0" kPs2StatusReg s] by (simp add: Read_def ps2_gives_def nth_read_def)

text \<open>\<^verbatim>\<open>KeyboardInit\<close> in parts: after the self test, after the reset of the keyboard, and the rest.\<close>

definition keyboard_setup :: "'a kbs_scheme \<Rightarrow> (bool \<times> 'a kbs_scheme) kres" where
  "keyboard_setup s =
     kbind (KeymapInit s) (\<lambda>s.
     kbind (Write kPs2CmdReg kWCtrlConfig s) (\<lambda>s.
     kbind (Write kPs2DataPort (kCtrlConfig OR 0x1) s) (\<lambda>s.
     kbind (RegIntrHandler kKeyboardVec H_Keyboard s) (\<lambda>(_, s).
     kbind (EnableIrq kKeyboardVec s) (\<lambda>s.
     Ok (True, s))))))"

definition keyboard_answer :: "'a kbs_scheme \<Rightarrow> (bool \<times> 'a kbs_scheme) kres" where
  "keyboard_answer s =
     kbind (Read kPs2DataPort s) (\<lambda>(_, s).
     let (d, s) = kinb kPs2DataPort s in
     if d \<noteq> 0xaa then Ok (False, s) else keyboard_setup (s\<lparr>key_counter := 0, cur := 0\<rparr>))"

definition keyboard_reset :: "'a kbs_scheme \<Rightarrow> (bool \<times> 'a kbs_scheme) kres" where
  "keyboard_reset s =
     kbind (Write kPs2CmdReg kTestPort1 s) (\<lambda>s.
     kbind (Read kPs2DataPort s) (\<lambda>(d, s).
     if d \<noteq> 0 then Ok (False, s)
     else
     kbind (Write kPs2CmdReg kEnablePort1 s) (\<lambda>s.
     kbind (Write kPs2DataPort kResetDevice s) keyboard_answer)))"

lemma KeyboardInit_self_test:
  fixes s :: "'a kbs_scheme"
  assumes a: "ps2_accepts (dev (mach s))" and g: "\<And>tr. last_out kPs2CmdReg tr = kCtrlSelfTest \<Longrightarrow> ps2_gives (dev (mach s)) tr"
  shows "\<exists>s' tr. io_only s s' \<and> last_out kPs2CmdReg tr = kCtrlSelfTest \<and>
    KeyboardInit s = (if dev (mach s) tr kPs2DataPort \<noteq> 0x55 then Ok (False, s') else keyboard_reset s')"
proof -
  note w = ps2_write [OF _ a]
  obtain s1 where s1: "Write kPs2CmdReg kDisablePort1 s = Ok s1" "io_only s s1" using w [OF io_only_refl] by blast
  obtain s2 where s2: "Write kPs2CmdReg kDisablePort2 s1 = Ok s2" "io_only s s2" using w [OF s1(2)] by blast
  define s3 where "s3 = snd (kinb kPs2DataPort s2)"
  have i3: "io_only s s3" unfolding s3_def by (rule io_only_kinb [OF s2(2)])
  obtain s4 where s4: "Write kPs2CmdReg kWCtrlConfig s3 = Ok s4" "io_only s s4" using w [OF i3] by blast
  obtain s5 where s5: "Write kPs2DataPort kCtrlConfig s4 = Ok s5" "io_only s s5" using w [OF s4(2)] by blast
  obtain s6 tr6 where s6: "Write kPs2CmdReg kCtrlSelfTest s5 = Ok s6" "io_only s s6" "trace (mach s6) = OutB kPs2CmdReg kCtrlSelfTest # tr6"
    using w [OF s5(2)] by blast
  have l: "last_out kPs2CmdReg (trace (mach s6)) = kCtrlSelfTest" using s6(3) by simp
  obtain s7 i where s7: "Read kPs2DataPort s6 = Ok (dev (mach s) (read_hist kPs2StatusReg (dev (mach s)) i (trace (mach s6))) kPs2DataPort, s7)" "io_only s s7"
    using ps2_read [OF s6(2) g [OF l]] by (auto simp: Let_def)
  show ?thesis
    unfolding keyboard_reset_def keyboard_answer_def [abs_def] keyboard_setup_def
    using s1(1) s2(1) s4(1) s5(1) s6(1) s7 l
    by (intro exI [of _ s7] exI [of _ "read_hist kPs2StatusReg (dev (mach s)) i (trace (mach s6))"])
      (simp add: KeyboardInit_def s3_def)
qed

lemma KeyboardInit_reset:
  fixes s :: "'a kbs_scheme"
  assumes p: "ps2_works (dev (mach s))"
  shows "\<exists>s' tr. io_only s s' \<and> last_out kPs2CmdReg tr = kEnablePort1 \<and> trace (mach s') = OutB kPs2DataPort kResetDevice # tr \<and>
    KeyboardInit s = keyboard_answer s'"
proof -
  have a: "ps2_accepts (dev (mach s))" and g: "\<And>tr. last_out kPs2CmdReg tr = kCtrlSelfTest \<Longrightarrow> ps2_gives (dev (mach s)) tr \<and> dev (mach s) tr kPs2DataPort = 0x55"
      "\<And>tr. last_out kPs2CmdReg tr = kTestPort1 \<Longrightarrow> ps2_gives (dev (mach s)) tr \<and> dev (mach s) tr kPs2DataPort = 0"
    using p by (auto simp: ps2_works_def)
  note w = ps2_write [OF _ a]
  obtain s7 where s7: "io_only s s7" and e: "KeyboardInit s = keyboard_reset s7" using KeyboardInit_self_test [OF a] g(1) by metis
  obtain s8 tr8 where s8: "Write kPs2CmdReg kTestPort1 s7 = Ok s8" "io_only s s8" "trace (mach s8) = OutB kPs2CmdReg kTestPort1 # tr8"
    using w [OF s7] by blast
  have l8: "last_out kPs2CmdReg (trace (mach s8)) = kTestPort1" using s8(3) by simp
  obtain s9 where s9: "Read kPs2DataPort s8 = Ok (0, s9)" "io_only s s9"
    using ps2_read [OF s8(2)] g(2) l8 by (fastforce simp: Let_def)
  obtain s10 tr10 where s10: "Write kPs2CmdReg kEnablePort1 s9 = Ok s10" "io_only s s10" "trace (mach s10) = OutB kPs2CmdReg kEnablePort1 # tr10"
    using w [OF s9(2)] by blast
  obtain s11 tr where s11: "Write kPs2DataPort kResetDevice s10 = Ok s11" "io_only s s11" "trace (mach s11) = OutB kPs2DataPort kResetDevice # tr"
      "last_out kPs2CmdReg tr = last_out kPs2CmdReg (trace (mach s10))"
    using w [OF s10(2)] by blast
  show ?thesis unfolding e
    using s8(1) s9(1) s10(1,3) s11 by (intro exI [of _ s11] exI [of _ tr]) (simp add: keyboard_reset_def)
qed

lemmas driver_ports = ide_ports kAlternateStatusReg_def kIdeStatusReg_def kPs2StatusReg_def kPs2DataPort_def kPs2CmdReg_def
  kMPicData_def kSPicData_def kModeRegPort_def kChannel0Port_def

lemma IdeInit_absent:
  assumes "no_drive (dev (mach s))"
  shows "\<exists>s'. IdeInit buf run s = Ok (False, s') \<and> io_only s s'"
proof -
  let ?k = "\<lambda>s. koutb kIdeCmdReg kIdentity (koutb kCylinderHighReg 0 (koutb kCylinderLowReg 0 (koutb kSecNoReg 0
    (koutb kSecCountReg 0 (koutb kDriveHeadSelReg 0xf0 (DisableIntr s))))))"
  obtain i where w: "IdeWait False s = Ok (True, after_reads kAlternateStatusReg i s)"
    using IdeWait_some [of s 0 False] assms by (auto simp: no_drive_def)
  let ?s1 = "?k (after_reads kAlternateStatusReg i s)"
  let ?s2 = "snd (kinb kCylinderLowReg ?s1)"
  let ?s3 = "snd (kinb kCylinderHighReg ?s2)"
  let ?s4 = "snd (kinb kIdeStatusReg ?s3)"
  have i1: "io_only s ?s1" unfolding DisableIntr_def
    by (intro io_only_koutb io_only_reads io_only_refl) (simp_all add: driver_ports)
  have i: "io_only s ?s2" "io_only s ?s3" "io_only s ?s4" using i1 by (auto intro: io_only_kinb)
  have "fst (kinb kIdeStatusReg ?s3) = 0" using assms io_only_dev [OF i(2)] by (simp add: fst_kinb no_drive_def)
  then have "IdeInit buf run s = (if fst (kinb kCylinderLowReg ?s1) \<noteq> 0 then Ok (False, ?s2)
      else if fst (kinb kCylinderHighReg ?s2) \<noteq> 0 then Ok (False, ?s3) else Ok (False, ?s4))"
    using w by (simp add: IdeInit_def Let_def split_beta)
  then show ?thesis using i by auto
qed

lemma KeyboardInit_fails:
  assumes "devices_fail (dev (mach s))"
  shows "\<exists>s'. KeyboardInit s = Ok (False, s') \<and> io_only s s'"
  using KeyboardInit_self_test [of s] assms unfolding devices_fail_def by metis

lemma KeyboardInit_waits:
  assumes "no_keyboard (dev (mach s))"
  shows "KeyboardInit s = None"
proof -
  obtain s' tr where s': "io_only s s'" "last_out kPs2CmdReg tr = kEnablePort1" "trace (mach s') = OutB kPs2DataPort kResetDevice # tr"
      "KeyboardInit s = keyboard_answer s'"
    using KeyboardInit_reset [of s] assms unfolding no_keyboard_def by blast
  then have "\<not> ps2_gives (dev (mach s')) (trace (mach s'))" using assms io_only_dev [OF s'(1)] by (simp add: no_keyboard_def)
  then show ?thesis using s'(4) Read_stuck [of s'] by (simp add: keyboard_answer_def)
qed

section \<open>The timer\<close>

lemma TimerInit_run:
  fixes s :: "'a tms_scheme"
  assumes i: "intr_state hs ms s" "\<not> shares_bit hs 32" and d: "imr_dev (dev (mach s))"
  shows "\<exists>g bm tr. TimerInit s = Ok (s\<lparr>idt := g, IntrVecMap := bm, intr_handler := (intr_handler s)[32 := Some H_Timer], timer := 15,
      mach := (mach s)\<lparr>trace := tr\<rparr>\<rparr>) \<and>
    intr_state (hs(32 := Some H_Timer)) (insert 0 ms) (s\<lparr>idt := g, IntrVecMap := bm, intr_handler := (intr_handler s)[32 := Some H_Timer],
      timer := 15, mach := (mach s)\<lparr>trace := tr\<rparr>\<rparr>)"
proof -
  let ?s1 = "koutb kChannel0Port (ucast (drop_bit 8 kReloadVal)) (koutb kChannel0Port (ucast kReloadVal) (koutb kModeRegPort kModeRegVal s))"
  have i1: "intr_state hs ms ?s1"
    by (rule intr_state_cong [OF i(1)]) (simp_all add: koutb_def outb_def driver_ports)
  obtain g bm where r: "RegIntrHandler 0x20 H_Timer ?s1 = Ok (True, ?s1\<lparr>idt := g, IntrVecMap := bm, intr_handler := (intr_handler ?s1)[32 := Some H_Timer]\<rparr>)"
      "intr_state (hs(32 := Some H_Timer)) ms (?s1\<lparr>idt := g, IntrVecMap := bm, intr_handler := (intr_handler ?s1)[32 := Some H_Timer]\<rparr>)"
    using register_driver [OF i1, of "0x20" H_Timer] i(2) by auto
  let ?s2 = "?s1\<lparr>idt := g, IntrVecMap := bm, intr_handler := (intr_handler ?s1)[32 := Some H_Timer], timer := 15\<rparr>"
  have "intr_state (hs(32 := Some H_Timer)) ms ?s2" by (rule intr_state_cong [OF r(2)]) simp_all
  then obtain tr where "EnableIrq 0x20 ?s2 = Ok (?s2\<lparr>mach := (mach ?s2)\<lparr>trace := tr\<rparr>\<rparr>)"
      "intr_state (hs(32 := Some H_Timer)) (insert 0 ms) (?s2\<lparr>mach := (mach ?s2)\<lparr>trace := tr\<rparr>\<rparr>)"
    using enable_line [of _ ms ?s2 "0x20"] d by auto
  then show ?thesis
    using r(1) by (intro exI [of _ g] exI [of _ bm] exI [of _ tr]) (simp add: TimerInit_def kTimerVec_def Let_def kTimerReset_def koutb_def outb_def)
qed

definition boot_handlers_timer :: "nat \<Rightarrow> handler option" where
  "boot_handlers_timer = boot_handlers(32 := Some H_Timer)"

lemma boot_unshared: "\<not> shares_bit boot_handlers v"
  by (auto simp: shares_bit_def boot_handlers_def)

section \<open>The whole start\<close>

definition kernel_running :: "'a ides_scheme \<Rightarrow> u32 \<Rightarrow> bool" where
  "kernel_running s k \<longleftrightarrow> core_ok 5191 16 s \<and> slice_ok s [k] 15 \<and> intr_state boot_handlers_timer {0, 2} s"

lemma kernel_running_cong:
  assumes "kernel_running s k" "con_ok c"
  shows "kernel_running (s\<lparr>console := c\<rparr>) k" "kernel_running (s\<lparr>mach := intr_enable (mach s)\<rparr>) k"
proof -
  let ?a = "s\<lparr>console := c\<rparr>" and ?b = "s\<lparr>mach := intr_enable (mach s)\<rparr>"
  have "core_ok 5191 16 ?a" "core_ok 5191 16 ?b"
    by (rule core_ok_cong [of 5191 16 s]; use assms in \<open>simp add: kernel_running_def core_ok_def dma.truncate_def intr_enable_def\<close>)+
  moreover have "sched ?a [k] = sched s [k]" "sched ?b [k] = sched s [k]" by (rule sched_cong; simp add: intr_enable_def)+
  ultimately show "kernel_running ?a k" "kernel_running ?b k"
    using assms intr_state_cong [of boot_handlers_timer "{0, 2}" s ?a] intr_state_cong [of boot_handlers_timer "{0, 2}" s ?b]
    by (simp_all add: kernel_running_def slice_ok_def intr_enable_def)
qed

lemma drivers_absent:
  assumes up: "kernel_up s k t" and q: "devices_fail (dev (mach s))"
  shows "\<exists>s'. DriverInit lk s = Ok s' \<and> kernel_running s' k"
proof -
  obtain s1 where s1: "IdeInit (ide_buffer lk) (addr_of_RunIde lk) s = Ok (False, s1)" "io_only s s1" using IdeInit_absent q unfolding devices_fail_def by blast
  then obtain tr1 where tr1: "s1 = s\<lparr>mach := (mach s)\<lparr>trace := tr1\<rparr>\<rparr>"
      "\<forall>p\<in>{kMPicData, kSPicData}. last_out p tr1 = last_out p (trace (mach s))"
    by (auto simp: io_only_def)
  have i1: "intr_ready s1" by (rule intr_state_cong [of _ _ s]) (use up tr1 in \<open>simp_all add: kernel_up_def\<close>)
  have d1: "imr_dev (dev (mach s1))" using q io_only_dev [OF s1(2)] by (simp add: devices_fail_def)
  obtain g bm tr2 where t: "TimerInit s1 = Ok (s1\<lparr>idt := g, IntrVecMap := bm, intr_handler := (intr_handler s1)[32 := Some H_Timer], timer := 15,
        mach := (mach s1)\<lparr>trace := tr2\<rparr>\<rparr>)"
      "intr_state boot_handlers_timer {0, 2} (s1\<lparr>idt := g, IntrVecMap := bm, intr_handler := (intr_handler s1)[32 := Some H_Timer], timer := 15,
        mach := (mach s1)\<lparr>trace := tr2\<rparr>\<rparr>)"
    using TimerInit_run [OF i1 boot_unshared d1] unfolding boot_handlers_timer_def by blast
  let ?s2 = "s1\<lparr>idt := g, IntrVecMap := bm, intr_handler := (intr_handler s1)[32 := Some H_Timer], timer := 15, mach := (mach s1)\<lparr>trace := tr2\<rparr>\<rparr>"
  have "devices_fail (dev (mach ?s2))" using q io_only_dev [OF s1(2)] by simp
  then obtain s3 where s3: "KeyboardInit ?s2 = Ok (False, s3)" "io_only ?s2 s3" using KeyboardInit_fails by blast
  then obtain tr3 where tr3: "s3 = s\<lparr>idt := g, IntrVecMap := bm, intr_handler := (intr_handler s)[32 := Some H_Timer], timer := 15, mach := (mach s)\<lparr>trace := tr3\<rparr>\<rparr>"
      "\<forall>p\<in>{kMPicData, kSPicData}. last_out p tr3 = last_out p tr2"
    using tr1(1) by (auto simp: io_only_def)
  have "core_ok 5191 16 s3"
    by (rule core_ok_cong [of 5191 16 s]) (use up tr3(1) in \<open>simp_all add: kernel_up_def core_ok_def dma.truncate_def\<close>)
  moreover have "sched s3 [k] = sched s [k]" using tr3(1) by (intro sched_cong) simp_all
  then have "slice_ok s3 [k] 15" using up tr3(1) by (simp add: slice_ok_def kernel_up_def threads_ready_def core_ok_def)
  moreover have "intr_state boot_handlers_timer {0, 2} s3"
    by (rule intr_state_cong [OF t(2)]) (use tr3 tr1(1) in simp_all)
  moreover have "DriverInit lk s = Ok s3" using s1(1) t(1) s3(1) by (simp add: DriverInit_def)
  ultimately show ?thesis by (auto simp: kernel_running_def)
qed

text \<open>
  The start up to the drivers, whatever these find: \<open>P\<close> is what the drivers establish.  The block at the beginning of
  the direct mapping holds the image of the kernel.
\<close>

lemma kernel_start_core:
  fixes s :: "'a ides_scheme"
  assumes i: "MIN_LOWER_MEM \<le> mem_lower info" "MIN_UPPER_MEM \<le> mem_upper info" "bit (mb_flags info) 6"
    and m: "mmap_of mmap_at (mmap_addr info) es (mmap_addr info + mmap_length info)"
    and b: "boot_ok B (s\<lparr>avl_mem := available es @ [(junk, UINT32_MAX)]\<rparr>)"
  shows "\<exists>s2 k t. kernel_up s2 k t \<and> (kKVirtualAddr, block_order (K_END s)) \<in> held s2 \<and> dev (mach s2) = dev (mach s) \<and> ths.more s2 = ths.more s \<and>
    kernel_start lk mmap_at junk MULTIBOOT_BOOTLOADER_MAGIC info s =
      kbind (DriverInit lk s2) (\<lambda>s. kbind (say ''Complete.'' s) (\<lambda>s. Ok (None, s\<lparr>mach := intr_enable (mach s)\<rparr>)))"
proof -
  obtain c where c: "cls (console s) = Ok c" "con_ok c" using cls_ok by blast
  let ?s0 = "s\<lparr>console := c\<rparr>" and ?s1 = "s\<lparr>console := c, avl_mem := available es @ [(junk, UINT32_MAX)]\<rparr>"
  have av: "SetAvlMem info mmap_at junk ?s0 = Ok ?s1" using mmap_scan_run [OF m, of "[]"] by (simp add: SetAvlMem_def)
  have "boot_ok B ?s1" using b by (auto simp: boot_ok_def pages_ok_def page_used_def tables256_def)
  then obtain s2 k t where s2: "kernel_core lk ?s1 = Ok s2" "kernel_up s2 k t" "(kKVirtualAddr, block_order (K_END s)) \<in> held s2"
      "dev (mach s2) = dev (mach s)" "ths.more s2 = ths.more s"
    using kernel_core_ok [of B ?s1 lk] c(2) by auto
  obtain c3 where c3: "say ''Initialize driver...'' s2 = Ok (s2\<lparr>console := c3\<rparr>)" "kernel_up (s2\<lparr>console := c3\<rparr>) k t"
    using kernel_up_say [OF s2(2), of "''Initialize driver...''"] by auto
  have "held (s2\<lparr>console := c3\<rparr>) = held s2" by (rule held_cong) (simp add: dma.truncate_def)
  then show ?thesis
    using i c(1) av s2 c3
    by (intro exI [of _ "s2\<lparr>console := c3\<rparr>"] exI [of _ k] exI [of _ t]) (simp add: kernel_start_def IsBitSet_bit not_less [symmetric])
qed

lemma kernel_start_run:
  fixes s :: "'a ides_scheme"
  assumes i: "MIN_LOWER_MEM \<le> mem_lower info" "MIN_UPPER_MEM \<le> mem_upper info" "bit (mb_flags info) 6"
    and m: "mmap_of mmap_at (mmap_addr info) es (mmap_addr info + mmap_length info)"
    and b: "boot_ok B (s\<lparr>avl_mem := available es @ [(junk, UINT32_MAX)]\<rparr>)"
    and d: "\<And>(s2 :: 'a ides_scheme) k t. kernel_up s2 k t \<Longrightarrow> (kKVirtualAddr, block_order (K_END s)) \<in> held s2 \<Longrightarrow> dev (mach s2) = dev (mach s) \<Longrightarrow>
      ths.more s2 = ths.more s \<Longrightarrow> \<exists>s3. DriverInit lk s2 = Ok s3 \<and> P s3 k \<and> con_ok (console s3)"
  shows "\<exists>s' k c. kernel_start lk mmap_at junk MULTIBOOT_BOOTLOADER_MAGIC info s =
      Ok (None, s'\<lparr>console := c, mach := intr_enable (mach s')\<rparr>) \<and> P s' k \<and> con_ok c"
proof -
  obtain s2 k t where s2: "kernel_up s2 k t" "(kKVirtualAddr, block_order (K_END s)) \<in> held s2" "dev (mach s2) = dev (mach s)" "ths.more s2 = ths.more s"
      "kernel_start lk mmap_at junk MULTIBOOT_BOOTLOADER_MAGIC info s =
        kbind (DriverInit lk s2) (\<lambda>s. kbind (say ''Complete.'' s) (\<lambda>s. Ok (None, s\<lparr>mach := intr_enable (mach s)\<rparr>)))"
    using kernel_start_core [OF i m b, of lk] by blast
  obtain s4 where s4: "DriverInit lk s2 = Ok s4" "P s4 k" "con_ok (console s4)" using d [OF s2(1-4)] by blast
  obtain c5 where c5: "say ''Complete.'' s4 = Ok (s4\<lparr>console := c5\<rparr>)" "con_ok c5" using say_ok [OF s4(3), of "''Complete.''"] by auto
  show ?thesis unfolding s2(5) using s4(1,2) c5 by auto
qed

lemma kernel_start_bare:
  assumes "MIN_LOWER_MEM \<le> mem_lower info" "MIN_UPPER_MEM \<le> mem_upper info" "bit (mb_flags info) 6"
    and "mmap_of mmap_at (mmap_addr info) es (mmap_addr info + mmap_length info)"
    and "boot_ok B (s\<lparr>avl_mem := available es @ [(junk, UINT32_MAX)]\<rparr>)" "devices_fail (dev (mach s))"
  shows "\<exists>s' k. kernel_start lk mmap_at junk MULTIBOOT_BOOTLOADER_MAGIC info s = Ok (None, s') \<and> kernel_running s' k \<and> bit (eflags (mach s')) 9"
proof -
  have "\<exists>s3. DriverInit lk s2 = Ok s3 \<and> kernel_running s3 k \<and> con_ok (console s3)"
    if "kernel_up s2 k t" "dev (mach s2) = dev (mach s)" for s2 :: "'a ides_scheme" and k t
    using drivers_absent [OF that(1), of lk] that(2) assms(6) unfolding kernel_running_def core_ok_def by auto
  then obtain s' k c where r: "kernel_start lk mmap_at junk MULTIBOOT_BOOTLOADER_MAGIC info s =
      Ok (None, s'\<lparr>console := c, mach := intr_enable (mach s')\<rparr>)" "kernel_running s' k" "con_ok c"
    using kernel_start_run [OF assms(1-5), of lk kernel_running] by blast
  have "kernel_running (s'\<lparr>console := c, mach := intr_enable (mach s')\<rparr>) k"
    using kernel_running_cong(2) [OF kernel_running_cong(1) [OF r(2,3)] r(3)] by simp
  moreover have "bit (eflags (intr_enable (mach s'))) 9" by (simp add: intr_enable_def bit_simps)
  ultimately show ?thesis using r(1) by auto
qed

text \<open>
  C6: the kernel boots.  On a machine without a drive and with a keyboard controller that answers the self test with an error, after whatever time, started by a Multiboot loader with
  enough memory and a memory map that ends where the loader says, \<^verbatim>\<open>kernel_start\<close> returns, for every
  kernel image up to 16 MB and every number of memory regions.  Then one thread runs with a full
  time slice; the allocator invariant holds; the page tables translate exactly the kernel's mapping;
  gates are present exactly for the vectors with a handler, and those are the exceptions 0 to 3, the
  page fault, the timer and the system call; only the timer and the cascade line are let through, and
  interrupts are on.
\<close>

theorem kernel_boots:
  assumes "magic = MULTIBOOT_BOOTLOADER_MAGIC" "MIN_LOWER_MEM \<le> mem_lower info" "MIN_UPPER_MEM \<le> mem_upper info" "bit (mb_flags info) 6"
    and "mmap_of mmap_at (mmap_addr info) es (mmap_addr info + mmap_length info)"
    and "boot_ok B (s\<lparr>avl_mem := available es @ [(junk, UINT32_MAX)]\<rparr>)" "devices_fail (dev (mach s))"
  shows "\<exists>s' k. kernel_start lk mmap_at junk magic info s = Ok (None, s') \<and> slice_ok s' [k] 15 \<and> alloc_ok 5191 s' \<and>
    paging_on s' \<and> (\<forall>v. translate s' v = kernel_map v) \<and> gates_match s' \<and>
    (\<forall>v<256. intr_handler s' ! v = (if v < 4 then Some H_Exc else if v = 14 then Some H_Pf else if v = 32 then Some H_Timer
       else if v = 128 then Some H_Syscall else None)) \<and>
    (\<forall>irq<16. irq_masked s' irq \<longleftrightarrow> irq \<noteq> 2 \<and> irq \<noteq> 0) \<and> bit (eflags (mach s')) 9"
proof -
  obtain s' k where s': "kernel_start lk mmap_at junk magic info s = Ok (None, s')" "kernel_running s' k" "bit (eflags (mach s')) 9"
    using kernel_start_bare [OF assms(2-7), of lk] assms(1) by blast
  then show ?thesis
    by (intro exI [of _ s'] exI [of _ k]) (auto simp: kernel_running_def core_ok_def intr_state_def boot_handlers_timer_def boot_handlers_def)
qed

text \<open>A machine without a drive, whose keyboard controller fails the test at the second read of its status.\<close>

definition fail_dev :: "io list \<Rightarrow> u16 \<Rightarrow> u8" where
  "fail_dev tr p = (if p = kMPicData \<or> p = kSPicData then last_out p tr
     else if p = kPs2StatusReg then (case tr of InB q b # _ \<Rightarrow> if q = kPs2StatusReg then 1 else 0 | _ \<Rightarrow> 0) else 0)"

lemma fail_dev_fails: "devices_fail fail_dev"
proof -
  have "fail_dev (read_hist kPs2StatusReg fail_dev 1 tr) kPs2StatusReg = 1" for tr
    by (simp add: fail_dev_def driver_ports)
  then have "ps2_gives fail_dev tr" "ps2_accepts fail_dev" for tr
    unfolding ps2_gives_def ps2_accepts_def by (intro exI [of _ 1] allI; simp del: read_hist.simps)+
  then show ?thesis by (simp add: devices_fail_def no_drive_def imr_dev_def) (simp add: fail_dev_def driver_ports)
qed

definition start0 :: ides where
  "start0 = ths.extend (boot0\<lparr>mach := mach0\<lparr>dev := fail_dev\<rparr>, avl_mem := []\<rparr>)
     \<lparr>timer = 0, keymap = 0, key_counter = 0, input_buf = replicate kKeyboardBufSize 0, cur = 0,
      block_queue = 0, ib_dev_no = (\<lambda>_. 0), ib_sec_addr = (\<lambda>_. 0), ib_mem_addr = (\<lambda>_. 0), ib_op = (\<lambda>_. False),
      ib_sec_num = (\<lambda>_. 0), ib_req_thread = (\<lambda>_. 0), kSuperBlock = 0\<rparr>"

definition info0 :: multiboot_info where
  "info0 = \<lparr>mb_flags = 0x41, mem_lower = 640, mem_upper = 0x1fc00, mmap_length = 48, mmap_addr = 0x9000\<rparr>"

definition mmap0 :: "u32 \<Rightarrow> multiboot_memory_map" where
  "mmap0 a = (if a = 0x9000 then \<lparr>mm_size = 20, mm_addr = 0, mm_len = 0x9fc00, mm_type = 2\<rparr>
     else \<lparr>mm_size = 20, mm_addr = 0x100000, mm_len = 0x7f00000, mm_type = 1\<rparr>)"

definition links0 :: links where
  "links0 = \<lparr>addr_of_GdtLimit = 0xc0101234, ide_buffer = 0xb800, addr_of_RunIde = 0xc0105678\<rparr>"

lemma start0_boot_ok: "boot_ok 0x8000 (start0\<lparr>avl_mem := [(0x100000, 0x7f00000)] @ [(0, UINT32_MAX)]\<rparr>)"
proof -
  let ?s = "start0\<lparr>avl_mem := [(0x100000, 0x7f00000)] @ [(0, UINT32_MAX)]\<rparr>"
  have "pages_ok ?s" "\<forall>i<0x100000. \<not> page_used ?s i"
    using boot0_pages by (simp_all add: start0_def ths.extend_def pages_ok_def page_used_def)
  moreover have "tables256 ?s" "\<forall>v<256. intr_handler ?s ! v = None"
    using boot0_ints by (simp_all add: start0_def ths.extend_def tables256_def)
  ultimately show ?thesis
    using boot0_dma boot0_avl(2) by (auto simp: boot_ok_def start0_def ths.extend_def)
qed

theorem kernel_boots_witness:
  "\<exists>s' k. kernel_start links0 mmap0 0 MULTIBOOT_BOOTLOADER_MAGIC info0 start0 = Ok (None, s') \<and> slice_ok s' [k] 15 \<and>
     intr_handler s' ! 32 = Some H_Timer"
proof -
  let ?es = "[mmap0 0x9000, mmap0 0x9018]"
  have es: "available ?es @ [(0, UINT32_MAX)] = [(0x100000, 0x7f00000)] @ [(0, UINT32_MAX)]"
    by (simp add: available_def mmap0_def MULTIBOOT_MEMORY_AVAILABLE_def)
  have m: "mmap_of mmap0 (mmap_addr info0) ?es (mmap_addr info0 + mmap_length info0)" by (simp add: mmap0_def info0_def)
  have i: "MIN_LOWER_MEM \<le> mem_lower info0" "MIN_UPPER_MEM \<le> mem_upper info0" "bit (mb_flags info0) 6"
    by (simp_all add: info0_def MIN_LOWER_MEM_def MIN_UPPER_MEM_def)
  have "devices_fail (dev (mach start0))" using fail_dev_fails by (simp add: start0_def ths.extend_def)
  moreover have "boot_ok 0x8000 (start0\<lparr>avl_mem := available ?es @ [(0, UINT32_MAX)]\<rparr>)" unfolding es by (rule start0_boot_ok)
  ultimately obtain s' k where s': "kernel_start links0 mmap0 0 MULTIBOOT_BOOTLOADER_MAGIC info0 start0 = Ok (None, s')" "slice_ok s' [k] 15"
      "\<forall>v<256. intr_handler s' ! v = (if v < 4 then Some H_Exc else if v = 14 then Some H_Pf else if v = 32 then Some H_Timer
       else if v = 128 then Some H_Syscall else None)"
    using kernel_boots [OF refl i m, where s = start0 and junk = 0 and lk = links0] by blast
  from s'(3) have "intr_handler s' ! 32 = Some H_Timer" by simp
  with s'(1,2) show ?thesis by blast
qed

section \<open>Starts that do not succeed\<close>

text \<open>
  Without a keyboard at a working controller the start never ends: \<^verbatim>\<open>KeyboardInit\<close> waits for the answer to the reset, with the call of \<^verbatim>\<open>Read\<close>
  that its comment says to avoid.
\<close>

theorem no_keyboard_no_boot:
  assumes "MIN_LOWER_MEM \<le> mem_lower info" "MIN_UPPER_MEM \<le> mem_upper info" "bit (mb_flags info) 6"
    and "mmap_of mmap_at (mmap_addr info) es (mmap_addr info + mmap_length info)"
    and "boot_ok B (s\<lparr>avl_mem := available es @ [(junk, UINT32_MAX)]\<rparr>)" "no_keyboard (dev (mach s))"
  shows "kernel_start lk mmap_at junk MULTIBOOT_BOOTLOADER_MAGIC info s = None"
proof -
  obtain s2 k t where s2: "kernel_up s2 k t" "dev (mach s2) = dev (mach s)"
      "kernel_start lk mmap_at junk MULTIBOOT_BOOTLOADER_MAGIC info s =
        kbind (DriverInit lk s2) (\<lambda>s. kbind (say ''Complete.'' s) (\<lambda>s. Ok (None, s\<lparr>mach := intr_enable (mach s)\<rparr>)))"
    using kernel_start_core [OF assms(1-5), of lk] by blast
  have n: "no_keyboard (dev (mach s2))" using assms(6) s2(2) by simp
  obtain s3 where s3: "IdeInit (ide_buffer lk) (addr_of_RunIde lk) s2 = Ok (False, s3)" "io_only s2 s3"
    using IdeInit_absent n unfolding no_keyboard_def by blast
  have "intr_ready s3" by (rule intr_state_cong [of _ _ s2]) (use s2(1) s3(2) in \<open>auto simp: kernel_up_def io_only_def\<close>)
  moreover have "imr_dev (dev (mach s3))" using n io_only_dev [OF s3(2)] by (simp add: no_keyboard_def)
  ultimately obtain g bm tr where t: "TimerInit s3 = Ok (s3\<lparr>idt := g, IntrVecMap := bm, intr_handler := (intr_handler s3)[32 := Some H_Timer], timer := 15,
      mach := (mach s3)\<lparr>trace := tr\<rparr>\<rparr>)"
    using TimerInit_run [OF _ boot_unshared, of "{2}" s3] by blast
  have "KeyboardInit (s3\<lparr>idt := g, IntrVecMap := bm, intr_handler := (intr_handler s3)[32 := Some H_Timer], timer := 15,
      mach := (mach s3)\<lparr>trace := tr\<rparr>\<rparr>) = None"
    using n io_only_dev [OF s3(2)] by (intro KeyboardInit_waits) simp
  then have "DriverInit lk s2 = None" using s3(1) t by (simp add: DriverInit_def)
  then show ?thesis using s2(3) by simp
qed

text \<open>With a wrong magic number or too little memory nothing but the screen changes.\<close>

lemma kernel_refuses:
  assumes "magic \<noteq> MULTIBOOT_BOOTLOADER_MAGIC \<or> bit (mb_flags info) 0 \<and> (mem_lower info < MIN_LOWER_MEM \<or> mem_upper info < MIN_UPPER_MEM)"
  shows "\<exists>c. kernel_start lk mmap_at junk magic info s = Ok (Some (-1), s\<lparr>console := c\<rparr>) \<and>
    (if magic \<noteq> MULTIBOOT_BOOTLOADER_MAGIC then kbind (cls (console s)) (printf (''Invalid magic number: 0x%x'' @ [CHR 0x0A]) [PInt magic])
     else cls (console s)) = Ok c"
proof -
  obtain c where c: "cls (console s) = Ok c" "con_ok c" using cls_ok by blast
  have f: "fmt_ok (''Invalid magic number: 0x%x'' @ [CHR 0x0A]) [PInt magic]" by (simp add: is_digit_def arg_ok_def)
  obtain c' where c': "printf (''Invalid magic number: 0x%x'' @ [CHR 0x0A]) [PInt magic] c = Ok c'"
    using kprintf_ok [OF _ f, of "s\<lparr>console := c\<rparr>"] c(2) by (auto simp: kprintf_eq_Ok)
  show ?thesis
  proof (cases "magic = MULTIBOOT_BOOTLOADER_MAGIC")
    case True
    then show ?thesis using assms c by (auto simp: kernel_start_def IsBitSet_bit)
  next
    case False
    then show ?thesis using c c' by (auto simp: kernel_start_def kprintf_def)
  qed
qed

end
