(* ===== verification/ThreadProps.thy ===== *)
theory ThreadProps
  imports BootProps
begin

text \<open>
  Starting a kernel thread after the kernel has come up: \<^verbatim>\<open>CreateThread\<close> followed by \<^verbatim>\<open>KThreadRun\<close>, as the disk driver does it.
\<close>

section \<open>The memory of a new thread\<close>

text \<open>
  \<open>fresh_thread s k t nt st\<close>: \<open>nt\<close> is the last thread of the pool \<open>t\<close>, and \<open>st\<close> a block for its stack, apart from everything else
  in use; the kernel image covers the stack of the first thread.
\<close>

definition fresh_thread :: "'a ths_scheme \<Rightarrow> u32 \<Rightarrow> u32 \<Rightarrow> u32 \<Rightarrow> u32 \<Rightarrow> bool" where
  "fresh_thread s k t nt st \<longleftrightarrow> nt = t + 3048 \<and>
     (\<exists>n w. alloc_ok n s \<and> 16 \<le> w \<and> {(k, 5), (q_head s (wait_thread_queue s), 2), (free_thread_list s, 2), (t, 12), (k_pcb s, 6),
        (kKVirtualAddr, w), (st, 12)} \<subseteq> held s \<and> st \<noteq> t)"

lemma pool_first: "pool_node t 127 = t + 3064"
  by (simp add: pool_node_eq)

lemma fresh_thread_neq:
  assumes "fresh_thread s k t nt st"
  shows "nt \<noteq> 0" "nt + 16 \<noteq> 0" "k \<noteq> nt" "nt + 16 \<noteq> q_head s (wait_thread_queue s)" "nt + 16 \<noteq> k + 16" "nt + 16 \<noteq> free_thread_list s"
    "unat d < 64 \<Longrightarrow> nt + 16 \<noteq> k_pcb s + d" "unat d < 64 \<Longrightarrow> k_pcb s + d \<noteq> 0"
    "unat d < 64 \<Longrightarrow> k_pcb s + d \<noteq> q_head s (wait_thread_queue s)" "unat d < 64 \<Longrightarrow> k_pcb s + d \<noteq> free_thread_list s"
    "unat d < 64 \<Longrightarrow> k_pcb s + d \<noteq> k + 16" "k + 16 \<noteq> q_head s (wait_thread_queue s)"
proof -
  obtain n w where f: "nt = t + 3048" "alloc_ok n s" "(k, 5) \<in> held s" "(q_head s (wait_thread_queue s), 2) \<in> held s"
      "(free_thread_list s, 2) \<in> held s" "(t, 12) \<in> held s" "(k_pcb s, 6) \<in> held s"
    using assms by (auto simp: fresh_thread_def)
  note ne = held_neq [OF f(2)] and nz = block_word(3) [OF held_arena [OF f(2)]]
  have u: "unat (3048 :: u32) < 2 ^ 12" "unat (3064 :: u32) < 2 ^ 12" and e: "t + 3048 + 16 = t + 3064" by simp_all
  show "nt \<noteq> 0" "nt + 16 \<noteq> 0" using nz [OF f(6) u(1)] nz [OF f(6) u(2)] unfolding f(1) e .
  show "k \<noteq> nt" "nt + 16 \<noteq> k + 16" using ne [OF f(3,6) _ _ u(1), of 0] f(1) by auto
  show "nt + 16 \<noteq> q_head s (wait_thread_queue s)" "nt + 16 \<noteq> free_thread_list s"
    using ne [OF f(6,4) _ u(2), of 0] ne [OF f(6,5) _ u(2), of 0] unfolding f(1) e by simp_all
  show "k + 16 \<noteq> q_head s (wait_thread_queue s)" using ne [OF f(3,4), of 16 0] by simp
  show "unat d < 64 \<Longrightarrow> nt + 16 \<noteq> k_pcb s + d" using ne [OF f(6,7) _ u(2), of d] unfolding f(1) e by simp
  show "unat d < 64 \<Longrightarrow> k_pcb s + d \<noteq> 0" using nz [OF f(7), of d] by simp
  show "unat d < 64 \<Longrightarrow> k_pcb s + d \<noteq> q_head s (wait_thread_queue s)" using ne [OF f(7,4), of d 0] by simp
  show "unat d < 64 \<Longrightarrow> k_pcb s + d \<noteq> free_thread_list s" using ne [OF f(7,5), of d 0] by simp
  show "unat d < 64 \<Longrightarrow> k_pcb s + d \<noteq> k + 16" using ne [OF f(7,3), of d 16] by simp
qed

text \<open>The words of the stack, as virtual and as physical addresses.\<close>

lemma fresh_stack:
  assumes "fresh_thread s k t nt st"
  shows "unat d < 0x1000 \<Longrightarrow> unat (d + st) \<in> arena" "unat d < 0x1000 \<Longrightarrow> d + st - kKVirtualAddr \<noteq> 0xbbfc"
proof -
  obtain n w where f: "alloc_ok n s" "(kKVirtualAddr, w) \<in> held s" "16 \<le> w" "(st, 12) \<in> held s" "(t, 12) \<in> held s" "st \<noteq> t"
    using assms by (auto simp: fresh_thread_def)
  show "unat d < 0x1000 \<Longrightarrow> unat (d + st) \<in> arena"
    using block_word(2) [OF held_arena [OF f(1,4)], of d] by (simp add: add.commute)
  have "(2 :: nat) ^ 16 \<le> 2 ^ w" using f(3) by (intro power_increasing) simp_all
  then have "unat (0xbbfc :: u32) < 2 ^ w" by simp
  moreover have "(st, 12) \<noteq> (kKVirtualAddr, w)" using f(3) by auto
  ultimately have "st + d \<noteq> kKVirtualAddr + 0xbbfc" if "unat d < 0x1000"
    using held_neq [OF f(1,4,2), of d "0xbbfc"] that by auto
  then show "unat d < 0x1000 \<Longrightarrow> d + st - kKVirtualAddr \<noteq> 0xbbfc" by (auto simp: diff_eq_eq add.commute)
qed

text \<open>
  \<open>thread_base n u s k t\<close>: what starting a thread needs: memory for \<open>n\<close> further requests afterwards, the running thread \<open>k\<close>, the free threads of the
  block \<open>t\<close>, and the kernel's process without other threads.
\<close>

definition thread_base :: "nat \<Rightarrow> nat \<Rightarrow> 'a ths_scheme \<Rightarrow> u32 \<Rightarrow> u32 \<Rightarrow> bool" where
  "thread_base n u s k t \<longleftrightarrow> core_ok (Suc n) (Suc u) s \<and> 12 \<le> u \<and> threads_ready s k t \<and>
     nxt s (k_pcb s) = 0 \<and> nxt s (k_pcb s + 44) = k_pcb s + 44"

text \<open>The first half: a thread and a stack are taken.\<close>

lemma take_thread:
  assumes up: "thread_base n u s k t" and im: "(kKVirtualAddr, w) \<in> held s" "16 \<le> w"
  shows "\<exists>nt st s1. alloc_ok n s1 \<and> room u s1 \<and> held s \<subseteq> held s1 \<and>
    (\<forall>p. unat p \<in> arena \<and> p \<noteq> free_thread_list s \<and> p \<noteq> nt + 16 \<longrightarrow> nxt s1 p = nxt s p) \<and> ReqBytes 0x1000 (s\<lparr>nxt := (nxt s)(free_thread_list s := nxt s (nt + 16), nt + 16 := 0)\<rparr>) = Ok (st, s1) \<and>
    fresh_thread s1 k t nt st \<and> kheap.more s1 = kheap.more s \<and> q_head s1 = q_head s \<and> q_tail s1 = q_tail s \<and>
    nxt s (free_thread_list s) = nt + 16 \<and> nxt s1 (q_head s (wait_thread_queue s)) = q_head s (wait_thread_queue s) \<and>
    nxt s1 (k_pcb s) = 0 \<and> nxt s1 (k_pcb s + 44) = k_pcb s + 44"
proof -
  let ?l = "free_thread_list s" and ?qh = "q_head s (wait_thread_queue s)" and ?nt = "t + 3048"
  have tr: "threads_ready s k t" and a: "alloc_ok (Suc n) s" "room (Suc u) s" "12 \<le> u"
      and pid: "nxt s (k_pcb s) = 0" "nxt s (k_pcb s + 44) = k_pcb s + 44"
    using up by (auto simp: thread_base_def core_ok_def)
  have hs: "{(k, 5), (?qh, 2), (?l, 2), (t, 12), (k_pcb s, 6)} \<subseteq> held s" using tr by (auto simp: threads_ready_def)
  have cl: "clist (nxt s) ?l (rev (map (pool_node t) [0..<128]))" and sc: "sched s [k]"
    using tr by (auto simp: threads_ready_def free_threads_def)
  have "rev (map (pool_node t) [0..<128]) = pool_node t 127 # rev (map (pool_node t) [0..<127])" by (simp add: upt_Suc_append [of 0 127, simplified])
  then have nl: "nxt s ?l = ?nt + 16" using cl clist_first [of "nxt s" ?l] by (simp add: pool_first)
  have nq: "nxt s ?qh = ?qh" using sc by (simp add: sched_defs queues_def lists_ok_def clist_Nil)
  let ?s = "s\<lparr>nxt := (nxt s)(?l := nxt s (?nt + 16), ?nt + 16 := 0)\<rparr>"
  have ft: "fresh_thread s k t ?nt st" if "st \<noteq> t" "(st, 12) \<in> held s" for st
    using that hs im a(1) by (auto simp: fresh_thread_def)
  note ne = held_neq [OF a(1)]
  have e: "?nt + 16 = t + 3064" and u: "unat (3064 :: u32) < 2 ^ 12" by simp_all
  have ar: "unat ?l \<in> arena" "unat (?nt + 16) \<in> arena"
    using block_word(2) [OF held_arena [OF a(1)], of ?l 2 0] block_word(2) [OF held_arena [OF a(1)] u, of t] hs unfolding e by auto
  define h where "h = (nxt s)(?l := nxt s (?nt + 16), ?nt + 16 := 0)"
  have out: "h x = nxt s x" if "unat x \<notin> arena" for x using that ar by (auto simp: h_def)
  have "alloc_ok (Suc n) (s\<lparr>nxt := h\<rparr>)" "held (s\<lparr>nxt := h\<rparr>) = held s" "room (Suc u) (s\<lparr>nxt := h\<rparr>)"
    using alloc_heap [OF a(1) out] a(2) by simp_all
  then have al: "alloc_ok (Suc n) ?s" "held ?s = held s" "room (Suc u) ?s" unfolding h_def by blast+
  have bo: "block_order 0x1000 = 12" using block_order_Suc [of "0x1000" 11] by simp
  obtain st s1 where r: "ReqBytes 0x1000 ?s = Ok (st, s1)" "st \<noteq> 0" "alloc_ok n s1" "held s1 = insert (st, 12) (held s)"
      "granted (held s) 0x1000 st" "dma.more s1 = dma.more ?s" "\<forall>p. unat p \<in> arena \<longrightarrow> nxt s1 p = nxt ?s p" "room u s1"
    using req_room [OF al(1,3), of "0x1000"] al(2) bo a(3) by auto
  have st: "st \<noteq> t" using granted_neq [OF r(5), of t 12 0 0] held_arena [OF a(1), of t 12] hs bo by auto
  have m: "kheap.more s1 = kheap.more s" "q_head s1 = q_head s" "q_tail s1 = q_tail s" "wait_thread_queue s1 = wait_thread_queue s"
      "free_thread_list s1 = ?l" "k_pcb s1 = k_pcb s"
    using r(6) by (cases s; cases s1; simp)+
  have f1: "fresh_thread s1 k t ?nt st" unfolding fresh_thread_def using hs im r(3,4) m st by auto
  note n = fresh_thread_neq [OF f1, unfolded m]
  have lq: "?l \<noteq> ?qh" using nl nq n(4) by auto
  have pa: "unat ?qh \<in> arena" "unat (k_pcb s + d) \<in> arena" if "unat d < 64" for d
    using block_word(2) [OF held_arena [OF a(1)], of ?qh 2 0] block_word(2) [OF held_arena [OF a(1)], of "k_pcb s" 6 d] hs that by auto
  have "nxt s1 ?qh = ?qh" using r(7) pa(1) [of 0] lq n(4) nq by (auto simp del: add.commute)
  moreover have "nxt s1 (k_pcb s + d) = nxt s (k_pcb s + d)" if "unat d < 64" for d
    using r(7) pa(2) [OF that] n(7) [OF that] n(10) [OF that] by auto
  from this [of 0] this [of 44] have "nxt s1 (k_pcb s) = 0" "nxt s1 (k_pcb s + 44) = k_pcb s + 44" using pid by simp_all
  moreover have "\<forall>p. unat p \<in> arena \<and> p \<noteq> ?l \<and> p \<noteq> ?nt + 16 \<longrightarrow> nxt s1 p = nxt s p" using r(7) by simp
  moreover have "held s \<subseteq> held s1" using r(4) by blast
  ultimately show ?thesis using r(1,3,8) f1 m(1-3) nl by blast
qed

section \<open>Running it\<close>

text \<open>The state after both calls, and why it is a state of the scheduler with two threads.\<close>

lemma started_sched:
  assumes f: "fresh_thread s1 k t nt st" and on: "paging_on s1" and sc: "sched s [k]"
    and sel: "kheap.more s1 = kheap.more s" "q_head s1 = q_head s" "th_pcb s k = k_pcb s" "th_stack_addr s k = kMainStackAddr"
    and q: "wait_thread_queue s = q" "q_head s q = qh" "nxt s1 qh = qh"
  shows "sched (ready_thread nt st fn q qh (made_thread nt (k_pcb s) st s1)) [k, nt]" (is "sched ?s [k, nt]")
proof -
  have m: "wait_thread_queue s1 = q" "k_pcb s1 = k_pcb s" "th_pcb s1 = th_pcb s" "th_stack_addr s1 = th_stack_addr s" "mach s1 = mach s"
      "tss_esp0 s1 = tss_esp0 s" "paging_on s1 = paging_on s"
    using sel(1) q(1) by (cases s; cases s1; simp add: paging_on_def)+
  note n = fresh_thread_neq [OF f, unfolded m sel(2) q(2)]
  have k: "k \<noteq> 0" "th_node k \<noteq> 0" "rdw (0xbbfc) s = Ok k" "q \<noteq> 0" "qh \<noteq> 0" "tss_esp0 s = 0xbbfc"
    using sc sel(4) q(1,2) by (auto simp: sched_defs thread_ok_def kMainStackAddr_def queues_def lists_ok_def clist_def path_def)
  have "lin 0xbbfc s = Ok 0xbbfc" by (simp add: lin_def)
  then have wk: "wmem (mach s) 0xbbfc = k" using k(3) by (simp add: rdw_def)
  have ar: "lin (d + st) ?s = Ok (d + st - kKVirtualAddr)" if "unat d < 0x1000" for d
    using fresh_stack(1) [OF f that] on
    by (auto simp: lin_def paging_on_def ready_thread_def made_thread_def arena_def kKVirtualAddr_def kDirectMappingSize_def u32_less_iff_unat u32_le_iff_unat)
  have lk: "lin 0xbbfc ?s = Ok 0xbbfc" by (simp add: lin_def)
  have st: "0xffb + st - kKVirtualAddr \<noteq> 0xbbfc" "0xff7 + st - kKVirtualAddr \<noteq> 0xbbfc" "0xfe7 + st - kKVirtualAddr \<noteq> 0xbbfc"
      "0xfeb + st - kKVirtualAddr \<noteq> 0xbbfc" "0xfef + st - kKVirtualAddr \<noteq> 0xbbfc" "0xff3 + st - kKVirtualAddr \<noteq> 0xbbfc"
    by (rule fresh_stack(2) [OF f]; simp)+
  have e: "st + 0xffb = 0xffb + st" "st + 0xfff = 0xfff + st" "0xfff + st - 4 = 0xffb + st" by (simp_all add: algebra_simps)
  have w: "wmem (mach ?s) 0xbbfc = k" "wmem (mach ?s) (0xffb + st - kKVirtualAddr) = nt"
    using wk m(5) st by (simp_all add: ready_thread_def made_thread_def e)
  have "thread_ok ?s k"
    using k(1,2) lk w(1) n(3) sel(3,4) m n(8) [of 0] by (simp add: thread_ok_def rdw_def ready_thread_def made_thread_def kMainStackAddr_def)
  moreover have "th_stack_addr ?s nt - 4 = 0xffb + st" "th_pcb ?s nt = k_pcb s" by (simp_all add: ready_thread_def made_thread_def e)
  then have "thread_ok ?s nt"
    using n(1,2) ar [of "0xffb"] w(2) n(8) [of 0] by (simp add: thread_ok_def rdw_def th_node_def)
  moreover have "queues ?s {q} (\<lambda>_. [nt + 16])"
    using k(4,5) n(2,4) n(9) [of 44] q m(1) sel(2)
    by (simp add: queues_def lists_ok_def clist_def nodes_def ready_thread_def made_thread_def)
  moreover have "unlinked ?s {q} (\<lambda>_. [nt + 16]) (k + 16)"
    using k(2) n(5,12) q sel(2) by (simp add: unlinked_def nodes_def ready_thread_def made_thread_def th_node_def)
  moreover have "pcbs_ok ?s [k, nt]"
    using n(3) n(7) [of 0] n(9) [of 0] n(11) [of 0] n(7) [of 4] n(9) [of 4] n(11) [of 4] n(7) [of 8] n(9) [of 8] n(11) [of 8] q m sel(2,3)
    by (auto simp: pcbs_ok_def sched_nodes_def ready_thread_def made_thread_def th_node_def)
  moreover have "tss_esp0 ?s = th_stack_addr ?s k - 4" "wait_thread_queue ?s = q"
    using k(6) m sel(4) n(3) q(1) by (simp_all add: ready_thread_def made_thread_def kMainStackAddr_def)
  moreover have "th_pcb ?s nt = th_pcb ?s k" using m sel(3) n(3) by (simp add: ready_thread_def made_thread_def)
  ultimately show ?thesis by (simp add: sched_defs one_pcb_def th_node_def)
qed

text \<open>The frame on the stack of the new thread, as the register switch expects it.\<close>

lemma start_frame:
  assumes f: "fresh_thread s1 k t nt st" and on: "paging_on s1" and s: "s = ready_thread nt st fn q qh (made_thread nt p st s1)"
  shows "rdw (th_esp s nt + 16) s = Ok fn" "\<forall>i<4. rdw (th_esp s nt + 4 * of_nat i) s = Ok 0"
proof -
  have lin: "lin (d + st) s = Ok (d + st - kKVirtualAddr)" if "unat d < 0x1000" for d
    using fresh_stack(1) [OF f that] on
    by (auto simp: s lin_def paging_on_def ready_thread_def made_thread_def arena_def kKVirtualAddr_def kDirectMappingSize_def u32_less_iff_unat u32_le_iff_unat)
  have wm: "wmem (mach s) (0xff7 + st - kKVirtualAddr) = fn" "wmem (mach s) (0xfe7 + st - kKVirtualAddr) = 0"
      "wmem (mach s) (0xfeb + st - kKVirtualAddr) = 0" "wmem (mach s) (0xfef + st - kKVirtualAddr) = 0"
      "wmem (mach s) (0xff3 + st - kKVirtualAddr) = 0"
    by (simp_all add: s ready_thread_def)
  have "rdw (0xff7 + st) s = Ok fn" "rdw (0xfe7 + st) s = Ok 0" "rdw (0xfeb + st) s = Ok 0" "rdw (0xfef + st) s = Ok 0" "rdw (0xff3 + st) s = Ok 0"
    using wm lin [of "0xff7"] lin [of "0xfe7"] lin [of "0xfeb"] lin [of "0xfef"] lin [of "0xff3"] by (simp_all add: rdw_def)
  moreover have "0xfe7 + st + 16 = 0xff7 + st" "0xfe7 + st + 4 = 0xfeb + st" "0xfe7 + st + 8 = 0xfef + st" "0xfe7 + st + 12 = 0xff3 + st"
    by simp_all
  moreover have "th_esp s nt = 0xfe7 + st" by (simp add: s ready_thread_def)
  ultimately show "rdw (th_esp s nt + 16) s = Ok fn" "\<forall>i<4. rdw (th_esp s nt + 4 * of_nat i) s = Ok 0"
    by (auto simp: less_Suc_eq eval_nat_numeral)
qed

lemma paging_on_kheap: "kheap.more s1 = kheap.more s \<Longrightarrow> paging_on s1 = paging_on s"
  by (cases s; cases s1) (simp add: paging_on_def)

text \<open>What else the two calls change: words of the new thread, of the process and of the queue, all outside the allocator's own memory.\<close>

lemma ready_frame:
  assumes f: "fresh_thread s1 k t nt st" and a: "alloc_ok n s1" "room u s1" and co: "core_ok n' u' s" and km: "kheap.more s1 = kheap.more s"
    and q: "q_head s1 (wait_thread_queue s1) = qh" and s2: "s2 = ready_thread nt st fn q qh (made_thread nt (k_pcb s1) st s1)"
  shows "core_ok n u s2" "held s2 = held s1" "kview s2 = kview s"
    "(c, v) \<in> held s1 \<Longrightarrow> unat e < 2 ^ v \<Longrightarrow> (c, v) \<notin> {(t, 12), (k_pcb s1, 6), (qh, 2)} \<Longrightarrow> nxt s2 (c + e) = nxt s1 (c + e)"
proof -
  have nt: "nt + 16 = t + 3064" and hs: "(t, 12) \<in> held s1" "(k_pcb s1, 6) \<in> held s1" "(qh, 2) \<in> held s1"
    using f q by (auto simp: fresh_thread_def)
  note w = block_word(2) [OF held_arena [OF a(1)]]
  have ar: "unat (nt + 16) \<in> arena" "unat (k_pcb s1 + 44) \<in> arena" "unat qh \<in> arena"
    using w [OF hs(1), of 3064] w [OF hs(2), of 44] w [OF hs(3), of 0] unfolding nt by simp_all
  have out: "nxt s2 x = nxt s1 x" if "x \<noteq> nt + 16" "x \<noteq> k_pcb s1 + 44" "x \<noteq> qh" for x
    using that by (simp add: s2 ready_thread_def made_thread_def)
  then have "nxt s2 x = nxt s1 x" if "unat x \<notin> arena" for x using that ar by metis
  note h = alloc_heap [OF a(1) this]
  have "dma.truncate s2 = dma.truncate (s1\<lparr>nxt := nxt s2\<rparr>)"
    by (simp add: s2 ready_thread_def made_thread_def dma.truncate_def)
  note d = alloc_ok_cong [OF this] held_cong [OF this] room_cong [OF this]
  show hd: "held s2 = held s1" using d(2) h(2) by simp
  show kv: "kview s2 = kview s" using kview_more [OF km] by (simp add: s2 ready_thread_def made_thread_def kview_def)
  have "alloc_ok n s2" "room u s2" using d(1,3) h(1,3) a(2) by simp_all
  moreover have "translate s2 x = translate s x" for x by (rule translate_cong) (use kv in \<open>simp_all add: kview_def\<close>)
  ultimately show "core_ok n u s2" using co kv by (simp add: core_ok_def paging_on_def kview_def)
  show "nxt s2 (c + e) = nxt s1 (c + e)" if x: "(c, v) \<in> held s1" "unat e < 2 ^ v" "(c, v) \<notin> {(t, 12), (k_pcb s1, 6), (qh, 2)}"
  proof (rule out)
    note ne = held_neq [OF a(1) x(1)]
    show "c + e \<noteq> nt + 16" using ne [OF hs(1) _ x(2), of 3064] x(3) nt by auto
    show "c + e \<noteq> k_pcb s1 + 44" using ne [OF hs(2) _ x(2), of 44] x(3) by auto
    show "c + e \<noteq> qh" using ne [OF hs(3) _ x(2), of 0] x(3) by auto
  qed
qed

lemma start_thread_run:
  assumes up: "thread_base n u s k t" and im: "(kKVirtualAddr, w) \<in> held s" "16 \<le> w" and q: "wait_thread_queue s = q" "q_head s q = qh"
  shows "\<exists>nt st s1 m s2. CreateThread (k_pcb s) s = Ok (nt, m) \<and> KThreadRun nt fn m = Ok s2 \<and> sched s2 [k, nt] \<and>
    m = made_thread nt (k_pcb s) st s1 \<and> s2 = ready_thread nt st fn q qh m \<and> fresh_thread s1 k t nt st \<and>
    alloc_ok n s1 \<and> room u s1 \<and> held s \<subseteq> held s1 \<and> kheap.more s1 = kheap.more s \<and> q_head s1 = q_head s \<and> q_tail s1 = q_tail s \<and>
    nxt s1 qh = qh \<and> (\<forall>p. unat p \<in> arena \<and> p \<noteq> free_thread_list s \<and> p \<noteq> nt + 16 \<longrightarrow> nxt s1 p = nxt s p)"
proof -
  let ?l = "free_thread_list s" and ?p = "k_pcb s"
  have tr: "threads_ready s k t" and on: "paging_on s" using up unfolding thread_base_def core_ok_def by blast+
  have sc: "sched s [k]" "th_pcb s k = ?p" "th_stack_addr s k = kMainStackAddr" and l0: "?l \<noteq> 0"
    using tr by (auto simp: threads_ready_def free_threads_def clist_def)
  have qs: "q \<noteq> 0" "q_tail s q = qh" "qh \<noteq> 0" using sc(1) q by (auto simp: sched_defs queues_def lists_ok_def clist_def)
  obtain nt st s1 where t: "ReqBytes 0x1000 (s\<lparr>nxt := (nxt s)(?l := nxt s (nt + 16), nt + 16 := 0)\<rparr>) = Ok (st, s1)"
      "fresh_thread s1 k t nt st" "kheap.more s1 = kheap.more s" "q_head s1 = q_head s" "q_tail s1 = q_tail s" "nxt s ?l = nt + 16"
      "nxt s1 qh = qh" "nxt s1 ?p = 0" "nxt s1 (?p + 44) = ?p + 44" "alloc_ok n s1" "room u s1" "held s \<subseteq> held s1"
      "\<forall>p. unat p \<in> arena \<and> p \<noteq> ?l \<and> p \<noteq> nt + 16 \<longrightarrow> nxt s1 p = nxt s p"
    using take_thread [OF up im] q by blast
  have m: "wait_thread_queue s1 = q" "k_pcb s1 = ?p" "free_thread_list s1 = ?l" using t(3) q(1) by (cases s; cases s1; simp)+
  note n = fresh_thread_neq [OF t(2), unfolded m t(4) q(2)] and fs = fresh_stack [OF t(2)]
  have on1: "paging_on s1" using on paging_on_kheap [OF t(3)] by simp
  let ?m = "made_thread nt ?p st s1"
  have st: "st + 0xffb = 0xffb + st" by simp
  have "unat (0xffb + st) \<in> arena" by (rule fs(1)) simp
  then have c: "CreateThread ?p s = Ok (nt, ?m)"
    using CreateThread_run [OF l0 refl t(6) n(6) n(1,2) t(1) on1, of ?p] n(7) [of 44] n(8) [of 0] n(8) [of 44] st by auto
  have mm: "th_pcb ?m nt = ?p" "nxt ?m ?p = 0" "th_esp ?m nt = 0xffb + st" "paging_on ?m" "wait_thread_queue ?m = q" "q_tail ?m q = qh"
    using t(5,8) n(7) [of 0] m(1) qs(2) on1 st by (simp_all add: made_thread_def paging_on_def)
  have k: "KThreadRun nt fn ?m = Ok (ready_thread nt st fn q qh ?m)"
    using KThreadRun_run [OF n(1) mm(1) _ mm(2-4) fs(1) mm(5) qs(1) mm(6) qs(3) n(2,4)] n(8) [of 0] by simp
  have "sched (ready_thread nt st fn q qh ?m) [k, nt]" by (rule started_sched [OF t(2) on1 sc(1) t(3,4) sc(2,3) q t(7)])
  then show ?thesis using c k t(2-5,7,10-13) by blast
qed

lemma start_thread:
  assumes up: "thread_base n u s k t" and im: "(kKVirtualAddr, w) \<in> held s" "16 \<le> w"
  shows "\<exists>nt s1 s2. CreateThread (k_pcb s) s = Ok (nt, s1) \<and> KThreadRun nt fn s1 = Ok s2 \<and> sched s2 [k, nt] \<and> th_pcb s2 nt = k_pcb s \<and>
    rdw (th_esp s2 nt + 16) s2 = Ok fn \<and> (\<forall>i<4. rdw (th_esp s2 nt + 4 * of_nat i) s2 = Ok 0) \<and>
    nxt s2 (pcb_thread_list (k_pcb s)) = th_node nt \<and> nxt s2 (th_node nt) = q_head s2 (wait_thread_queue s2) \<and>
    core_ok n u s2 \<and> held s \<subseteq> held s2 \<and> q_head s2 = q_head s \<and> q_tail s2 = (q_tail s)(wait_thread_queue s := th_node nt) \<and>
    kview s2 = kview s \<and> wait_thread_queue s2 = wait_thread_queue s \<and> nt = t + 3048 \<and> th_pcb s2 = (th_pcb s)(nt := k_pcb s) \<and> k_pcb s2 = k_pcb s \<and>
    (\<forall>c v e. (c, v) \<in> held s \<and> unat e < 2 ^ v \<and> (c, v) \<notin> {(t, 12), (k_pcb s, 6), (q_head s (wait_thread_queue s), 2), (free_thread_list s, 2)} \<longrightarrow>
      nxt s2 (c + e) = nxt s (c + e))"
proof -
  obtain q qh where q: "wait_thread_queue s = q" "q_head s q = qh" by blast
  have tr: "threads_ready s k t" and co: "core_ok (Suc n) (Suc u) s" and on: "paging_on s"
    using up unfolding thread_base_def core_ok_def by blast+
  obtain nt st s1 m s2 where r: "CreateThread (k_pcb s) s = Ok (nt, m)" "KThreadRun nt fn m = Ok s2" "sched s2 [k, nt]"
      "m = made_thread nt (k_pcb s) st s1" "s2 = ready_thread nt st fn q qh m" "fresh_thread s1 k t nt st"
      "alloc_ok n s1" "room u s1" "held s \<subseteq> held s1" "kheap.more s1 = kheap.more s" "q_head s1 = q_head s" "q_tail s1 = q_tail s"
      "nxt s1 qh = qh" "\<forall>p. unat p \<in> arena \<and> p \<noteq> free_thread_list s \<and> p \<noteq> nt + 16 \<longrightarrow> nxt s1 p = nxt s p"
    using start_thread_run [OF up im q] by blast
  have m: "wait_thread_queue s1 = q" "k_pcb s1 = k_pcb s" "free_thread_list s1 = free_thread_list s" "paging_on s1" "th_pcb s1 = th_pcb s"
    using r(10) q(1) on paging_on_kheap [OF r(10)] by (cases s; cases s1; simp)+
  have s2: "s2 = ready_thread nt st fn q qh (made_thread nt (k_pcb s1) st s1)" using r(4,5) m(2) by simp
  have qh: "q_head s1 (wait_thread_queue s1) = qh" using q r(11) m(1) by simp
  note n = fresh_thread_neq [OF r(6), unfolded m(1,2) r(11) q(2)] and fr = ready_frame [OF r(6-8) co r(10) qh s2]
  have nt: "nt = t + 3048" using r(6) by (simp add: fresh_thread_def)
  have "nxt s2 (c + e) = nxt s (c + e)"
    if x: "(c, v) \<in> held s" "unat e < 2 ^ v" "(c, v) \<notin> {(t, 12), (k_pcb s, 6), (qh, 2), (free_thread_list s, 2)}" for c v e
  proof -
    have h: "(c, v) \<in> held s1" "(t, 12) \<in> held s1" "(free_thread_list s, 2) \<in> held s1"
      using x(1) r(6,9) m(3) by (auto simp: fresh_thread_def)
    have "c + e \<noteq> nt + 16" using held_neq [OF r(7) h(1,2) _ x(2), of 3064] x(3) nt by auto
    moreover have "c + e \<noteq> free_thread_list s" using held_neq [OF r(7) h(1,3) _ x(2), of 0] x(3) by auto
    moreover have "unat (c + e) \<in> arena" using block_word(2) [OF held_arena [OF r(7) h(1)] x(2)] .
    ultimately have "nxt s1 (c + e) = nxt s (c + e)" using r(14) by blast
    then show ?thesis using fr(4) [OF h(1) x(2)] x(3) m(2) by auto
  qed
  moreover have "th_pcb s2 nt = k_pcb s" "nxt s2 (k_pcb s + 44) = nt + 16" "nxt s2 (nt + 16) = q_head s2 (wait_thread_queue s2)"
      "q_head s2 = q_head s" "q_tail s2 = (q_tail s)(q := nt + 16)" "wait_thread_queue s2 = q"
      "th_pcb s2 = (th_pcb s)(nt := k_pcb s)" "k_pcb s2 = k_pcb s"
    using n(7,9) [of 44] n(4) r(11-13) q m by (simp_all add: s2 ready_thread_def made_thread_def)
  moreover have "held s \<subseteq> held s2" using r(9) fr(2) by simp
  ultimately show ?thesis
    using r(1-3) fr(1,3) start_frame [OF r(6) m(4) s2] nt
    unfolding pcb_thread_list_def th_node_def q
    by - (rule exI [of _ nt], rule exI [of _ m], rule exI [of _ s2], intro conjI allI impI; (elim conjE)?; (assumption | blast))
qed

text \<open>
  C18: starting a thread of the kernel.  After the kernel has come up, \<^verbatim>\<open>CreateThread\<close> and \<^verbatim>\<open>KThreadRun\<close> return, and then the first thread runs
  and the new one waits in the queue of the scheduler.  Its saved stack pointer points to four zeroed
  registers below the address of its function, so that switching to it starts the function.  But the
  one list node of the thread is in the list of its process and in the queue at the same
  time: the list of the process runs into the head of the queue and never comes back to its own head.
\<close>

theorem new_thread_scheduled:
  assumes up: "kernel_up s k t" and im: "(kKVirtualAddr, w) \<in> held s" "16 \<le> w"
  shows "\<exists>nt s1 s2. CreateThread (k_pcb s) s = Ok (nt, s1) \<and> KThreadRun nt fn s1 = Ok s2 \<and> sched s2 [k, nt] \<and> th_pcb s2 nt = k_pcb s \<and>
    rdw (th_esp s2 nt + 16) s2 = Ok fn \<and> (\<forall>i<4. rdw (th_esp s2 nt + 4 * of_nat i) s2 = Ok 0) \<and>
    nxt s2 (pcb_thread_list (k_pcb s)) = th_node nt \<and> nxt s2 (th_node nt) = q_head s2 (wait_thread_queue s2)"
proof -
  have "thread_base 5190 15 s k t" using up by (simp add: thread_base_def kernel_up_def)
  from start_thread [OF this im] show ?thesis by blast
qed


text \<open>The state before \<^verbatim>\<open>kernel_core\<close> on the example machine.\<close>

definition start1 :: ides where
  "start1 = start0\<lparr>avl_mem := [(0x100000, 0x7f00000)] @ [(0, UINT32_MAX)]\<rparr>"

lemma start1_up: "\<exists>s k t. kernel_core links0 start1 = Ok s \<and> kernel_up s k t \<and> (kKVirtualAddr, 21) \<in> held s"
proof -
  have "con_ok (console start1)" "K_END start1 = 0x200000"
    using boot0_con(2) boot0_dma(3) by (simp_all add: start1_def start0_def ths.extend_def boot0_def)
  then show ?thesis using kernel_core_ok [of "0x8000" start1 links0] start0_boot_ok by (auto simp: start1_def block_order_2MB)
qed

theorem new_thread_scheduled_witness:
  "\<exists>s k nt s1 s2. kernel_core links0 start1 = Ok s \<and> CreateThread (k_pcb s) s = Ok (nt, s1) \<and> KThreadRun nt 0xc0105678 s1 = Ok s2 \<and>
     sched s2 [k, nt]"
proof -
  obtain s k t where s: "kernel_core links0 start1 = Ok s" "kernel_up s k t" "(kKVirtualAddr, 21) \<in> held s" using start1_up by blast
  then show ?thesis using new_thread_scheduled [OF s(2,3), of "0xc0105678"] by auto
qed

end
