(* ===== verification/DeviceBoot.thy ===== *)
theory DeviceBoot
  imports ThreadProps
begin

text \<open>
  The start of the kernel on a machine whose disk and keyboard answer: \<^verbatim>\<open>IdeInit\<close> creates the queue of requests and
  starts the driver's thread, \<^verbatim>\<open>KeyboardInit\<close> creates the key map.  The lemmas of the first section say what survives an
  allocation or an access to a device.
\<close>

section \<open>What the initialisation of a driver keeps\<close>

definition same_words :: "'a dma_scheme \<Rightarrow> 'a dma_scheme \<Rightarrow> bool" where
  "same_words s s' \<longleftrightarrow> held s \<subseteq> held s' \<and> (\<forall>c v e. (c, v) \<in> held s \<and> unat e < 2 ^ v \<longrightarrow> nxt s' (c + e) = nxt s (c + e))"

lemma same_wordsD: "same_words s s' \<Longrightarrow> (c, v) \<in> held s \<Longrightarrow> unat e < 2 ^ v \<Longrightarrow> nxt s' (c + e) = nxt s (c + e)"
  unfolding same_words_def by blast

text \<open>The variables of the scheduler.\<close>

definition tview :: "'a ths_scheme \<Rightarrow> u32 \<times> (u32 \<Rightarrow> u32) \<times> (u32 \<Rightarrow> u32) \<times> u32 \<times> u32 \<times> u32 \<times> u32" where
  "tview s = (wait_thread_queue s, th_pcb s, th_stack_addr s, tss_esp0 s, k_pcb s, free_thread_list s, block_thread_list s)"

lemma sched_frame:
  assumes sc: "sched s xs" and v: "tview s' = tview s"
    and q: "q_head s' (wait_thread_queue s) = q_head s (wait_thread_queue s)" "q_tail s' (wait_thread_queue s) = q_tail s (wait_thread_queue s)"
    and n: "\<And>x. x \<in> sched_nodes s (tl xs) \<Longrightarrow> nxt s' x = nxt s x"
    and w: "\<And>t. t \<in> set xs \<Longrightarrow> rdw (th_stack_addr s t - 4) s' = rdw (th_stack_addr s t - 4) s"
  shows "sched s' xs"
proof -
  let ?q = "wait_thread_queue s" and ?M = "\<lambda>_ :: u32. map th_node (tl xs)"
  have "queues s {?q} ?M" using sc by (simp add: sched_defs)
  then have c: "?q \<noteq> 0" "clist (nxt s) (q_head s ?q) (map th_node (tl xs))" "q_tail s ?q = last (q_head s ?q # map th_node (tl xs))"
    by (auto simp: queues_def lists_ok_def)
  have "clist (nxt s') (q_head s ?q) (map th_node (tl xs))"
    by (rule clist_cong [OF c(2)]) (use n in \<open>auto simp: sched_nodes_def\<close>)
  then have "queues s' {?q} ?M" using c(1,3) q by (simp add: queues_def lists_ok_def)
  moreover have "unlinked s' {?q} ?M (th_node (hd xs))" using sc q by (simp add: sched_defs unlinked_def nodes_def)
  moreover have "sched_nodes s' xs = sched_nodes s xs" using q(1) v by (simp add: sched_nodes_def tview_def)
  then have "pcbs_ok s' xs" "one_pcb s' xs" using sc v one_pcb_cong [of s' s] by (simp_all add: sched_defs pcbs_ok_def tview_def)
  moreover have "\<forall>t\<in>set xs. thread_ok s' t" using sc v w by (simp add: sched_defs thread_ok_def tview_def)
  ultimately show ?thesis using sc v by (simp add: sched_defs tview_def)
qed

lemma threads_ready_frame:
  assumes tr: "threads_ready s k t" and v: "tview s' = tview s" and sw: "same_words s s'"
    and q: "q_head s' (wait_thread_queue s) = q_head s (wait_thread_queue s)" "q_tail s' (wait_thread_queue s) = q_tail s (wait_thread_queue s)"
    and w: "wmem (mach s') 0xbbfc = wmem (mach s) 0xbbfc"
  shows "threads_ready s' k t"
proof -
  have h: "sched s [k]" "th_stack_addr s k = kMainStackAddr" "clist (nxt s) (free_thread_list s) (rev (map (pool_node t) [0..<128]))"
      "clist (nxt s) (block_thread_list s) []" "(t, 12) \<in> held s" "(free_thread_list s, 2) \<in> held s" "(block_thread_list s, 2) \<in> held s"
      "(q_head s (wait_thread_queue s), 2) \<in> held s"
    using tr by (auto simp: threads_ready_def free_threads_def)
  note n = same_wordsD [OF sw]
  have p: "nxt s' (pool_node t i) = nxt s (pool_node t i)" if "i < 128" for i
    using n [OF h(5), of "of_nat (16 + 24 * i)"] that by (simp add: pool_node_eq unat_of_nat_u32 del: of_nat_add of_nat_mult)
  have z: "nxt s' c = nxt s c" if "(c, 2) \<in> held s" for c using n [OF that, of 0] by simp
  have "clist (nxt s') (free_thread_list s) (rev (map (pool_node t) [0..<128]))"
    by (rule clist_cong [OF h(3)]) (use p z h(6) in auto)
  moreover have "clist (nxt s') (block_thread_list s) []" using h(4,7) z by (simp add: clist_Nil)
  moreover have "sched s' [k]"
    by (rule sched_frame [OF h(1) v q]) (use z h(2,8) w in \<open>auto simp: sched_nodes_def rdw_def lin_def kMainStackAddr_def\<close>)
  ultimately show ?thesis using tr v q(1) sw unfolding same_words_def tview_def by (simp add: threads_ready_def free_threads_def) blast
qed

lemma same_words_trans: "same_words s s' \<Longrightarrow> same_words s' s'' \<Longrightarrow> same_words s s''"
  unfolding same_words_def by (metis subsetD subset_trans)

lemma same_words_cong: "dma.truncate s' = dma.truncate s \<Longrightarrow> same_words s s'"
  using held_cong [of s' s] by (cases s; cases s') (simp add: same_words_def dma.truncate_def)

lemma granted_words:
  assumes a: "alloc_ok n s" and g: "granted (held s) 4 h" and hd: "held s \<subseteq> held s'"
    and n: "\<forall>p. unat p \<in> arena \<and> p \<noteq> h \<longrightarrow> nxt s' p = nxt s p"
  shows "same_words s s'"
proof -
  have "nxt s' (c + e) = nxt s (c + e)" if "(c, v) \<in> held s" "unat e < 2 ^ v" for c v e
    using n block_word(2) [OF held_arena [OF a that(1)] that(2)] granted_neq [OF g that(1) held_arena [OF a that(1)] _ that(2), of 0] by auto
  then show ?thesis using hd unfolding same_words_def by blast
qed

section \<open>Devices that answer\<close>

text \<open>
  The drive is busy for some time only and has no error meanwhile, its status is not 0 and its cylinder registers read what was written.  The keyboard controller passes its
  tests and has a byte after some reads of its status; when the port has been enabled, the second byte after a reset of the keyboard is \<^verbatim>\<open>0xaa\<close>.
\<close>

definition disk_answers :: "(io list \<Rightarrow> u16 \<Rightarrow> u8) \<Rightarrow> bool" where
  "disk_answers d \<longleftrightarrow> (\<forall>tr. (\<exists>i. d (read_hist kAlternateStatusReg d i tr) kAlternateStatusReg AND kIdeBsy = 0) \<and>
     (d tr kAlternateStatusReg AND kIdeBsy \<noteq> 0 \<longrightarrow> d tr kAlternateStatusReg AND (kIdeDf OR kIdeErr) = 0) \<and> d tr kIdeStatusReg \<noteq> 0 \<and>
     d tr kCylinderLowReg = last_out kCylinderLowReg tr \<and> d tr kCylinderHighReg = last_out kCylinderHighReg tr)"

definition keyboard_answers :: "(io list \<Rightarrow> u16 \<Rightarrow> u8) \<Rightarrow> bool" where
  "keyboard_answers d \<longleftrightarrow> ps2_works d \<and> (\<forall>tr. ps2_gives d tr) \<and>
     (\<forall>tr a i. last_out kPs2CmdReg tr = kEnablePort1 \<longrightarrow>
       d (InB kPs2DataPort a # read_hist kPs2StatusReg d i (OutB kPs2DataPort kResetDevice # tr)) kPs2DataPort = 0xaa)"

text \<open>Accesses to devices that leave the interrupt controllers and the word of the first thread alone.\<close>

definition dev_only :: "'a kbase_scheme \<Rightarrow> 'a kbase_scheme \<Rightarrow> bool" where
  "dev_only s s' \<longleftrightarrow> (\<exists>m. s' = s\<lparr>mach := m\<rparr> \<and> creg m = creg (mach s) \<and> dev m = dev (mach s) \<and> wmem m 0xbbfc = wmem (mach s) 0xbbfc \<and>
     (\<forall>p\<in>{kMPicData, kSPicData}. last_out p (trace m) = last_out p (trace (mach s))))"

lemma io_only_dev_only: "io_only s s' \<Longrightarrow> dev_only s s'"
  by (auto simp: io_only_def dev_only_def)

lemma dev_only_trans: "dev_only s s' \<Longrightarrow> dev_only s' s'' \<Longrightarrow> dev_only s s''"
  by (auto simp: dev_only_def)

lemma dev_only_intr:
  assumes "dev_only s s'" "intr_state hs ms s"
  shows "intr_state hs ms s'"
  using assms(1) intr_state_cong [OF assms(2), of s'] by (auto simp: dev_only_def)

lemma insl_loop_mach:
  "creg (insl_loop n port a m) = creg m" "dev (insl_loop n port a m) = dev m" "eflags (insl_loop n port a m) = eflags m"
  "last_out p (trace (insl_loop n port a m)) = last_out p (trace m)"
  by (induction n arbitrary: a m) (simp_all add: Let_def)

lemma kinsl_dev_only:
  assumes "unat p + 512 \<le> 0xbbfc"
  shows "\<exists>s'. kinsl port p 128 s = Ok s' \<and> dev_only s s'"
proof -
  have "lin p s = Ok p" using assms by (intro lin_low) (simp add: u32_less_iff_unat)
  moreover have "0xbbfc \<noteq> p + 4 * of_nat j" if "j < 128" for j
  proof -
    have "unat (p + of_nat (4 * j)) = unat p + 4 * j" using assms that by (subst unat_add_u32_small) (simp_all add: unat_of_nat_u32 del: of_nat_mult)
    then have "unat (p + of_nat (4 * j)) \<noteq> unat (0xbbfc :: u32)" using assms that by simp
    then show ?thesis by (metis of_nat_mult of_nat_numeral)
  qed
  then have "wmem (insl_loop 128 q p (mach s)) 0xbbfc = wmem (mach s) 0xbbfc" for q by (intro insl_loop_frame) blast
  ultimately show ?thesis by (auto simp: kinsl_def insl_def dev_only_def insl_loop_mach)
qed

section \<open>The disk\<close>

text \<open>The drive is found, and its identification is read into the buffer; then the rest of \<^verbatim>\<open>IdeInit\<close> runs.\<close>

definition ide_setup :: "u32 \<Rightarrow> 'a ides_scheme \<Rightarrow> (bool \<times> 'a ides_scheme) kres" where
  "ide_setup run_ide s =
     kbind (queue s) (\<lambda>(q, s).
     kbind (EnableIrq kIdeVec (s\<lparr>block_queue := q\<rparr>)) (\<lambda>s.
     kbind (RegIntrHandler kIdeVec H_Ide s) (\<lambda>(_, s).
     let s = EnableIntr s in
     kbind (CreateThread (GetKPcb s) s) (\<lambda>(ide_thread, s).
     kbind (KThreadRun ide_thread run_ide s) (\<lambda>s.
     Ok (True, s))))))"

lemma IdeInit_found:
  fixes s :: "'a ides_scheme"
  assumes d: "disk_answers (dev (mach s))" and b: "unat buf + 512 \<le> 0xbbfc"
  shows "\<exists>s'. dev_only s s' \<and> IdeInit buf run s = ide_setup run s'"
proof -
  let ?k = "\<lambda>s. koutb kIdeCmdReg kIdentity (koutb kCylinderHighReg 0 (koutb kCylinderLowReg 0 (koutb kSecNoReg 0
    (koutb kSecCountReg 0 (koutb kDriveHeadSelReg 0xf0 (DisableIntr s))))))"
  note dd = d [unfolded disk_answers_def, rule_format]
  obtain i where w1: "IdeWait False s = Ok (True, after_reads kAlternateStatusReg i s)" using IdeWait_some [of s _ False] dd by metis
  let ?s1 = "?k (after_reads kAlternateStatusReg i s)"
  let ?s2 = "snd (kinb kCylinderLowReg ?s1)"
  let ?s3 = "snd (kinb kCylinderHighReg ?s2)"
  let ?s4 = "snd (kinb kIdeStatusReg ?s3)"
  have i1: "io_only s ?s1" unfolding DisableIntr_def
    by (intro io_only_koutb io_only_reads io_only_refl) (simp_all add: driver_ports)
  then have i4: "io_only s ?s4" by (intro io_only_kinb)
  have dv: "dev (mach ?s1) = dev (mach s)" "dev (mach ?s4) = dev (mach s)" using io_only_dev [OF i1] io_only_dev [OF i4] .
  have z: "fst (kinb kCylinderLowReg ?s1) = 0" "fst (kinb kCylinderHighReg ?s2) = 0" "fst (kinb kIdeStatusReg ?s3) \<noteq> 0"
    using dd dv(1) by (simp_all add: fst_kinb) (simp_all add: kinb_def inb_def koutb_def outb_def DisableIntr_def Let_def driver_ports)
  obtain j where w2: "IdeWait True ?s4 = Ok (True, after_reads kAlternateStatusReg j ?s4)"
    using IdeWait_some [of ?s4 _ True] dd unfolding dv(2) by metis
  let ?s5 = "after_reads kAlternateStatusReg j ?s4"
  have i5: "io_only s ?s5" by (rule io_only_reads [OF i4])
  obtain s6 where s6: "kinsl kDataReg buf 128 ?s5 = Ok s6" "dev_only ?s5 s6" using kinsl_dev_only [OF b] by blast
  have "IdeInit buf run s = ide_setup run s6"
    using w1 w2 z s6(1) by (simp add: IdeInit_def ide_setup_def Let_def split_beta)
  then show ?thesis using dev_only_trans [OF io_only_dev_only [OF i5] s6(2)] by blast
qed

text \<open>
  \<open>disk_ready s k t nt run\<close>: the thread \<open>k\<close> runs and the driver's thread \<open>nt\<close>, the last one of the pool \<open>t\<close>, waits to start at \<open>run\<close>; no request is pending.
\<close>

definition disk_ready :: "'a ides_scheme \<Rightarrow> u32 \<Rightarrow> u32 \<Rightarrow> u32 \<Rightarrow> u32 \<Rightarrow> bool" where
  "disk_ready s k t nt run \<longleftrightarrow> sched s [k, nt] \<and> nt = t + 3048 \<and> rdw (th_esp s nt + 16) s = Ok run \<and> queues s {block_queue s} (\<lambda>_. []) \<and>
     th_pcb s k = k_pcb s \<and> th_pcb s nt = k_pcb s \<and>
     {(k, 5), (t, 12), (k_pcb s, 6), (q_head s (wait_thread_queue s), 2), (q_head s (block_queue s), 2)} \<subseteq> held s"

lemma List_more:
  assumes "List s = Ok (h, s')"
  shows "dma.more s' = dma.more s"
proof -
  obtain a b where "ReqBytes 4 s = Ok (a, b)" "s' = b \<or> s' = b\<lparr>nxt := (nxt b)(a := a)\<rparr>"
    using assms by (auto simp: List_def kbind_eq_Ok set_next_eq_Ok split: if_splits)
  then show ?thesis using ReqBytes_more [of 4 s a b] by auto
qed

lemma queue_heads:
  assumes "queue s = Ok (q, s')"
  shows "x \<noteq> q \<Longrightarrow> q_head s' x = q_head s x" "x \<noteq> q \<Longrightarrow> q_tail s' x = q_tail s x"
proof -
  obtain h s1 s2 where r: "List s = Ok (h, s1)" "ReqBytes 8 s1 = Ok (q, s2)" "s' = s2\<lparr>q_head := (q_head s2)(q := h), q_tail := (q_tail s2)(q := h)\<rparr>"
    using assms by (auto simp: queue_def kbind_eq_Ok wr_eq_Ok)
  have "dma.more s2 = dma.more s" using ReqBytes_more [OF r(2)] List_more [OF r(1)] by simp
  then have "q_head s2 = q_head s" "q_tail s2 = q_tail s" by (cases s; cases s2; simp)+
  then show "x \<noteq> q \<Longrightarrow> q_head s' x = q_head s x" "x \<noteq> q \<Longrightarrow> q_tail s' x = q_tail s x" using r(3) by simp_all
qed

lemma kheap_more_tview: "kheap.more s' = kheap.more s \<Longrightarrow> tview s' = tview s"
  by (cases s; cases s') (simp add: tview_def)

lemma ths_more_ide: "ths.more s' = ths.more s \<Longrightarrow> block_queue s' = block_queue s \<and> input_buf s' = input_buf s"
  by (cases s; cases s') simp

text \<open>The queue of requests.\<close>

lemma ide_queue:
  assumes up: "kernel_up s k t"
  shows "\<exists>q h s1. queue s = Ok (q, s1) \<and> q_head s1 q = h \<and> queues s1 {q} (\<lambda>_. []) \<and> q \<noteq> wait_thread_queue s \<and>
    h \<noteq> q_head s (wait_thread_queue s) \<and> h \<noteq> free_thread_list s \<and>
    same_words s s1 \<and> kheap.more s1 = kheap.more s \<and> (h, 2) \<in> held s1 \<and> core_ok 5189 14 s1 \<and> threads_ready s1 k t"
proof -
  have c: "core_ok 5191 16 s" "threads_ready s k t" using up by (auto simp: kernel_up_def)
  have a: "alloc_ok (Suc (Suc 5189)) s" "room (Suc (Suc 14)) s" using c(1) by (simp_all add: core_ok_def)
  obtain q h s1 where r: "queue s = Ok (q, s1)" "alloc_ok 5189 s1" "room 14 s1" "queues s1 {q} (\<lambda>_. [])" "q_head s1 q = h"
      "held s1 = insert (q, 3) (insert (h, 2) (held s))" "granted (held s) 4 h" "granted (insert (h, 2) (held s)) 8 q"
      "kheap.more s1 = kheap.more s" "\<forall>p. unat p \<in> arena \<and> p \<noteq> h \<longrightarrow> nxt s1 p = nxt s p"
    using queue_room [OF a] by auto
  have hs: "(wait_thread_queue s, 3) \<in> held s" "(q_head s (wait_thread_queue s), 2) \<in> held s" "(free_thread_list s, 2) \<in> held s"
    using c(2) by (auto simp: threads_ready_def)
  note ar = held_arena [OF a(1)]
  have ne: "q \<noteq> wait_thread_queue s" "h \<noteq> q_head s (wait_thread_queue s)" "h \<noteq> free_thread_list s"
    using granted_neq [OF r(8) _ ar [OF hs(1)], of 0 0] granted_neq [OF r(7) hs(2) ar [OF hs(2)], of 0 0]
      granted_neq [OF r(7) hs(3) ar [OF hs(3)], of 0 0] hs(1) by auto
  have sw: "same_words s s1" using granted_words [OF a(1) r(7) _ r(10)] r(6) by auto
  note kv = kview_more [OF r(9)]
  have "translate s1 x = translate s x" for x by (rule translate_cong) (use kv in \<open>simp_all add: kview_def\<close>)
  then have "core_ok 5189 14 s1" using c(1) r(2,3) kv by (simp add: core_ok_def paging_on_def kview_def)
  moreover have "mach s1 = mach s" using r(9) by (cases s; cases s1) simp
  then have "threads_ready s1 k t"
    by (intro threads_ready_frame [OF c(2) kheap_more_tview [OF r(9)] sw]) (use queue_heads [OF r(1)] ne(1) in auto)
  ultimately show ?thesis using r ne sw by auto
qed

text \<open>The interrupt line and the handler, for any driver.\<close>

lemma line_and_handler:
  fixes s :: "'a ints_scheme"
  assumes i: "intr_state hs ms s" and d: "imr_dev (dev (mach s))" and v: "0x20 \<le> v" "v < 0x30" "\<not> shares_bit hs (unat v)"
  shows "\<exists>g bm tr. kbind (EnableIrq v s) (RegIntrHandler v h) =
      Ok (True, s\<lparr>mach := (mach s)\<lparr>trace := tr\<rparr>, idt := g, IntrVecMap := bm, intr_handler := (intr_handler s)[unat v := Some h]\<rparr>) \<and>
    intr_state (hs(unat v := Some h)) (insert (unat v - 32) ms)
      (s\<lparr>mach := (mach s)\<lparr>trace := tr\<rparr>, idt := g, IntrVecMap := bm, intr_handler := (intr_handler s)[unat v := Some h]\<rparr>)"
proof -
  obtain tr where e: "EnableIrq v s = Ok (s\<lparr>mach := (mach s)\<lparr>trace := tr\<rparr>\<rparr>)"
      "intr_state hs (insert (unat v - 32) ms) (s\<lparr>mach := (mach s)\<lparr>trace := tr\<rparr>\<rparr>)"
    using enable_line [OF i d v(1,2)] by blast
  have "32 \<le> unat v" "unat v < 64" using v(1,2) by (simp_all add: u32_le_iff_unat u32_less_iff_unat)
  from register_driver [OF e(2) this v(3), of h] obtain g bm where
      "RegIntrHandler v h (s\<lparr>mach := (mach s)\<lparr>trace := tr\<rparr>\<rparr>) = Ok (True, s\<lparr>mach := (mach s)\<lparr>trace := tr\<rparr>, idt := g, IntrVecMap := bm,
        intr_handler := (intr_handler s)[unat v := Some h]\<rparr>)"
      "intr_state (hs(unat v := Some h)) (insert (unat v - 32) ms) (s\<lparr>mach := (mach s)\<lparr>trace := tr\<rparr>, idt := g, IntrVecMap := bm,
        intr_handler := (intr_handler s)[unat v := Some h]\<rparr>)"
    by auto
  then show ?thesis using e(1) by (intro exI [of _ g] exI [of _ bm] exI [of _ tr]) simp
qed

text \<open>The steps before the thread is created.\<close>

lemma ide_thread_base:
  fixes s :: "'a ides_scheme"
  assumes up: "kernel_up s k t" and d: "imr_dev (dev (mach s))"
  shows "\<exists>s'. ide_setup run s = kbind (CreateThread (k_pcb s') s') (\<lambda>(nt, s). kbind (KThreadRun nt run s) (\<lambda>s. Ok (True, s))) \<and>
    thread_base 5188 13 s' k t \<and> held s \<subseteq> held s' \<and> intr_state (boot_handlers(46 := Some H_Ide)) {2, 14} s' \<and>
    dev (mach s') = dev (mach s) \<and> input_buf s' = input_buf s \<and> queues s' {block_queue s'} (\<lambda>_. []) \<and> block_queue s' \<noteq> wait_thread_queue s' \<and>
    (q_head s' (block_queue s'), 2) \<in> held s' \<and> q_head s' (block_queue s') \<notin> {q_head s' (wait_thread_queue s'), free_thread_list s'}"
proof -
  obtain q h s1 where q: "queue s = Ok (q, s1)" "q_head s1 q = h" "queues s1 {q} (\<lambda>_. [])" "q \<noteq> wait_thread_queue s"
      "h \<noteq> q_head s (wait_thread_queue s)" "h \<noteq> free_thread_list s" "same_words s s1" "kheap.more s1 = kheap.more s" "(h, 2) \<in> held s1"
      "core_ok 5189 14 s1" "threads_ready s1 k t"
    using ide_queue [OF up] by blast
  have m1: "mach s1 = mach s" "k_pcb s1 = k_pcb s" "wait_thread_queue s1 = wait_thread_queue s" "free_thread_list s1 = free_thread_list s"
      "input_buf s1 = input_buf s" "intr_vec s1 = intr_vec s" "idt s1 = idt s" "IntrVecMap s1 = IntrVecMap s" "intr_handler s1 = intr_handler s"
    using q(8) by (cases s; cases s1; simp)+
  let ?s2 = "s1\<lparr>block_queue := q\<rparr>"
  have "intr_ready ?s2" by (rule intr_state_cong [of _ _ s]) (use up m1 in \<open>simp_all add: kernel_up_def\<close>)
  then obtain g bm tr where l: "kbind (EnableIrq kIdeVec ?s2) (RegIntrHandler kIdeVec H_Ide) = Ok (True, ?s2\<lparr>mach := (mach ?s2)\<lparr>trace := tr\<rparr>, idt := g, IntrVecMap := bm,
        intr_handler := (intr_handler ?s2)[46 := Some H_Ide]\<rparr>)"
      "intr_state (boot_handlers(46 := Some H_Ide)) {14, 2} (?s2\<lparr>mach := (mach ?s2)\<lparr>trace := tr\<rparr>, idt := g, IntrVecMap := bm,
        intr_handler := (intr_handler ?s2)[46 := Some H_Ide]\<rparr>)"
    using line_and_handler [of boot_handlers "{2}" ?s2 kIdeVec H_Ide] d m1(1) boot_unshared by (auto simp: kIdeVec_def)
  define s5 where "s5 = EnableIntr (?s2\<lparr>mach := (mach ?s2)\<lparr>trace := tr\<rparr>, idt := g, IntrVecMap := bm, intr_handler := (intr_handler ?s2)[46 := Some H_Ide]\<rparr>)"
  have m5: "dma.truncate s5 = dma.truncate s1" "creg (mach s5) = creg (mach s1)" "wmem (mach s5) = wmem (mach s1)" "dev (mach s5) = dev (mach s)"
      "pde_at s5 = pde_at s1" "pte_at s5 = pte_at s1" "console s5 = console s1" "tview s5 = tview s1" "q_head s5 = q_head s1" "q_tail s5 = q_tail s1"
      "nxt s5 = nxt s1" "k_pcb s5 = k_pcb s" "wait_thread_queue s5 = wait_thread_queue s" "free_thread_list s5 = free_thread_list s" "block_queue s5 = q"
      "input_buf s5 = input_buf s"
    by (simp_all add: s5_def EnableIntr_def koutb_def outb_def m1 dma.truncate_def tview_def)
  have "core_ok 5189 14 s5" by (rule core_ok_cong [OF q(10) m5(1,2,5,6)]) (use q(10) m5(7) in \<open>simp add: core_ok_def\<close>)
  moreover have "threads_ready s5 k t"
    by (rule threads_ready_frame [OF q(11) m5(8) same_words_cong [OF m5(1)]]) (simp_all add: m5)
  moreover have "(k_pcb s, 6) \<in> held s" using up by (auto simp: kernel_up_def threads_ready_def)
  then have "nxt s5 (k_pcb s + e) = nxt s (k_pcb s + e)" if "unat e < 64" for e using same_wordsD [OF q(7), of "k_pcb s" 6 e] m5(11) that by simp
  from this [of 0] this [of 44] have "nxt s5 (k_pcb s) = 0" "nxt s5 (k_pcb s + 44) = k_pcb s + 44" using up by (simp_all add: kernel_up_def)
  ultimately have "thread_base 5188 13 s5 k t" using m5(12) by (simp add: thread_base_def)
  moreover have "intr_state (boot_handlers(46 := Some H_Ide)) {2, 14} s5" unfolding s5_def
    by (rule intr_state_cong [OF l(2) [unfolded insert_commute [of 14 2]]]) (simp_all add: EnableIntr_def koutb_def outb_def driver_ports kDeviceCtrlReg_def)
  moreover have "queues s5 {q} (\<lambda>_. [])" using q(3) queues_cong [of s5 s1] m5(9-11) by simp
  moreover have "q_head s5 (wait_thread_queue s) = q_head s (wait_thread_queue s)" using queue_heads(1) [OF q(1)] q(4) m5(9) by simp
  moreover have "ide_setup run s = kbind (CreateThread (k_pcb s5) s5) (\<lambda>(nt, s). kbind (KThreadRun nt run s) (\<lambda>s. Ok (True, s)))"
    using q(1) l(1) unfolding ide_setup_def s5_def by (auto simp: kbind_eq_Ok GetKPcb_def Let_def)
  ultimately show ?thesis
    using q(2,4-7,9) held_cong [OF m5(1)] m5(4,9,13-16) by (intro exI [of _ s5]) (simp add: same_words_def)
qed

lemma ide_setup_run:
  fixes s :: "'a ides_scheme"
  assumes up: "kernel_up s k t" and im: "(kKVirtualAddr, w) \<in> held s" "16 \<le> w" and d: "imr_dev (dev (mach s))"
  shows "\<exists>s' nt. ide_setup run s = Ok (True, s') \<and> core_ok 5188 13 s' \<and> disk_ready s' k t nt run \<and>
    intr_state (boot_handlers(46 := Some H_Ide)) {2, 14} s' \<and> dev (mach s') = dev (mach s) \<and> input_buf s' = input_buf s"
proof -
  obtain s5 where b: "ide_setup run s = kbind (CreateThread (k_pcb s5) s5) (\<lambda>(nt, s). kbind (KThreadRun nt run s) (\<lambda>s. Ok (True, s)))"
      "thread_base 5188 13 s5 k t" "held s \<subseteq> held s5" "intr_state (boot_handlers(46 := Some H_Ide)) {2, 14} s5" "dev (mach s5) = dev (mach s)"
      "input_buf s5 = input_buf s" "queues s5 {block_queue s5} (\<lambda>_. [])" "block_queue s5 \<noteq> wait_thread_queue s5"
      "(q_head s5 (block_queue s5), 2) \<in> held s5" "q_head s5 (block_queue s5) \<notin> {q_head s5 (wait_thread_queue s5), free_thread_list s5}"
    using ide_thread_base [OF up d, of run] by blast
  let ?q = "block_queue s5"
  have "(kKVirtualAddr, w) \<in> held s5" using im(1) b(3) by blast
  then obtain nt s6 s7 where r: "CreateThread (k_pcb s5) s5 = Ok (nt, s6)" "KThreadRun nt run s6 = Ok s7" "sched s7 [k, nt]"
      "rdw (th_esp s7 nt + 16) s7 = Ok run" "core_ok 5188 13 s7" "held s5 \<subseteq> held s7" "q_head s7 = q_head s5"
      "q_tail s7 = (q_tail s5)(wait_thread_queue s5 := th_node nt)" "kview s7 = kview s5" "wait_thread_queue s7 = wait_thread_queue s5" "nt = t + 3048"
      "th_pcb s7 = (th_pcb s5)(nt := k_pcb s5)" "k_pcb s7 = k_pcb s5"
      "\<forall>c v e. (c, v) \<in> held s5 \<and> unat e < 2 ^ v \<and> (c, v) \<notin> {(t, 12), (k_pcb s5, 6), (q_head s5 (wait_thread_queue s5), 2), (free_thread_list s5, 2)} \<longrightarrow>
        nxt s7 (c + e) = nxt s5 (c + e)"
    using start_thread [OF b(2) _ im(2), of run] by blast
  have m7: "block_queue s7 = ?q" "input_buf s7 = input_buf s" "dev (mach s7) = dev (mach s)" "intr_vec s7 = intr_vec s5" "idt s7 = idt s5"
      "IntrVecMap s7 = IntrVecMap s5" "intr_handler s7 = intr_handler s5" "trace (mach s7) = trace (mach s5)"
    using r(9) ths_more_ide [of s7 s5] b(5,6) by (simp_all add: kview_def)
  have "nxt s7 (q_head s5 ?q) = nxt s5 (q_head s5 ?q)" using r(14) [rule_format, of "q_head s5 ?q" 2 0] b(9,10) by simp
  then have "queues s7 {?q} (\<lambda>_. [])" using b(7,8) r(7,8) by (simp add: queues_def lists_ok_def clist_Nil)
  moreover have "{(k, 5), (t, 12), (k_pcb s7, 6), (q_head s7 (wait_thread_queue s7), 2), (q_head s7 ?q, 2)} \<subseteq> held s7"
    using b(2,9) r(6,7,10,13) by (auto simp: thread_base_def threads_ready_def)
  moreover have "th_pcb s7 k = k_pcb s7" "th_pcb s7 nt = k_pcb s7" using b(2) r(12,13) by (auto simp: thread_base_def threads_ready_def)
  ultimately have "disk_ready s7 k t nt run" using r(3,4,11) m7(1) by (simp add: disk_ready_def)
  moreover have "intr_state (boot_handlers(46 := Some H_Ide)) {2, 14} s7"
    using intr_state_cong [OF b(4) m7(4-7)] m7(8) by simp
  moreover have "ide_setup run s = Ok (True, s7)" using b(1) r(1,2) by simp
  ultimately show ?thesis using r(5) m7(2,3) by blast
qed

lemma kernel_up_dev_only:
  assumes "dev_only s s'" "kernel_up s k t"
  shows "kernel_up s' k t"
proof -
  obtain m where m: "s' = s\<lparr>mach := m\<rparr>" "creg m = creg (mach s)" "wmem m 0xbbfc = wmem (mach s) 0xbbfc" using assms(1) by (auto simp: dev_only_def)
  have e: "dma.truncate s' = dma.truncate s" by (simp add: m(1) dma.truncate_def)
  have up: "core_ok 5191 16 s" "intr_ready s" "threads_ready s k t" using assms(2) by (auto simp: kernel_up_def)
  have "core_ok 5191 16 s'" by (rule core_ok_cong [OF up(1) e]) (use m up(1) in \<open>simp_all add: core_ok_def\<close>)
  moreover have "threads_ready s' k t"
    by (rule threads_ready_frame [OF up(3) _ same_words_cong [OF e]]) (use m in \<open>simp_all add: tview_def\<close>)
  ultimately show ?thesis using assms(2) dev_only_intr [OF assms(1) up(2)] m(1,2) by (simp add: kernel_up_def)
qed

lemma IdeInit_present:
  assumes "kernel_up s k t" "(kKVirtualAddr, w) \<in> held s" "16 \<le> w" "imr_dev (dev (mach s))" "disk_answers (dev (mach s))" "unat buf + 512 \<le> 0xbbfc"
  shows "\<exists>s' nt. IdeInit buf run s = Ok (True, s') \<and> core_ok 5188 13 s' \<and> disk_ready s' k t nt run \<and>
    intr_state (boot_handlers(46 := Some H_Ide)) {2, 14} s' \<and> dev (mach s') = dev (mach s) \<and> input_buf s' = input_buf s"
proof -
  obtain s1 where s1: "dev_only s s1" "IdeInit buf run s = ide_setup run s1" using IdeInit_found [OF assms(5,6)] by blast
  have e: "dev (mach s1) = dev (mach s)" "input_buf s1 = input_buf s" "dma.truncate s1 = dma.truncate s"
    using s1(1) by (auto simp: dev_only_def dma.truncate_def)
  have "(kKVirtualAddr, w) \<in> held s1" using assms(2) held_cong [OF e(3)] by simp
  from ide_setup_run [OF kernel_up_dev_only [OF s1(1) assms(1)] this assms(3), of run] show ?thesis using s1(2) e(1,2) assms(4) by simp
qed

section \<open>The keyboard\<close>

lemma KeyboardInit_found:
  fixes s :: "'a kbs_scheme"
  assumes k: "keyboard_answers (dev (mach s))"
  shows "\<exists>s'. io_only s s' \<and> KeyboardInit s = keyboard_setup (s'\<lparr>key_counter := 0, cur := 0\<rparr>)"
proof -
  let ?d = "dev (mach s)"
  obtain s1 tr where s1: "io_only s s1" "last_out kPs2CmdReg tr = kEnablePort1" "trace (mach s1) = OutB kPs2DataPort kResetDevice # tr"
      "KeyboardInit s = keyboard_answer s1"
    using KeyboardInit_reset [of s] k unfolding keyboard_answers_def by blast
  obtain s2 i x a where s2: "Read kPs2DataPort s1 = Ok (x, s2)" "io_only s s2"
      "trace (mach s2) = InB kPs2DataPort a # read_hist kPs2StatusReg ?d i (OutB kPs2DataPort kResetDevice # tr)"
    using ps2_read [OF s1(1)] k s1(3) by (fastforce simp: keyboard_answers_def Let_def)
  have "fst (kinb kPs2DataPort s2) = 0xaa"
    unfolding fst_kinb s2(3) io_only_dev [OF s2(2)] using k s1(2) unfolding keyboard_answers_def by blast
  then have "KeyboardInit s = keyboard_setup ((snd (kinb kPs2DataPort s2))\<lparr>key_counter := 0, cur := 0\<rparr>)"
    using s1(4) s2(1) by (simp add: keyboard_answer_def split_beta)
  then show ?thesis using io_only_kinb [OF s2(2)] by blast
qed

text \<open>What the keyboard leaves alone.\<close>

definition dview :: "'a ides_scheme \<Rightarrow> _" where
  "dview s = (tview s, q_head s, q_tail s, th_esp s, timer s, console s, block_queue s, wmem (mach s), creg (mach s), dev (mach s), input_buf s)"

lemma dma_more_dview: "dma.more s' = dma.more s \<Longrightarrow> dview s' = dview s \<and> cur s' = cur s \<and> key_counter s' = key_counter s"
  by (cases s; cases s') (simp add: dview_def tview_def)

lemma keyboard_setup_run:
  fixes s :: "'a ides_scheme"
  assumes k: "keyboard_answers (dev (mach s))" and d: "imr_dev (dev (mach s))" and c: "core_ok (Suc n) (Suc u) s" "2 \<le> u"
    and i: "intr_state hs ms s" "\<not> shares_bit hs 33"
  shows "\<exists>s'. keyboard_setup s = Ok (True, s') \<and> core_ok n u s' \<and> intr_state (hs(33 := Some H_Keyboard)) (insert 1 ms) s' \<and> same_words s s' \<and>
    dview s' = dview s \<and> cur s' = cur s \<and> key_counter s' = key_counter s \<and> clist (nxt s') (keymap s') [] \<and>
    (\<forall>c v e. (c, v) \<in> held s \<and> unat e < 2 ^ v \<longrightarrow> keymap s' \<noteq> c + e)"
proof -
  have a: "alloc_ok (Suc n) s" "room (Suc u) s" using c(1) by (simp_all add: core_ok_def)
  obtain h s1 where r: "List s = Ok (h, s1)" "alloc_ok n s1" "room u s1" "clist (nxt s1) h []" "held s1 = insert (h, 2) (held s)"
      "granted (held s) 4 h" "dma.more s1 = dma.more s" "\<forall>p. unat p \<in> arena \<and> p \<noteq> h \<longrightarrow> nxt s1 p = nxt s p"
    using list_room [OF a c(2)] by auto
  have m: "mach s1 = mach s" "pde_at s1 = pde_at s" "pte_at s1 = pte_at s" "console s1 = console s" "intr_vec s1 = intr_vec s" "idt s1 = idt s"
      "IntrVecMap s1 = IntrVecMap s" "intr_handler s1 = intr_handler s"
    using r(7) by (cases s; cases s1; simp)+
  let ?s2 = "s1\<lparr>keymap := h\<rparr>"
  have ac: "ps2_accepts (dev (mach ?s2))" using k m(1) by (simp add: keyboard_answers_def ps2_works_def)
  obtain s3 where s3: "Write kPs2CmdReg kWCtrlConfig ?s2 = Ok s3" "io_only ?s2 s3" using ps2_write [OF io_only_refl ac] by blast
  obtain s4 where s4: "Write kPs2DataPort (kCtrlConfig OR 0x1) s3 = Ok s4" "io_only ?s2 s4" using ps2_write [OF s3(2) ac] by blast
  then obtain tr where tr: "s4 = ?s2\<lparr>mach := (mach s)\<lparr>trace := tr\<rparr>\<rparr>" "\<forall>p\<in>{kMPicData, kSPicData}. last_out p tr = last_out p (trace (mach s))"
    using m(1) by (auto simp: io_only_def)
  have "intr_state hs ms s4" by (rule intr_state_cong [OF i(1)]) (use tr m in simp_all)
  then obtain g bm where g: "RegIntrHandler kKeyboardVec H_Keyboard s4 = Ok (True, s4\<lparr>idt := g, IntrVecMap := bm,
        intr_handler := (intr_handler s4)[33 := Some H_Keyboard]\<rparr>)"
      "intr_state (hs(33 := Some H_Keyboard)) ms (s4\<lparr>idt := g, IntrVecMap := bm, intr_handler := (intr_handler s4)[33 := Some H_Keyboard]\<rparr>)"
    using register_driver [of hs ms s4 kKeyboardVec H_Keyboard] i(2) by (auto simp: kKeyboardVec_def)
  let ?s5 = "s4\<lparr>idt := g, IntrVecMap := bm, intr_handler := (intr_handler s4)[33 := Some H_Keyboard]\<rparr>"
  obtain tr2 where e: "EnableIrq kKeyboardVec ?s5 = Ok (?s5\<lparr>mach := (mach ?s5)\<lparr>trace := tr2\<rparr>\<rparr>)"
      "intr_state (hs(33 := Some H_Keyboard)) (insert 1 ms) (?s5\<lparr>mach := (mach ?s5)\<lparr>trace := tr2\<rparr>\<rparr>)"
    using enable_line [OF g(2), of kKeyboardVec] d tr(1) by (auto simp: kKeyboardVec_def)
  define s6 where "s6 = ?s5\<lparr>mach := (mach ?s5)\<lparr>trace := tr2\<rparr>\<rparr>"
  have s6: "dma.truncate s6 = dma.truncate s1" "creg (mach s6) = creg (mach s)" "pde_at s6 = pde_at s" "pte_at s6 = pte_at s" "console s6 = console s"
      "nxt s6 = nxt s1" "keymap s6 = h" "dview s6 = dview s" "cur s6 = cur s" "key_counter s6 = key_counter s"
    using dma_more_dview [OF r(7)] m by (simp_all add: s6_def tr(1) dma.truncate_def dview_def tview_def)
  have "core_ok n u s6"
    using c(1) r(2,3) s6(2-5) alloc_ok_cong [OF s6(1)] room_cong [OF s6(1)] translate_cong [OF s6(2-4)] by (simp add: core_ok_def paging_on_def)
  moreover have "same_words s s6"
    using same_words_trans [OF granted_words [OF a(1) r(6) _ r(8)] same_words_cong [OF s6(1)]] r(5) by auto
  moreover have "h \<noteq> c + e" if "(c, v) \<in> held s" "unat e < 2 ^ v" for c v e
    using granted_neq [OF r(6) that(1) held_arena [OF a(1) that(1)] _ that(2), of 0] by simp
  moreover have "keyboard_setup s = Ok (True, s6)"
    using r(1) s3(1) s4(1) g(1) e(1) by (simp add: keyboard_setup_def KeymapInit_def map_new_def s6_def)
  ultimately show ?thesis using e(2) r(4) s6(6-10) by (auto simp: s6_def)
qed

section \<open>All drivers\<close>

text \<open>The key map is none of the words that the scheduler writes.\<close>

definition keymap_apart :: "'a kbs_scheme \<Rightarrow> u32 list \<Rightarrow> bool" where
  "keymap_apart s xs \<longleftrightarrow> keymap s \<notin> sched_nodes s xs"

lemma keymap_apart_cong:
  "q_head s' = q_head s \<Longrightarrow> wait_thread_queue s' = wait_thread_queue s \<Longrightarrow> th_pcb s' = th_pcb s \<Longrightarrow> keymap s' = keymap s \<Longrightarrow>
   keymap_apart s' xs = keymap_apart s xs"
  by (simp add: keymap_apart_def sched_nodes_def)

lemma disk_ready_apart:
  assumes dr: "disk_ready s k t nt run" and ap: "\<And>c v e. (c, v) \<in> held s \<Longrightarrow> unat e < 2 ^ v \<Longrightarrow> x \<noteq> c + e"
  shows "x \<notin> sched_nodes s [k, nt]" "\<forall>u\<in>set [k, nt]. x \<noteq> th_pcb s u + 8"
proof -
  have h: "(k, 5) \<in> held s" "(t, 12) \<in> held s" "(k_pcb s, 6) \<in> held s" "(q_head s (wait_thread_queue s), 2) \<in> held s"
      "nt = t + 3048" "th_pcb s k = k_pcb s" "th_pcb s nt = k_pcb s"
    using dr by (auto simp: disk_ready_def)
  have "x \<noteq> k + 16" "x \<noteq> t + 3064" "x \<noteq> k_pcb s + 8" "x \<noteq> q_head s (wait_thread_queue s)"
    using ap [OF h(1), of 16] ap [OF h(2), of 3064] ap [OF h(3), of 8] ap [OF h(4), of 0] by simp_all
  then show "x \<notin> sched_nodes s [k, nt]" "\<forall>u\<in>set [k, nt]. x \<noteq> th_pcb s u + 8"
    using h(5-7) by (auto simp: sched_nodes_def th_node_def)
qed

lemma disk_ready_frame:
  assumes dr: "disk_ready s k t nt run" and sw: "same_words s s'" and v: "tview s' = tview s" "q_head s' = q_head s" "q_tail s' = q_tail s" "th_esp s' = th_esp s"
    "block_queue s' = block_queue s" "wmem (mach s') = wmem (mach s)" "creg (mach s') = creg (mach s)"
  shows "disk_ready s' k t nt run"
proof -
  have h: "sched s [k, nt]" "nt = t + 3048" "(t, 12) \<in> held s" "(q_head s (wait_thread_queue s), 2) \<in> held s" "(q_head s (block_queue s), 2) \<in> held s"
      "queues s {block_queue s} (\<lambda>_. [])"
    using dr by (auto simp: disk_ready_def)
  have rd: "rdw p s' = rdw p s" for p by (rule rdw_cong) (use v(6,7) in \<open>simp_all add: paging_on_def\<close>)
  have n: "nxt s' x = nxt s x" if "(x, 2) \<in> held s" for x using same_wordsD [OF sw that, of 0] by simp
  have "th_node nt = t + 3064" by (simp add: th_node_def h(2))
  then have "nxt s' (th_node nt) = nxt s (th_node nt)" using same_wordsD [OF sw h(3), of 3064] by simp
  then have "sched s' [k, nt]" by (intro sched_frame [OF h(1) v(1)]) (use v(2,3) n h(4) rd in \<open>auto simp: sched_nodes_def\<close>)
  moreover have "queues s' {block_queue s} (\<lambda>_. [])" using h(6) v(2,3) n [OF h(5)] by (simp add: queues_def lists_ok_def clist_Nil)
  moreover have "wait_thread_queue s' = wait_thread_queue s" "th_pcb s' = th_pcb s" "k_pcb s' = k_pcb s" using v(1) by (simp_all add: tview_def)
  ultimately show ?thesis using dr sw v(2,4,5) rd unfolding same_words_def disk_ready_def by auto
qed

definition device_handlers :: "nat \<Rightarrow> handler option" where
  "device_handlers = boot_handlers(46 := Some H_Ide, 32 := Some H_Timer, 33 := Some H_Keyboard)"

definition devices_up :: "u32 \<Rightarrow> (io list \<Rightarrow> u16 \<Rightarrow> u8) \<Rightarrow> 'a ides_scheme \<Rightarrow> u32 \<Rightarrow> bool" where
  "devices_up run d s k \<longleftrightarrow> dev (mach s) = d \<and> core_ok 5187 12 s \<and> intr_state device_handlers {0, 1, 2, 14} s \<and> kbd_inv 0 0 s \<and> timer s = 15 \<and>
     (\<exists>t nt. disk_ready s k t nt run \<and> keymap_apart s [k, nt])"

lemma drivers_present:
  fixes s :: "'a ides_scheme"
  assumes up: "kernel_up s k t" and im: "(kKVirtualAddr, w) \<in> held s" "16 \<le> w"
    and d: "imr_dev (dev (mach s))" "disk_answers (dev (mach s))" "keyboard_answers (dev (mach s))"
    and b: "unat (ide_buffer lk) + 512 \<le> 0xbbfc" and l: "length (input_buf s) = kKeyboardBufSize"
  shows "\<exists>s'. DriverInit lk s = Ok s' \<and> devices_up (addr_of_RunIde lk) (dev (mach s)) s' k"
proof -
  let ?run = "addr_of_RunIde lk" and ?hs = "boot_handlers(46 := Some H_Ide)"
  obtain s1 nt where s1: "IdeInit (ide_buffer lk) ?run s = Ok (True, s1)" "core_ok 5188 13 s1" "disk_ready s1 k t nt ?run"
      "intr_state ?hs {2, 14} s1" "dev (mach s1) = dev (mach s)" "input_buf s1 = input_buf s"
    using IdeInit_present [OF up im d(1,2) b] by blast
  have sh: "\<not> shares_bit ?hs 32" "\<not> shares_bit (?hs(32 := Some H_Timer)) 33" by (auto simp: shares_bit_def boot_handlers_def)
  obtain g bm tr where t: "TimerInit s1 = Ok (s1\<lparr>idt := g, IntrVecMap := bm, intr_handler := (intr_handler s1)[32 := Some H_Timer], timer := 15,
        mach := (mach s1)\<lparr>trace := tr\<rparr>\<rparr>)"
      "intr_state (?hs(32 := Some H_Timer)) {0, 2, 14} (s1\<lparr>idt := g, IntrVecMap := bm, intr_handler := (intr_handler s1)[32 := Some H_Timer], timer := 15,
        mach := (mach s1)\<lparr>trace := tr\<rparr>\<rparr>)"
    using TimerInit_run [OF s1(4) sh(1)] d(1) s1(5) by auto
  define s2 where "s2 = s1\<lparr>idt := g, IntrVecMap := bm, intr_handler := (intr_handler s1)[32 := Some H_Timer], timer := 15, mach := (mach s1)\<lparr>trace := tr\<rparr>\<rparr>"
  have k2: "keyboard_answers (dev (mach s2))" using d(3) s1(5) by (simp add: s2_def)
  obtain s3 where s3: "io_only s2 s3" "KeyboardInit s2 = keyboard_setup (s3\<lparr>key_counter := 0, cur := 0\<rparr>)" using KeyboardInit_found [OF k2] by blast
  then obtain tr3 where tr3: "s3 = s2\<lparr>mach := (mach s2)\<lparr>trace := tr3\<rparr>\<rparr>" "\<forall>p\<in>{kMPicData, kSPicData}. last_out p tr3 = last_out p (trace (mach s2))"
    by (auto simp: io_only_def)
  let ?s4 = "s3\<lparr>key_counter := 0, cur := 0\<rparr>"
  have e: "dma.truncate ?s4 = dma.truncate s1" by (simp add: tr3(1) s2_def dma.truncate_def)
  have "core_ok (Suc 5187) (Suc 12) ?s4"
    by (rule core_ok_cong [of _ _ s1]) (use e s1(2) in \<open>simp_all add: tr3(1) s2_def core_ok_def\<close>)
  moreover have "intr_state (?hs(32 := Some H_Timer)) {0, 2, 14} ?s4"
    by (rule intr_state_cong [OF t(2)]) (use tr3(2) in \<open>simp_all add: tr3(1) s2_def\<close>)
  ultimately obtain s5 where s5: "keyboard_setup ?s4 = Ok (True, s5)" "core_ok 5187 12 s5" "intr_state device_handlers {1, 0, 2, 14} s5" "same_words ?s4 s5"
      "dview s5 = dview ?s4" "cur s5 = 0" "key_counter s5 = 0" "clist (nxt s5) (keymap s5) []"
      "\<forall>c v e. (c, v) \<in> held ?s4 \<and> unat e < 2 ^ v \<longrightarrow> keymap s5 \<noteq> c + e"
    using keyboard_setup_run [of ?s4 5187 12 "?hs(32 := Some H_Timer)" "{0, 2, 14}"] sh(2) k2 d(1) s1(5) unfolding device_handlers_def
    by (auto simp: tr3(1) s2_def)
  have ap: "keymap s5 \<notin> sched_nodes s1 [k, nt]" "\<forall>u\<in>set [k, nt]. keymap s5 \<noteq> th_pcb s1 u + 8"
    by (rule disk_ready_apart [OF s1(3)]; use s5(9) held_cong [OF e] in blast)+
  have "wait_thread_queue s5 = wait_thread_queue s1" "th_pcb s5 = th_pcb s1" "q_head s5 = q_head s1"
    using s5(5) by (simp_all add: dview_def tr3(1) s2_def tview_def)
  then have "keymap_apart s5 [k, nt]" using ap by (simp add: keymap_apart_def sched_nodes_def)
  moreover have "disk_ready s5 k t nt ?run"
    by (rule disk_ready_frame [OF s1(3) same_words_trans [OF same_words_cong [OF e] s5(4)]]) (use s5(5) in \<open>simp_all add: dview_def tr3(1) s2_def tview_def\<close>)
  moreover have "timer s5 = 15" "input_buf s5 = input_buf s" "dev (mach s5) = dev (mach s)" using s5(5) s1(5,6) by (simp_all add: dview_def tr3(1) s2_def)
  moreover have "DriverInit lk s = Ok s5" using s1(1) t(1) s3(2) s5(1) by (simp add: DriverInit_def s2_def)
  ultimately show ?thesis
    using s5(2,3,6-8) l by (intro exI [of _ s5]) (auto simp: devices_up_def kbd_inv_def insert_commute)
qed

lemma devices_up_cong:
  assumes up: "devices_up run d s k" and c: "con_ok c"
  shows "devices_up run d (s\<lparr>console := c, mach := intr_enable (mach s)\<rparr>) k" (is "devices_up run d ?s k")
proof -
  have e: "dma.truncate ?s = dma.truncate s" by (simp add: dma.truncate_def)
  obtain t nt where dr: "disk_ready s k t nt run" "keymap_apart s [k, nt]" using up by (auto simp: devices_up_def)
  have "core_ok 5187 12 ?s" by (rule core_ok_cong [of 5187 12 s]) (use up e c in \<open>simp_all add: devices_up_def intr_enable_def\<close>)
  moreover have "intr_state device_handlers {0, 1, 2, 14} ?s"
    by (rule intr_state_cong [of _ _ s]) (use up in \<open>simp_all add: devices_up_def intr_enable_def\<close>)
  moreover have "disk_ready ?s k t nt run"
    by (rule disk_ready_frame [OF dr(1) same_words_cong [OF e]]) (simp_all add: tview_def intr_enable_def)
  moreover have "keymap_apart ?s [k, nt]" using dr(2) keymap_apart_cong [of ?s s] by simp
  ultimately show ?thesis using up by (auto simp: devices_up_def kbd_inv_def intr_enable_def)
qed

lemma image_order: "0x100000 \<le> e \<Longrightarrow> 16 \<le> block_order e"
proof (rule ccontr)
  assume e: "0x100000 \<le> e" "\<not> 16 \<le> block_order e"
  then have "(2 :: nat) ^ block_order e \<le> 2 ^ 16" by (intro power_increasing) simp_all
  then show False using block_order_le [of e] e(1) by (simp add: u32_le_iff_unat)
qed

lemma kernel_start_devices:
  assumes "MIN_LOWER_MEM \<le> mem_lower info" "MIN_UPPER_MEM \<le> mem_upper info" "bit (mb_flags info) 6"
    and "mmap_of mmap_at (mmap_addr info) es (mmap_addr info + mmap_length info)"
    and "boot_ok B (s\<lparr>avl_mem := available es @ [(junk, UINT32_MAX)]\<rparr>)" "0x100000 \<le> K_END s" "length (input_buf s) = kKeyboardBufSize"
    and "imr_dev (dev (mach s))" "disk_answers (dev (mach s))" "keyboard_answers (dev (mach s))" "unat (ide_buffer lk) + 512 \<le> 0xbbfc"
  shows "\<exists>s' k. kernel_start lk mmap_at junk MULTIBOOT_BOOTLOADER_MAGIC info s = Ok (None, s') \<and> devices_up (addr_of_RunIde lk) (dev (mach s)) s' k \<and> bit (eflags (mach s')) 9"
proof -
  have "\<exists>s3. DriverInit lk s2 = Ok s3 \<and> devices_up (addr_of_RunIde lk) (dev (mach s)) s3 k \<and> con_ok (console s3)"
    if s2: "kernel_up s2 k t" "(kKVirtualAddr, block_order (K_END s)) \<in> held s2" "dev (mach s2) = dev (mach s)" "ths.more s2 = ths.more s"
    for s2 :: "'a ides_scheme" and k t
  proof -
    have "length (input_buf s2) = kKeyboardBufSize" using ths_more_ide [OF s2(4)] assms(7) by simp
    then obtain s3 where "DriverInit lk s2 = Ok s3" "devices_up (addr_of_RunIde lk) (dev (mach s)) s3 k"
      using drivers_present [OF s2(1,2) image_order [OF assms(6)]] assms(8-11) s2(3) by metis
    then show ?thesis by (auto simp: devices_up_def core_ok_def)
  qed
  then obtain s1 k c where r: "kernel_start lk mmap_at junk MULTIBOOT_BOOTLOADER_MAGIC info s = Ok (None, s1\<lparr>console := c, mach := intr_enable (mach s1)\<rparr>)"
      "devices_up (addr_of_RunIde lk) (dev (mach s)) s1 k" "con_ok c"
    using kernel_start_run [OF assms(1-5), of lk "devices_up (addr_of_RunIde lk) (dev (mach s))"] by blast
  have "bit (eflags (intr_enable (mach s1))) 9" by (simp add: intr_enable_def bit_simps)
  then show ?thesis using r(1) devices_up_cong [OF r(2,3)] by auto
qed

text \<open>A drive and a keyboard that answer in this way.\<close>

definition present_dev :: "io list \<Rightarrow> u16 \<Rightarrow> u8" where
  "present_dev tr p =
     (if p = kIdeStatusReg \<or> p = kAlternateStatusReg then 0x50
      else if p = kPs2StatusReg then 1
      else if p = kPs2DataPort then
        if last_out kPs2CmdReg tr = kCtrlSelfTest then 0x55 else if last_out kPs2CmdReg tr = kTestPort1 then 0 else 0xaa
      else last_out p tr)"

lemma present_dev_answers: "imr_dev present_dev" "disk_answers present_dev" "keyboard_answers present_dev"
proof -
  have "(0x50 :: u8) AND 0x80 = 0" by simp
  then show "imr_dev present_dev" "disk_answers present_dev"
    by (simp_all add: imr_dev_def disk_answers_def present_dev_def driver_ports kIdeBsy_def)
  show "keyboard_answers present_dev"
    by (simp add: keyboard_answers_def ps2_works_def ps2_accepts_def ps2_gives_def present_dev_def driver_ports kCtrlSelfTest_def kTestPort1_def kEnablePort1_def)
qed

definition start2 :: ides where
  "start2 = start0\<lparr>mach := mach0\<lparr>dev := present_dev\<rparr>\<rparr>"

end
