(* ===== verification/Dispatch.thy ===== *)
theory Dispatch
  imports ThreadProps Pic
begin

text \<open>
  Sequences of interrupts through the controllers, the descriptor table and \<^verbatim>\<open>IntrHandlerSel\<close> while the scheduler runs, one
  after another.  \<open>deliver1\<close> is one interrupt, whose number is in the saved registers: a request of the
  controllers' lines, the vectors 32 to 47, waits for ever when they hold it back; an interrupt whose gate is
  not present ends in a protection fault.  The lines in service are part of the state.
\<close>

definition deliver1 ::
    "'a ides_scheme sysfun option list \<Rightarrow> IntrReg \<Rightarrow> pic \<times> 'a ides_scheme \<Rightarrow> (pic \<times> 'a ides_scheme) kres" where
  "deliver1 tab r = (\<lambda>(c, s).
     let n = unat (intr_vec_no r); line = 32 \<le> n \<and> n < 48 in
     if line \<and> \<not> raised s c (n - 32) then None
     else if length (idt s) \<le> n \<or> \<not> gate_present (idt s ! n) then Fault Protection
     else
       kbind (IntrHandlerSel tab r s) (\<lambda>(_, s').
       Ok (pic_after (trace (mach s)) (trace (mach s')) (if line then pic_ack (n - 32) c else c), s')))"

primrec deliver ::
    "'a ides_scheme sysfun option list \<Rightarrow> IntrReg list \<Rightarrow> pic \<times> 'a ides_scheme \<Rightarrow> (pic \<times> 'a ides_scheme) kres" where
  "deliver tab [] x = Ok x"
| "deliver tab (r # rs) x = kbind (deliver1 tab r x) (deliver tab rs)"

lemma deliver_events: "deliver tab rs x = run_events (deliver1 tab) rs x"
proof (induction rs arbitrary: x)
  case (Cons r rs)
  have "deliver tab rs = run_events (deliver1 tab) rs" by (rule ext) (rule Cons)
  then show ?case by simp
qed simp

lemma deliver_append: "deliver tab (xs @ ys) x = kbind (deliver tab xs x) (deliver tab ys)"
proof (induction xs arbitrary: x)
  case (Cons r rs)
  have "deliver tab (rs @ ys) = (\<lambda>x. kbind (deliver tab rs x) (deliver tab ys))" by (rule ext) (rule Cons)
  then show ?case by (simp add: kbind_assoc)
qed simp

section \<open>What the handlers leave alone\<close>

text \<open>The tables of the interrupts, and what is let through and in service afterwards.\<close>

definition tables :: "'a ints_scheme \<Rightarrow> IntrGateDescriptor list \<times> u32 list \<times> u32 list \<times> handler option list" where
  "tables s = (idt s, intr_vec s, IntrVecMap s, intr_handler s)"

lemma tables_upd [simp]:
  "tables (s\<lparr>nxt := a\<rparr>) = tables s" "tables (s\<lparr>mach := m\<rparr>) = tables s" "tables (s\<lparr>console := c\<rparr>) = tables s" "tables (s\<lparr>tss_esp0 := w\<rparr>) = tables s"
  by (simp_all add: tables_def)

lemma tables_upd_ths [simp]: "tables (s\<lparr>th_esp := f\<rparr>) = tables s"
  by (simp add: tables_def)

lemma tables_upd_tms [simp]: "tables (s\<lparr>timer := n\<rparr>) = tables s"
  by (simp add: tables_def)

lemma kheap_more_mach: "kheap.more s' = kheap.more s \<Longrightarrow> mach s' = mach s"
  by (cases s; cases s') simp

lemma kheap_more_tables: "kheap.more s' = kheap.more s \<Longrightarrow> tables s' = tables s"
  by (cases s; cases s') (simp add: tables_def)

lemma queue_tables:
  "Dequeue q s = Ok (n, s') \<Longrightarrow> tables s' = tables s"
  "Enqueue q n s = Ok s' \<Longrightarrow> tables s' = tables s"
  by (auto dest: Dequeue_more Enqueue_more kheap_more_tables)

lemma ThreadSwitch_mach: "ThreadSwitch s = Ok s' \<Longrightarrow> trace (mach s') = trace (mach s) \<and> dev (mach s') = dev (mach s)"
  by (auto simp: ThreadSwitch_def call_SwitchReg_def SwitchReg_def wr_pcb_cr3_def SwitchPd_def Let_def eq_Ok intr_enable_def
      split: if_splits dest!: Dequeue_more Enqueue_more kheap_more_mach)

lemma ThreadSwitch_tables: "ThreadSwitch s = Ok s' \<Longrightarrow> tables s' = tables s"
  by (auto simp: ThreadSwitch_def call_SwitchReg_def SwitchReg_def wr_pcb_cr3_def SwitchPd_def Let_def eq_Ok split: if_splits dest!: queue_tables)

lemma SendEoi_more: "dev (mach (SendEoi v s)) = dev (mach s)"
  by (simp add: SendEoi_def koutb_def outb_def Let_def)

lemma SendEoi_tables: "tables (SendEoi v s) = tables s"
  by (simp add: SendEoi_def koutb_def outb_def Let_def)

text \<open>A handler ends the service of its line and changes neither the tables nor the masks.\<close>

definition acked :: "'a ints_scheme \<Rightarrow> 'a ints_scheme \<Rightarrow> bool" where
  "acked s s' \<longleftrightarrow> tables s' = tables s \<and> (\<exists>tr. trace (mach s') = OutB kMPicCmd kPicEoi # tr @ trace (mach s) \<and>
     (\<forall>x\<in>set tr. case x of OutB _ _ \<Rightarrow> False | _ \<Rightarrow> True))"

lemma in_only:
  assumes "\<forall>x\<in>set tr. case x of OutB _ _ \<Rightarrow> False | _ \<Rightarrow> True"
  shows "foldr pic_io tr c = c" "last_out p (tr @ tr') = last_out p tr'"
  using assms by (induction tr) (auto split: io.splits)

lemma acked_pic:
  assumes "acked s s'"
  shows "irq < 8 \<Longrightarrow> pic_after (trace (mach s)) (trace (mach s')) (pic_ack irq pic_idle) = pic_idle"
    "pic_after (trace (mach s)) (trace (mach s')) pic_idle = pic_idle" "irq_masked s' irq' = irq_masked s irq'"
proof -
  obtain tr where tr: "trace (mach s') = (OutB kMPicCmd kPicEoi # tr) @ trace (mach s)" "\<forall>x\<in>set tr. case x of OutB _ _ \<Rightarrow> False | _ \<Rightarrow> True"
    using assms by (auto simp: acked_def)
  have "pic_after (trace (mach s)) (trace (mach s')) c = pic_io (OutB kMPicCmd kPicEoi) c" for c
    unfolding tr(1) by (simp only: pic_after_app) (simp add: in_only(1) [OF tr(2)])
  then show "irq < 8 \<Longrightarrow> pic_after (trace (mach s)) (trace (mach s')) (pic_ack irq pic_idle) = pic_idle"
    "pic_after (trace (mach s)) (trace (mach s')) pic_idle = pic_idle"
    using ack_end by (auto simp: pic_idle_def)
  have "kMPicCmd \<noteq> (if irq' < 8 then kMPicData else kSPicData)" by (simp add: kMPicCmd_def kMPicData_def kSPicData_def)
  then show "irq_masked s' irq' = irq_masked s irq'" unfolding irq_masked_def tr(1) by (simp add: in_only(2) [OF tr(2)])
qed

lemma TimerHandler_acked:
  assumes "TimerHandler r s = Ok s'" "unat (intr_vec_no r) < 40"
  shows "acked s s'" "dev (mach s') = dev (mach s)"
proof -
  let ?s = "SendEoi (intr_vec_no r) (s\<lparr>timer := timer s - 1\<rparr>)"
  have "trace (mach s') = trace (mach ?s) \<and> dev (mach s') = dev (mach ?s)"
    using assms(1) by (auto simp: TimerHandler_def Let_def eq_Ok kprintf_eq_Ok split: if_splits dest!: ThreadSwitch_mach)
  moreover have "tables s' = tables ?s"
    using assms(1) by (auto simp: TimerHandler_def Let_def eq_Ok kprintf_eq_Ok split: if_splits dest!: ThreadSwitch_tables)
  ultimately show "acked s s'" "dev (mach s') = dev (mach s)"
    using assms(2) by (auto simp: acked_def SendEoi_first SendEoi_more SendEoi_tables intro!: exI [of _ "[]"])
qed

section \<open>Exceptions\<close>

lemma itoa_exception: "unat v < 32 \<Longrightarrow> \<exists>buf. itoa CHR ''d'' v = Ok buf \<and> fmt_ok buf []"
proof -
  assume "unat v < 32"
  then have "unat v \<in> set [0..<32]" by simp
  moreover have "list_all (\<lambda>n. case itoa CHR ''d'' (word_of_nat n) of Some (Inr buf) \<Rightarrow> fmt_ok buf [] | _ \<Rightarrow> False) [0..<32]" by code_simp
  ultimately have "case itoa CHR ''d'' (word_of_nat (unat v)) of Some (Inr buf) \<Rightarrow> fmt_ok buf [] | _ \<Rightarrow> False"
    unfolding list_all_iff by blast
  then show ?thesis by (auto split: option.splits sum.splits)
qed

lemma ExcHandler_step:
  assumes "slice_ok s xs m" "unat (intr_vec_no r) < 32"
  shows "\<exists>s'. ExcHandler r s = Ok s' \<and> slice_ok s' xs m \<and> acked s s'"
proof -
  have c0: "con_ok (console s)" using assms(1) by (simp add: slice_ok_def)
  obtain buf where buf: "itoa CHR ''d'' (intr_vec_no r) = Ok buf" "fmt_ok buf []" using itoa_exception [OF assms(2)] by blast
  obtain c1 where c1: "kprintf ''handling interrupt '' [] s = Ok (s\<lparr>console := c1\<rparr>)" "con_ok c1"
    using kprintf_ok [OF c0, of "''handling interrupt ''" "[]"] by (auto simp: con_step_def)
  obtain c2 where c2: "kprintf buf [] (s\<lparr>console := c1\<rparr>) = Ok (s\<lparr>console := c2\<rparr>)" "con_ok c2"
    using kprintf_ok [OF _ buf(2), of "s\<lparr>console := c1\<rparr>"] c1(2) by (auto simp: con_step_def)
  obtain c3 where c3: "kprintf [CHR 0x0A] [] (s\<lparr>console := c2\<rparr>) = Ok (s\<lparr>console := c3\<rparr>)" "con_ok c3"
    using kprintf_ok [of "s\<lparr>console := c2\<rparr>" "[CHR 0x0A]" "[]"] c2(2) by (auto simp: con_step_def)
  let ?s = "SendEoi (intr_vec_no r) (s\<lparr>console := c3\<rparr>)"
  have "ExcHandler r s = Ok ?s" using c1(1) buf(1) c2(1) c3(1) by (simp add: ExcHandler_def)
  moreover have "slice_ok ?s xs m" using assms(1) c3(2) by (simp add: slice_ok_def)
  moreover have "acked s ?s" using assms(2) by (auto simp: acked_def SendEoi_first SendEoi_more SendEoi_tables intro!: exI [of _ "[]"])
  ultimately show ?thesis by blast
qed

section \<open>The timer among exceptions\<close>

definition is_tick :: "IntrReg \<Rightarrow> bool" where
  "is_tick r \<longleftrightarrow> intr_vec_no r = kTimerVec"

text \<open>The interrupts that may come: of the timer, and exceptions whose handler is the default one.\<close>

definition tame :: "handler option list \<Rightarrow> IntrReg \<Rightarrow> bool" where
  "tame hs r \<longleftrightarrow> is_tick r \<or> unat (intr_vec_no r) < kIdtExcNum \<and> hs ! unat (intr_vec_no r) = Some H_Exc"

text \<open>A kernel with the handlers \<open>hs\<close> that runs the threads \<open>xs\<close>, with no interrupt in service.\<close>

definition running :: "handler option list \<Rightarrow> pic \<times> 'a ides_scheme \<Rightarrow> u32 list \<Rightarrow> nat \<Rightarrow> bool" where
  "running hs = (\<lambda>(c, s) xs m. c = pic_idle \<and> slice_ok s xs m \<and> gates_match s \<and> intr_handler s = hs \<and> hs ! 32 = Some H_Timer \<and> \<not> irq_masked s 0)"

lemma gates_match_tables: "tables s' = tables s \<Longrightarrow> gates_match s' = gates_match s \<and> intr_handler s' = intr_handler s"
  by (simp add: tables_def gates_match_def tables256_def)

lemma deliver1_handled:
  assumes g: "gates_match s" "intr_handler s ! n = Some h" "n < 256" and n: "unat (intr_vec_no r) = n"
    and l: "32 \<le> n \<and> n < 48 \<Longrightarrow> raised s c (n - 32)" and h: "run_handler tab h r s = Ok (r', s')"
  shows "deliver1 tab r (c, s) = Ok (pic_after (trace (mach s)) (trace (mach s')) (if 32 \<le> n \<and> n < 48 then pic_ack (n - 32) c else c), s')"
proof -
  have "length (idt s) = 256" "length (intr_handler s) = 256" "gate_present (idt s ! n)" using g by (auto simp: gates_match_def tables256_def)
  then show ?thesis using g(2,3) l h by (simp add: deliver1_def Let_def n IntrHandlerSel_def)
qed

lemma deliver_step:
  assumes run: "running hs (c, s) xs m" and r: "tame hs r"
  shows "\<exists>s'. deliver1 tab r (c, s) = Ok (pic_idle, s') \<and>
    (if is_tick r then if m = 1 then running hs (pic_idle, s') (rotate1 xs) 15 else running hs (pic_idle, s') xs (m - 1)
     else running hs (pic_idle, s') xs m)"
proof -
  have s: "c = pic_idle" "slice_ok s xs m" "gates_match s" "intr_handler s = hs" "hs ! 32 = Some H_Timer" "\<not> irq_masked s 0"
    using run by (auto simp: running_def)
  have keep: "running hs (pic_idle, s') ys k" if "acked s s'" "slice_ok s' ys k" for s' ys k
    using that s acked_pic(3) [OF that(1)] gates_match_tables [of s' s] by (auto simp: running_def acked_def)
  show ?thesis
  proof (cases "is_tick r")
    case True
    then have n: "unat (intr_vec_no r) = 32" by (simp add: is_tick_def kTimerVec_def)
    obtain s' where s': "TimerHandler r s = Ok s'" "if m = 1 then slice_ok s' (rotate1 xs) 15 else slice_ok s' xs (m - 1)"
      using TimerHandler_step [OF s(2)] by blast
    have a: "acked s s'" using TimerHandler_acked(1) [OF s'(1)] n by simp
    have "raised s c 0" using s(1,6) by (simp add: raised_def kIrqSlave_def)
    then have "deliver1 tab r (c, s) = Ok (pic_idle, s')"
      using deliver1_handled [OF s(3), of 32 H_Timer r c tab r s'] s s'(1) n acked_pic(1) [OF a, of 0] by (simp add: run_handler_def)
    then show ?thesis using True s'(2) keep [OF a] by (auto split: if_splits)
  next
    case False
    let ?n = "unat (intr_vec_no r)"
    have n: "?n < 32" "hs ! ?n = Some H_Exc" using r False by (auto simp: tame_def kIdtExcNum_def)
    obtain s' where s': "ExcHandler r s = Ok s'" "slice_ok s' xs m" "acked s s'" using ExcHandler_step [OF s(2) n(1)] by blast
    have "deliver1 tab r (c, s) = Ok (pic_idle, s')"
      using deliver1_handled [OF s(3), of ?n H_Exc r c tab r s'] s s'(1) n acked_pic(2) [OF s'(3)] by (simp add: run_handler_def)
    then show ?thesis using False keep [OF s'(3,2)] by auto
  qed
qed

interpretation dsp: sliced "deliver1 tab" is_tick "tame hs" "\<lambda>_. 0" "\<lambda>x xs m _. running hs x xs m"
  for tab :: "'a ides_scheme sysfun option list" and hs
proof
  fix x :: "pic \<times> 'a ides_scheme" and xs m r
  assume r: "running hs x xs m"
  then show "0 < m \<and> m \<le> 15" by (cases x) (auto simp: running_def slice_ok_def)
  assume "tame hs r"
  with r obtain s' where "deliver1 tab r x = Ok (pic_idle, s')"
      "if is_tick r then if m = 1 then running hs (pic_idle, s') (rotate1 xs) 15 else running hs (pic_idle, s') xs (m - 1)
       else running hs (pic_idle, s') xs m"
    using deliver_step [of hs "fst x" "snd x" xs m r tab] by auto
  then show "\<exists>x'. deliver1 tab r x = Ok x' \<and>
      (if is_tick r then if m = 1 then running hs x' (rotate1 xs) 15 else running hs x' xs (m - 1) else running hs x' xs m)"
    by blast
qed

text \<open>
  C8: interrupts do not disturb the scheduler.  In a kernel with the timer's handler registered and its line let through, whatever other handlers
  there are, every sequence of timer interrupts and of exceptions with the default handler is handled, in any
  order: each of them finds its gate present, and each request of the timer reaches the processor because the one before
  has been acknowledged.  Exceptions change nothing of the schedule; every fifteenth timer interrupt switches threads, so that the
  running thread is determined by the number of timer interrupts alone.  An exception without a handler, in contrast, ends in a protection fault
  at any moment, because its gate is absent.
\<close>

theorem interrupts_keep_schedule:
  assumes "slice_ok s xs m" "gates_match s" "intr_handler s ! 32 = Some H_Timer" "\<not> irq_masked s 0" "\<forall>r\<in>set rs. tame (intr_handler s) r"
  shows "(\<exists>s'. deliver tab rs (pic_idle, s) = Ok (pic_idle, s') \<and>
      GetCurThread s' = Ok (xs ! ((length (filter is_tick rs) + 15 - m) div 15 mod length xs)) \<and>
      unat (timer s') = 15 - (length (filter is_tick rs) + 15 - m) mod 15) \<and>
    (\<forall>r. unat (intr_vec_no r) < kIdtExcNum \<and> intr_handler s ! unat (intr_vec_no r) = None \<longrightarrow>
      deliver tab (rs @ [r]) (pic_idle, s) = Fault Protection)"
proof -
  let ?k = "(length (filter is_tick rs) + 15 - m) div 15" and ?hs = "intr_handler s"
  have "running ?hs (pic_idle, s) xs m" using assms by (simp add: running_def)
  then obtain s' where s': "deliver tab rs (pic_idle, s) = Ok (pic_idle, s')"
      "running ?hs (pic_idle, s') (rotate ?k xs) (15 - (length (filter is_tick rs) + 15 - m) mod 15)"
    using dsp.events_run [of ?hs "(pic_idle, s)" xs m rs 0 tab] assms(5) unfolding deliver_events by (fastforce simp: running_def)
  have "xs \<noteq> []" using assms(1) by (simp add: slice_ok_def sched_defs)
  then have "GetCurThread s' = Ok (xs ! (?k mod length xs))"
    using s'(2) sched_cur [of s' "rotate ?k xs"] by (auto simp: running_def slice_ok_def hd_rotate_conv_nth)
  moreover have "deliver1 tab r (pic_idle, s') = Fault Protection" if "unat (intr_vec_no r) < 32" "?hs ! unat (intr_vec_no r) = None" for r
    using s'(2) that by (auto simp: running_def gates_match_def tables256_def deliver1_def Let_def)
  ultimately show ?thesis using s' by (auto simp: running_def slice_ok_def deliver_append kIdtExcNum_def)
qed

text \<open>Three threads in a kernel that has booted without its devices.\<close>

definition drv1 :: ides where
  "drv1 = drv0\<lparr>intr_handler := map boot_handlers_timer [0..<256],
     idt := map (\<lambda>v. zero_gate\<lparr>gate_type := if boot_handlers_timer v = None then 0x0e00 else 0x8e00\<rparr>) [0..<256]\<rparr>"

lemma drv1_slice: "slice_ok drv1 [0x1000, 0x2000, 0x3000] 15"
proof -
  have "sched drv1 [0x1000, 0x2000, 0x3000] = sched drv0 [0x1000, 0x2000, 0x3000]" by (rule sched_cong) (simp_all add: drv1_def)
  then show ?thesis using drv0_slice by (simp add: slice_ok_def drv1_def)
qed

lemma drv1_intr: "gates_match drv1" "intr_handler drv1 ! 32 = Some H_Timer" "\<not> irq_masked drv1 0"
proof -
  have "gate_present \<lparr>offset_0_15 = 0, seg_sel = 0, gate_type = 0x8e00, offset_16_31 = 0\<rparr>"
      "\<not> gate_present \<lparr>offset_0_15 = 0, seg_sel = 0, gate_type = 0x0e00, offset_16_31 = 0\<rparr>" by code_simp+
  then show "gates_match drv1" by (simp add: gates_match_def tables256_def drv1_def drv0_defs zero_gate_def)
  show "intr_handler drv1 ! 32 = Some H_Timer" by (simp add: drv1_def boot_handlers_timer_def)
  show "\<not> irq_masked drv1 0" by (simp add: irq_masked_def drv1_def drv0_defs mach0_def)
qed

theorem interrupts_keep_schedule_witness:
  "(\<exists>s'. deliver syscall_table (replicate 9 (ireg0\<lparr>intr_vec_no := 32\<rparr>) @ [ireg0\<lparr>intr_vec_no := 3\<rparr>] @ replicate 6 (ireg0\<lparr>intr_vec_no := 32\<rparr>))
      (pic_idle, drv1) = Ok (pic_idle, s') \<and> GetCurThread s' = Ok 0x2000) \<and>
   deliver syscall_table ((replicate 9 (ireg0\<lparr>intr_vec_no := 32\<rparr>) @ [ireg0\<lparr>intr_vec_no := 3\<rparr>] @ replicate 6 (ireg0\<lparr>intr_vec_no := 32\<rparr>)) @
      [ireg0\<lparr>intr_vec_no := 13\<rparr>]) (pic_idle, drv1) = Fault Protection"
proof -
  let ?rs = "replicate 9 (ireg0\<lparr>intr_vec_no := 32\<rparr>) @ [ireg0\<lparr>intr_vec_no := 3\<rparr>] @ replicate 6 (ireg0\<lparr>intr_vec_no := 32\<rparr>)"
  have t: "\<forall>r\<in>set ?rs. tame (intr_handler drv1) r"
    by (auto simp: tame_def is_tick_def kTimerVec_def kIdtExcNum_def drv1_def boot_handlers_timer_def boot_handlers_def)
  have n: "length (filter is_tick ?rs) = 15" by (simp add: is_tick_def kTimerVec_def)
  have h: "unat (intr_vec_no (ireg0\<lparr>intr_vec_no := 13\<rparr>)) < kIdtExcNum \<and>
      intr_handler drv1 ! unat (intr_vec_no (ireg0\<lparr>intr_vec_no := 13\<rparr>)) = None"
    by (simp add: kIdtExcNum_def drv1_def boot_handlers_timer_def boot_handlers_def)
  note w = interrupts_keep_schedule [OF drv1_slice drv1_intr t, of syscall_table]
  have "\<exists>s'. deliver syscall_table ?rs (pic_idle, drv1) = Ok (pic_idle, s') \<and> GetCurThread s' = Ok 0x2000"
    using conjunct1 [OF w] unfolding n by auto
  then show ?thesis using conjunct2 [OF w, rule_format, OF h] by blast
qed

end
