(* ===== verification/Entry.thy ===== *)
theory Entry
  imports Kernel
begin

text \<open>
  \<^verbatim>\<open>kernel/interrupt/intr_entry.S\<close> and \<^verbatim>\<open>intr_vec.S\<close>: the way from an interrupt of the processor to \<^verbatim>\<open>IntrHandlerSel\<close> and back.

  The registers are a record; \<open>stk\<close> is the stack that the interrupt uses, in 16-bit units from
  its top on, because the structure \<^verbatim>\<open>IntrReg\<close> mixes 16-bit and 32-bit fields.  The structure is not copied: the
  assembly pushes its fields, and the C code reads and writes them where they are on the stack.
  \<open>intr_vec_stub n\<close> is the entry \<^verbatim>\<open>intr_vecn\<close>, which pushes an error code for the exceptions that have none.
\<close>

unbundle bit_operations_syntax

record cpu =
  c_eax :: u32
  c_ecx :: u32
  c_edx :: u32
  c_ebx :: u32
  c_esp :: u32
  c_ebp :: u32
  c_esi :: u32
  c_edi :: u32
  c_ds :: u16
  c_es :: u16
  c_fs :: u16
  c_gs :: u16
  c_ss :: u16
  c_cs :: u16
  c_eip :: u32
  c_eflags :: u32
  stk :: "u16 list"

section \<open>Stack instructions\<close>

definition pushw :: "u16 \<Rightarrow> cpu \<Rightarrow> cpu" where
  "pushw v c = c\<lparr>stk := v # stk c, c_esp := c_esp c - 2\<rparr>"

definition pushl :: "u32 \<Rightarrow> cpu \<Rightarrow> cpu" where
  "pushl v c = c\<lparr>stk := ucast v # ucast (drop_bit 16 v) # stk c, c_esp := c_esp c - 4\<rparr>"

definition word_of_halves :: "u16 \<Rightarrow> u16 \<Rightarrow> u32" where
  "word_of_halves lo hi = ucast lo OR push_bit 16 (ucast hi)"

definition popw :: "cpu \<Rightarrow> (u16 \<times> cpu) kres" where
  "popw c = (case stk c of
       v # st \<Rightarrow> Ok (v, c\<lparr>stk := st, c_esp := c_esp c + 2\<rparr>)
     | _ \<Rightarrow> Fault OutOfBounds)"

definition popl :: "cpu \<Rightarrow> (u32 \<times> cpu) kres" where
  "popl c = (case stk c of
       lo # hi # st \<Rightarrow> Ok (word_of_halves lo hi, c\<lparr>stk := st, c_esp := c_esp c + 4\<rparr>)
     | _ \<Rightarrow> Fault OutOfBounds)"

definition pushal :: "cpu \<Rightarrow> cpu" where
  "pushal c = (pushl (c_edi c) \<circ> pushl (c_esi c) \<circ> pushl (c_ebp c) \<circ> pushl (c_esp c) \<circ>
     pushl (c_ebx c) \<circ> pushl (c_edx c) \<circ> pushl (c_ecx c) \<circ> pushl (c_eax c)) c"

text \<open>\<^verbatim>\<open>popal\<close> skips the stack pointer that \<^verbatim>\<open>pushal\<close> has saved.\<close>

definition popal :: "cpu \<Rightarrow> cpu kres" where
  "popal c =
     kbind (popl c) (\<lambda>(v, c). let c = c\<lparr>c_edi := v\<rparr> in
     kbind (popl c) (\<lambda>(v, c). let c = c\<lparr>c_esi := v\<rparr> in
     kbind (popl c) (\<lambda>(v, c). let c = c\<lparr>c_ebp := v\<rparr> in
     kbind (popl c) (\<lambda>(_, c).
     kbind (popl c) (\<lambda>(v, c). let c = c\<lparr>c_ebx := v\<rparr> in
     kbind (popl c) (\<lambda>(v, c). let c = c\<lparr>c_edx := v\<rparr> in
     kbind (popl c) (\<lambda>(v, c). let c = c\<lparr>c_ecx := v\<rparr> in
     kbind (popl c) (\<lambda>(v, c). Ok (c\<lparr>c_eax := v\<rparr>)))))))))"

text \<open>\<^verbatim>\<open>movw\<close> to \<^verbatim>\<open>%ax\<close> keeps the upper half of \<^verbatim>\<open>%eax\<close>.\<close>

definition set_ax :: "u16 \<Rightarrow> cpu \<Rightarrow> cpu" where
  "set_ax v c = c\<lparr>c_eax := (c_eax c AND 0xffff0000) OR ucast v\<rparr>"

definition get_ax :: "cpu \<Rightarrow> u16" where
  "get_ax c = ucast (c_eax c)"

section \<open>The processor\<close>

text \<open>
  What the processor does at an interrupt, as its manual says.  The gate must be present, and must not lead to
  a less privileged ring.  From ring 3 to ring 0 it changes to the stack of the task segment, whose segment must be the
  writable one of ring 0, and saves the old stack pointer.  It saves the flags and the return address, pushes
  an error code for some exceptions and loads the code segment and address of the gate; it disables interrupts
  unless the gate is a trap gate.  \<^verbatim>\<open>cli\<close> is for the rings up to the I/O privilege level of the flags.
\<close>

definition pushes_error :: "nat \<Rightarrow> bool" where
  "pushes_error n \<longleftrightarrow> n \<in> {8, 10, 11, 12, 13, 14, 17, 21}"

definition ring3 :: "u16 \<Rightarrow> bool" where
  "ring3 sel \<longleftrightarrow> sel AND 3 = 3"

definition clear_if :: "cpu \<Rightarrow> cpu" where
  "clear_if c = c\<lparr>c_eflags := c_eflags c AND NOT 0x200\<rparr>"

definition cli :: "cpu \<Rightarrow> cpu kres" where
  "cli c = (if ring3 (c_cs c) \<and> c_eflags c AND 0x3000 \<noteq> 0x3000 then Fault Protection else Ok (clear_if c))"

definition change_stack :: "u16 \<Rightarrow> u32 \<Rightarrow> cpu \<Rightarrow> cpu kres" where
  "change_stack ss0 esp0 c =
     (if ss0 = ucast kKDataSeg
      then Ok (pushl (c_esp c) (pushl (ucast (c_ss c)) (c\<lparr>c_esp := esp0, c_ss := ss0\<rparr>)))
      else Fault Protection)"

definition cpu_enter :: "u16 \<Rightarrow> u32 \<Rightarrow> IntrGateDescriptor \<Rightarrow> nat \<Rightarrow> u32 \<Rightarrow> cpu \<Rightarrow> cpu kres" where
  "cpu_enter ss0 esp0 g n err c =
     (if \<not> gate_present g \<or> \<not> ring3 (c_cs c) \<and> ring3 (seg_sel g) then Fault Protection
      else
        kbind (if ring3 (c_cs c) \<and> \<not> ring3 (seg_sel g) then change_stack ss0 esp0 c else Ok c) (\<lambda>c1.
        let c2 = pushl (c_eip c) (pushl (ucast (c_cs c)) (pushl (c_eflags c) c1));
            c3 = (if pushes_error n then pushl err c2 else c2)\<lparr>c_cs := seg_sel g, c_eip := gate_offset g\<rparr> in
        Ok (if bit (gate_type g) 8 then c3 else clear_if c3)))"

definition iret :: "cpu \<Rightarrow> cpu kres" where
  "iret c =
     kbind (popl c) (\<lambda>(ip, c).
     kbind (popl c) (\<lambda>(sel, c).
     kbind (popl c) (\<lambda>(fl, c).
     let c = c\<lparr>c_eip := ip, c_cs := ucast sel, c_eflags := fl\<rparr> in
     if ring3 (ucast sel) then
       kbind (popl c) (\<lambda>(sp, c).
       kbind (popl c) (\<lambda>(seg, c).
       Ok (c\<lparr>c_esp := sp, c_ss := ucast seg\<rparr>)))
     else Ok c)))"

section \<open>The structure on the stack\<close>

definition halves :: "u32 \<Rightarrow> u16 list" where
  "halves v = [ucast v, ucast (drop_bit 16 v)]"

definition reg_halves :: "IntrReg \<Rightarrow> u16 list" where
  "reg_halves r = [ir_ds r, ir_es r, ir_fs r, ir_gs r] @
     concat (map halves [p_edi r, p_esi r, p_ebp r, p_esp r, p_ebx r, p_edx r, p_ecx r, p_eax r,
       intr_vec_no r, err_code r, ir_eip r, ir_cs r, ir_eflags r, ir_esp r]) @ [ir_ss r]"

definition reg_of :: "u16 list \<Rightarrow> IntrReg" where
  "reg_of st = (let w = (\<lambda>i. word_of_halves (st ! i) (st ! Suc i)) in
     \<lparr>ir_ds = st ! 0, ir_es = st ! 1, ir_fs = st ! 2, ir_gs = st ! 3,
      p_edi = w 4, p_esi = w 6, p_ebp = w 8, p_esp = w 10, p_ebx = w 12, p_edx = w 14, p_ecx = w 16, p_eax = w 18,
      intr_vec_no = w 20, err_code = w 22, ir_eip = w 24, ir_cs = w 26, ir_eflags = w 28, ir_esp = w 30, ir_ss = st ! 32\<rparr>)"

section \<open>The entry code\<close>

definition intr_vec_stub :: "nat \<Rightarrow> cpu \<Rightarrow> cpu kres" where
  "intr_vec_stub n c =
     kbind (cli c) (\<lambda>c.
     Ok (pushl (of_nat n) (if n \<in> {8, 10, 11, 12, 13, 14, 17, 21} then c else pushl 0 c)))"

text \<open>
  The call of \<^verbatim>\<open>IntrHandlerSel\<close> is the parameter \<open>h\<close>.  It gets the structure on the stack below the pushed pointer and may
  change it; the three registers that a C function need not preserve are \<open>junk\<close> afterwards.  The stack is that of the interrupted thread: when the handler
  switches threads, the return from the call is the moment at which that thread is switched back to.
\<close>

definition call_handler ::
    "(IntrReg \<Rightarrow> 's \<Rightarrow> (IntrReg \<times> 's) kres) \<Rightarrow> u32 \<times> u32 \<times> u32 \<Rightarrow> cpu \<times> 's \<Rightarrow> (cpu \<times> 's) kres" where
  "call_handler h junk = (\<lambda>(c, s).
     if length (stk c) < 35 then Fault OutOfBounds
     else
       kbind (h (reg_of (drop 2 (stk c))) s) (\<lambda>(r, s).
       Ok (c\<lparr>stk := take 2 (stk c) @ reg_halves r @ drop 35 (stk c),
             c_eax := fst junk, c_ecx := fst (snd junk), c_edx := snd (snd junk)\<rparr>, s)))"

definition push_segs :: "cpu \<Rightarrow> cpu" where
  "push_segs c =
     (let c = set_ax (c_gs c) c; c = pushw (get_ax c) c;
          c = set_ax (c_fs c) c; c = pushw (get_ax c) c;
          c = set_ax (c_es c) c; c = pushw (get_ax c) c;
          c = set_ax (c_ds c) c in
      pushw (get_ax c) c)"

definition load_kernel_segs :: "cpu \<Rightarrow> cpu" where
  "load_kernel_segs c =
     (let c = c\<lparr>c_eax := ucast kKDataSeg\<rparr> in
      c\<lparr>c_ds := get_ax c, c_es := get_ax c, c_fs := get_ax c, c_gs := get_ax c\<rparr>)"

definition pop_segs :: "cpu \<Rightarrow> cpu kres" where
  "pop_segs c =
     kbind (popw c) (\<lambda>(v, c). let c = set_ax v c; c = c\<lparr>c_ds := get_ax c\<rparr> in
     kbind (popw c) (\<lambda>(v, c). let c = set_ax v c; c = c\<lparr>c_es := get_ax c\<rparr> in
     kbind (popw c) (\<lambda>(v, c). let c = set_ax v c; c = c\<lparr>c_fs := get_ax c\<rparr> in
     kbind (popw c) (\<lambda>(v, c). let c = set_ax v c in Ok (c\<lparr>c_gs := get_ax c\<rparr>)))))"

definition alltraps ::
    "(IntrReg \<Rightarrow> 's \<Rightarrow> (IntrReg \<times> 's) kres) \<Rightarrow> u32 \<times> u32 \<times> u32 \<Rightarrow> cpu \<times> 's \<Rightarrow> (cpu \<times> 's) kres" where
  "alltraps h junk = (\<lambda>(c, s).
     let c = load_kernel_segs (push_segs (pushal c)) in
     kbind (call_handler h junk (pushl (c_esp c) c, s)) (\<lambda>(c, s).
     kbind (popl c) (\<lambda>(sp, c). let c = c\<lparr>c_esp := sp\<rparr> in
     kbind (pop_segs c) (\<lambda>c.
     kbind (popal c) (\<lambda>c.
     let c = c\<lparr>stk := drop 4 (stk c), c_esp := c_esp c + 8\<rparr> in
     kbind (iret c) (\<lambda>c. Ok (c, s)))))))"

text \<open>An interrupt from its arrival to the return to the interrupted code.\<close>

definition take_interrupt ::
    "(IntrReg \<Rightarrow> 's \<Rightarrow> (IntrReg \<times> 's) kres) \<Rightarrow> u32 \<times> u32 \<times> u32 \<Rightarrow> u16 \<Rightarrow> u32 \<Rightarrow> IntrGateDescriptor \<Rightarrow> nat \<Rightarrow> u32 \<Rightarrow> cpu \<Rightarrow> 's \<Rightarrow>
     (cpu \<times> 's) kres" where
  "take_interrupt h junk ss0 esp0 g n err c s =
     kbind (cpu_enter ss0 esp0 g n err c) (\<lambda>c.
     kbind (intr_vec_stub n c) (\<lambda>c.
     alltraps h junk (c, s)))"

section \<open>What the entry code achieves\<close>

lemma word_of_halves [simp]: "word_of_halves (ucast v) (ucast (drop_bit 16 v)) = v"
  by (intro bit_word_eqI) (auto simp: word_of_halves_def bit_simps)

lemma upper_half: "n < 16 \<Longrightarrow> \<not> bit (0xffff0000 :: int) n"
proof -
  assume "n < 16"
  then have "\<not> bit (push_bit 16 0xffff :: int) n" unfolding bit_push_bit_iff by simp
  then show ?thesis by simp
qed

lemma lower_half [simp]: "ucast ((x AND 0xffff0000 :: u32) OR ucast v) = (v :: u16)"
  by (intro bit_word_eqI) (auto simp: bit_simps upper_half)

lemmas ax_defs = get_ax_def set_ax_def

lemma reg_of_halves: "reg_of (reg_halves r @ st) = r"
  by (cases r) (simp add: reg_of_def reg_halves_def halves_def Let_def)

lemma length_reg_halves [simp]: "length (reg_halves r) = 33"
  by (simp add: reg_halves_def halves_def)

lemma pushal_eq:
  "pushal c = c\<lparr>c_esp := c_esp c - 32,
     stk := concat (map halves [c_edi c, c_esi c, c_ebp c, c_esp c, c_ebx c, c_edx c, c_ecx c, c_eax c]) @ stk c\<rparr>"
  by (simp add: pushal_def pushl_def halves_def)

lemma push_segs_eq: "\<exists>a. push_segs c = c\<lparr>c_eax := a, c_esp := c_esp c - 8, stk := [c_ds c, c_es c, c_fs c, c_gs c] @ stk c\<rparr>"
  by (rule exI [where x = "c_eax (push_segs c)"]) (simp add: push_segs_def Let_def pushw_def ax_defs)

lemma entered:
  "load_kernel_segs (push_segs (pushal c)) =
     c\<lparr>c_eax := 0x10, c_ds := 0x10, c_es := 0x10, c_fs := 0x10, c_gs := 0x10, c_esp := c_esp c - 40,
       stk := [c_ds c, c_es c, c_fs c, c_gs c] @
         concat (map halves [c_edi c, c_esi c, c_ebp c, c_esp c, c_ebx c, c_edx c, c_ecx c, c_eax c]) @ stk c\<rparr>"
proof -
  obtain a where "push_segs (pushal c) = (pushal c)\<lparr>c_eax := a, c_esp := c_esp (pushal c) - 8,
      stk := [c_ds (pushal c), c_es (pushal c), c_fs (pushal c), c_gs (pushal c)] @ stk (pushal c)\<rparr>"
    using push_segs_eq by blast
  then show ?thesis by (simp add: load_kernel_segs_def pushal_eq get_ax_def kKDataSeg_def)
qed

lemma pop_segs_eq:
  assumes "stk c = [v1, v2, v3, v4] @ st"
  shows "\<exists>a. pop_segs c = Ok (c\<lparr>c_eax := a, c_ds := v1, c_es := v2, c_fs := v3, c_gs := v4, c_esp := c_esp c + 8, stk := st\<rparr>)"
  using assms
  by (intro exI [where x = "c_eax (set_ax v4 (set_ax v3 (set_ax v2 (set_ax v1 c))))"])
    (simp add: pop_segs_def popw_def Let_def ax_defs)

lemma popl_eq: "stk c = halves v @ st \<Longrightarrow> popl c = Ok (v, c\<lparr>stk := st, c_esp := c_esp c + 4\<rparr>)"
  by (simp add: popl_def halves_def)

lemma popal_eq:
  "stk c = concat (map halves [v1, v2, v3, v4, v5, v6, v7, v8]) @ st \<Longrightarrow>
   popal c = Ok (c\<lparr>c_edi := v1, c_esi := v2, c_ebp := v3, c_ebx := v5, c_edx := v6, c_ecx := v7, c_eax := v8,
     c_esp := c_esp c + 32, stk := st\<rparr>)"
  by (simp add: popal_def popl_eq Let_def)

lemma halves_word [simp]: "halves (word_of_halves lo hi) = [lo, hi]"
proof -
  have "ucast (word_of_halves lo hi) = lo" "ucast (drop_bit 16 (word_of_halves lo hi)) = hi"
    by (intro bit_word_eqI; auto simp: word_of_halves_def bit_simps dest: bit_imp_le_length)+
  then show ?thesis by (simp add: halves_def)
qed

lemma length_halves [simp]: "length (halves v) = 2"
  by (simp add: halves_def)

text \<open>
  The registers of the interrupted code as the structure holds them: \<open>c\<close> when the entry code starts, and what
  is on the stack by then.
\<close>

definition saved_regs :: "cpu \<Rightarrow> u32 \<Rightarrow> u32 \<Rightarrow> u32 \<Rightarrow> u32 \<Rightarrow> u32 \<Rightarrow> u32 \<Rightarrow> u16 \<Rightarrow> IntrReg" where
  "saved_regs c n e ip sel fl sp ss =
     \<lparr>ir_ds = c_ds c, ir_es = c_es c, ir_fs = c_fs c, ir_gs = c_gs c, p_edi = c_edi c, p_esi = c_esi c, p_ebp = c_ebp c,
      p_esp = c_esp c, p_ebx = c_ebx c, p_edx = c_edx c, p_ecx = c_ecx c, p_eax = c_eax c, intr_vec_no = n, err_code = e,
      ir_eip = ip, ir_cs = sel, ir_eflags = fl, ir_esp = sp, ir_ss = ss\<rparr>"

lemma alltraps_run:
  assumes st: "stk c = concat (map halves [n, e, ip, sel, fl, sp]) @ ss # rest"
    and h: "h (saved_regs c n e ip sel fl sp ss) s = Ok ((saved_regs c n e ip sel fl sp ss)\<lparr>p_eax := a\<rparr>, s')"
  shows "alltraps h junk (c, s) =
    kbind (iret (c\<lparr>c_eax := a, stk := concat (map halves [ip, sel, fl, sp]) @ ss # rest, c_esp := c_esp c + 8\<rparr>)) (\<lambda>c. Ok (c, s'))"
proof -
  let ?r = "saved_regs c n e ip sel fl sp ss" and ?c1 = "load_kernel_segs (push_segs (pushal c))"
  have s1: "stk ?c1 = reg_halves ?r @ rest"
    unfolding entered by (simp add: st reg_halves_def saved_regs_def)
  let ?c2 = "pushl (c_esp ?c1) ?c1"
  have s2: "stk ?c2 = halves (c_esp ?c1) @ reg_halves ?r @ rest" "c_esp ?c2 = c_esp c - 44" "c_esp ?c1 = c_esp c - 40"
    using s1 by (simp_all add: pushl_def halves_def entered)
  let ?c3 = "?c2\<lparr>stk := halves (c_esp ?c1) @ reg_halves (?r\<lparr>p_eax := a\<rparr>) @ rest,
    c_eax := fst junk, c_ecx := fst (snd junk), c_edx := snd (snd junk)\<rparr>"
  have "call_handler h junk (?c2, s) = Ok (?c3, s')"
    using h s2(1) by (simp add: call_handler_def reg_of_halves)
  moreover have "popl ?c3 = Ok (c_esp ?c1, ?c3\<lparr>stk := reg_halves (?r\<lparr>p_eax := a\<rparr>) @ rest, c_esp := c_esp ?c3 + 4\<rparr>)"
    by (rule popl_eq) simp
  moreover let ?c4 = "?c3\<lparr>stk := reg_halves (?r\<lparr>p_eax := a\<rparr>) @ rest, c_esp := c_esp ?c1\<rparr>"
  let ?g = "concat (map halves [c_edi c, c_esi c, c_ebp c, c_esp c, c_ebx c, c_edx c, c_ecx c, a])"
  let ?t = "concat (map halves [n, e, ip, sel, fl, sp]) @ ss # rest"
  have "stk ?c4 = [c_ds c, c_es c, c_fs c, c_gs c] @ ?g @ ?t"
    by (simp add: reg_halves_def saved_regs_def)
  then obtain b where "pop_segs ?c4 = Ok (?c4\<lparr>c_eax := b, c_ds := c_ds c, c_es := c_es c, c_fs := c_fs c, c_gs := c_gs c,
      c_esp := c_esp ?c4 + 8, stk := ?g @ ?t\<rparr>)"
    using pop_segs_eq by blast
  moreover let ?c5 = "?c4\<lparr>c_eax := b, c_ds := c_ds c, c_es := c_es c, c_fs := c_fs c, c_gs := c_gs c,
      c_esp := c_esp ?c4 + 8, stk := ?g @ ?t\<rparr>"
  have "popal ?c5 = Ok (c\<lparr>c_eax := a, stk := ?t\<rparr>)"
    using popal_eq [of ?c5 "c_edi c" "c_esi c" "c_ebp c" "c_esp c" "c_ebx c" "c_edx c" "c_ecx c" a ?t] s2
    by (simp add: pushl_def entered)
  ultimately show ?thesis by (simp add: alltraps_def)
qed

lemma ucast_16 [simp]: "ucast (ucast v :: u32) = (v :: u16)"
  by (intro bit_word_eqI) (auto simp: bit_simps)

lemma halves_ucast: "halves (ucast (v :: u16)) = [v, 0]"
proof -
  have "ucast (drop_bit 16 (ucast v :: u32)) = (0 :: u16)"
    by (intro bit_word_eqI) (auto simp: bit_simps dest: bit_imp_le_length)
  then show ?thesis by (simp add: halves_def)
qed

lemma iret_run:
  assumes "stk c = concat (map halves [ip, ucast sel, fl]) @ st"
  shows "\<not> ring3 sel \<Longrightarrow> iret c = Ok (c\<lparr>c_eip := ip, c_cs := sel, c_eflags := fl, c_esp := c_esp c + 12, stk := st\<rparr>)"
    "ring3 sel \<Longrightarrow> st = concat (map halves [sp, ucast ss]) @ st' \<Longrightarrow>
     iret c = Ok (c\<lparr>c_eip := ip, c_cs := sel, c_eflags := fl, c_esp := sp, c_ss := ss, stk := st'\<rparr>)"
  using assms by (simp_all add: iret_def popl_eq Let_def)

text \<open>The structure that the dispatcher gets for an interrupt of code with the registers \<open>c\<close>.\<close>

definition interrupted :: "u32 \<Rightarrow> nat \<Rightarrow> u32 \<Rightarrow> cpu \<Rightarrow> IntrReg" where
  "interrupted esp0 n err c =
     saved_regs (c\<lparr>c_esp := (if ring3 (c_cs c) then esp0 - 8 else c_esp c) - 20\<rparr>) (of_nat n) (if pushes_error n then err else 0)
       (c_eip c) (ucast (c_cs c)) (c_eflags c)
       (if ring3 (c_cs c) then c_esp c else word_of_halves (stk c ! 0) (stk c ! 1)) (if ring3 (c_cs c) then c_ss c else stk c ! 2)"

lemma cpu_enter_run:
  assumes "gate_present g" "\<not> ring3 (seg_sel g)" "(if ring3 (c_cs c) then change_stack ss0 esp0 c else Ok c) = Ok c1"
  shows "cpu_enter ss0 esp0 g n err c =
    Ok (c1\<lparr>c_cs := seg_sel g, c_eip := gate_offset g,
      c_eflags := if bit (gate_type g) 8 then c_eflags c1 else c_eflags c1 AND NOT 0x200,
      c_esp := c_esp c1 - (if pushes_error n then 16 else 12),
      stk := (if pushes_error n then halves err else []) @ concat (map halves [c_eip c, ucast (c_cs c), c_eflags c]) @ stk c1\<rparr>)"
proof -
  let ?c2 = "pushl (c_eip c) (pushl (ucast (c_cs c)) (pushl (c_eflags c) c1))"
  let ?c3 = "(if pushes_error n then pushl err ?c2 else ?c2)\<lparr>c_cs := seg_sel g, c_eip := gate_offset g\<rparr>"
  have "cpu_enter ss0 esp0 g n err c = Ok (if bit (gate_type g) 8 then ?c3 else clear_if ?c3)"
    using assms by (simp add: cpu_enter_def Let_def)
  moreover have "?c3 = c1\<lparr>c_cs := seg_sel g, c_eip := gate_offset g, c_esp := c_esp c1 - (if pushes_error n then 16 else 12),
      stk := (if pushes_error n then halves err else []) @ concat (map halves [c_eip c, ucast (c_cs c), c_eflags c]) @ stk c1\<rparr>"
    by (cases "pushes_error n") (simp_all add: pushl_def halves_def)
  ultimately show ?thesis by (cases "bit (gate_type g) 8") (simp_all add: clear_if_def)
qed

lemma stub_run:
  assumes "\<not> ring3 (c_cs c)"
  shows "intr_vec_stub n c = Ok (c\<lparr>c_eflags := c_eflags c AND NOT 0x200, c_esp := c_esp c - (if pushes_error n then 4 else 8),
    stk := halves (of_nat n) @ (if pushes_error n then [] else halves 0) @ stk c\<rparr>)"
  using assms unfolding intr_vec_stub_def pushes_error_def [symmetric]
  by (cases "pushes_error n") (simp_all add: cli_def clear_if_def pushl_def halves_def)

text \<open>No handler changes more of the structure than \<^verbatim>\<open>p_eax\<close>.\<close>

lemma Syscall_regs:
  assumes "Syscall tab r s = Ok (r', s')"
  shows "r' = r\<lparr>p_eax := p_eax r'\<rparr>"
proof -
  let ?g = "\<lambda>(r :: IntrReg, s :: 'a). r\<lparr>p_eax := 0\<rparr>"
  have "?g (r', s') = ?g (r, s)"
    if "for_up m k (\<lambda>n (r, s). sys_call tab (sys_args r n) (r, s)) (r, s) = Ok (r', s')" for m k
    using that by (rule for_up_keeps) (auto simp: sys_call_def kbind_eq_Ok split: option.splits)
  then have "r'\<lparr>p_eax := 0\<rparr> = r\<lparr>p_eax := 0\<rparr>"
    using assms by (fastforce simp: Syscall_def kbind_eq_Ok split: if_splits)
  then show ?thesis by (cases r; cases r') simp
qed

lemma IntrHandlerSel_regs: "IntrHandlerSel tab r s = Ok (r', s') \<Longrightarrow> r' = r\<lparr>p_eax := p_eax r'\<rparr>"
  by (auto simp: IntrHandlerSel_def run_handler_def Let_def kbind_eq_Ok split: if_splits option.splits handler.splits dest: Syscall_regs)

end
