(* ===== verification/EntryProps.thy ===== *)
theory EntryProps
  imports Entry DriverProps
begin

text \<open>
  Properties of the entry code together with the dispatcher and the descriptor table.
\<close>

text \<open>
  The state in which the entry code reaches \<^verbatim>\<open>_alltraps\<close>: the stack holds the upper part of the structure, down to the vector.
  Without a change of the stack the fields of the old stack pointer overlap what was on the stack before.
\<close>

lemma reaches_alltraps:
  assumes "gate_present g" "\<not> ring3 (seg_sel g)" "if ring3 (c_cs c) then ss0 = ucast kKDataSeg else 3 \<le> length (stk c)"
    and sp: "sp = (if ring3 (c_cs c) then c_esp c else word_of_halves (stk c ! 0) (stk c ! 1))"
    and ss: "ss = (if ring3 (c_cs c) then c_ss c else stk c ! 2)" and rest: "rest = (if ring3 (c_cs c) then 0 # stk c else drop 3 (stk c))"
    and c1: "c1 = (if ring3 (c_cs c) then c\<lparr>c_esp := esp0 - 8, c_ss := ss0\<rparr> else c)"
  shows "\<exists>fl. kbind (cpu_enter ss0 esp0 g n err c) (intr_vec_stub n) = Ok (c1\<lparr>c_cs := seg_sel g, c_eip := gate_offset g, c_eflags := fl,
    c_esp := c_esp c1 - 20, stk := concat (map halves [of_nat n, if pushes_error n then err else 0, c_eip c, ucast (c_cs c), c_eflags c, sp]) @ ss # rest\<rparr>)"
proof -
  let ?u = "ring3 (c_cs c)"
  have "stk c = (stk c ! 0) # (stk c ! 1) # (stk c ! 2) # drop 3 (stk c)" if "\<not> ?u"
    using assms(3) that by (auto simp: numeral_eq_Suc Suc_le_length_iff)
  then have st: "(if ?u then concat (map halves [c_esp c, ucast (c_ss c)]) @ stk c else stk c) = halves sp @ ss # rest"
    by (simp add: sp ss rest halves_ucast)
  have "(if ?u then change_stack ss0 esp0 c else Ok c) = Ok (c1\<lparr>stk := halves sp @ ss # rest\<rparr>)"
    unfolding st [symmetric] using assms(3) by (simp add: c1 change_stack_def pushl_def halves_def split: if_splits)
  from cpu_enter_run [OF assms(1,2) this, of n err] show ?thesis
    using assms(2) by (cases "pushes_error n") (simp_all add: stub_run, blast+)
qed

text \<open>The way back: \<^verbatim>\<open>iret\<close> from the frame that was pushed at the arrival.\<close>

lemma iret_resumes:
  assumes "ring3 (c_cs c) \<or> 3 \<le> length (stk c)"
    and sp: "sp = (if ring3 (c_cs c) then c_esp c else word_of_halves (stk c ! 0) (stk c ! 1))"
    and ss: "ss = (if ring3 (c_cs c) then c_ss c else stk c ! 2)" and rest: "rest = (if ring3 (c_cs c) then 0 # stk c else drop 3 (stk c))"
    and k: "stk k = concat (map halves [c_eip c, ucast (c_cs c), c_eflags c, sp]) @ ss # rest"
    and e: "\<not> ring3 (c_cs c) \<longrightarrow> c_esp k = c_esp c - 12"
    and same: "k\<lparr>c_eip := c_eip c, c_cs := c_cs c, c_eflags := c_eflags c, c_esp := c_esp c, c_ss := c_ss c, stk := stk c\<rparr> = c'" "\<not> ring3 (c_cs c) \<longrightarrow> c_ss k = c_ss c"
  shows "iret k = Ok c'"
proof (cases "ring3 (c_cs c)")
  case True
  then have "stk k = concat (map halves [c_eip c, ucast (c_cs c), c_eflags c]) @ concat (map halves [c_esp c, ucast (c_ss c)]) @ stk c"
    by (simp add: k sp ss rest halves_ucast)
  from iret_run(2) [OF this True refl] show ?thesis using same(1) by simp
next
  case False
  then have "halves sp @ ss # rest = stk c"
    using assms(1) by (auto simp: sp ss rest numeral_eq_Suc Suc_le_length_iff)
  then have "stk k = concat (map halves [c_eip c, ucast (c_cs c), c_eflags c]) @ stk c" by (simp add: k)
  from iret_run(1) [OF this False] show ?thesis using same e False by (cases k) (simp add: same(1) [symmetric])
qed

text \<open>The whole way of an interrupt.\<close>

lemma interrupt_resumes:
  assumes "gate_present g" "\<not> ring3 (seg_sel g)" "if ring3 (c_cs c) then ss0 = ucast kKDataSeg else 3 \<le> length (stk c)"
    and "IntrHandlerSel tab (interrupted esp0 n err c) s = Ok (r, s')"
  shows "take_interrupt (IntrHandlerSel tab) junk ss0 esp0 g n err c s = Ok (c\<lparr>c_eax := p_eax r\<rparr>, s')"
proof -
  let ?u = "ring3 (c_cs c)" and ?e = "if pushes_error n then err else 0"
  define sp where "sp = (if ?u then c_esp c else word_of_halves (stk c ! 0) (stk c ! 1))"
  define ss where "ss = (if ?u then c_ss c else stk c ! 2)"
  define rest where "rest = (if ?u then 0 # stk c else drop 3 (stk c))"
  define c1 where "c1 = (if ?u then c\<lparr>c_esp := esp0 - 8, c_ss := ss0\<rparr> else c)"
  obtain fl c2 where c2: "c2 = c1\<lparr>c_cs := seg_sel g, c_eip := gate_offset g, c_eflags := fl, c_esp := c_esp c1 - 20,
      stk := concat (map halves [of_nat n, ?e, c_eip c, ucast (c_cs c), c_eflags c, sp]) @ ss # rest\<rparr>"
      and e: "kbind (cpu_enter ss0 esp0 g n err c) (intr_vec_stub n) = Ok c2"
    using reaches_alltraps [OF assms(1-3) sp_def ss_def rest_def c1_def] by blast
  have t: "take_interrupt (IntrHandlerSel tab) junk ss0 esp0 g n err c s = alltraps (IntrHandlerSel tab) junk (c2, s)"
    unfolding take_interrupt_def using e by (auto simp: kbind_eq_Ok)
  have i: "saved_regs c2 (of_nat n) ?e (c_eip c) (ucast (c_cs c)) (c_eflags c) sp ss = interrupted esp0 n err c"
    by (simp add: interrupted_def saved_regs_def c2 c1_def sp_def ss_def)
  let ?c3 = "c2\<lparr>c_eax := p_eax r, stk := concat (map halves [c_eip c, ucast (c_cs c), c_eflags c, sp]) @ ss # rest, c_esp := c_esp c2 + 8\<rparr>"
  have "stk c2 = concat (map halves [of_nat n, ?e, c_eip c, ucast (c_cs c), c_eflags c, sp]) @ ss # rest" by (simp add: c2)
  from alltraps_run [OF this, of "IntrHandlerSel tab", unfolded i] have "alltraps (IntrHandlerSel tab) junk (c2, s) = kbind (iret ?c3) (\<lambda>c. Ok (c, s'))"
    using assms(4) IntrHandlerSel_regs [OF assms(4)] by simp
  moreover have "iret ?c3 = Ok (c\<lparr>c_eax := p_eax r\<rparr>)"
    by (rule iret_resumes [OF _ sp_def ss_def rest_def]) (use assms(3) in \<open>auto simp: c2 c1_def split: if_splits\<close>)
  ultimately show ?thesis using t by simp
qed

text \<open>
  C14: an interrupt is transparent.  Through a gate of the kernel's code segment the dispatcher gets the registers of the interrupted
  code, the vector and the error code in the fields of \<^verbatim>\<open>IntrReg\<close>, for interrupts of ring 0 and, when the task segment
  names a usable stack, of ring 3.  When the handler returns, all registers, segments, flags
  and both stacks are as before, except that \<^verbatim>\<open>eax\<close> is what the handler has left in \<^verbatim>\<open>p_eax\<close>.
\<close>

theorem interrupt_roundtrip:
  assumes "gate_present g" "\<not> ring3 (seg_sel g)" "if ring3 (c_cs c) then ss0 = ucast kKDataSeg else 3 \<le> length (stk c)"
    and "IntrHandlerSel tab (interrupted esp0 n err c) s = Ok (r, s')"
  shows "take_interrupt (IntrHandlerSel tab) junk ss0 esp0 g n err c s = Ok (c\<lparr>c_eax := p_eax r\<rparr>, s')"
  by (rule interrupt_resumes [OF assms])

definition cpu3 :: cpu where
  "cpu3 = \<lparr>c_eax = 200, c_ecx = 2, c_edx = 3, c_ebx = 4, c_esp = 0x8000, c_ebp = 5, c_esi = 6, c_edi = 7, c_ds = 0x23, c_es = 0x23,
     c_fs = 0x23, c_gs = 0x23, c_ss = 0x23, c_cs = 0x1b, c_eip = 0x1234, c_eflags = 0x202, stk = []\<rparr>"

theorem interrupt_roundtrip_witness:
  "take_interrupt (IntrHandlerSel syscall_table) (0, 0, 0) 0x10 0xbbfc \<lparr>offset_0_15 = 0, seg_sel = 8, gate_type = 0x8e00, offset_16_31 = 0\<rparr>
     128 0 cpu3 (drv0\<lparr>intr_handler := (replicate 256 None)[128 := Some H_Syscall]\<rparr>) =
   Ok (cpu3\<lparr>c_eax := -1\<rparr>, drv0\<lparr>intr_handler := (replicate 256 None)[128 := Some H_Syscall]\<rparr>)"
proof -
  let ?s = "drv0\<lparr>intr_handler := (replicate 256 None)[128 := Some H_Syscall]\<rparr>" and ?r = "interrupted 0xbbfc 128 0 cpu3"
  let ?g = "\<lparr>offset_0_15 = 0, seg_sel = 8, gate_type = 0x8e00, offset_16_31 = 0\<rparr>"
  have u: "ring3 (c_cs cpu3)" and g: "gate_present ?g" "\<not> ring3 (seg_sel ?g)" by code_simp+
  have "IntrHandlerSel syscall_table ?r ?s = Ok (?r\<lparr>p_eax := -1\<rparr>, ?s)"
    by (simp add: IntrHandlerSel_def run_handler_def Syscall_source_table interrupted_def saved_regs_def cpu3_def Let_def)
  from interrupt_roundtrip [OF g _ this, of "0x10" "(0, 0, 0)"] show ?thesis using u by (simp add: kKDataSeg_def)
qed

text \<open>
  C26: no interrupt of ring 3 reaches the kernel.  With the descriptor table and the task segment that \<^verbatim>\<open>IdtInit\<close> sets up, an
  interrupt of code in ring 3 ends in a protection fault whatever its vector: the stack segment of the task segment is
  a code segment, and the gate of the system call leads to the code segment of ring 3, where the first instruction
  of the entry code is not allowed.
\<close>

theorem ring3_never_enters:
  assumes "length (idt s) = 256" "length (intr_vec s) = 256" "IdtInit s = Ok s1" "n < 256"
    and "ring3 (c_cs c)" "c_eflags c AND 0x3000 \<noteq> 0x3000"
  shows "take_interrupt h junk (ucast (tss_ss0 s1)) esp0 ((idt s1 ! n)\<lparr>gate_type := ty\<rparr>) n err c x = Fault Protection"
proof -
  obtain m g where "IdtInit s = Ok (s\<lparr>mach := m, tss_ss0 := kKCodeSeg, idt := g\<rparr>)"
     "\<forall>j<256. g ! j = (if j = 0x80 then mkgate (intr_vec s ! j) 0x1b 0x6f00 else mkgate (intr_vec s ! j) 0x8 0x0e00)"
    using IdtInit_ok [OF assms(1,2)] by blast
  then have "seg_sel (idt s1 ! n) = (if n = 0x80 then 0x1b else 0x8)" "tss_ss0 s1 = kKCodeSeg"
    using assms(3,4) by (auto simp: mkgate_def)
  moreover have "ring3 0x1b" "\<not> ring3 0x8" by (simp_all add: ring3_def)
  moreover have "(c_eflags c AND NOT 0x200) AND 0x3000 \<noteq> 0x3000" using assms(6) by (simp add: and.assoc)
  ultimately show ?thesis
    using assms(5,6) by (auto simp: take_interrupt_def cpu_enter_def change_stack_def intr_vec_stub_def cli_def clear_if_def
        kKCodeSeg_def kKDataSeg_def pushl_def Let_def)
qed

theorem ring3_never_enters_witness:
  "\<exists>s1. IdtInit boot0 = Ok s1 \<and>
     take_interrupt (IntrHandlerSel syscall_table) (0, 0, 0) (ucast (tss_ss0 s1)) 0xbbfc ((idt s1 ! 128)\<lparr>gate_type := 0xef00\<rparr>) 128 0 cpu3 drv0 =
       Fault Protection"
proof -
  have l: "length (idt boot0) = 256" "length (intr_vec boot0) = 256" using boot0_ints(1) by (simp_all add: tables256_def)
  have c: "ring3 (c_cs cpu3)" "c_eflags cpu3 AND 0x3000 \<noteq> 0x3000" by code_simp+
  obtain s1 where "IdtInit boot0 = Ok s1" using IdtInit_ok [OF l] by blast
  from this ring3_never_enters [OF l this _ c, of 128] show ?thesis by auto
qed

end
