(* ===== verification/Registers.thy ===== *)
theory Registers
  imports Boot
begin

text \<open>
  \<^verbatim>\<open>kernel/thread/switch_reg.S\<close> with the registers that it saves.  The theory \<open>Threads\<close> models of this file the stack pointers and
  the interrupt flag; here the four registers that a C function must preserve and the return
  address are on the stacks of the threads as well, in the words of raw memory.
\<close>

record saved_regs4 =
  r_ebx :: u32
  r_esi :: u32
  r_edi :: u32
  r_ebp :: u32

definition push_esp :: "u32 \<Rightarrow> 'a kbase_scheme \<Rightarrow> 'a kbase_scheme kres" where
  "push_esp v s =
     (let p = esp_reg (mach s) - 4 in
      kbind (wrw p v s) (\<lambda>s. Ok (s\<lparr>mach := (mach s)\<lparr>esp_reg := p\<rparr>\<rparr>)))"

definition pop_esp :: "'a kbase_scheme \<Rightarrow> (u32 \<times> 'a kbase_scheme) kres" where
  "pop_esp s =
     (let p = esp_reg (mach s) in
      kbind (rdw p s) (\<lambda>v. Ok (v, s\<lparr>mach := (mach s)\<lparr>esp_reg := p + 4\<rparr>\<rparr>)))"

text \<open>The two arguments are the threads whose member \<^verbatim>\<open>esp\<close> is passed; the result has the address where execution goes on.\<close>

definition SwitchReg_full ::
    "u32 \<Rightarrow> u32 \<Rightarrow> saved_regs4 \<Rightarrow> 'a ths_scheme \<Rightarrow> (u32 \<times> saved_regs4 \<times> 'a ths_scheme) kres" where
  "SwitchReg_full cur new r s =
     kbind (push_esp (r_ebx r) s) (\<lambda>s.
     kbind (push_esp (r_esi r) s) (\<lambda>s.
     kbind (push_esp (r_edi r) s) (\<lambda>s.
     kbind (push_esp (r_ebp r) s) (\<lambda>s.
     kbind (wr th_esp th_esp_update cur (esp_reg (mach s)) s) (\<lambda>s.
     kbind (rd th_esp new s) (\<lambda>esp.
     let s = s\<lparr>mach := (mach s)\<lparr>esp_reg := esp\<rparr>\<rparr> in
     kbind (pop_esp s) (\<lambda>(bp, s).
     kbind (pop_esp s) (\<lambda>(di, s).
     kbind (pop_esp s) (\<lambda>(si, s).
     kbind (pop_esp s) (\<lambda>(bx, s).
     let s = s\<lparr>mach := intr_enable (mach s)\<rparr> in
     kbind (pop_esp s) (\<lambda>(ip, s).
     Ok (ip, \<lparr>r_ebx = bx, r_esi = si, r_edi = di, r_ebp = bp\<rparr>, s))))))))))))"

text \<open>
  \<open>frame_at s p a\<close>: the five words from the virtual address \<open>p\<close> on are mapped to those from the physical address \<open>a\<close> on.
  \<open>context_of s t a r ip\<close>: the saved stack pointer of \<open>t\<close> points to the registers \<open>r\<close> and the return address \<open>ip\<close>.
\<close>

definition frame_at :: "'a kbase_scheme \<Rightarrow> u32 \<Rightarrow> u32 \<Rightarrow> bool" where
  "frame_at s p a \<longleftrightarrow> lin p s = Ok a \<and> lin (p + 4) s = Ok (a + 4) \<and> lin (p + 8) s = Ok (a + 8) \<and>
     lin (p + 12) s = Ok (a + 12) \<and> lin (p + 16) s = Ok (a + 16)"

definition words_at :: "machine \<Rightarrow> u32 \<Rightarrow> saved_regs4 \<Rightarrow> u32 \<Rightarrow> bool" where
  "words_at m a r ip \<longleftrightarrow> wmem m a = r_ebp r \<and> wmem m (a + 4) = r_edi r \<and> wmem m (a + 8) = r_esi r \<and>
     wmem m (a + 12) = r_ebx r \<and> wmem m (a + 16) = ip"

definition context_of :: "'a ths_scheme \<Rightarrow> u32 \<Rightarrow> u32 \<Rightarrow> saved_regs4 \<Rightarrow> u32 \<Rightarrow> bool" where
  "context_of s t a r ip \<longleftrightarrow> t \<noteq> 0 \<and> frame_at s (th_esp s t) a \<and> words_at (mach s) a r ip"

lemma lin_same_creg: "creg m = creg (mach s) \<Longrightarrow> lin p (s\<lparr>mach := m\<rparr>) = lin p s"
  by (simp add: lin_def paging_on_def)

lemma push_esp_run:
  assumes "lin (esp_reg (mach s) - 4) s = Ok a"
  shows "push_esp v s = Ok (s\<lparr>mach := (mach s)\<lparr>wmem := (wmem (mach s))(a := v), esp_reg := esp_reg (mach s) - 4\<rparr>\<rparr>)"
  using assms by (simp add: push_esp_def wrw_def Let_def)

lemma pop_esp_run:
  assumes "lin (esp_reg (mach s)) s = Ok a"
  shows "pop_esp s = Ok (wmem (mach s) a, s\<lparr>mach := (mach s)\<lparr>esp_reg := esp_reg (mach s) + 4\<rparr>\<rparr>)"
  using assms by (simp add: pop_esp_def rdw_def Let_def)

lemma save_regs:
  fixes s :: "'a ths_scheme"
  assumes "frame_at s (esp_reg (mach s) - 16) a"
  shows "kbind (push_esp (r_ebx r) s) (\<lambda>s. kbind (push_esp (r_esi r) s) (\<lambda>s. kbind (push_esp (r_edi r) s) (\<lambda>s.
      kbind (push_esp (r_ebp r) s) f))) =
    f (s\<lparr>mach := (mach s)\<lparr>wmem := (wmem (mach s))(a + 12 := r_ebx r, a + 8 := r_esi r, a + 4 := r_edi r, a := r_ebp r),
      esp_reg := esp_reg (mach s) - 16\<rparr>\<rparr>)"
  using assms by (simp add: frame_at_def push_esp_run lin_same_creg)

lemma load_regs:
  fixes s :: "'a ths_scheme"
  assumes "frame_at s (esp_reg (mach s)) a" "words_at (mach s) a r ip"
  shows "kbind (pop_esp s) (\<lambda>(bp, s). kbind (pop_esp s) (\<lambda>(di, s). kbind (pop_esp s) (\<lambda>(si, s). kbind (pop_esp s) (\<lambda>(bx, s).
      let s = s\<lparr>mach := intr_enable (mach s)\<rparr> in
      kbind (pop_esp s) (\<lambda>(ip, s). Ok (ip, \<lparr>r_ebx = bx, r_esi = si, r_edi = di, r_ebp = bp\<rparr>, s)))))) =
    Ok (ip, r, s\<lparr>mach := intr_enable ((mach s)\<lparr>esp_reg := esp_reg (mach s) + 20\<rparr>)\<rparr>)"
  using assms by (simp add: frame_at_def words_at_def pop_esp_run lin_same_creg intr_enable_def ac_simps)

text \<open>
  C15: switching threads.  Let the frame below the running thread's stack pointer be mapped and apart from the frame of the new thread.
  Then the routine goes on at the return address of the new thread with its registers, and it leaves the registers and the return address
  of the old thread in the same form, so that a later switch back resumes it.  On stack pointers and the
  interrupt flag its effect is that of the model the scheduler uses.
\<close>

theorem switch_saves_context:
  assumes "cur \<noteq> 0" "cur \<noteq> new" "frame_at s (esp_reg (mach s) - 16) a" "wmem (mach s) (a + 16) = ip"
    and "context_of s new b r' ip'" "\<forall>i<4. \<forall>j<5. a + 4 * of_nat i \<noteq> b + 4 * of_nat j"
  shows "\<exists>s'. SwitchReg_full cur new r s = Ok (ip', r', s') \<and> context_of s' cur a r ip \<and>
    esp_reg (mach s') = th_esp s new + 20 \<and>
    (\<forall>p. (\<forall>i<4. p \<noteq> a + 4 * of_nat i) \<longrightarrow> wmem (mach s') p = wmem (mach s) p) \<and>
    SwitchReg cur new s = Ok (s'\<lparr>mach := (mach s')\<lparr>wmem := wmem (mach s)\<rparr>\<rparr>)"
proof -
  let ?w = "(wmem (mach s))(a + 12 := r_ebx r, a + 8 := r_esi r, a + 4 := r_edi r, a := r_ebp r)"
  let ?s1 = "s\<lparr>th_esp := (th_esp s)(cur := esp_reg (mach s) - 16), mach := (mach s)\<lparr>wmem := ?w, esp_reg := th_esp s new\<rparr>\<rparr>"
  have n: "new \<noteq> 0" "frame_at s (th_esp s new) b" "words_at (mach s) b r' ip'" using assms(5) by (auto simp: context_of_def)
  have ne: "a + 4 * of_nat i \<noteq> b + 4 * of_nat j" if "i < 4" "j < 5" for i j using assms(6) that by blast
  have "frame_at ?s1 (esp_reg (mach ?s1)) b" using n(2) by (simp add: frame_at_def lin_def paging_on_def)
  moreover have "words_at (mach ?s1) b r' ip'"
    using n(3) ne [of 0 0] ne [of 0 1] ne [of 0 2] ne [of 0 3] ne [of 0 4] ne [of 1 0] ne [of 1 1] ne [of 1 2] ne [of 1 3] ne [of 1 4]
      ne [of 2 0] ne [of 2 1] ne [of 2 2] ne [of 2 3] ne [of 2 4] ne [of 3 0] ne [of 3 1] ne [of 3 2] ne [of 3 3] ne [of 3 4]
    by (simp add: words_at_def)
  note load_regs [OF calculation this]
  then have "SwitchReg_full cur new r s = Ok (ip', r', ?s1\<lparr>mach := intr_enable ((mach ?s1)\<lparr>esp_reg := th_esp s new + 20\<rparr>)\<rparr>)"
    using assms(1,2) n(1) unfolding SwitchReg_full_def save_regs [OF assms(3)] by (simp add: wr_def rd_def Let_def)
  moreover have "context_of (?s1\<lparr>mach := intr_enable ((mach ?s1)\<lparr>esp_reg := th_esp s new + 20\<rparr>)\<rparr>) cur a r ip"
    using assms(1,3,4) by (simp add: context_of_def frame_at_def lin_def paging_on_def words_at_def intr_enable_def)
  moreover have "?w p = wmem (mach s) p" if "\<forall>i<4. p \<noteq> a + 4 * of_nat i" for p
    using that [rule_format, of 0] that [rule_format, of 1] that [rule_format, of 2] that [rule_format, of 3] by simp
  ultimately show ?thesis
    using assms(1,2) n(1) by (auto simp: SwitchReg_def wr_def rd_def intr_enable_def)
qed

text \<open>A thread that has just been set up, with four zeros below the address of its function.\<close>

definition two_stacks :: ths where
  "two_stacks = boot0\<lparr>mach := mach0\<lparr>esp_reg := 0x5010, wmem := (\<lambda>_. 0)(0x5010 := 0xc0101111, 0x6010 := 0xc0105678)\<rparr>,
     th_esp := (\<lambda>_. 0)(0x2000 := 0x6000)\<rparr>"

theorem switch_saves_context_witness:
  "\<exists>s'. SwitchReg_full 0x1000 0x2000 \<lparr>r_ebx = 1, r_esi = 2, r_edi = 3, r_ebp = 4\<rparr> two_stacks =
       Ok (0xc0105678, \<lparr>r_ebx = 0, r_esi = 0, r_edi = 0, r_ebp = 0\<rparr>, s') \<and>
     context_of s' 0x1000 0x5000 \<lparr>r_ebx = 1, r_esi = 2, r_edi = 3, r_ebp = 4\<rparr> 0xc0101111"
proof -
  have p: "lin x two_stacks = Ok x" for x by (simp add: lin_def paging_on_def two_stacks_def mach0_def)
  have c: "context_of two_stacks 0x2000 0x6000 \<lparr>r_ebx = 0, r_esi = 0, r_edi = 0, r_ebp = 0\<rparr> 0xc0105678"
    by (simp add: context_of_def frame_at_def p words_at_def) (simp add: two_stacks_def)
  have "(0x5000 :: u32) + 4 * of_nat i \<noteq> 0x6000 + 4 * of_nat j" if "i < 4" "j < 5" for i j :: nat
  proof -
    have "i = 0 \<or> i = 1 \<or> i = 2 \<or> i = 3" "j = 0 \<or> j = 1 \<or> j = 2 \<or> j = 3 \<or> j = 4" using that by linarith+
    then show ?thesis by (elim disjE) simp_all
  qed
  then have apart: "\<forall>i<4. \<forall>j<5. (0x5000 :: u32) + 4 * of_nat i \<noteq> 0x6000 + 4 * of_nat j" by blast
  have f: "frame_at two_stacks (esp_reg (mach two_stacks) - 16) 0x5000" "wmem (mach two_stacks) (0x5000 + 16) = 0xc0101111"
    by (simp add: frame_at_def p, simp_all add: two_stacks_def)
  from switch_saves_context [OF _ _ f c apart, of "0x1000"] show ?thesis by auto
qed

end
