(* ===== verification/Start.thy ===== *)
theory Start
  imports Dispatch EntryProps Registers
begin

text \<open>
  \<^verbatim>\<open>kernel/boot/boot.S\<close>: the header for the boot loader, the entry of the kernel and the loop in which the first thread ends.

  The boot loader enters at \<^verbatim>\<open>_start\<close> with the magic number in \<^verbatim>\<open>eax\<close> and the address of its information record in \<^verbatim>\<open>ebx\<close>.  \<open>start\<close> is the
  code up to the label \<^verbatim>\<open>loop\<close>.  From there on the processor waits in \<^verbatim>\<open>hlt\<close>: the step relation \<open>idle\<close> takes an interrupt of a line that the
  controllers let through, from the gate of the descriptor table through the entry code, the dispatcher and the
  handler back to the halted code.  The lines in service are part of the state (theory \<open>Pic\<close>).
\<close>

unbundle bit_operations_syntax

section \<open>The header\<close>

definition MULTIBOOT_HEADER_MAGIC :: u32 where "MULTIBOOT_HEADER_MAGIC = 0x1BADB002"

definition MULTIBOOT_PAGE_ALIGN :: u32 where "MULTIBOOT_PAGE_ALIGN = 1"

definition MULTIBOOT_MEMORY_INFO :: u32 where "MULTIBOOT_MEMORY_INFO = 2"

definition MULTIBOOT_HEADER_FLAGS :: u32 where
  "MULTIBOOT_HEADER_FLAGS = MULTIBOOT_PAGE_ALIGN OR MULTIBOOT_MEMORY_INFO"

record multiboot_header =
  mh_magic :: u32
  mh_flags :: u32
  mh_checksum :: u32

text \<open>
  In the expression of the checksum the macro for the flags has no parentheses; in the assembler \<^verbatim>\<open>|\<close> binds more tightly
  than \<^verbatim>\<open>+\<close>, so that the flags are added as a whole.
\<close>

definition boot_header :: multiboot_header where
  "boot_header = \<lparr>mh_magic = MULTIBOOT_HEADER_MAGIC, mh_flags = MULTIBOOT_HEADER_FLAGS,
     mh_checksum = - (MULTIBOOT_HEADER_MAGIC + MULTIBOOT_HEADER_FLAGS)\<rparr>"

lemma boot_header_sum: "mh_magic boot_header + mh_flags boot_header + mh_checksum boot_header = 0" "bit (mh_flags boot_header) 1"
  by (simp_all add: boot_header_def MULTIBOOT_HEADER_FLAGS_def MULTIBOOT_PAGE_ALIGN_def MULTIBOOT_MEMORY_INFO_def bit_simps)

section \<open>The entry\<close>

definition init_stack :: u32 where "init_stack = 0x7c00"

text \<open>\<^verbatim>\<open>popf\<close> in ring 0 loads all flags; bit 1 always reads as 1.\<close>

definition popf :: "'a kbase_scheme \<Rightarrow> 'a kbase_scheme kres" where
  "popf s = kbind (pop_esp s) (\<lambda>(f, s). Ok (s\<lparr>mach := (mach s)\<lparr>eflags := f OR 2\<rparr>\<rparr>))"

text \<open>Up to the call; \<open>ret\<close> is the return address.\<close>

definition start_args :: "u32 \<Rightarrow> u32 \<Rightarrow> u32 \<Rightarrow> 'a kbase_scheme \<Rightarrow> 'a kbase_scheme kres" where
  "start_args eax ebx ret s =
     (let s = s\<lparr>mach := (mach s)\<lparr>esp_reg := init_stack\<rparr>\<rparr>;
          s = s\<lparr>mach := (mach s)\<lparr>esp_reg := esp_reg (mach s) + 0x3ffc\<rparr>\<rparr> in
      kbind (push_esp 0 s) (\<lambda>s.
      kbind (popf s) (\<lambda>s.
      kbind (push_esp ebx s) (\<lambda>s.
      kbind (push_esp eax s) (\<lambda>s.
      push_esp ret s)))))"

text \<open>
  \<^verbatim>\<open>kernel_start\<close> finds its arguments above the return address.  What it returns is compared with 0, and both outcomes lead to the loop.
  \<open>info_at\<close> gives the record at the address that the boot loader passes.
\<close>

definition start ::
    "links \<Rightarrow> (u32 \<Rightarrow> multiboot_info) \<Rightarrow> (u32 \<Rightarrow> multiboot_memory_map) \<Rightarrow> u32 \<Rightarrow> u32 \<Rightarrow> u32 \<Rightarrow> u32 \<Rightarrow> 'a ides_scheme \<Rightarrow> 'a ides_scheme kres" where
  "start lk info_at mmap_at junk eax ebx ret s =
     kbind (start_args eax ebx ret s) (\<lambda>s.
     kbind (rdw (esp_reg (mach s) + 4) s) (\<lambda>magic.
     kbind (rdw (esp_reg (mach s) + 8) s) (\<lambda>info.
     kbind (kernel_start lk mmap_at junk magic (info_at info) s) (\<lambda>(res, s).
     Ok (s\<lparr>mach := (mach s)\<lparr>esp_reg := esp_reg (mach s) + 4\<rparr>\<rparr>)))))"

definition called :: "u32 \<Rightarrow> u32 \<Rightarrow> u32 \<Rightarrow> 'a kbase_scheme \<Rightarrow> 'a kbase_scheme" where
  "called eax ebx ret s = s\<lparr>mach := (mach s)\<lparr>esp_reg := 0xbbf0, eflags := 2,
     wmem := (wmem (mach s))(0xbbf8 := ebx, 0xbbf4 := eax, 0xbbf0 := ret)\<rparr>\<rparr>"

lemma start_args_run: "start_args eax ebx ret s = Ok (called eax ebx ret s)"
  by (simp add: start_args_def Let_def init_stack_def push_esp_run pop_esp_run popf_def lin_low called_def)

lemma start_run:
  "start lk info_at mmap_at junk eax ebx ret s =
     kbind (kernel_start lk mmap_at junk eax (info_at ebx) (called eax ebx ret s)) (\<lambda>(res, s).
     Ok (s\<lparr>mach := (mach s)\<lparr>esp_reg := esp_reg (mach s) + 4\<rparr>\<rparr>))"
  by (simp add: start_def start_args_run rdw_def lin_low called_def)

section \<open>Waiting for interrupts\<close>

text \<open>
  One round of the loop: \<^verbatim>\<open>hlt\<close> ends with an interrupt, if the interrupt flag is set.  The line is in service from then on, until the handler
  ends that.
\<close>

inductive idle ::
    "'a ides_scheme sysfun option list \<Rightarrow> cpu \<times> pic \<times> 'a ides_scheme \<Rightarrow> cpu \<times> pic \<times> 'a ides_scheme \<Rightarrow> bool"
  for tab :: "'a ides_scheme sysfun option list" where
  wake: "bit (c_eflags c) 9 \<Longrightarrow> raised s p irq \<Longrightarrow>
    take_interrupt (IntrHandlerSel tab) junk (ucast (tss_ss0 s)) (tss_esp0 s) (idt s ! (32 + irq)) (32 + irq) 0 c s = Ok (c', s') \<Longrightarrow>
    idle tab (c, p, s) (c', pic_after (trace (mach s)) (trace (mach s')) (pic_ack irq p), s')"

inductive_cases idleE: "idle tab (c, p, s) x"

text \<open>The processor in the loop: in ring 0, with the arguments of \<^verbatim>\<open>kernel_start\<close> and the word of the thread on the stack.\<close>

definition halted :: "cpu \<Rightarrow> 'a kbase_scheme \<Rightarrow> bool" where
  "halted c s \<longleftrightarrow> c_eflags c = eflags (mach s) \<and> \<not> ring3 (c_cs c) \<and> 6 \<le> length (stk c)"

lemma intr_state_acked:
  assumes "intr_state hs ms s" "acked s s'"
  shows "intr_state hs ms s'"
proof -
  have "tables s' = tables s" "\<And>irq. irq_masked s' irq = irq_masked s irq" using assms(2) acked_pic(3) by (auto simp: acked_def)
  moreover from this(1) have "gate_sels s' = gate_sels s" by (simp add: tables_def gate_sels_def)
  ultimately show ?thesis using assms(1) by (simp add: intr_state_def tables_def gates_match_def tables256_def vec_used_def)
qed

text \<open>
  What the loop keeps: the registers of the halted code, no line in service, the schedule, and the tables of the interrupts.
\<close>

definition idle_ok :: "cpu \<Rightarrow> u32 \<Rightarrow> cpu \<times> pic \<times> 'a ides_scheme \<Rightarrow> bool" where
  "idle_ok c k = (\<lambda>(c', p, s). c' = c \<and> p = pic_idle \<and> (\<exists>m. slice_ok s [k] m) \<and> intr_state boot_handlers_timer {0, 2} s)"

lemma idle_tick:
  assumes ok: "idle_ok c k (c, p, s)" and c: "\<not> ring3 (c_cs c)" "3 \<le> length (stk c)"
  shows "\<exists>s'. take_interrupt (IntrHandlerSel tab) junk ss0 esp0 (idt s ! 32) 32 0 c s = Ok (c, s') \<and>
    idle_ok c k (c, pic_after (trace (mach s)) (trace (mach s')) (pic_ack 0 p), s')"
proof -
  let ?r = "interrupted esp0 32 0 c"
  obtain m where m: "slice_ok s [k] m" and i: "intr_state boot_handlers_timer {0, 2} s" and p: "p = pic_idle" using ok by (auto simp: idle_ok_def)
  have t: "tables256 s" "intr_handler s ! 32 = Some H_Timer" "gate_present (idt s ! 32)" "gate_sels s ! 32 = 8"
    using i by (simp_all add: intr_state_def gates_match_def boot_handlers_timer_def)
  obtain s' where s': "TimerHandler ?r s = Ok s'" "if m = 1 then slice_ok s' (rotate1 [k]) 15 else slice_ok s' [k] (m - 1)"
    using TimerHandler_step [OF m] by blast
  have "IntrHandlerSel tab ?r s = Ok (?r, s')"
    using t(1,2) s'(1) by (simp add: IntrHandlerSel_def run_handler_def tables256_def interrupted_def saved_regs_def)
  moreover have "\<not> ring3 (seg_sel (idt s ! 32))" using t(1,4) gate_sels_nth [of 32 s] by (simp add: tables256_def ring3_def)
  ultimately have "take_interrupt (IntrHandlerSel tab) junk ss0 esp0 (idt s ! 32) 32 0 c s = Ok (c\<lparr>c_eax := p_eax ?r\<rparr>, s')"
    using interrupt_resumes [OF t(3), of c ss0 tab esp0] c by simp
  moreover have "c\<lparr>c_eax := p_eax ?r\<rparr> = c" by (simp add: interrupted_def saved_regs_def)
  moreover have a: "acked s s'" using TimerHandler_acked(1) [OF s'(1)] by (simp add: interrupted_def saved_regs_def)
  moreover have "idle_ok c k (c, pic_after (trace (mach s)) (trace (mach s')) (pic_ack 0 p), s')"
    using s'(2) intr_state_acked [OF i a] acked_pic(1) [OF a, of 0] p by (auto simp: idle_ok_def split: if_splits)
  ultimately show ?thesis by metis
qed

lemma idle_keeps:
  assumes "idle tab x y" "idle_ok c k x" "\<not> ring3 (c_cs c)" "3 \<le> length (stk c)"
  shows "idle_ok c k y"
proof -
  obtain p s where x: "x = (c, p, s)" and ok: "idle_ok c k (c, p, s)" using assms(2) by (cases x) (auto simp: idle_ok_def)
  obtain irq junk c' s' where r: "raised s p irq"
      "take_interrupt (IntrHandlerSel tab) junk (ucast (tss_ss0 s)) (tss_esp0 s) (idt s ! (32 + irq)) (32 + irq) 0 c s = Ok (c', s')"
      "y = (c', pic_after (trace (mach s)) (trace (mach s')) (pic_ack irq p), s')"
    using assms(1) unfolding x by (auto elim: idleE)
  have "irq = 0" using r(1) ok by (auto simp: raised_def kIrqSlave_def idle_ok_def intr_state_def)
  then show ?thesis using idle_tick [OF ok assms(3,4), of tab junk "ucast (tss_ss0 s)" "tss_esp0 s"] r(2,3) by auto
qed

lemma idle_invariant:
  assumes "(idle tab)\<^sup>*\<^sup>* x y" "idle_ok c k x" "\<not> ring3 (c_cs c)" "3 \<le> length (stk c)"
  shows "idle_ok c k y"
  using assms by (induction rule: rtranclp_induct) (auto intro: idle_keeps)

section \<open>From the boot loader to the loop\<close>

lemma boot_ok_called: "boot_ok B (s\<lparr>avl_mem := a\<rparr>) \<Longrightarrow> boot_ok B ((called eax ebx ret s)\<lparr>avl_mem := a\<rparr>)"
  by (auto simp: boot_ok_def called_def pages_ok_def page_used_def tables256_def)

lemma idle_ok_start:
  assumes "kernel_running s k"
  shows "idle_ok c k (c, pic_idle, s\<lparr>mach := (mach s)\<lparr>esp_reg := e\<rparr>\<rparr>)"
proof -
  let ?s = "s\<lparr>mach := (mach s)\<lparr>esp_reg := e\<rparr>\<rparr>"
  have "sched ?s [k] = sched s [k]" by (rule sched_cong) simp_all
  then have "slice_ok ?s [k] 15" using assms by (simp add: kernel_running_def slice_ok_def)
  moreover have "intr_state boot_handlers_timer {0, 2} ?s"
    by (rule intr_state_cong [of _ _ s]) (use assms in \<open>simp_all add: kernel_running_def\<close>)
  ultimately show ?thesis by (auto simp: idle_ok_def)
qed

text \<open>
  C9: the machine runs.  Entered by a Multiboot loader with enough memory, on a machine without a drive and with a keyboard controller that fails its self
  test, the entry code reaches its loop.
  From then on, when no line is in service at that moment, after any number of interrupts of the lines that the controllers let through, each of them
  taken through the descriptor table, the entry code and the dispatcher, the first thread is back in the
  loop with all its registers and flags, it is the thread that the scheduler considers running, and the handler has acknowledged the
  interrupt, so that no line is in service and the next request of the timer is let through, taken and handled as well.
\<close>

theorem machine_idles:
  assumes "MIN_LOWER_MEM \<le> mem_lower (info_at ebx)" "MIN_UPPER_MEM \<le> mem_upper (info_at ebx)" "bit (mb_flags (info_at ebx)) 6"
    and "mmap_of mmap_at (mmap_addr (info_at ebx)) es (mmap_addr (info_at ebx) + mmap_length (info_at ebx))"
    and "boot_ok B (s0\<lparr>avl_mem := available es @ [(junk, UINT32_MAX)]\<rparr>)" "devices_fail (dev (mach s0))"
  shows "\<exists>s k. start lk info_at mmap_at junk MULTIBOOT_BOOTLOADER_MAGIC ebx ret s0 = Ok s \<and> GetCurThread s = Ok k \<and>
    (\<forall>c x. halted c s \<and> (idle tab)\<^sup>*\<^sup>* (c, pic_idle, s) x \<longrightarrow>
       (\<exists>s'. x = (c, pic_idle, s') \<and> GetCurThread s' = Ok k \<and> raised s' pic_idle 0) \<and> (\<exists>y. idle tab x y))"
proof -
  let ?s0 = "called MULTIBOOT_BOOTLOADER_MAGIC ebx ret s0"
  have "devices_fail (dev (mach ?s0))" using assms(6) by (simp add: called_def)
  then obtain s' k where s': "kernel_start lk mmap_at junk MULTIBOOT_BOOTLOADER_MAGIC (info_at ebx) ?s0 = Ok (None, s')"
      "kernel_running s' k" "bit (eflags (mach s')) 9"
    using kernel_start_bare [OF assms(1-4) boot_ok_called [OF assms(5)], of _ _ _ lk] by blast
  define s where "s = s'\<lparr>mach := (mach s')\<lparr>esp_reg := esp_reg (mach s') + 4\<rparr>\<rparr>"
  have ok: "idle_ok c k (c, pic_idle, s)" for c unfolding s_def by (rule idle_ok_start [OF s'(2)])
  have cur: "GetCurThread s'' = Ok k" if "idle_ok c k (c, pic_idle, s'')" for c s''
    using that sched_cur [of s'' "[k]"] by (auto simp: idle_ok_def slice_ok_def)
  have "(\<exists>s'. x = (c, pic_idle, s') \<and> GetCurThread s' = Ok k \<and> raised s' pic_idle 0) \<and> (\<exists>y. idle tab x y)"
    if h: "halted c s" and r: "(idle tab)\<^sup>*\<^sup>* (c, pic_idle, s) x" for c x
  proof -
    have c: "\<not> ring3 (c_cs c)" "3 \<le> length (stk c)" "bit (c_eflags c) 9" using h s'(3) by (auto simp: halted_def s_def)
    obtain s'' where x: "x = (c, pic_idle, s'')" "idle_ok c k (c, pic_idle, s'')"
      using idle_invariant [OF r ok c(1,2)] by (cases x) (auto simp: idle_ok_def)
    have r0: "raised s'' pic_idle 0" using x(2) by (auto simp: raised_def kIrqSlave_def idle_ok_def intr_state_def)
    then have "\<exists>y. idle tab x y"
      using idle_tick [OF x(2) c(1,2), of tab _ "ucast (tss_ss0 s'')" "tss_esp0 s''"] idle.wake [OF c(3), of s'' pic_idle 0 tab] x(1) by fastforce
    then show ?thesis using x cur r0 by blast
  qed
  moreover have "start lk info_at mmap_at junk MULTIBOOT_BOOTLOADER_MAGIC ebx ret s0 = Ok s" using s'(1) by (simp add: start_run s_def)
  ultimately show ?thesis using cur [OF ok] by blast
qed

text \<open>The example machine, and the registers in the loop.\<close>

definition cpu_loop :: "u32 \<Rightarrow> cpu" where
  "cpu_loop fl = cpu3\<lparr>c_cs := 8, c_ss := 0x10, c_eip := 0x100030, c_esp := 0xbbf4, c_eflags := fl, stk := replicate 6 0\<rparr>"

lemma halted_loop: "halted (cpu_loop (eflags (mach s))) s"
  by (simp add: halted_def cpu_loop_def ring3_def)

theorem machine_idles_witness:
  "\<exists>s k y. start links0 (\<lambda>_. info0) mmap0 0 MULTIBOOT_BOOTLOADER_MAGIC 0x9500 0 start0 = Ok s \<and> GetCurThread s = Ok k \<and>
     idle syscall_table (cpu_loop (eflags (mach s)), pic_idle, s) y"
proof -
  let ?es = "[mmap0 0x9000, mmap0 0x9018]"
  have m: "mmap_of mmap0 (mmap_addr info0) ?es (mmap_addr info0 + mmap_length info0)" by (simp add: mmap0_def info0_def)
  have i: "MIN_LOWER_MEM \<le> mem_lower info0" "MIN_UPPER_MEM \<le> mem_upper info0" "bit (mb_flags info0) 6"
    by (simp_all add: info0_def MIN_LOWER_MEM_def MIN_UPPER_MEM_def)
  have "devices_fail (dev (mach start0))" using fail_dev_fails by (simp add: start0_def ths.extend_def)
  moreover have "boot_ok 0x8000 (start0\<lparr>avl_mem := available ?es @ [(0, UINT32_MAX)]\<rparr>)"
    using start0_boot_ok by (simp add: available_def mmap0_def MULTIBOOT_MEMORY_AVAILABLE_def)
  ultimately obtain s k where s: "start links0 (\<lambda>_. info0) mmap0 0 MULTIBOOT_BOOTLOADER_MAGIC 0x9500 0 start0 = Ok s" "GetCurThread s = Ok k"
      "\<forall>c x. halted c s \<and> (idle syscall_table)\<^sup>*\<^sup>* (c, pic_idle, s) x \<longrightarrow>
         (\<exists>s'. x = (c, pic_idle, s') \<and> GetCurThread s' = Ok k \<and> raised s' pic_idle 0) \<and> (\<exists>y. idle syscall_table x y)"
    using machine_idles [of "\<lambda>_. info0" "0x9500" mmap0 ?es "0x8000" 0 start0 links0 0 syscall_table] i m by blast
  then have "\<exists>y. idle syscall_table (cpu_loop (eflags (mach s)), pic_idle, s) y" using halted_loop rtranclp.rtrancl_refl by metis
  then show ?thesis using s(1,2) by blast
qed

text \<open>
  C27: a refused start.  With a wrong magic number, or with too little memory reported, the entry code still reaches the loop.  Exactly this has changed: the screen, which is cleared and
  shows the number if that was wrong; the three words that the entry code has pushed; the stack pointer and the flags.  No port has been accessed, and no control register, descriptor table or other word of memory has changed.
  The machine stays in the loop: \<^verbatim>\<open>_start\<close> has cleared the interrupt flag, so that no interrupt ends the \<^verbatim>\<open>hlt\<close>.
\<close>

theorem refused_halts:
  assumes "eax \<noteq> MULTIBOOT_BOOTLOADER_MAGIC \<or>
    bit (mb_flags (info_at ebx)) 0 \<and> (mem_lower (info_at ebx) < MIN_LOWER_MEM \<or> mem_upper (info_at ebx) < MIN_UPPER_MEM)"
  shows "\<exists>s co. start lk info_at mmap_at junk eax ebx ret s0 = Ok s \<and>
    s = s0\<lparr>console := co, mach := (mach s0)\<lparr>esp_reg := 0xbbf4, eflags := 2,
          wmem := (wmem (mach s0))(0xbbf8 := ebx, 0xbbf4 := eax, 0xbbf0 := ret)\<rparr>\<rparr> \<and>
    (if eax \<noteq> MULTIBOOT_BOOTLOADER_MAGIC then kbind (cls (console s0)) (printf (''Invalid magic number: 0x%x'' @ [CHR 0x0A]) [PInt eax])
     else cls (console s0)) = Ok co \<and>
    (\<forall>c p x. halted c s \<longrightarrow> \<not> idle tab (c, p, s) x)"
proof -
  have con: "console (called eax ebx ret s0) = console s0" by (simp add: called_def)
  obtain co where co: "kernel_start lk mmap_at junk eax (info_at ebx) (called eax ebx ret s0) = Ok (Some (-1), (called eax ebx ret s0)\<lparr>console := co\<rparr>)"
      "(if eax \<noteq> MULTIBOOT_BOOTLOADER_MAGIC then kbind (cls (console s0)) (printf (''Invalid magic number: 0x%x'' @ [CHR 0x0A]) [PInt eax])
        else cls (console s0)) = Ok co"
    using kernel_refuses [OF assms, of lk mmap_at junk "called eax ebx ret s0"] unfolding con by blast
  let ?t = "s0\<lparr>console := co, mach := (mach s0)\<lparr>esp_reg := 0xbbf4, eflags := 2,
          wmem := (wmem (mach s0))(0xbbf8 := ebx, 0xbbf4 := eax, 0xbbf0 := ret)\<rparr>\<rparr>"
  have "start lk info_at mmap_at junk eax ebx ret s0 = Ok ?t" unfolding start_run co(1) by (simp add: called_def)
  moreover have "\<not> bit (c_eflags c) 9" if "halted c ?t" for c using that by (simp add: halted_def bit_simps)
  then have "\<not> idle tab (c, p, ?t) x" if "halted c ?t" for c p x using that by (auto elim: idleE)
  ultimately show ?thesis using co(2) by blast
qed

theorem refused_halts_witness:
  "\<exists>s. start links0 (\<lambda>_. info0) mmap0 0 0x12345 0x9500 0 start0 = Ok s \<and> trace (mach s) = [] \<and> wmem (mach s) 0xbbf4 = 0x12345 \<and>
     (\<forall>x. \<not> idle syscall_table (cpu_loop (eflags (mach s)), pic_idle, s) x)"
proof -
  have "(0x12345 :: u32) \<noteq> MULTIBOOT_BOOTLOADER_MAGIC" by (simp add: MULTIBOOT_BOOTLOADER_MAGIC_def)
  then obtain s co where s: "start links0 (\<lambda>_. info0) mmap0 0 0x12345 0x9500 0 start0 = Ok s"
      "s = start0\<lparr>console := co, mach := (mach start0)\<lparr>esp_reg := 0xbbf4, eflags := 2,
          wmem := (wmem (mach start0))(0xbbf8 := 0x9500, 0xbbf4 := 0x12345, 0xbbf0 := 0)\<rparr>\<rparr>"
      "\<forall>c p x. halted c s \<longrightarrow> \<not> idle syscall_table (c, p, s) x"
    using refused_halts [of "0x12345" "\<lambda>_. info0" "0x9500" links0 mmap0 0 0 start0 syscall_table] by blast
  have "trace (mach s) = []" "wmem (mach s) 0xbbf4 = 0x12345" by (simp_all add: s(2)) (simp add: start0_def ths.extend_def mach0_def)
  then show ?thesis using s(1,3) halted_loop by blast
qed

end
