(* ===== verification/Interleave.thy ===== *)
theory Interleave
  imports DeviceBoot Start
begin

text \<open>
  Interrupts of the timer and of the keyboard in any order, in a kernel with several threads: the controllers, the descriptor table, the dispatcher, both handlers and
  the scheduler together.
\<close>

definition is_key :: "IntrReg \<Rightarrow> bool" where
  "is_key r \<longleftrightarrow> intr_vec_no r = kKeyboardVec"

lemma ths_more_kbd:
  "ths.more s' = ths.more s \<Longrightarrow> keymap s' = keymap s \<and> input_buf s' = input_buf s \<and> cur s' = cur s \<and> key_counter s' = key_counter s"
  by (cases s; cases s') simp

lemma ThreadSwitch_keymap:
  assumes sc: "sched s xs" and ap: "keymap_apart s xs"
  shows "\<exists>s'. ThreadSwitch s = Ok s' \<and> sched s' (rotate1 xs) \<and> nxt s' (keymap s) = nxt s (keymap s) \<and> keymap_apart s' (rotate1 xs)"
proof -
  consider cur where "xs = [cur]" | cur new rest where "xs = cur # new # rest"
    using sc by (cases xs rule: remdups_adj.cases) (auto simp: sched_defs)
  then show ?thesis
  proof cases
    case 1
    then show ?thesis using ThreadSwitch_idle [of s cur] sc ap by auto
  next
    case 2
    obtain s' where s': "ThreadSwitch s = Ok s'" "sched s' (new # rest @ [cur])" "switch_post s cur new s'"
        "\<forall>x. x \<noteq> th_node cur \<and> x \<notin> nodes (q_head s) (\<lambda>_. map th_node (new # rest)) (wait_thread_queue s) \<longrightarrow> nxt s' x = nxt s x"
      using ThreadSwitch_step sc unfolding 2 by blast
    have "keymap s' = keymap s" using ThreadSwitch_frame [OF s'(1)] ths_more_kbd [of s' s] by simp
    then have "keymap_apart s' (new # rest @ [cur])"
      using ap s'(3) by (auto simp: 2 keymap_apart_def sched_nodes_def switch_post_def)
    moreover have "nxt s' (keymap s) = nxt s (keymap s)"
      using s'(4) ap by (auto simp: 2 keymap_apart_def sched_nodes_def nodes_def)
    ultimately show ?thesis using s'(1,2) by (auto simp: 2)
  qed
qed

section \<open>The two handlers\<close>

text \<open>
  \<open>live_kbd s xs m b\<close>: the schedule is that of \<open>xs\<close> with \<open>m\<close> ticks left, the keyboard's buffer has room for \<open>b\<close> entries, the handlers of the timer and
  the keyboard are registered and their lines let through; the keyboard controller answers.  In \<open>awake\<close> no line is in service.
\<close>

definition live_kbd :: "'a ides_scheme \<Rightarrow> u32 list \<Rightarrow> nat \<Rightarrow> nat \<Rightarrow> bool" where
  "live_kbd s xs m b \<longleftrightarrow> slice_ok s xs m \<and> (\<exists>c n. kbd_inv c n s \<and> c + b \<le> kKeyboardBufSize) \<and> keymap_apart s xs \<and>
     keyboard_answers (dev (mach s)) \<and> gates_match s \<and> intr_handler s ! 32 = Some H_Timer \<and> intr_handler s ! 33 = Some H_Keyboard \<and>
     \<not> irq_masked s 0 \<and> \<not> irq_masked s 1"

definition awake :: "pic \<times> 'a ides_scheme \<Rightarrow> u32 list \<Rightarrow> nat \<Rightarrow> nat \<Rightarrow> bool" where
  "awake = (\<lambda>(c, s) xs m b. c = pic_idle \<and> live_kbd s xs m b)"

lemma awake_idle [simp]: "awake (pic_idle, s) xs m b = live_kbd s xs m b"
  by (simp add: awake_def)

lemma live_acked:
  assumes "acked s s'" "live_kbd s xs m b"
  shows "gates_match s'" "intr_handler s' ! 32 = Some H_Timer" "intr_handler s' ! 33 = Some H_Keyboard" "\<not> irq_masked s' 0" "\<not> irq_masked s' 1"
  using assms gates_match_tables [of s' s] acked_pic(3) [OF assms(1)] by (auto simp: live_kbd_def acked_def)

lemma SendEoi_mach_only: "SendEoi v s = s\<lparr>mach := mach (SendEoi v s)\<rparr>" "dev (mach (SendEoi v s)) = dev (mach s)"
    "wmem (mach (SendEoi v s)) = wmem (mach s)" "creg (mach (SendEoi v s)) = creg (mach s)"
  by (simp_all add: SendEoi_def koutb_def outb_def Let_def)

lemma kbd_inv_cong:
  "kbd_inv c n s \<Longrightarrow> nxt s' (keymap s) = nxt s (keymap s) \<Longrightarrow> keymap s' = keymap s \<Longrightarrow> input_buf s' = input_buf s \<Longrightarrow> cur s' = cur s \<Longrightarrow>
   key_counter s' = key_counter s \<Longrightarrow> kbd_inv c n s'"
  by (simp add: kbd_inv_def clist_Nil)

lemma TimerHandler_shape:
  assumes "TimerHandler r s = Ok s'"
  shows "\<exists>tm m c. dev m = dev (mach s) \<and> wmem m = wmem (mach s) \<and> creg m = creg (mach s) \<and>
    (if timer s = 1 then ThreadSwitch (s\<lparr>timer := tm, mach := m, console := c\<rparr>) = Ok s' else s' = s\<lparr>timer := tm, mach := m\<rparr>)"
proof -
  let ?s = "SendEoi (intr_vec_no r) (s\<lparr>timer := timer s - 1\<rparr>)"
  have e: "?s = s\<lparr>timer := timer s - 1, mach := mach ?s\<rparr>" by (subst SendEoi_mach_only(1)) simp
  have m: "dev (mach ?s) = dev (mach s)" "wmem (mach ?s) = wmem (mach s)" "creg (mach ?s) = creg (mach s)" by (simp_all add: SendEoi_mach_only(2-4))
  show ?thesis
  proof (cases "timer s = 1")
    case True
    then have "timer ?s = 0" by simp
    then obtain c where "ThreadSwitch (?s\<lparr>timer := kTimerReset, console := c\<rparr>) = Ok s'"
      using assms unfolding TimerHandler_def Let_def by (auto simp: kbind_eq_Ok kprintf_eq_Ok simp del: append.simps)
    moreover have "?s\<lparr>timer := kTimerReset, console := c\<rparr> = s\<lparr>timer := kTimerReset, mach := mach ?s, console := c\<rparr>" by (subst e) simp
    ultimately show ?thesis using m True by auto
  next
    case False
    then have "s' = ?s" using assms by (simp add: TimerHandler_def Let_def)
    then show ?thesis using m e False by auto
  qed
qed

lemma reads_in: "\<exists>tr. trace (mach (after_reads p n s)) = tr @ trace (mach s) \<and> (\<forall>x\<in>set tr. case x of OutB _ _ \<Rightarrow> False | _ \<Rightarrow> True)"
proof -
  have "\<exists>tr. read_hist p d n t = tr @ t \<and> (\<forall>x\<in>set tr. case x of OutB _ _ \<Rightarrow> False | _ \<Rightarrow> True)" for d t
  proof (induction n arbitrary: t)
    case (Suc n)
    obtain tr where "read_hist p d n (InB p (d t p) # t) = tr @ InB p (d t p) # t" "\<forall>x\<in>set tr. case x of OutB _ _ \<Rightarrow> False | _ \<Rightarrow> True"
      using Suc by blast
    then show ?case by (intro exI [of _ "tr @ [InB p (d t p)]"]) auto
  qed simp
  then show ?thesis by (simp add: after_reads_def)
qed

lemma timer_live:
  assumes lv: "live_kbd s xs m b" and r: "is_tick r"
  shows "\<exists>s'. TimerHandler r s = Ok s' \<and> acked s s' \<and> (if m = 1 then live_kbd s' (rotate1 xs) 15 b else live_kbd s' xs (m - 1) b)"
proof -
  have sl: "slice_ok s xs m" "sched s xs" "keymap_apart s xs" and m: "timer s = 1 \<longleftrightarrow> m = 1"
    using lv by (auto simp: live_kbd_def slice_ok_def word_unat_eq_iff)
  obtain c n where kb: "kbd_inv c n s" "c + b \<le> kKeyboardBufSize" using lv by (auto simp: live_kbd_def)
  obtain s' where s': "TimerHandler r s = Ok s'" "if m = 1 then slice_ok s' (rotate1 xs) 15 else slice_ok s' xs (m - 1)"
    using TimerHandler_step [OF sl(1)] by blast
  from TimerHandler_shape [OF s'(1)] obtain tm mc co where h: "dev mc = dev (mach s)" "wmem mc = wmem (mach s)" "creg mc = creg (mach s)"
      "if m = 1 then ThreadSwitch (s\<lparr>timer := tm, mach := mc, console := co\<rparr>) = Ok s' else s' = s\<lparr>timer := tm, mach := mc\<rparr>"
    unfolding m by blast
  have "nxt s' (keymap s) = nxt s (keymap s) \<and> keymap s' = keymap s \<and> input_buf s' = input_buf s \<and> cur s' = cur s \<and> key_counter s' = key_counter s \<and>
      dev (mach s') = dev (mach s) \<and> keymap_apart s' (if m = 1 then rotate1 xs else xs)"
  proof (cases "m = 1")
    case False
    then show ?thesis using h sl(3) keymap_apart_cong [of s' s xs] by simp
  next
    case True
    let ?s = "s\<lparr>timer := tm, mach := mc, console := co\<rparr>"
    have sw: "ThreadSwitch ?s = Ok s'" using h(4) True by simp
    have "sched ?s xs" using sl(2) sched_cong [of ?s s xs] h(2,3) by simp
    moreover have "keymap_apart ?s xs" using sl(3) keymap_apart_cong [of ?s s xs] by simp
    ultimately have "nxt s' (keymap s) = nxt s (keymap s)" "keymap_apart s' (rotate1 xs)" using ThreadSwitch_keymap [of ?s xs] sw by auto
    then show ?thesis
      using ThreadSwitch_frame [OF sw] ths_more_kbd [of s' ?s] ThreadSwitch_mach [OF sw] h(1) True by simp
  qed
  moreover have a: "acked s s'" using TimerHandler_acked(1) [OF s'(1)] r by (simp add: is_tick_def kTimerVec_def)
  ultimately show ?thesis
    using s' kb kbd_inv_cong [OF kb(1), of s'] lv live_acked [OF a lv] by (auto simp: live_kbd_def)
qed

lemma key_live:
  fixes s :: "'a ides_scheme"
  assumes lv: "live_kbd s xs m (Suc b)" and r: "is_key r"
  shows "\<exists>s'. KeyboardHandler r s = Ok s' \<and> acked s s' \<and> live_kbd s' xs m b"
proof -
  obtain c n where kb: "kbd_inv c n s" "c + Suc b \<le> kKeyboardBufSize" using lv by (auto simp: live_kbd_def)
  have v: "intr_vec_no r = kKeyboardVec" using r by (simp add: is_key_def)
  have "ps2_gives (dev (mach s)) (trace (mach s))" using lv by (simp add: live_kbd_def keyboard_answers_def)
  then have g: "\<not> (\<forall>i. nth_read kPs2StatusReg i s AND 1 = 0)" by (auto simp: ps2_gives_def nth_read_def)
  have full: "\<not> (n = 0 \<and> c = kKeyboardBufSize)" using kb(2) by auto
  define s1 where "s1 = after_reads kPs2StatusReg (Suc (LEAST i. nth_read kPs2StatusReg i s AND 1 \<noteq> 0)) s"
  define s2 where "s2 = after_reads kPs2DataPort 1 s1"
  let ?i = "nth_read kPs2DataPort 0 s1"
  define s' where "s' = (key_recorded c n ?i s2)\<lparr>mach := (mach s2)\<lparr>trace := OutB kMPicCmd kPicEoi # trace (mach s2)\<rparr>\<rparr>"
  have run: "KeyboardHandler r s = Ok s'"
    using KeyboardHandler_eq [OF kb(1) v] g full by (simp add: s'_def s1_def s2_def Let_def key_recorded_def)
  note d = s'_def s2_def s1_def key_recorded_def after_reads_def
  have s': "dev (mach s') = dev (mach s)" "wmem (mach s') = wmem (mach s)" "creg (mach s') = creg (mach s)" "nxt s' = nxt s" "q_head s' = q_head s"
      "q_tail s' = q_tail s" "wait_thread_queue s' = wait_thread_queue s" "th_pcb s' = th_pcb s" "th_stack_addr s' = th_stack_addr s"
      "tss_esp0 s' = tss_esp0 s" "console s' = console s" "timer s' = timer s" "keymap s' = keymap s" "tables s' = tables s"
    by (simp_all add: d) (simp add: tables_def)
  obtain tr where tr: "trace (mach s2) = tr @ trace (mach s)" "\<forall>x\<in>set tr. case x of OutB _ _ \<Rightarrow> False | _ \<Rightarrow> True"
  proof -
    let ?in = "\<lambda>tr. \<forall>x\<in>set tr. case x of OutB _ _ \<Rightarrow> False | _ \<Rightarrow> True"
    obtain t1 where t1: "trace (mach s1) = t1 @ trace (mach s)" "?in t1" unfolding s1_def using reads_in by blast
    obtain t2 where t2: "trace (mach s2) = t2 @ trace (mach s1)" "?in t2" unfolding s2_def using reads_in by blast
    have "trace (mach s2) = (t2 @ t1) @ trace (mach s)" "?in (t2 @ t1)" using t1 t2 by auto
    then show ?thesis by (rule that)
  qed
  have a: "acked s s'" using s'(14) tr by (auto simp: acked_def s'_def)
  have "kbd_inv c n s2" using kb(1) by (simp add: kbd_inv_def s2_def s1_def after_reads_def)
  then have "\<exists>c' n'. kbd_inv c' n' (key_recorded c n ?i s2) \<and> c' \<le> Suc c"
    using KeyInput_step [of c n s2 ?i] KeyInput_eq [of c n s2 ?i] full by (auto split: if_splits intro: le_SucI)
  then obtain c' n' where "kbd_inv c' n' s'" "c' + b \<le> kKeyboardBufSize"
    using kb(2) kbd_inv_cong [of _ _ "key_recorded c n ?i s2" s'] by (force simp: s'_def)
  moreover have "sched s' xs = sched s xs" by (rule sched_cong [OF s'(4-10,2,3)])
  then have "slice_ok s' xs m" using lv s'(11,12) by (simp add: live_kbd_def slice_ok_def)
  moreover have "keymap_apart s' xs" using lv keymap_apart_cong [OF s'(5,7,8,13)] by (simp add: live_kbd_def)
  ultimately show ?thesis using lv s'(1) live_acked [OF a lv] run a by (auto simp: live_kbd_def)
qed

section \<open>Sequences of interrupts\<close>

lemma live_step:
  assumes lv: "live_kbd s xs m b" and r: "is_tick r \<or> is_key r" "(if is_key r then 1 else 0) \<le> b"
  shows "\<exists>s'. deliver1 tab r (pic_idle, s) = Ok (pic_idle, s') \<and>
    (let b' = b - (if is_key r then 1 else 0) in
     if is_tick r then if m = 1 then live_kbd s' (rotate1 xs) 15 b' else live_kbd s' xs (m - 1) b' else live_kbd s' xs m b')"
proof -
  have h: "gates_match s" "intr_handler s ! 32 = Some H_Timer" "intr_handler s ! 33 = Some H_Keyboard" "raised s pic_idle 0" "raised s pic_idle 1"
    using lv by (auto simp: live_kbd_def raised_def kIrqSlave_def)
  show ?thesis
  proof (cases "is_tick r")
    case True
    then have n: "unat (intr_vec_no r) = 32" "\<not> is_key r" by (simp_all add: is_tick_def is_key_def kTimerVec_def kKeyboardVec_def)
    obtain s' where s': "TimerHandler r s = Ok s'" "acked s s'" "if m = 1 then live_kbd s' (rotate1 xs) 15 b else live_kbd s' xs (m - 1) b"
      using timer_live [OF lv True] by blast
    have "deliver1 tab r (pic_idle, s) = Ok (pic_idle, s')"
      using deliver1_handled [OF h(1,2) _ n(1), of pic_idle tab r s'] h(4) s'(1) acked_pic(1) [OF s'(2), of 0] by (simp add: run_handler_def)
    then show ?thesis using s'(3) True n(2) by (auto simp: Let_def)
  next
    case False
    then have k: "is_key r" using r(1) by simp
    then have n: "unat (intr_vec_no r) = 33" by (simp add: is_key_def kKeyboardVec_def)
    have "live_kbd s xs m (Suc (b - 1))" using lv r(2) k by simp
    then obtain s' where s': "KeyboardHandler r s = Ok s'" "acked s s'" "live_kbd s' xs m (b - 1)" using key_live k by blast
    have "deliver1 tab r (pic_idle, s) = Ok (pic_idle, s')"
      using deliver1_handled [OF h(1,3) _ n, of pic_idle tab r s'] h(5) s'(1) acked_pic(1) [OF s'(2), of 1] by (simp add: run_handler_def)
    then show ?thesis using s'(3) False k by (auto simp: Let_def)
  qed
qed

interpretation tk: sliced "deliver1 tab" is_tick "\<lambda>r. is_tick r \<or> is_key r" "\<lambda>r. if is_key r then 1 else 0" awake
  for tab :: "'a ides_scheme sysfun option list"
proof
  fix x :: "pic \<times> 'a ides_scheme" and xs m b r
  assume lv: "awake x xs m b"
  then show "0 < m \<and> m \<le> 15" by (cases x) (auto simp: awake_def live_kbd_def slice_ok_def)
  assume r: "is_tick r \<or> is_key r" "(if is_key r then 1 else 0) \<le> b"
  obtain s where x: "x = (pic_idle, s)" "live_kbd s xs m b" using lv by (cases x) (auto simp: awake_def)
  obtain s' where "deliver1 tab r (pic_idle, s) = Ok (pic_idle, s')"
      "let b' = b - (if is_key r then 1 else 0) in
       if is_tick r then if m = 1 then live_kbd s' (rotate1 xs) 15 b' else live_kbd s' xs (m - 1) b' else live_kbd s' xs m b'"
    using live_step [OF x(2) r, of tab] by blast
  then have "deliver1 tab r x = Ok (pic_idle, s') \<and>
      (if is_tick r then if m = 1 then awake (pic_idle, s') (rotate1 xs) 15 (b - (if is_key r then 1 else 0))
         else awake (pic_idle, s') xs (m - 1) (b - (if is_key r then 1 else 0))
       else awake (pic_idle, s') xs m (b - (if is_key r then 1 else 0)))"
    unfolding x(1) awake_idle Let_def by blast
  then show "\<exists>x'. deliver1 tab r x = Ok x' \<and>
      (if is_tick r then if m = 1 then awake x' (rotate1 xs) 15 (b - (if is_key r then 1 else 0)) else awake x' xs (m - 1) (b - (if is_key r then 1 else 0))
       else awake x' xs m (b - (if is_key r then 1 else 0)))"
    by blast
qed

lemma key_costs: "sum_list (map (\<lambda>r. if is_key r then 1 else 0) rs) = length (filter is_key rs)"
  by (induction rs) simp_all

lemma timer_and_keys_run:
  assumes "live_kbd s xs m b" "\<forall>r\<in>set rs. is_tick r \<or> is_key r" "length (filter is_key rs) \<le> b"
  shows "\<exists>s'. deliver tab rs (pic_idle, s) = Ok (pic_idle, s') \<and>
    live_kbd s' (rotate ((length (filter is_tick rs) + 15 - m) div 15) xs) (15 - (length (filter is_tick rs) + 15 - m) mod 15) (b - length (filter is_key rs))"
  using tk.events_run [of "(pic_idle, s)" xs m b rs tab] assms unfolding key_costs deliver_events by (auto simp: awake_def)

text \<open>
  C10: the timer and the keyboard do not disturb each other.  In any state of the scheduler with any number of threads, with the two handlers registered and their lines let through, a sequence of timer and keyboard
  interrupts in any order is handled as long as the keyboard's buffer has room for one entry per keyboard
  interrupt: each request passes the controllers, because the one before has been acknowledged, and the descriptor table; the running thread and the rest of its slice depend on the number of timer interrupts alone, and the keyboard's invariant holds with at most one
  further entry for each keyboard interrupt.  The keyboard controller has a byte for each interrupt after some reads of its status.
\<close>

theorem timer_and_keyboard:
  assumes "slice_ok s xs m" "kbd_inv c n s" "keymap_apart s xs" "keyboard_answers (dev (mach s))" "gates_match s"
    and "intr_handler s ! 32 = Some H_Timer" "intr_handler s ! 33 = Some H_Keyboard" "\<not> irq_masked s 0" "\<not> irq_masked s 1"
    and "\<forall>r\<in>set rs. is_tick r \<or> is_key r" "c + length (filter is_key rs) \<le> kKeyboardBufSize"
  shows "\<exists>s' c' n'. deliver tab rs (pic_idle, s) = Ok (pic_idle, s') \<and> kbd_inv c' n' s' \<and> c' \<le> c + length (filter is_key rs) \<and>
    GetCurThread s' = Ok (xs ! ((length (filter is_tick rs) + 15 - m) div 15 mod length xs)) \<and>
    unat (timer s') = 15 - (length (filter is_tick rs) + 15 - m) mod 15"
proof -
  let ?b = "kKeyboardBufSize - c" and ?k = "(length (filter is_tick rs) + 15 - m) div 15"
  have "live_kbd s xs m ?b" using assms unfolding live_kbd_def by (auto simp: kbd_inv_def)
  then obtain s' where s': "deliver tab rs (pic_idle, s) = Ok (pic_idle, s')"
      "live_kbd s' (rotate ?k xs) (15 - (length (filter is_tick rs) + 15 - m) mod 15) (?b - length (filter is_key rs))"
    using timer_and_keys_run [of s xs m ?b rs tab] assms(10,11) by force
  have "xs \<noteq> []" using assms(1) by (simp add: slice_ok_def sched_defs)
  then have "GetCurThread s' = Ok (xs ! (?k mod length xs))"
    using s'(2) sched_cur [of s' "rotate ?k xs"] by (simp add: live_kbd_def slice_ok_def hd_rotate_conv_nth)
  moreover obtain c' n' where "kbd_inv c' n' s'" "c' \<le> c + length (filter is_key rs)" using s'(2) assms(2,11) by (fastforce simp: live_kbd_def kbd_inv_def)
  ultimately show ?thesis using s' by (auto simp: live_kbd_def slice_ok_def)
qed

text \<open>Three threads, and a keyboard that answers.\<close>

definition drv3 :: ides where
  "drv3 = drv0\<lparr>intr_handler := (replicate 256 None)[32 := Some H_Timer, 33 := Some H_Keyboard],
     idt := (replicate 256 zero_gate)[32 := zero_gate\<lparr>gate_type := 0x8e00\<rparr>, 33 := zero_gate\<lparr>gate_type := 0x8e00\<rparr>],
     mach := (mach drv0)\<lparr>dev := present_dev\<rparr>\<rparr>"

lemma drv3_intr: "gates_match drv3" "\<not> irq_masked drv3 irq"
proof -
  have "gate_present (zero_gate\<lparr>gate_type := 0x8e00\<rparr>)" "\<not> gate_present zero_gate" by code_simp+
  then show "gates_match drv3" by (simp add: gates_match_def tables256_def drv3_def drv0_defs nth_list_update)
  show "\<not> irq_masked drv3 irq" by (simp add: irq_masked_def drv3_def drv0_defs mach0_def)
qed

theorem timer_and_keyboard_witness:
  "\<exists>s'. deliver syscall_table (ireg0\<lparr>intr_vec_no := 33\<rparr> # replicate 15 (ireg0\<lparr>intr_vec_no := 32\<rparr>) @ [ireg0\<lparr>intr_vec_no := 33\<rparr>]) (pic_idle, drv3) =
       Ok (pic_idle, s') \<and> GetCurThread s' = Ok 0x2000 \<and> unat (cur s') \<le> 2"
proof -
  let ?rs = "ireg0\<lparr>intr_vec_no := 33\<rparr> # replicate 15 (ireg0\<lparr>intr_vec_no := 32\<rparr>) @ [ireg0\<lparr>intr_vec_no := 33\<rparr>]"
  have "sched drv3 [0x1000, 0x2000, 0x3000] = sched drv0 [0x1000, 0x2000, 0x3000]" by (rule sched_cong) (simp_all add: drv3_def)
  then have s: "slice_ok drv3 [0x1000, 0x2000, 0x3000] 15" using drv0_slice by (simp add: slice_ok_def drv3_def)
  have k: "kbd_inv 0 0 drv3" using drv0_kbd by (simp add: drv3_def kbd_inv_def)
  have a: "keymap_apart drv3 [0x1000, 0x2000, 0x3000]" by (simp add: keymap_apart_def drv3_def drv0_defs sched_nodes_def th_node_def)
  have d: "keyboard_answers (dev (mach drv3))" "intr_handler drv3 ! 32 = Some H_Timer" "intr_handler drv3 ! 33 = Some H_Keyboard"
    using present_dev_answers(3) by (simp_all add: drv3_def)
  have n: "\<forall>r\<in>set ?rs. is_tick r \<or> is_key r" "length (filter is_key ?rs) = 2" "length (filter is_tick ?rs) = 15"
    by (auto simp: is_tick_def is_key_def kTimerVec_def kKeyboardVec_def)
  then have "0 + length (filter is_key ?rs) \<le> kKeyboardBufSize" unfolding kKeyboardBufSize_def by linarith
  from timer_and_keyboard [OF s k a d(1) drv3_intr(1) d(2,3) drv3_intr(2) drv3_intr(2) n(1) this, of syscall_table]
  show ?thesis unfolding n(2,3) by (auto simp: kbd_inv_def)
qed

text \<open>
  C7: the kernel boots with its devices.  On a machine whose drive and keyboard answer, with the conditions on the memory as before and an image that ends above the
  first megabyte, \<^verbatim>\<open>kernel_start\<close> returns.  Then two threads are scheduled: the first one runs with a full slice, and the one of the disk driver waits with
  the address of \<^verbatim>\<open>RunIde\<close> below its registers.  The queue of requests and the keyboard's buffer are empty; the handlers are those of the exceptions 0 to 3, the page
  fault, the timer, the keyboard, the disk and the system call, and the controllers let through the lines of the three
  devices.  From then on every sequence of interrupts of the timer and the keyboard with at most 1024 of the latter is handled, and the two threads
  alternate, 15 ticks each, whatever is typed.
\<close>

theorem devices_boot:
  assumes "magic = MULTIBOOT_BOOTLOADER_MAGIC" "MIN_LOWER_MEM \<le> mem_lower info" "MIN_UPPER_MEM \<le> mem_upper info" "bit (mb_flags info) 6"
    and "mmap_of mmap_at (mmap_addr info) es (mmap_addr info + mmap_length info)"
    and "boot_ok B (s\<lparr>avl_mem := available es @ [(junk, UINT32_MAX)]\<rparr>)" "0x100000 \<le> K_END s" "length (input_buf s) = kKeyboardBufSize"
    and "imr_dev (dev (mach s))" "disk_answers (dev (mach s))" "keyboard_answers (dev (mach s))" "unat (ide_buffer lk) + 512 \<le> 0xbbfc"
  shows "\<exists>s' k nt. kernel_start lk mmap_at junk magic info s = Ok (None, s') \<and> slice_ok s' [k, nt] 15 \<and>
    rdw (th_esp s' nt + 16) s' = Ok (addr_of_RunIde lk) \<and> queues s' {block_queue s'} (\<lambda>_. []) \<and> kbd_inv 0 0 s' \<and> alloc_ok 5187 s' \<and> gates_match s' \<and>
    (\<forall>v<256. intr_handler s' ! v = (if v < 4 then Some H_Exc else if v = 14 then Some H_Pf else if v = 32 then Some H_Timer
       else if v = 33 then Some H_Keyboard else if v = 46 then Some H_Ide else if v = 128 then Some H_Syscall else None)) \<and>
    (\<forall>irq<16. irq_masked s' irq \<longleftrightarrow> irq \<notin> {0, 1, 2, 14}) \<and>
    (\<forall>tab rs. (\<forall>r\<in>set rs. is_tick r \<or> is_key r) \<and> length (filter is_key rs) \<le> kKeyboardBufSize \<longrightarrow>
       (\<exists>s''. deliver tab rs (pic_idle, s') = Ok (pic_idle, s'') \<and> GetCurThread s'' = Ok (if even (length (filter is_tick rs) div 15) then k else nt)))"
proof -
  obtain s' k where s': "kernel_start lk mmap_at junk magic info s = Ok (None, s')" "devices_up (addr_of_RunIde lk) (dev (mach s)) s' k"
    using kernel_start_devices [OF assms(2-12)] assms(1) by blast
  then obtain t nt where dr: "disk_ready s' k t nt (addr_of_RunIde lk)" "keymap_apart s' [k, nt]" by (auto simp: devices_up_def)
  have sl: "slice_ok s' [k, nt] 15" using s'(2) dr by (auto simp: devices_up_def disk_ready_def slice_ok_def core_ok_def)
  have h: "\<forall>v<256. intr_handler s' ! v = device_handlers v" "gates_match s'" using s'(2) by (auto simp: devices_up_def intr_state_def)
  then have "intr_handler s' ! 32 = Some H_Timer" "intr_handler s' ! 33 = Some H_Keyboard" by (simp_all add: device_handlers_def)
  moreover have "\<not> irq_masked s' 0" "\<not> irq_masked s' 1" using s'(2) by (auto simp: devices_up_def intr_state_def)
  ultimately have lv: "live_kbd s' [k, nt] 15 kKeyboardBufSize"
    using sl dr(2) s'(2) h(2) assms(11) unfolding live_kbd_def by (auto simp: devices_up_def intro!: exI [of _ 0])
  have "\<exists>s''. deliver tab rs (pic_idle, s') = Ok (pic_idle, s'') \<and> GetCurThread s'' = Ok (if even (length (filter is_tick rs) div 15) then k else nt)"
    if rs: "\<forall>r\<in>set rs. is_tick r \<or> is_key r" "length (filter is_key rs) \<le> kKeyboardBufSize" for tab rs
  proof -
    let ?n = "length (filter is_tick rs) div 15"
    obtain s'' where s'': "deliver tab rs (pic_idle, s') = Ok (pic_idle, s'')" "sched s'' (rotate ?n [k, nt])"
      using timer_and_keys_run [OF lv rs, of tab] by (auto simp: live_kbd_def slice_ok_def)
    have "hd (rotate ?n [k, nt]) = [k, nt] ! (?n mod 2)" by (subst hd_rotate_conv_nth) (simp_all add: numeral_2_eq_2)
    then show ?thesis using s'' sched_cur [OF s''(2)] by (auto simp: even_iff_mod_2_eq_zero odd_iff_mod_2_eq_one)
  qed
  then show ?thesis
    using s' dr sl h
    by (intro exI [of _ s'] exI [of _ k] exI [of _ nt])
      (auto simp: devices_up_def core_ok_def intr_state_def disk_ready_def device_handlers_def boot_handlers_def)
qed

theorem devices_boot_witness:
  "\<exists>s' k nt s''. kernel_start links0 mmap0 0 MULTIBOOT_BOOTLOADER_MAGIC info0 start2 = Ok (None, s') \<and> slice_ok s' [k, nt] 15 \<and>
     deliver syscall_table (replicate 20 (ireg0\<lparr>intr_vec_no := 32\<rparr>) @ [ireg0\<lparr>intr_vec_no := 33\<rparr>]) (pic_idle, s') = Ok (pic_idle, s'') \<and> GetCurThread s'' = Ok nt"
proof -
  let ?es = "[mmap0 0x9000, mmap0 0x9018]"
  have m: "mmap_of mmap0 (mmap_addr info0) ?es (mmap_addr info0 + mmap_length info0)" by (simp add: mmap0_def info0_def)
  have i: "MIN_LOWER_MEM \<le> mem_lower info0" "MIN_UPPER_MEM \<le> mem_upper info0" "bit (mb_flags info0) 6"
    by (simp_all add: info0_def MIN_LOWER_MEM_def MIN_UPPER_MEM_def)
  have "boot_ok 0x8000 (start0\<lparr>avl_mem := available ?es @ [(0, UINT32_MAX)]\<rparr>)"
    using start0_boot_ok by (simp add: available_def mmap0_def MULTIBOOT_MEMORY_AVAILABLE_def)
  then have b: "boot_ok 0x8000 (start2\<lparr>avl_mem := available ?es @ [(0, UINT32_MAX)]\<rparr>)"
    by (auto simp: start2_def boot_ok_def pages_ok_def page_used_def tables256_def)
  have s: "0x100000 \<le> K_END start2" "length (input_buf start2) = kKeyboardBufSize" "unat (ide_buffer links0) + 512 \<le> 0xbbfc"
      "dev (mach start2) = present_dev"
    using boot0_dma(3) by (simp_all add: start2_def start0_def ths.extend_def links0_def)
  from devices_boot [OF refl i m b s(1,2), of links0] present_dev_answers s(3,4)
  obtain s' k nt where r: "kernel_start links0 mmap0 0 MULTIBOOT_BOOTLOADER_MAGIC info0 start2 = Ok (None, s')" "slice_ok s' [k, nt] 15"
      "\<forall>tab rs. (\<forall>r\<in>set rs. is_tick r \<or> is_key r) \<and> length (filter is_key rs) \<le> kKeyboardBufSize \<longrightarrow>
         (\<exists>s''. deliver tab rs (pic_idle, s') = Ok (pic_idle, s'') \<and> GetCurThread s'' = Ok (if even (length (filter is_tick rs) div 15) then k else nt))" by auto
  let ?rs = "replicate 20 (ireg0\<lparr>intr_vec_no := 32\<rparr>) @ [ireg0\<lparr>intr_vec_no := 33\<rparr>]"
  have n: "\<forall>r\<in>set ?rs. is_tick r \<or> is_key r" "length (filter is_key ?rs) = 1" "length (filter is_tick ?rs) = 20"
    by (auto simp: is_tick_def is_key_def kTimerVec_def kKeyboardVec_def)
  then have "length (filter is_key ?rs) \<le> kKeyboardBufSize" unfolding kKeyboardBufSize_def by linarith
  then have "\<exists>s''. deliver syscall_table ?rs (pic_idle, s') = Ok (pic_idle, s'') \<and> GetCurThread s'' = Ok nt"
    using r(3) [rule_format, of ?rs syscall_table] n(1) unfolding n(3) by simp
  then show ?thesis using r(1,2) by blast
qed

end
