(* ===== verification/Spec2Isabelle.thy ===== *)
theory Spec2Isabelle
  imports SchedProps MemProps LibProps TrapProps ConsoleProps ProcProps IdeProps Interleave
begin

text \<open>
  XyOS: a verification library for a 32-bit x86 kernel.

  \<^bold>\<open>The program.\<close>  XyOS is a small kernel.  The boot loader enters \<^verbatim>\<open>src/kernel/boot/boot.S\<close>, which sets up a stack and calls \<^verbatim>\<open>kernel_start\<close> (\<^verbatim>\<open>init.c\<close>).  This records the
  available memory, turns on paging, builds the descriptor tables, sets up the byte allocator for the
  64 MB that are mapped at \<^verbatim>\<open>0xc0000000\<close>, registers handlers for interrupts and system calls, creates the process and
  the thread of the kernel, starts the drivers and enables interrupts.  From then on the first thread waits in the loop of \<^verbatim>\<open>boot.S\<close>, and everything
  happens in interrupt handlers: the timer switches threads, the keyboard and the disk
  move bytes, a page fault maps a page, and a system call goes through a table of functions.  The
  kernel's own data are in linked lists whose nodes come from the byte allocator.

  \<^bold>\<open>How the code is modelled.\<close>
  \<^item> A function of the source is a HOL function of the same name on a record of the kernel's state.  Its result is \<open>Ok\<close>
    with the new state, \<open>Fault e\<close> where the code would do something undefined or the processor would raise an exception (a null pointer,
    an index out of bounds, a shift too large, an unmapped page), or \<open>None\<close> if it never returns (\<open>XyPrelude\<close>).
  \<^item> The state is one record that grows from component to component, each adding its static variables and the fields
    of its structures: \<open>lheap\<close>, \<open>dma\<close>, \<open>kheap\<close>, \<open>kbase\<close>, \<open>pgs\<close>, \<open>ints\<close>, \<open>ths\<close>, \<open>tms\<close>, \<open>kbs\<close>, \<open>ides\<close>.  A definition is
    polymorphic in the part of the record that its component does not know.
  \<^item> A member of a structure is a map from addresses to values.  Addresses are 32-bit words, and the address of a member is
    the address of the structure plus its offset, as in \<^verbatim>\<open>GET_STRUCT\<close>.  The members of type \<^verbatim>\<open>ListNode\<close> share the map \<open>nxt\<close>.  All
    members of a process control block are words of that map, because \<^verbatim>\<open>ProcManagerInit\<close> makes control blocks overlap.
  \<^item> With paging on, raw memory, page tables and stacks are reached through \<open>lin\<close>, which maps a virtual address as the kernel's page tables do
    and faults elsewhere.  The property \<open>paging_maps_kernel\<close> proves that the tables that \<^verbatim>\<open>PagingInit\<close> builds translate in this way.
    Where \<^verbatim>\<open>ThreadSwitch\<close> loads \<^verbatim>\<open>cr3\<close> for another process, its next accesses are checked by the processor's walk (\<open>translate\<close>) from the new value.
  \<^item> A loop is \<open>kwhile\<close> or, with a constant bound, \<open>for_up\<close>; recursive functions are \<open>partial_function\<close>s.  No model has fuel: that a function returns is part of
    the property, proved with a measure, and that it does not return is the value \<open>None\<close>.
  \<^item> Devices are parameters: \<open>dev\<close> gives the byte that a port returns as a function of all accesses so far, and each property names what it assumes of it: for instance
    that a controller takes or gives a byte after some number of reads of its status (\<open>ps2_accepts\<close>, \<open>ps2_gives\<close>), never that it is ready at once.
  \<^item> The interrupt controllers hold a line back from the moment its interrupt is taken until \<^verbatim>\<open>SendEoi\<close> writes the end of interrupt command (\<open>Pic\<close>).
    An interrupt is taken only through a present gate of the descriptor table; an absent one is a protection fault.
    Other parameters are the data of the boot loader, the addresses that the linker chooses (\<open>links\<close>), the size of the kernel image
    (\<open>K_END\<close>), and the values of memory that the code reads without having set it (\<open>junk\<close>).

  \<^bold>\<open>The theories.\<close>
  \<^item> \<open>XyPrelude\<close>: results, loops and their rules, heap access, facts on 32-bit words.
  \<^item> \<open>LinkedList\<close>, \<open>Queues\<close>, \<open>DoublyLists\<close>, \<open>Maps\<close>, \<open>Bits\<close>: \<^verbatim>\<open>src/kernel/lib\<close>.  \<open>LibProps\<close> has the properties: queues refine lists, and
    which keys a map finds.
  \<^item> \<open>Allocator\<close>, with \<open>AllocSize\<close>, \<open>AllocSpec\<close>, \<open>AllocInv\<close>, \<open>AllocInit\<close>, \<open>AllocReq\<close>, \<open>AllocRel\<close>, \<open>AllocFrame\<close> and \<open>AllocProps\<close>:
    \<^verbatim>\<open>memory/direct_mapping_allocator.c\<close>.  The invariant says that the lists are sorted and their blocks tile the arena; the initialisation
    establishes it and requests keep it.  A release keeps it where no buddy merges, and merging can corrupt a list.
  \<^item> \<open>Console\<close>, \<open>ConsoleProps\<close>: \<^verbatim>\<open>driver/console.c\<close>; the digits that are printed denote the number, and the cursor stays on the screen.
  \<^item> \<open>Machine\<close>, \<open>Segment\<close>: \<^verbatim>\<open>lib/asm_wrapper.c\<close>, \<^verbatim>\<open>memory/segment.c\<close>.
  \<^item> \<open>Paging\<close>, \<open>PageInit\<close>, \<open>PageTables\<close>, \<open>PagingProps\<close>, \<open>MemProps\<close>: \<^verbatim>\<open>memory/paging.c\<close> without the fault handler: the mapping that is built, and
    that pages are never handed out twice.
  \<^item> \<open>Interrupts\<close>, \<open>IntrProps\<close>, \<open>TrapProps\<close>: \<^verbatim>\<open>interrupt/idt.c\<close>, \<^verbatim>\<open>pic.c\<close>, \<^verbatim>\<open>interrupt.c\<close>: gates are well formed and agree with the handlers, and the controllers' masks refine a set of lines.
  \<^item> \<open>Pic\<close>: the two controllers as devices: masks, lines in service, and the effect of \<^verbatim>\<open>SendEoi\<close> on them.
  \<^item> \<open>Entry\<close>, \<open>EntryProps\<close>: \<^verbatim>\<open>interrupt/intr_entry.S\<close> and \<^verbatim>\<open>intr_vec.S\<close>: an interrupt of the kernel's code resumes it unchanged; none of ring 3 gets in.
  \<^item> \<open>Threads\<close>, \<open>Sched\<close>, \<open>SchedProps\<close>, \<open>ThreadStart\<close>, \<open>ThreadProps\<close>, \<open>Registers\<close>: \<^verbatim>\<open>thread/thread.c\<close> and \<^verbatim>\<open>switch_reg.S\<close>: the scheduler refines the rotation of a list,
    and the registers of a thread survive a switch.
  \<^item> \<open>Process\<close>, \<open>ProcProps\<close>: \<^verbatim>\<open>process/process.c\<close> and the page fault handler of \<^verbatim>\<open>memory/paging.c\<close>.
  \<^item> \<open>Timer\<close>, \<open>Polling\<close>, \<open>Keyboard\<close>, \<open>Ide\<close>, \<open>Syscall\<close>, \<open>DriverProps\<close>, \<open>IdeProps\<close>: \<^verbatim>\<open>driver/timer.c\<close>, \<^verbatim>\<open>keyboard.c\<close>, \<^verbatim>\<open>ide.c\<close>, \<^verbatim>\<open>syscall/syscall.c\<close> and \<^verbatim>\<open>file_system/fs.c\<close>:
    time slices, waiting for a device, the order of disk requests, and what the handlers get wrong.
  \<^item> \<open>Kernel\<close>, \<open>KernelProps\<close>, \<open>BootProps\<close>: the dispatch of interrupts, \<^verbatim>\<open>memory/memory_manager.c\<close>, \<^verbatim>\<open>driver/driver.c\<close> and \<^verbatim>\<open>init.c\<close>: the whole start returns and
    establishes the invariants of all components on a machine without a drive whose keyboard controller fails its self test; with a working controller and no keyboard it does not return.
  \<^item> \<open>DeviceBoot\<close>: the start with a disk and a keyboard that answer: the queue and the thread of the disk driver, the key map, and what each driver leaves alone.
  \<^item> \<open>Dispatch\<close>, \<open>Interleave\<close>: sequences of interrupts, through the controllers and the descriptor table, in a running kernel: the schedule depends on the timer interrupts alone,
    each interrupt is acknowledged before the next, and timer and keyboard do not disturb each other.
  \<^item> \<open>Start\<close>: \<^verbatim>\<open>boot/boot.S\<close>: the entry of the kernel, and its loop as a step relation whose reachable states are all of the running kernel.
  \<^item> \<open>Boot\<close> has the concrete states of the witnesses.

  \<^bold>\<open>Interfaces.\<close>  What a component promises to its clients is a locale, interpreted on the operations of the code: \<open>fifo\<close> (\<open>Queues\<close>) for
  the queues of the scheduler and the disk driver, \<open>bit_table\<close> (\<open>Bits\<close>) for the bitmaps of pages and of interrupt vectors, \<open>byte_allocator\<close> (\<open>AllocSpec\<close>)
  for every structure on the heap, \<open>page_source\<close> (\<open>PagingProps\<close>) for physical pages, and \<open>sliced\<close> (\<open>Timer\<close>) for what the timer alone, the
  dispatcher of all interrupts, and timer and keyboard together do to the schedule.

  \<^bold>\<open>Bounds.\<close>  The allocator has a pool of 131072 block descriptors, and a request splits at most once per order; \<open>alloc_ok n\<close>
  says that the descriptors suffice for \<open>n\<close> further requests, and 5200 is what a freshly initialised pool always allows.  The start of the
  kernel uses nine of them, and the drivers of disk and keyboard four more.  The properties of the start assume an image of at most 16 MB, so that the
  blocks it needs are there; the allocator alone allows 32 MB.  The keyboard's buffer has 1024 bytes, a time slice 15 ticks.

  \<^bold>\<open>Not modelled.\<close>
  \<^item> The linker script \<^verbatim>\<open>scripts/kernel.ld\<close>: where the image ends is the parameter \<open>K_END\<close>.
  \<^item> The types of \<^verbatim>\<open>file_system/fs.h\<close> and \<^verbatim>\<open>file.h\<close>, which no code uses; \<^verbatim>\<open>file.c\<close> has no code.  \<^verbatim>\<open>ljmp\<close> is declared and nowhere defined.
  \<^item> Of the multiboot structures and the task segment only the fields that the kernel uses.
  \<^item> An interrupt that arrives while a function of the kernel runs: interrupts are handled one after another, each as a whole.  The entry code disables interrupts, and so
    does the kernel until its start is complete; \<^verbatim>\<open>ThreadSwitch\<close> enables them as its last step.
  \<^item> The stack frame that the compiler gives \<^verbatim>\<open>ThreadSwitch\<close>: the stack pointer of the scheduler's model is the one at the call of \<^verbatim>\<open>SwitchReg\<close>, and
    a thread's registers on the stack of an interrupt (\<open>Entry\<close>) are its own, also while another thread runs.
  \<^item> The descriptor tables, the handlers and the variables of the drivers as bytes of memory: they are fields of the state.  A raw write of the code,
    such as a disk transfer to the address of a request, reaches only raw memory, whatever the address is.
  \<^item> The check of a selector against the limit of the descriptor table, which \<^verbatim>\<open>GdtInit\<close> sets from the address of a function; the property \<open>gdt_init_segments\<close> states the limit.
  \<^item> The digits that \<^verbatim>\<open>ExcHandler\<close> writes to its buffer in the kernel's image, and a disk buffer that crosses the end of a mapped area.
  \<^item> Time, caches and the translation look-aside buffer.
\<close>

end
